(* ===== verification/FAS_Prelude.thy ===== *)
theory FAS_Prelude
  imports Main "HOL-Library.Word" "HOL-Library.Sublist" "HOL-Library.Product_Lexorder"
begin

text \<open>
  Shared vocabulary of the development: the faults a C++ operation of the
  repository can end in, the result type that carries them, the arithmetic of
  the 64-bit \<open>size_t\<close>, bounded writes into a \<open>std::vector<char>\<close>,
  and \<open>std::search\<close>. The lemmas here are the simplification rules that the
  component theories share; they are collected in \<open>res_simps\<close> and
  \<open>size_simps\<close>.
\<close>

named_theorems res_simps \<open>computation rules of the result type\<close>
named_theorems size_simps \<open>64-bit sizes that do not wrap around\<close>


section \<open>Faults and results\<close>

text \<open>
  The build (\<open>src/SConstruct\<close>) never defines \<open>NDEBUG\<close>, so a failed
  \<open>assert\<close> ends the program. The other faults are a C++ exception thrown by
  the standard library or by boost and jsoncpp, or undefined behaviour the program would run into.
\<close>

datatype fault =
    AssertFailed
  | OutOfRange
  | LengthError
  | OutOfBounds
  | UseAfterFree
  | NullDeref
  | SignedOverflow
  | BadCast
  | JsonError

type_synonym 'a res = "fault + 'a"

definition bind_res :: "'a res \<Rightarrow> ('a \<Rightarrow> 'b res) \<Rightarrow> 'b res" where
  "bind_res m f = (case m of Inl e \<Rightarrow> Inl e | Inr x \<Rightarrow> f x)"

lemma bind_res_Inl [simp, res_simps]: "bind_res (Inl e) f = Inl e"
  by (simp add: bind_res_def)

lemma bind_res_Inr [simp, res_simps]: "bind_res (Inr x) f = f x"
  by (simp add: bind_res_def)

lemma bind_res_eq_Inr_iff [res_simps]:
  "bind_res m f = Inr y \<longleftrightarrow> (\<exists>x. m = Inr x \<and> f x = Inr y)"
  by (cases m) auto

lemma bind_res_eq_Inl_iff [res_simps]:
  "bind_res m f = Inl e \<longleftrightarrow> m = Inl e \<or> (\<exists>x. m = Inr x \<and> f x = Inl e)"
  by (cases m) auto

lemma bind_res_cong [fundef_cong]:
  assumes "m = m'" and "\<And>x. m' = Inr x \<Longrightarrow> f x = g x"
  shows "bind_res m f = bind_res m' g"
  using assms by (cases m') simp_all


section \<open>64-bit sizes\<close>

text \<open>
  \<open>size_t\<close> is a natural number below \<open>2 ^ 64\<close>; its sums and differences
  wrap around. A \<open>std::vector<char>\<close> holds at most \<open>2 ^ 63 - 1\<close>
  elements; \<open>resize\<close> beyond that throws \<open>std::length_error\<close>.
\<close>

definition sz_add :: "nat \<Rightarrow> nat \<Rightarrow> nat" where
  "sz_add a b = (a + b) mod 2 ^ 64"

definition sz_sub :: "nat \<Rightarrow> nat \<Rightarrow> nat" where
  "sz_sub a b = (if b \<le> a then a - b else a + 2 ^ 64 - b)"

definition vec_max :: nat where
  "vec_max = 2 ^ 63 - 1"

lemma sz_add_small [size_simps]: "a + b < 2 ^ 64 \<Longrightarrow> sz_add a b = a + b"
  by (simp add: sz_add_def)

lemma sz_sub_small [size_simps]: "b \<le> a \<Longrightarrow> sz_sub a b = a - b"
  by (simp add: sz_sub_def)

lemma sz_sub_wrap: "a < b \<Longrightarrow> sz_sub a b = a + 2 ^ 64 - b"
  by (simp add: sz_sub_def)

text \<open>\<open>size_t\<close> of a signed number, and \<open>int\<close> of a \<open>size_t\<close>.\<close>

definition size_of_int :: "int \<Rightarrow> nat" where
  "size_of_int n = nat (n mod 2 ^ 64)"

definition int_of_size :: "nat \<Rightarrow> int" where
  "int_of_size n = signed_take_bit 31 (int n)"

lemma size_of_int_small [size_simps]: "n < 2 ^ 64 \<Longrightarrow> size_of_int (int n) = n"
  by (simp add: size_of_int_def nat_mod_as_int)

lemma vec_max_less: "n \<le> vec_max \<Longrightarrow> n < 2 ^ 63"
  by (simp add: vec_max_def)


section \<open>Vectors of characters\<close>

text \<open>\<open>std::copy\<close> into a vector at an offset: outside the vector it is
  undefined behaviour.\<close>

definition vec_write :: "'a list \<Rightarrow> nat \<Rightarrow> 'a list \<Rightarrow> 'a list res" where
  "vec_write v i xs =
     (if i + length xs \<le> length v then Inr (take i v @ xs @ drop (i + length xs) v)
      else Inl OutOfBounds)"

definition vec_slice :: "'a list \<Rightarrow> nat \<Rightarrow> nat \<Rightarrow> 'a list" where
  "vec_slice v i j = take (j - i) (drop i v)"

text \<open>\<open>vector<char>::resize\<close> keeps the first elements and adds zero bytes.\<close>

definition vec_resize :: "char list \<Rightarrow> nat \<Rightarrow> char list res" where
  "vec_resize v n =
     (if n \<le> vec_max then Inr (take n v @ replicate (n - length v) (CHR 0x00))
      else Inl LengthError)"

lemma length_vec_write: "vec_write v i xs = Inr v' \<Longrightarrow> length v' = length v"
  by (auto simp: vec_write_def split: if_splits)

lemma vec_write_ok: "i + length xs \<le> length v \<Longrightarrow>
    vec_write v i xs = Inr (take i v @ xs @ drop (i + length xs) v)"
  by (simp add: vec_write_def)

lemma length_vec_slice [simp]: "length (vec_slice v i j) = min (length v - i) (j - i)"
  by (simp add: vec_slice_def)

lemma vec_slice_append_end:
  assumes "i \<le> j" and "j + length xs \<le> length v"
  shows "vec_slice (take j v @ xs @ drop (j + length xs) v) i (j + length xs) = vec_slice v i j @ xs"
proof -
  have "drop i (take j v @ xs @ drop (j + length xs) v)
      = drop i (take j v) @ xs @ drop (j + length xs) v"
    using assms by simp
  moreover have "length (drop i (take j v)) = j - i" using assms by simp
  ultimately show ?thesis using assms by (simp add: vec_slice_def drop_take)
qed

lemma vec_slice_write_front:
  assumes "i + length xs \<le> length v"
  shows "vec_slice (take i v @ xs @ drop (i + length xs) v) i (i + length xs) = xs"
  using assms vec_slice_append_end [of i i xs v] by (simp add: vec_slice_def)

lemma vec_slice_drop: "vec_slice v (i + n) j = drop n (vec_slice v i j)"
  by (simp add: vec_slice_def drop_take add.commute diff_diff_left)

lemma vec_slice_take_append:
  "j \<le> length v \<Longrightarrow> vec_slice (v @ w) i j = vec_slice v i j"
  by (simp add: vec_slice_def)


section \<open>Searching\<close>

text \<open>
  \<open>std::search(first, last, pat)\<close> as an offset from \<open>first\<close>: the offset of
  the first occurrence of the pattern, the length of the range (the end
  iterator) if there is none.
\<close>

fun std_search :: "'a list \<Rightarrow> 'a list \<Rightarrow> nat" where
  "std_search [] pat = 0"
| "std_search (x # xs) pat = (if prefix pat (x # xs) then 0 else Suc (std_search xs pat))"

lemma std_search_le: "std_search xs pat \<le> length xs"
  by (induction xs) auto

lemma std_search_found:
  "std_search xs pat < length xs \<Longrightarrow> prefix pat (drop (std_search xs pat) xs)"
  by (induction xs) (auto split: if_splits)

lemma std_search_first:
  "i < std_search xs pat \<Longrightarrow> \<not> prefix pat (drop i xs)"
proof (induction xs arbitrary: i)
  case Nil
  then show ?case by simp
next
  case (Cons x xs)
  from Cons.prems have no: "\<not> prefix pat (x # xs)" by (simp split: if_splits)
  show ?case
  proof (cases i)
    case 0
    with no show ?thesis by simp
  next
    case (Suc k)
    with Cons.prems no have "k < std_search xs pat" by simp
    with Suc Cons.IH show ?thesis by simp
  qed
qed

lemma std_search_least: "prefix pat (drop i xs) \<Longrightarrow> i \<le> length xs \<Longrightarrow> std_search xs pat \<le> i"
  using std_search_first linorder_le_less_linear by blast

lemma std_search_eqI:
  assumes "i < length xs" and "prefix pat (drop i xs)"
    and "\<And>j. j < i \<Longrightarrow> \<not> prefix pat (drop j xs)"
  shows "std_search xs pat = i"
proof (rule antisym)
  show "std_search xs pat \<le> i"
    using assms(1,2) by (simp add: std_search_least)
  then have "std_search xs pat < length xs" using assms(1) by simp
  then have "prefix pat (drop (std_search xs pat) xs)" by (rule std_search_found)
  then show "i \<le> std_search xs pat" using assms(3) linorder_le_less_linear by blast
qed

lemma std_search_end_iff:
  "pat \<noteq> [] \<Longrightarrow> std_search xs pat = length xs \<longleftrightarrow> \<not> sublist pat xs"
proof (induction xs)
  case Nil
  then show ?case by simp
next
  case (Cons x xs)
  then show ?case by (auto simp: sublist_Cons_right)
qed


lemma no_sublist_take:
  assumes "\<And>j. j < n \<Longrightarrow> \<not> prefix pat (drop j xs)" and "pat \<noteq> []"
  shows "\<not> sublist pat (take n xs)"
proof
  assume "sublist pat (take n xs)"
  then obtain us vs where s: "take n xs = us @ pat @ vs" by (auto simp: sublist_def)
  have "length us < n"
    using arg_cong [OF s, of length] assms(2) by (cases "n \<le> length xs") auto
  moreover have "prefix pat (drop (length us) xs)"
  proof -
    have "drop (length us) xs = drop (length us) (take n xs @ drop n xs)" by simp
    also have "\<dots> = pat @ vs @ drop n xs" unfolding s by simp
    finally show ?thesis by simp
  qed
  ultimately show False using assms(1) by blast
qed

end
