(* ===== verification/Byte_Order.thy ===== *)
theory Byte_Order
  imports FAS_Prelude
begin

text \<open>
  \<open>src/base/Endian.h\<close>: conversions between the host's byte order and the
  network's (big-endian) order. The host's order is a parameter; a fixed-width
  integer is a \<open>word\<close>, and its image in memory is the list of its bytes in
  the host's order. The lemmas show that on either kind of host the converted
  value lies in memory most significant byte first.
\<close>

datatype host = LittleEndian | BigEndian

text \<open>The bytes of a value, least significant first.\<close>

definition le_bytes :: "nat \<Rightarrow> 'a::len word \<Rightarrow> char list" where
  "le_bytes n w = map (\<lambda>i. char_of (unat w div 256 ^ i)) [0..<n]"

definition le_value :: "char list \<Rightarrow> nat" where
  "le_value cs = horner_sum of_char 256 cs"

text \<open>The \<open>sizeof x\<close> bytes at \<open>&x\<close>, and the value they are read back as.\<close>

definition mem_image :: "host \<Rightarrow> nat \<Rightarrow> 'a::len word \<Rightarrow> char list" where
  "mem_image h n w = (case h of LittleEndian \<Rightarrow> le_bytes n w | BigEndian \<Rightarrow> rev (le_bytes n w))"

definition mem_value :: "host \<Rightarrow> char list \<Rightarrow> 'a::len word" where
  "mem_value h cs = word_of_nat (le_value (case h of LittleEndian \<Rightarrow> cs | BigEndian \<Rightarrow> rev cs))"

text \<open>\<open>htobe16/32/64\<close> and \<open>be16/32/64toh\<close>: a byte swap on a little-endian host,
  the identity on a big-endian one.\<close>

definition byte_swap :: "nat \<Rightarrow> 'a::len word \<Rightarrow> 'a word" where
  "byte_swap n w = word_of_nat (le_value (rev (le_bytes n w)))"

definition host_swap :: "host \<Rightarrow> nat \<Rightarrow> 'a::len word \<Rightarrow> 'a word" where
  "host_swap h n w = (case h of LittleEndian \<Rightarrow> byte_swap n w | BigEndian \<Rightarrow> w)"

definition hostToNetwork64 :: "host \<Rightarrow> 64 word \<Rightarrow> 64 word" where
  "hostToNetwork64 h host64 = host_swap h 8 host64"

definition hostToNetwork32 :: "host \<Rightarrow> 32 word \<Rightarrow> 32 word" where
  "hostToNetwork32 h host32 = host_swap h 4 host32"

definition hostToNetwork16 :: "host \<Rightarrow> 16 word \<Rightarrow> 16 word" where
  "hostToNetwork16 h host16 = host_swap h 2 host16"

definition networkToHost64 :: "host \<Rightarrow> 64 word \<Rightarrow> 64 word" where
  "networkToHost64 h net64 = host_swap h 8 net64"

definition networkToHost32 :: "host \<Rightarrow> 32 word \<Rightarrow> 32 word" where
  "networkToHost32 h net32 = host_swap h 4 net32"

definition networkToHost16 :: "host \<Rightarrow> 16 word \<Rightarrow> 16 word" where
  "networkToHost16 h net16 = host_swap h 2 net16"

lemmas byte_order_defs =
  hostToNetwork64_def hostToNetwork32_def hostToNetwork16_def
  networkToHost64_def networkToHost32_def networkToHost16_def


section \<open>Bytes and values\<close>

lemma length_le_bytes [simp]: "length (le_bytes n w) = n"
  by (simp add: le_bytes_def)

lemma length_mem_image [simp]: "length (mem_image h n w) = n"
  by (cases h) (simp_all add: mem_image_def)

lemma le_value_Nil [simp]: "le_value [] = 0"
  by (simp add: le_value_def)

lemma le_value_Cons [simp]: "le_value (c # cs) = of_char c + 256 * le_value cs"
  by (simp add: le_value_def)

lemma le_value_digits: "le_value (map (\<lambda>i. char_of (m div 256 ^ i)) [0..<n]) = m mod 256 ^ n"
proof (induction n arbitrary: m)
  case 0
  then show ?case by simp
next
  case (Suc n)
  have "map (\<lambda>i. char_of (m div 256 ^ i)) [0..<Suc n]
      = char_of m # map (\<lambda>i. char_of ((m div 256) div 256 ^ i)) [0..<n]"
    by (simp add: upt_conv_Cons map_Suc_upt [symmetric] div_mult2_eq del: upt_Suc)
  then show ?case
    by (simp add: Suc.IH mod_mult2_eq)
qed

lemma digits_le_value:
  "map (\<lambda>i. char_of (le_value cs div 256 ^ i)) [0..<length cs] = cs"
proof (induction cs)
  case Nil
  then show ?case by simp
next
  case (Cons c cs)
  let ?m = "of_char c + 256 * le_value cs"
  have c: "(of_char c :: nat) < 256" by simp
  have "map (\<lambda>i. char_of (?m div 256 ^ i)) [0..<Suc (length cs)]
      = char_of ?m # map (\<lambda>i. char_of ((?m div 256) div 256 ^ i)) [0..<length cs]"
    by (simp add: upt_conv_Cons map_Suc_upt [symmetric] div_mult2_eq del: upt_Suc)
  moreover have "?m div 256 = le_value cs" using c by simp
  moreover have "char_of ?m = c"
  proof -
    have "char_of ?m = (char_of (?m mod 256) :: char)" by (rule char_of_mod_256 [symmetric])
    also have "?m mod 256 = of_char c" using c by simp
    finally show ?thesis by simp
  qed
  ultimately show ?case by (simp add: Cons.IH)
qed

lemma le_value_bound: "le_value cs < 256 ^ length cs"
proof -
  have "le_value cs = le_value cs mod 256 ^ length cs"
    using le_value_digits [of "le_value cs" "length cs"] by (simp add: digits_le_value)
  then show ?thesis by (metis mod_less_divisor zero_less_numeral zero_less_power)
qed

text \<open>A width of \<open>n\<close> bytes is \<open>8 * n\<close> bits.\<close>

lemma word_of_le_bytes:
  assumes "LENGTH('a::len) = 8 * n"
  shows "(word_of_nat (le_value (le_bytes n w)) :: 'a word) = (w :: 'a word)"
proof -
  have "(256 :: nat) ^ n = 2 ^ LENGTH('a)" by (simp add: assms power_mult)
  moreover have "le_value (le_bytes n w) = unat w mod 256 ^ n"
    by (simp add: le_bytes_def le_value_digits)
  ultimately have "le_value (le_bytes n w) = unat w" by simp
  then show ?thesis by simp
qed

lemma le_bytes_of_word:
  assumes "LENGTH('a::len) = 8 * n" and "length cs = n"
  shows "le_bytes n (word_of_nat (le_value cs) :: 'a word) = cs"
proof -
  have "le_value cs < 2 ^ LENGTH('a)"
    using le_value_bound [of cs] assms by (simp add: power_mult)
  then have "unat (word_of_nat (le_value cs) :: 'a word) = le_value cs"
    by (simp add: unat_of_nat take_bit_nat_eq_self)
  then show ?thesis
    using digits_le_value [of cs] assms(2) by (simp add: le_bytes_def)
qed


section \<open>Network order is most significant byte first on every host\<close>

lemma mem_image_host_swap:
  assumes "LENGTH('a::len) = 8 * n"
  shows "mem_image h n (host_swap h n (w :: 'a word)) = rev (le_bytes n w)"
  using assms
  by (cases h) (simp_all add: mem_image_def host_swap_def byte_swap_def le_bytes_of_word)

lemma host_swap_mem_value:
  assumes "LENGTH('a::len) = 8 * n" and "length cs = n"
  shows "host_swap h n (mem_value h cs :: 'a word) = word_of_nat (le_value (rev cs))"
  using assms
  by (cases h) (simp_all add: mem_value_def host_swap_def byte_swap_def le_bytes_of_word)

lemma host_swap_mem_image:
  assumes "LENGTH('a::len) = 8 * n"
  shows "host_swap h n (mem_value h (mem_image h n (host_swap h n w)) :: 'a word) = w"
  using assms by (simp add: mem_image_host_swap host_swap_mem_value word_of_le_bytes)

lemma host_swap_involution:
  assumes "LENGTH('a::len) = 8 * n"
  shows "host_swap h n (host_swap h n (w :: 'a word)) = w"
  using assms
  by (cases h) (simp_all add: host_swap_def byte_swap_def le_bytes_of_word word_of_le_bytes)

end
