(* ===== verification/Buffer.thy ===== *)
theory Buffer
  imports FAS_Prelude Byte_Order
begin

text \<open>
  \<open>src/base/Buffer.h\<close> and \<open>src/base/Buffer.cpp\<close>: the byte buffer of a
  connection. The vector \<open>buffer_\<close> and the two indices are the fields of
  a record; a \<open>const char*\<close> into the buffer is the offset from \<open>begin()\<close>.
  Every \<open>assert\<close> of the source is a branch to \<open>AssertFailed\<close>, a vector
  that would outgrow \<open>max_size\<close> is \<open>LengthError\<close>, and a copy past the end of
  the vector is \<open>OutOfBounds\<close>. The theory proves the class invariant
  \<open>readerIndex \<le> writerIndex \<le> size\<close>, the effect of each operation on the
  readable bytes, the round trips of the integer operations, and (in the locale
  \<open>byte_queue\<close>) that any interleaving of writes and reads is first in first out.
\<close>

section \<open>State\<close>

record buffer =
  initialSize :: nat
  storage :: "char list"
  readerIndex :: nat
  writerIndex :: nat

definition kCheapPrepend :: nat where
  "kCheapPrepend = 8"

definition kCRLF :: "char list" where
  "kCRLF = [CHR 0x0D, CHR 0x0A]"

section \<open>Operations\<close>

definition Buffer_readableBytes :: "buffer \<Rightarrow> nat" where
  "Buffer_readableBytes b = sz_sub (writerIndex b) (readerIndex b)"

definition Buffer_writableBytes :: "buffer \<Rightarrow> nat" where
  "Buffer_writableBytes b = sz_sub (length (storage b)) (writerIndex b)"

definition Buffer_prependableBytes :: "buffer \<Rightarrow> nat" where
  "Buffer_prependableBytes b = readerIndex b"

definition Buffer_new :: "nat \<Rightarrow> buffer res" where
  "Buffer_new n =
     bind_res (vec_resize [] (sz_add kCheapPrepend n)) (\<lambda>v.
     let b = \<lparr>initialSize = n, storage = v, readerIndex = kCheapPrepend, writerIndex = kCheapPrepend\<rparr> in
     if Buffer_readableBytes b \<noteq> 0 then Inl AssertFailed
     else if Buffer_writableBytes b \<noteq> initialSize b then Inl AssertFailed
     else if Buffer_prependableBytes b \<noteq> kCheapPrepend then Inl AssertFailed
     else Inr b)"

definition Buffer_swap :: "buffer \<Rightarrow> buffer \<Rightarrow> buffer \<times> buffer" where
  "Buffer_swap b rhs =
     (b\<lparr>storage := storage rhs, readerIndex := readerIndex rhs, writerIndex := writerIndex rhs\<rparr>,
      rhs\<lparr>storage := storage b, readerIndex := readerIndex b, writerIndex := writerIndex b\<rparr>)"

definition Buffer_peek :: "buffer \<Rightarrow> nat" where
  "Buffer_peek b = readerIndex b"

definition Buffer_beginWrite :: "buffer \<Rightarrow> nat" where
  "Buffer_beginWrite b = writerIndex b"

text \<open>The bytes between two pointers into the buffer, and the readable bytes.\<close>

definition Buffer_range :: "buffer \<Rightarrow> nat \<Rightarrow> nat \<Rightarrow> char list" where
  "Buffer_range b i j = vec_slice (storage b) i j"

definition Buffer_content :: "buffer \<Rightarrow> char list" where
  "Buffer_content b = Buffer_range b (Buffer_peek b) (Buffer_beginWrite b)"

definition Buffer_findCRLF :: "buffer \<Rightarrow> nat option" where
  "Buffer_findCRLF b =
     (let crlf = Buffer_peek b + std_search (Buffer_content b) kCRLF
      in if crlf = Buffer_beginWrite b then None else Some crlf)"

definition Buffer_findCRLF_from :: "buffer \<Rightarrow> nat \<Rightarrow> nat option res" where
  "Buffer_findCRLF_from b start =
     (if \<not> Buffer_peek b \<le> start then Inl AssertFailed
      else if \<not> start \<le> Buffer_beginWrite b then Inl AssertFailed
      else let crlf = start + std_search (Buffer_range b start (Buffer_beginWrite b)) kCRLF
           in Inr (if crlf = Buffer_beginWrite b then None else Some crlf))"

definition Buffer_findChars :: "buffer \<Rightarrow> char list \<Rightarrow> nat option" where
  "Buffer_findChars b chars =
     (let pos = Buffer_peek b + std_search (Buffer_content b) chars
      in if pos = Buffer_beginWrite b then None else Some pos)"

definition Buffer_retrieveAll :: "buffer \<Rightarrow> buffer" where
  "Buffer_retrieveAll b = b\<lparr>readerIndex := kCheapPrepend, writerIndex := kCheapPrepend\<rparr>"

definition Buffer_retrieve :: "buffer \<Rightarrow> nat \<Rightarrow> buffer res" where
  "Buffer_retrieve b len =
     (if \<not> len \<le> Buffer_readableBytes b then Inl AssertFailed
      else if len < Buffer_readableBytes b then Inr (b\<lparr>readerIndex := sz_add (readerIndex b) len\<rparr>)
      else Inr (Buffer_retrieveAll b))"

definition Buffer_retrieveUntil :: "buffer \<Rightarrow> nat \<Rightarrow> buffer res" where
  "Buffer_retrieveUntil b endp =
     (if \<not> Buffer_peek b \<le> endp then Inl AssertFailed
      else if \<not> endp \<le> Buffer_beginWrite b then Inl AssertFailed
      else Buffer_retrieve b (endp - Buffer_peek b))"

definition Buffer_retrieveInt32 :: "buffer \<Rightarrow> buffer res" where
  "Buffer_retrieveInt32 b = Buffer_retrieve b 4"

definition Buffer_retrieveInt16 :: "buffer \<Rightarrow> buffer res" where
  "Buffer_retrieveInt16 b = Buffer_retrieve b 2"

definition Buffer_retrieveInt8 :: "buffer \<Rightarrow> buffer res" where
  "Buffer_retrieveInt8 b = Buffer_retrieve b 1"

definition Buffer_retrieveAsString :: "buffer \<Rightarrow> nat \<Rightarrow> (char list \<times> buffer) res" where
  "Buffer_retrieveAsString b len =
     (if \<not> len \<le> Buffer_readableBytes b then Inl AssertFailed
      else let result = Buffer_range b (Buffer_peek b) (Buffer_peek b + len)
           in bind_res (Buffer_retrieve b len) (\<lambda>b'. Inr (result, b')))"

definition Buffer_retrieveAllAsString :: "buffer \<Rightarrow> (char list \<times> buffer) res" where
  "Buffer_retrieveAllAsString b = Buffer_retrieveAsString b (Buffer_readableBytes b)"

definition Buffer_makeSpace :: "buffer \<Rightarrow> nat \<Rightarrow> buffer res" where
  "Buffer_makeSpace b len =
     (if sz_add (Buffer_writableBytes b) (Buffer_prependableBytes b) < sz_add len kCheapPrepend
      then bind_res (vec_resize (storage b) (sz_add (writerIndex b) len)) (\<lambda>v. Inr (b\<lparr>storage := v\<rparr>))
      else if \<not> kCheapPrepend < readerIndex b then Inl AssertFailed
      else let readable = Buffer_readableBytes b
           in bind_res (vec_write (storage b) kCheapPrepend (Buffer_content b)) (\<lambda>v.
              let b' = b\<lparr>storage := v, readerIndex := kCheapPrepend,
                         writerIndex := sz_add kCheapPrepend readable\<rparr>
              in if readable \<noteq> Buffer_readableBytes b' then Inl AssertFailed else Inr b'))"

definition Buffer_ensureWritableBytes :: "buffer \<Rightarrow> nat \<Rightarrow> buffer res" where
  "Buffer_ensureWritableBytes b len =
     bind_res (if Buffer_writableBytes b < len then Buffer_makeSpace b len else Inr b) (\<lambda>b'.
     if \<not> len \<le> Buffer_writableBytes b' then Inl AssertFailed else Inr b')"

definition Buffer_hasWritten :: "buffer \<Rightarrow> nat \<Rightarrow> buffer" where
  "Buffer_hasWritten b len = b\<lparr>writerIndex := sz_add (writerIndex b) len\<rparr>"

definition Buffer_append :: "buffer \<Rightarrow> char list \<Rightarrow> buffer res" where
  "Buffer_append b data =
     bind_res (Buffer_ensureWritableBytes b (length data)) (\<lambda>b'.
     bind_res (vec_write (storage b') (Buffer_beginWrite b') data) (\<lambda>v.
     Inr (Buffer_hasWritten (b'\<lparr>storage := v\<rparr>) (length data))))"

definition Buffer_prepend :: "buffer \<Rightarrow> char list \<Rightarrow> buffer res" where
  "Buffer_prepend b data =
     (if \<not> length data \<le> Buffer_prependableBytes b then Inl AssertFailed
      else let r = sz_sub (readerIndex b) (length data)
           in bind_res (vec_write (storage b) r data) (\<lambda>v.
              Inr (b\<lparr>storage := v, readerIndex := r\<rparr>)))"

subsection \<open>Integers in network order\<close>

definition Buffer_appendInt32 :: "host \<Rightarrow> buffer \<Rightarrow> 32 word \<Rightarrow> buffer res" where
  "Buffer_appendInt32 h b x = Buffer_append b (mem_image h 4 (hostToNetwork32 h x))"

definition Buffer_appendInt16 :: "host \<Rightarrow> buffer \<Rightarrow> 16 word \<Rightarrow> buffer res" where
  "Buffer_appendInt16 h b x = Buffer_append b (mem_image h 2 (hostToNetwork16 h x))"

definition Buffer_appendInt8 :: "host \<Rightarrow> buffer \<Rightarrow> 8 word \<Rightarrow> buffer res" where
  "Buffer_appendInt8 h b x = Buffer_append b (mem_image h 1 x)"

definition Buffer_peekInt32 :: "host \<Rightarrow> buffer \<Rightarrow> 32 word res" where
  "Buffer_peekInt32 h b =
     (if \<not> 4 \<le> Buffer_readableBytes b then Inl AssertFailed
      else Inr (networkToHost32 h (mem_value h (Buffer_range b (Buffer_peek b) (Buffer_peek b + 4)))))"

definition Buffer_peekInt16 :: "host \<Rightarrow> buffer \<Rightarrow> 16 word res" where
  "Buffer_peekInt16 h b =
     (if \<not> 2 \<le> Buffer_readableBytes b then Inl AssertFailed
      else Inr (networkToHost16 h (mem_value h (Buffer_range b (Buffer_peek b) (Buffer_peek b + 2)))))"

definition Buffer_peekInt8 :: "host \<Rightarrow> buffer \<Rightarrow> 8 word res" where
  "Buffer_peekInt8 h b =
     (if \<not> 1 \<le> Buffer_readableBytes b then Inl AssertFailed
      else Inr (mem_value h (Buffer_range b (Buffer_peek b) (Buffer_peek b + 1))))"

definition Buffer_readInt32 :: "host \<Rightarrow> buffer \<Rightarrow> (32 word \<times> buffer) res" where
  "Buffer_readInt32 h b =
     bind_res (Buffer_peekInt32 h b) (\<lambda>result.
     bind_res (Buffer_retrieveInt32 b) (\<lambda>b'. Inr (result, b')))"

definition Buffer_readInt16 :: "host \<Rightarrow> buffer \<Rightarrow> (16 word \<times> buffer) res" where
  "Buffer_readInt16 h b =
     bind_res (Buffer_peekInt16 h b) (\<lambda>result.
     bind_res (Buffer_retrieveInt16 b) (\<lambda>b'. Inr (result, b')))"

definition Buffer_readInt8 :: "host \<Rightarrow> buffer \<Rightarrow> (8 word \<times> buffer) res" where
  "Buffer_readInt8 h b =
     bind_res (Buffer_peekInt8 h b) (\<lambda>result.
     bind_res (Buffer_retrieveInt8 b) (\<lambda>b'. Inr (result, b')))"

definition Buffer_prependInt32 :: "host \<Rightarrow> buffer \<Rightarrow> 32 word \<Rightarrow> buffer res" where
  "Buffer_prependInt32 h b x = Buffer_prepend b (mem_image h 4 (hostToNetwork32 h x))"

definition Buffer_prependInt16 :: "host \<Rightarrow> buffer \<Rightarrow> 16 word \<Rightarrow> buffer res" where
  "Buffer_prependInt16 h b x = Buffer_prepend b (mem_image h 2 (hostToNetwork16 h x))"

definition Buffer_prependInt8 :: "host \<Rightarrow> buffer \<Rightarrow> 8 word \<Rightarrow> buffer res" where
  "Buffer_prependInt8 h b x = Buffer_prepend b (mem_image h 1 x)"

subsection \<open>Reading a descriptor\<close>

text \<open>
  \<open>readv\<close> is the kernel's: its outcome is an argument, the error number or the
  bytes it delivered. It fills the writable part of the buffer before it touches
  \<open>extrabuf\<close>, and it delivers no more than both hold. The result pairs the
  value of \<open>readFd\<close> with the error number stored in \<open>*savedErrno\<close>.
\<close>

datatype io_result = IoError int | IoBytes "char list"

definition extrabuf_size :: nat where
  "extrabuf_size = 65536"

definition readv_fits :: "buffer \<Rightarrow> io_result \<Rightarrow> bool" where
  "readv_fits b r =
     (case r of IoError e \<Rightarrow> True
      | IoBytes data \<Rightarrow> length data \<le> Buffer_writableBytes b + extrabuf_size)"

definition Buffer_readFd :: "buffer \<Rightarrow> io_result \<Rightarrow> (int \<times> int option \<times> buffer) res" where
  "Buffer_readFd b r =
     (case r of
        IoError e \<Rightarrow> Inr (-1, Some e, b)
      | IoBytes data \<Rightarrow>
          let writable = Buffer_writableBytes b; n = length data in
          bind_res (vec_write (storage b) (writerIndex b) (take writable data)) (\<lambda>v.
          if n \<le> writable
          then Inr (int n, None, b\<lparr>storage := v, writerIndex := sz_add (writerIndex b) n\<rparr>)
          else bind_res (Buffer_append (b\<lparr>storage := v, writerIndex := length v\<rparr>) (drop writable data)) (\<lambda>b'.
               Inr (int n, None, b'))))"


section \<open>The class invariant and the readable bytes\<close>

definition Buffer_inv :: "buffer \<Rightarrow> bool" where
  "Buffer_inv b \<longleftrightarrow>
     readerIndex b \<le> writerIndex b \<and> writerIndex b \<le> length (storage b) \<and>
     kCheapPrepend \<le> length (storage b) \<and> length (storage b) \<le> vec_max"

named_theorems buffer_simps \<open>sizes and contents of buffers\<close>

lemmas buffer_access_defs =
  Buffer_readableBytes_def Buffer_writableBytes_def Buffer_prependableBytes_def
  Buffer_peek_def Buffer_beginWrite_def Buffer_range_def

lemma Buffer_invD:
  assumes "Buffer_inv b"
  shows "readerIndex b \<le> writerIndex b" "writerIndex b \<le> length (storage b)"
    "8 \<le> length (storage b)" "length (storage b) < 2 ^ 63"
  using assms vec_max_less [of "length (storage b)"]
  by (simp_all add: Buffer_inv_def kCheapPrepend_def)

lemma Buffer_inv_storageD:
  "Buffer_inv b \<Longrightarrow> length (storage b) \<le> vec_max" "Buffer_inv b \<Longrightarrow> kCheapPrepend \<le> length (storage b)"
  by (simp_all add: Buffer_inv_def)

lemma Buffer_content_alt: "Buffer_content b = vec_slice (storage b) (readerIndex b) (writerIndex b)"
  by (simp add: Buffer_content_def buffer_access_defs)

lemma Buffer_length_content [buffer_simps]:
  "Buffer_inv b \<Longrightarrow> length (Buffer_content b) = writerIndex b - readerIndex b"
  by (auto simp: Buffer_inv_def Buffer_content_alt)

lemma Buffer_readable_eq [buffer_simps]:
  "Buffer_inv b \<Longrightarrow> Buffer_readableBytes b = length (Buffer_content b)"
  by (simp add: Buffer_length_content Buffer_readableBytes_def Buffer_inv_def size_simps)

lemma Buffer_writable_eq [buffer_simps]:
  "Buffer_inv b \<Longrightarrow> Buffer_writableBytes b = length (storage b) - writerIndex b"
  by (simp add: Buffer_writableBytes_def Buffer_inv_def size_simps)

lemma Buffer_writer_eq:
  "Buffer_inv b \<Longrightarrow> writerIndex b = readerIndex b + length (Buffer_content b)"
  by (simp add: Buffer_length_content Buffer_invD(1))

lemma Buffer_range_content:
  assumes "Buffer_inv b" and "n \<le> length (Buffer_content b)"
  shows "Buffer_range b (readerIndex b) (readerIndex b + n) = take n (Buffer_content b)"
  using assms by (simp add: Buffer_range_def Buffer_content_alt vec_slice_def Buffer_length_content)

subsection \<open>Construction and swap\<close>

lemma Buffer_new_ok:
  assumes "n + kCheapPrepend \<le> vec_max"
  shows "\<exists>b. Buffer_new n = Inr b \<and> Buffer_inv b \<and> Buffer_content b = [] \<and>
     initialSize b = n \<and> Buffer_writableBytes b = n"
proof -
  have small: "kCheapPrepend + n < 2 ^ 63" using assms vec_max_less by (simp add: add.commute)
  then have "sz_add kCheapPrepend n = kCheapPrepend + n" by (simp add: size_simps)
  then show ?thesis using assms
    by (simp add: Buffer_new_def vec_resize_def Buffer_inv_def Buffer_content_alt vec_slice_def
        Buffer_readableBytes_def Buffer_writableBytes_def Buffer_prependableBytes_def size_simps
        add.commute)
qed

lemma Buffer_swap_content:
  assumes "Buffer_swap b c = (b', c')"
  shows "Buffer_content b' = Buffer_content c" and "Buffer_content c' = Buffer_content b"
    and "Buffer_inv b' = Buffer_inv c" and "Buffer_inv c' = Buffer_inv b"
  using assms by (auto simp: Buffer_swap_def Buffer_content_alt Buffer_inv_def)

subsection \<open>Retrieving\<close>

lemma Buffer_retrieveAll_ok [buffer_simps]:
  assumes "Buffer_inv b"
  shows "Buffer_inv (Buffer_retrieveAll b)" and "Buffer_content (Buffer_retrieveAll b) = []"
  using assms by (simp_all add: Buffer_retrieveAll_def Buffer_inv_def Buffer_content_alt vec_slice_def)

lemma Buffer_retrieve_ok:
  assumes "Buffer_inv b" and "n \<le> length (Buffer_content b)"
  shows "\<exists>b'. Buffer_retrieve b n = Inr b' \<and> Buffer_inv b' \<and>
     Buffer_content b' = drop n (Buffer_content b) \<and> storage b' = storage b"
proof (cases "n < length (Buffer_content b)")
  case True
  have w: "sz_add (readerIndex b) n = readerIndex b + n"
    using assms Buffer_invD [OF assms(1)]
    by (intro sz_add_small) (simp add: Buffer_length_content)
  have "Buffer_content (b\<lparr>readerIndex := readerIndex b + n\<rparr>) = drop n (Buffer_content b)"
    by (simp add: Buffer_content_alt vec_slice_drop)
  with True w assms show ?thesis
    by (simp add: Buffer_retrieve_def buffer_simps) (simp add: Buffer_inv_def)
next
  case False
  with assms show ?thesis
    by (simp add: Buffer_retrieve_def buffer_simps) (simp add: Buffer_retrieveAll_def)
qed

lemma Buffer_retrieve_too_much:
  "Buffer_inv b \<Longrightarrow> length (Buffer_content b) < n \<Longrightarrow> Buffer_retrieve b n = Inl AssertFailed"
  by (simp add: Buffer_retrieve_def buffer_simps)

lemma Buffer_retrieveD:
  assumes "Buffer_inv b" and "Buffer_retrieve b n = Inr b'"
  shows "n \<le> length (Buffer_content b)" "Buffer_inv b'"
    "Buffer_content b' = drop n (Buffer_content b)" "storage b' = storage b"
proof -
  show n: "n \<le> length (Buffer_content b)"
    using assms Buffer_retrieve_too_much linorder_not_le by (metis Inl_Inr_False)
  from Buffer_retrieve_ok [OF assms(1) n] assms(2)
  show "Buffer_inv b'" "Buffer_content b' = drop n (Buffer_content b)" "storage b' = storage b"
    by auto
qed

lemma Buffer_retrieveUntil_ok:
  assumes "Buffer_inv b" and "readerIndex b \<le> p" and "p \<le> writerIndex b"
  shows "\<exists>b'. Buffer_retrieveUntil b p = Inr b' \<and> Buffer_inv b' \<and>
     Buffer_content b' = drop (p - readerIndex b) (Buffer_content b)"
  using Buffer_retrieve_ok [of b "p - readerIndex b"] assms
  by (simp add: Buffer_retrieveUntil_def Buffer_peek_def Buffer_beginWrite_def Buffer_length_content
      diff_le_mono) blast

lemma Buffer_retrieveAsString_ok:
  assumes "Buffer_inv b" and "n \<le> length (Buffer_content b)"
  shows "\<exists>b'. Buffer_retrieveAsString b n = Inr (take n (Buffer_content b), b') \<and> Buffer_inv b' \<and>
     Buffer_content b' = drop n (Buffer_content b) \<and> storage b' = storage b"
  using Buffer_retrieve_ok [OF assms] assms
  by (auto simp: Buffer_retrieveAsString_def buffer_simps Buffer_peek_def Buffer_range_content)

lemma Buffer_retrieveAsStringD:
  assumes "Buffer_inv b" and "Buffer_retrieveAsString b n = Inr (s, b')"
  shows "n \<le> length (Buffer_content b)" "Buffer_inv b'" "s = take n (Buffer_content b)"
    "Buffer_content b' = drop n (Buffer_content b)"
proof -
  show n: "n \<le> length (Buffer_content b)"
    using assms by (auto simp: Buffer_retrieveAsString_def buffer_simps split: if_splits)
  from Buffer_retrieveAsString_ok [OF assms(1) n] assms(2)
  show "Buffer_inv b'" "s = take n (Buffer_content b)"
    "Buffer_content b' = drop n (Buffer_content b)" by auto
qed


subsection \<open>Making space\<close>

lemma Buffer_grow:
  assumes "Buffer_inv b" and "length (storage b) \<le> n" and "n \<le> vec_max"
  shows "\<exists>v. vec_resize (storage b) n = Inr v \<and> length v = n \<and>
     Buffer_inv (b\<lparr>storage := v\<rparr>) \<and> Buffer_content (b\<lparr>storage := v\<rparr>) = Buffer_content b"
  using assms
  by (auto simp: vec_resize_def Buffer_inv_def Buffer_content_alt vec_slice_take_append)

lemma Buffer_compact:
  assumes inv: "Buffer_inv b" and front: "kCheapPrepend < readerIndex b"
  shows "\<exists>v. vec_write (storage b) kCheapPrepend (Buffer_content b) = Inr v \<and>
     length v = length (storage b) \<and>
     Buffer_inv (b\<lparr>storage := v, readerIndex := kCheapPrepend,
        writerIndex := kCheapPrepend + length (Buffer_content b)\<rparr>) \<and>
     Buffer_content (b\<lparr>storage := v, readerIndex := kCheapPrepend,
        writerIndex := kCheapPrepend + length (Buffer_content b)\<rparr>) = Buffer_content b"
proof -
  have fits: "kCheapPrepend + length (Buffer_content b) \<le> length (storage b)"
    using Buffer_invD [OF inv] front by (simp add: Buffer_length_content [OF inv])
  then show ?thesis
    using inv vec_slice_write_front [OF fits]
    by (simp add: vec_write_ok) (simp add: Buffer_inv_def Buffer_content_alt)
qed

text \<open>
  The result of asking for \<open>len\<close> writable bytes. The size guard of \<open>makeSpace\<close>
  makes its own assertions hold, so the only failure is a vector of more than
  \<open>max_size\<close> bytes; the vector grows only when the free bytes on both sides do
  not suffice.
\<close>

definition Buffer_room :: "buffer \<Rightarrow> nat \<Rightarrow> bool" where
  "Buffer_room b len \<longleftrightarrow>
     len \<le> length (storage b) - writerIndex b \<or>
     len + kCheapPrepend \<le> (length (storage b) - writerIndex b) + readerIndex b"

lemma Buffer_makeSpace_ok:
  assumes inv: "Buffer_inv b" and len: "len \<le> vec_max"
    and need: "length (storage b) - writerIndex b < len"
    and fits: "Buffer_room b len \<or> writerIndex b + len \<le> vec_max"
  shows "\<exists>b'. Buffer_makeSpace b len = Inr b' \<and> Buffer_inv b' \<and> Buffer_content b' = Buffer_content b \<and>
     writerIndex b' + len \<le> length (storage b') \<and>
     (Buffer_room b len \<longrightarrow> length (storage b') = length (storage b))"
proof -
  note D = Buffer_invD [OF inv]
  have len63: "len < 2 ^ 63" using len by (rule vec_max_less)
  let ?W = "length (storage b) - writerIndex b"
  have sums: "sz_add ?W (readerIndex b) = ?W + readerIndex b" "sz_add len kCheapPrepend = len + kCheapPrepend"
    "sz_add (writerIndex b) len = writerIndex b + len"
    by (rule sz_add_small; use D len63 in \<open>simp add: kCheapPrepend_def\<close>)+
  show ?thesis
  proof (cases "?W + readerIndex b < len + kCheapPrepend")
    case True
    then have "\<not> Buffer_room b len" using need by (simp add: Buffer_room_def)
    moreover have "length (storage b) \<le> writerIndex b + len" using need D by simp
    ultimately obtain v where
      "vec_resize (storage b) (writerIndex b + len) = Inr v" "length v = writerIndex b + len"
      "Buffer_inv (b\<lparr>storage := v\<rparr>)" "Buffer_content (b\<lparr>storage := v\<rparr>) = Buffer_content b"
      using Buffer_grow [OF inv] fits by blast
    with True \<open>\<not> Buffer_room b len\<close> show ?thesis
      by (simp add: Buffer_makeSpace_def Buffer_writable_eq [OF inv] Buffer_prependableBytes_def sums)
  next
    case False
    then have front: "kCheapPrepend < readerIndex b" using need by simp
    let ?n = "length (Buffer_content b)"
    obtain v where v: "vec_write (storage b) kCheapPrepend (Buffer_content b) = Inr v"
      "length v = length (storage b)"
      "Buffer_inv (b\<lparr>storage := v, readerIndex := kCheapPrepend, writerIndex := kCheapPrepend + ?n\<rparr>)"
      "Buffer_content (b\<lparr>storage := v, readerIndex := kCheapPrepend, writerIndex := kCheapPrepend + ?n\<rparr>)
         = Buffer_content b"
      using Buffer_compact [OF inv front] by blast
    have "sz_add kCheapPrepend ?n = kCheapPrepend + ?n"
      using D by (intro sz_add_small) (simp add: Buffer_length_content [OF inv] kCheapPrepend_def)
    moreover have "kCheapPrepend + ?n + len \<le> length (storage b)"
      using False D Buffer_writer_eq [OF inv] by linarith
    ultimately show ?thesis using False front v
      by (simp add: Buffer_makeSpace_def Buffer_writable_eq [OF inv] Buffer_prependableBytes_def sums
          Buffer_readable_eq [OF inv] Buffer_readable_eq [OF v(3)] Let_def)
  qed
qed

lemma Buffer_makeSpace_too_long:
  assumes inv: "Buffer_inv b" and len: "len \<le> vec_max"
    and need: "length (storage b) - writerIndex b < len"
    and over: "\<not> Buffer_room b len" "vec_max < writerIndex b + len"
  shows "Buffer_makeSpace b len = Inl LengthError"
proof -
  note D = Buffer_invD [OF inv]
  have len63: "len < 2 ^ 63" using len by (rule vec_max_less)
  have "sz_add (length (storage b) - writerIndex b) (readerIndex b)
      = (length (storage b) - writerIndex b) + readerIndex b" "sz_add len kCheapPrepend = len + kCheapPrepend"
    "sz_add (writerIndex b) len = writerIndex b + len"
    by (rule sz_add_small; use D len63 in \<open>simp add: kCheapPrepend_def\<close>)+
  with over show ?thesis
    by (simp add: Buffer_makeSpace_def Buffer_writable_eq [OF inv] Buffer_prependableBytes_def
        Buffer_room_def vec_resize_def)
qed

lemma Buffer_ensureWritableBytes_ok:
  assumes inv: "Buffer_inv b" and len: "len \<le> vec_max"
    and fits: "Buffer_room b len \<or> writerIndex b + len \<le> vec_max"
  shows "\<exists>b'. Buffer_ensureWritableBytes b len = Inr b' \<and> Buffer_inv b' \<and>
     Buffer_content b' = Buffer_content b \<and> writerIndex b' + len \<le> length (storage b') \<and>
     (Buffer_room b len \<longrightarrow> length (storage b') = length (storage b))"
proof (cases "length (storage b) - writerIndex b < len")
  case True
  from Buffer_makeSpace_ok [OF inv len True fits] obtain b' where
    b': "Buffer_makeSpace b len = Inr b'" "Buffer_inv b'" "Buffer_content b' = Buffer_content b"
      "writerIndex b' + len \<le> length (storage b')"
      "Buffer_room b len \<longrightarrow> length (storage b') = length (storage b)"
    by blast
  then show ?thesis using True
    by (simp add: Buffer_ensureWritableBytes_def Buffer_writable_eq [OF inv] Buffer_writable_eq [OF b'(2)])
next
  case False
  then show ?thesis using inv Buffer_invD [OF inv]
    by (simp add: Buffer_ensureWritableBytes_def Buffer_writable_eq [OF inv])
qed

subsection \<open>Writing\<close>

lemma Buffer_put:
  assumes inv: "Buffer_inv b" and fits: "writerIndex b + length data \<le> length (storage b)"
  shows "\<exists>v. vec_write (storage b) (writerIndex b) data = Inr v \<and> length v = length (storage b) \<and>
     Buffer_inv (b\<lparr>storage := v, writerIndex := writerIndex b + length data\<rparr>) \<and>
     Buffer_content (b\<lparr>storage := v, writerIndex := writerIndex b + length data\<rparr>)
       = Buffer_content b @ data"
  using assms by (simp add: vec_write_ok Buffer_inv_def Buffer_content_alt vec_slice_append_end)

lemma Buffer_append_ok:
  assumes inv: "Buffer_inv b" and len: "length data \<le> vec_max"
    and fits: "Buffer_room b (length data) \<or> writerIndex b + length data \<le> vec_max"
  shows "\<exists>b'. Buffer_append b data = Inr b' \<and> Buffer_inv b' \<and>
     Buffer_content b' = Buffer_content b @ data \<and>
     (Buffer_room b (length data) \<longrightarrow> length (storage b') = length (storage b))"
proof -
  from Buffer_ensureWritableBytes_ok [OF inv len fits] obtain c where
    c: "Buffer_ensureWritableBytes b (length data) = Inr c" "Buffer_inv c"
      "Buffer_content c = Buffer_content b" "writerIndex c + length data \<le> length (storage c)"
      "Buffer_room b (length data) \<longrightarrow> length (storage c) = length (storage b)"
    by blast
  from Buffer_put [OF c(2,4)] obtain v where
    v: "vec_write (storage c) (writerIndex c) data = Inr v" "length v = length (storage c)"
      "Buffer_inv (c\<lparr>storage := v, writerIndex := writerIndex c + length data\<rparr>)"
      "Buffer_content (c\<lparr>storage := v, writerIndex := writerIndex c + length data\<rparr>)
         = Buffer_content c @ data"
    by blast
  have "sz_add (writerIndex c) (length data) = writerIndex c + length data"
    using c(4) Buffer_invD [OF c(2)] by (intro sz_add_small) simp
  with c v show ?thesis
    by (simp add: Buffer_append_def Buffer_beginWrite_def Buffer_hasWritten_def)
qed

lemma Buffer_append_too_long:
  assumes "Buffer_inv b" and "length data \<le> vec_max"
    and "\<not> Buffer_room b (length data)" "vec_max < writerIndex b + length data"
  shows "Buffer_append b data = Inl LengthError"
  using assms Buffer_makeSpace_too_long [of b "length data"]
  by (simp add: Buffer_append_def Buffer_ensureWritableBytes_def Buffer_writable_eq Buffer_room_def)

lemma Buffer_appendD:
  assumes "Buffer_inv b" and "length data \<le> vec_max" and "Buffer_append b data = Inr b'"
  shows "Buffer_inv b'" "Buffer_content b' = Buffer_content b @ data"
    "Buffer_room b (length data) \<Longrightarrow> length (storage b') = length (storage b)"
proof -
  have "Buffer_room b (length data) \<or> writerIndex b + length data \<le> vec_max"
    using assms Buffer_append_too_long by (metis Inl_Inr_False linorder_not_le)
  from Buffer_append_ok [OF assms(1,2) this] assms(3)
  show "Buffer_inv b'" "Buffer_content b' = Buffer_content b @ data"
    "Buffer_room b (length data) \<Longrightarrow> length (storage b') = length (storage b)" by auto
qed

lemma Buffer_prepend_ok:
  assumes inv: "Buffer_inv b" and fits: "length data \<le> readerIndex b"
  shows "\<exists>b'. Buffer_prepend b data = Inr b' \<and> Buffer_inv b' \<and>
     Buffer_content b' = data @ Buffer_content b \<and> readerIndex b' = readerIndex b - length data \<and>
     writerIndex b' = writerIndex b"
proof -
  let ?r = "readerIndex b - length data"
  have r: "?r + length data = readerIndex b" using fits by simp
  have le: "readerIndex b \<le> length (storage b)" using Buffer_invD [OF inv] by simp
  let ?v = "take ?r (storage b) @ data @ drop (readerIndex b) (storage b)"
  have w: "vec_write (storage b) ?r data = Inr ?v"
    using le r by (simp add: vec_write_def)
  have "drop ?r ?v = data @ drop (readerIndex b) (storage b)" using le by simp
  then have "vec_slice ?v ?r (writerIndex b) = data @ vec_slice (storage b) (readerIndex b) (writerIndex b)"
    using r Buffer_invD(1) [OF inv] by (simp add: vec_slice_def)
  moreover have "length ?v = length (storage b)" using le r by simp
  ultimately show ?thesis using w fits inv
    by (simp add: Buffer_prepend_def Buffer_prependableBytes_def size_simps Buffer_content_alt Let_def)
      (auto simp: Buffer_inv_def)
qed

subsection \<open>Reading a descriptor\<close>

text \<open>The writable part is filled first; what is left over is appended.\<close>

lemma Buffer_readFd_parts:
  assumes inv: "Buffer_inv b"
  obtains c where "Buffer_inv c" "Buffer_content c = Buffer_content b @ take (length (storage b) - writerIndex b) data"
    "writerIndex c \<le> length (storage b)" "Buffer_writableBytes b = length (storage b) - writerIndex b"
    "Buffer_readFd b (IoBytes data) =
       (if length data \<le> length (storage b) - writerIndex b then Inr (int (length data), None, c)
        else bind_res (Buffer_append c (drop (length (storage b) - writerIndex b) data)) (\<lambda>b'. Inr (int (length data), None, b')))"
proof -
  let ?W = "length (storage b) - writerIndex b"
  let ?first = "take ?W data"
  have cap: "writerIndex b + length ?first \<le> length (storage b)" using Buffer_invD [OF inv] by simp
  from Buffer_put [OF inv cap] obtain v where
    v: "vec_write (storage b) (writerIndex b) ?first = Inr v" "length v = length (storage b)"
      "Buffer_inv (b\<lparr>storage := v, writerIndex := writerIndex b + length ?first\<rparr>)"
      "Buffer_content (b\<lparr>storage := v, writerIndex := writerIndex b + length ?first\<rparr>)
         = Buffer_content b @ ?first"
    by blast
  let ?c = "b\<lparr>storage := v, writerIndex := writerIndex b + length ?first\<rparr>"
  have "Buffer_readFd b (IoBytes data) =
       (if length data \<le> ?W then Inr (int (length data), None, ?c)
        else bind_res (Buffer_append ?c (drop ?W data)) (\<lambda>b'. Inr (int (length data), None, b')))"
  proof (cases "length data \<le> ?W")
    case True
    have "sz_add (writerIndex b) (length data) = writerIndex b + length data"
      using True Buffer_invD [OF inv] by (intro sz_add_small) simp
    then show ?thesis using True v by (simp add: Buffer_readFd_def Buffer_writable_eq [OF inv] Let_def)
  next
    case False
    then have "writerIndex b + length ?first = length (storage b)" using Buffer_invD [OF inv] by simp
    with False v show ?thesis by (simp add: Buffer_readFd_def Buffer_writable_eq [OF inv] Let_def)
  qed
  with v cap that [of ?c] show ?thesis by (simp add: Buffer_writable_eq [OF inv])
qed

lemma Buffer_readFd_ok:
  assumes inv: "Buffer_inv b" and fits: "readv_fits b (IoBytes data)"
    and len: "writerIndex b + length data + extrabuf_size \<le> vec_max"
  shows "\<exists>b'. Buffer_readFd b (IoBytes data) = Inr (int (length data), None, b') \<and> Buffer_inv b' \<and>
     Buffer_content b' = Buffer_content b @ data"
proof -
  let ?W = "length (storage b) - writerIndex b"
  from Buffer_readFd_parts [OF inv, of data] obtain c where c: "Buffer_inv c" "Buffer_content c = Buffer_content b @ take ?W data"
    "writerIndex c \<le> length (storage b)"
    "Buffer_readFd b (IoBytes data) = (if length data \<le> ?W then Inr (int (length data), None, c)
        else bind_res (Buffer_append c (drop ?W data)) (\<lambda>b'. Inr (int (length data), None, b')))" by metis
  have "length (drop ?W data) \<le> vec_max" "\<not> length data \<le> ?W \<Longrightarrow> writerIndex c + length (drop ?W data) \<le> vec_max"
    using len c(3) Buffer_invD [OF inv] by simp_all
  with Buffer_append_ok [OF c(1), of "drop ?W data"] c show ?thesis by (cases "length data \<le> ?W") auto
qed

text \<open>Data that fits leaves the bytes behind it alone; \<open>m\<close> of them may be skipped.\<close>

lemma Buffer_readFd_room:
  assumes inv: "Buffer_inv b" and room: "x \<in> set (drop (writerIndex b + length data + m) (storage b))"
  shows "\<exists>b'. Buffer_readFd b (IoBytes data) = Inr (int (length data), None, b') \<and> Buffer_inv b' \<and>
    Buffer_content b' = Buffer_content b @ data \<and> writerIndex b' = writerIndex b + length data \<and>
    x \<in> set (drop (writerIndex b' + m) (storage b'))"
proof -
  from room have "drop (writerIndex b + length data + m) (storage b) \<noteq> []" by auto
  then have cap: "writerIndex b + length data < length (storage b)" by simp
  then have le: "writerIndex b + length data \<le> length (storage b)" by simp
  from Buffer_put [OF inv le] obtain v where v: "vec_write (storage b) (writerIndex b) data = Inr v"
    "Buffer_inv (b\<lparr>storage := v, writerIndex := writerIndex b + length data\<rparr>)"
    "Buffer_content (b\<lparr>storage := v, writerIndex := writerIndex b + length data\<rparr>) = Buffer_content b @ data" by blast
  have eq: "v = take (writerIndex b) (storage b) @ data @ drop (writerIndex b + length data) (storage b)"
    using v(1) le by (simp add: vec_write_def)
  have "drop (writerIndex b + length data + m) v = drop (writerIndex b + length data + m) (storage b)"
    using cap by (simp add: eq add.commute)
  moreover have "sz_add (writerIndex b) (length data) = writerIndex b + length data"
    using cap Buffer_invD [OF inv] by (intro sz_add_small) simp
  ultimately show ?thesis
    using v cap room by (simp add: Buffer_readFd_def Buffer_writable_eq [OF inv] Let_def)
qed

text \<open>Without the bound, the only failure is a vector that would be too long.\<close>

lemma Buffer_readFd_or_full:
  assumes inv: "Buffer_inv b" and fits: "readv_fits b (IoBytes data)"
  shows "case Buffer_readFd b (IoBytes data) of
     Inl e \<Rightarrow> e = LengthError
   | Inr (ret, err, b') \<Rightarrow> ret = int (length data) \<and> err = None \<and> Buffer_inv b' \<and> Buffer_content b' = Buffer_content b @ data"
proof -
  let ?W = "length (storage b) - writerIndex b"
  from Buffer_readFd_parts [OF inv, of data] obtain c where c: "Buffer_inv c" "Buffer_content c = Buffer_content b @ take ?W data"
    "Buffer_writableBytes b = ?W"
    "Buffer_readFd b (IoBytes data) = (if length data \<le> ?W then Inr (int (length data), None, c)
        else bind_res (Buffer_append c (drop ?W data)) (\<lambda>b'. Inr (int (length data), None, b')))" by metis
  have len: "length (drop ?W data) \<le> vec_max" using fits c(3) by (simp add: readv_fits_def extrabuf_size_def vec_max_def)
  show ?thesis
  proof (cases "Buffer_append c (drop ?W data)")
    case (Inl e)
    then have "e = LengthError"
      using Buffer_append_ok [OF c(1) len] Buffer_append_too_long [OF c(1) len] by (metis Inl_inject Inr_Inl_False linorder_not_le)
    with Inl c show ?thesis by simp
  next
    case (Inr b')
    with Buffer_appendD [OF c(1) len Inr] c show ?thesis by simp
  qed
qed


subsection \<open>Searching\<close>

lemma Buffer_findChars_Some:
  assumes inv: "Buffer_inv b" and found: "Buffer_findChars b pat = Some p"
  obtains n where "p = readerIndex b + n" "n < length (Buffer_content b)"
    "prefix pat (drop n (Buffer_content b))"
    "\<And>j. j < n \<Longrightarrow> \<not> prefix pat (drop j (Buffer_content b))"
proof
  let ?n = "std_search (Buffer_content b) pat"
  from found have ne: "readerIndex b + ?n \<noteq> writerIndex b" and p: "p = readerIndex b + ?n"
    by (auto simp: Buffer_findChars_def Buffer_peek_def Buffer_beginWrite_def Let_def split: if_splits)
  show "p = readerIndex b + ?n" by (rule p)
  show lt: "?n < length (Buffer_content b)"
    using ne std_search_le [of "Buffer_content b" pat] Buffer_writer_eq [OF inv] by linarith
  show "prefix pat (drop ?n (Buffer_content b))" using lt by (rule std_search_found)
  show "\<And>j. j < ?n \<Longrightarrow> \<not> prefix pat (drop j (Buffer_content b))" by (rule std_search_first)
qed

lemma Buffer_findChars_None_iff:
  assumes inv: "Buffer_inv b" and ne: "pat \<noteq> []"
  shows "Buffer_findChars b pat = None \<longleftrightarrow> \<not> sublist pat (Buffer_content b)"
  using std_search_end_iff [OF ne, of "Buffer_content b"] Buffer_writer_eq [OF inv]
  by (auto simp: Buffer_findChars_def Buffer_peek_def Buffer_beginWrite_def Let_def)

lemma Buffer_findChars_eqI:
  assumes inv: "Buffer_inv b" and n: "n < length (Buffer_content b)"
    and pre: "prefix pat (drop n (Buffer_content b))"
    and first: "\<And>j. j < n \<Longrightarrow> \<not> prefix pat (drop j (Buffer_content b))"
  shows "Buffer_findChars b pat = Some (readerIndex b + n)"
proof -
  have "std_search (Buffer_content b) pat = n" by (rule std_search_eqI [OF n pre first])
  with n Buffer_writer_eq [OF inv] show ?thesis
    by (simp add: Buffer_findChars_def Buffer_peek_def Buffer_beginWrite_def)
qed

lemma Buffer_findCRLF_findChars: "Buffer_findCRLF b = Buffer_findChars b kCRLF"
  by (simp add: Buffer_findCRLF_def Buffer_findChars_def)

lemma Buffer_findCRLF_from_peek:
  "Buffer_inv b \<Longrightarrow> Buffer_findCRLF_from b (Buffer_peek b) = Inr (Buffer_findCRLF b)"
  by (simp add: Buffer_findCRLF_from_def Buffer_findCRLF_def Buffer_content_def Buffer_peek_def
      Buffer_beginWrite_def Buffer_inv_def Let_def)

subsection \<open>Integers\<close>

lemma Buffer_append_int_image:
  "mem_image h 4 (hostToNetwork32 h x) = rev (le_bytes 4 x)"
  "mem_image h 2 (hostToNetwork16 h y) = rev (le_bytes 2 y)"
  "mem_image h 1 z = le_bytes 1 z"
  by (simp_all add: hostToNetwork32_def hostToNetwork16_def mem_image_host_swap)
    (cases h; simp add: mem_image_def le_bytes_def)

lemma Buffer_peek_int:
  assumes inv: "Buffer_inv b" and n: "n \<le> length (Buffer_content b)" and w: "LENGTH('a::len) = 8 * n"
  shows "host_swap h n (mem_value h (Buffer_range b (Buffer_peek b) (Buffer_peek b + n)) :: 'a word)
     = word_of_nat (le_value (rev (take n (Buffer_content b))))"
  using n by (simp add: Buffer_peek_def Buffer_range_content [OF inv n] host_swap_mem_value [OF w])

lemma Buffer_readInt32_prefix:
  assumes inv: "Buffer_inv b" and con: "Buffer_content b = rev (le_bytes 4 x) @ rest"
  shows "\<exists>b'. Buffer_readInt32 h b = Inr (x, b') \<and> Buffer_inv b' \<and> Buffer_content b' = rest"
  using Buffer_retrieve_ok [OF inv, of 4] Buffer_peek_int [OF inv, of 4, where 'a = 32 and h = h]
  by (auto simp: Buffer_readInt32_def Buffer_peekInt32_def Buffer_retrieveInt32_def networkToHost32_def
      Buffer_readable_eq [OF inv] con word_of_le_bytes)

lemma Buffer_readInt16_prefix:
  assumes inv: "Buffer_inv b" and con: "Buffer_content b = rev (le_bytes 2 x) @ rest"
  shows "\<exists>b'. Buffer_readInt16 h b = Inr (x, b') \<and> Buffer_inv b' \<and> Buffer_content b' = rest"
  using Buffer_retrieve_ok [OF inv, of 2] Buffer_peek_int [OF inv, of 2, where 'a = 16 and h = h]
  by (auto simp: Buffer_readInt16_def Buffer_peekInt16_def Buffer_retrieveInt16_def networkToHost16_def
      Buffer_readable_eq [OF inv] con word_of_le_bytes)

lemma Buffer_readInt8_prefix:
  assumes inv: "Buffer_inv b" and con: "Buffer_content b = le_bytes 1 x @ rest"
  shows "\<exists>b'. Buffer_readInt8 h b = Inr (x, b') \<and> Buffer_inv b' \<and> Buffer_content b' = rest"
proof -
  have "mem_value h (le_bytes 1 x) = x"
    using word_of_le_bytes [of 1 x] by (cases h) (simp_all add: mem_value_def le_bytes_def)
  then show ?thesis
    using Buffer_retrieve_ok [OF inv, of 1] Buffer_range_content [OF inv, of 1]
    by (auto simp: Buffer_readInt8_def Buffer_peekInt8_def Buffer_retrieveInt8_def
        Buffer_readable_eq [OF inv] con Buffer_peek_def)
qed


section \<open>The byte-queue interface\<close>

text \<open>
  What a connection relies on: appending adds at the end, taking removes from the
  front, taking too much fails an assertion, and the only failure of an append is a
  vector that would become too long. A run of such operations collects the bytes
  taken; the specification does the same on a plain list.
\<close>

datatype queue_op = Put "char list" | Take nat

fun queue_run :: "('b \<Rightarrow> char list \<Rightarrow> 'b res) \<Rightarrow> ('b \<Rightarrow> nat \<Rightarrow> (char list \<times> 'b) res) \<Rightarrow>
    'b \<Rightarrow> queue_op list \<Rightarrow> (char list \<times> 'b) res" where
  "queue_run put tak b [] = Inr ([], b)"
| "queue_run put tak b (Put xs # ops) = bind_res (put b xs) (\<lambda>b'. queue_run put tak b' ops)"
| "queue_run put tak b (Take n # ops) =
     bind_res (tak b n) (\<lambda>(s, b').
     bind_res (queue_run put tak b' ops) (\<lambda>(out, b''). Inr (s @ out, b'')))"

fun queue_spec :: "char list \<Rightarrow> queue_op list \<Rightarrow> (char list \<times> char list) option" where
  "queue_spec q [] = Some ([], q)"
| "queue_spec q (Put xs # ops) = queue_spec (q @ xs) ops"
| "queue_spec q (Take n # ops) =
     (if n \<le> length q
      then map_option (\<lambda>(out, r). (take n q @ out, r)) (queue_spec (drop n q) ops)
      else None)"

definition queue_puts :: "queue_op list \<Rightarrow> char list" where
  "queue_puts ops = concat (map (\<lambda>x. case x of Put xs \<Rightarrow> xs | Take n \<Rightarrow> []) ops)"

definition puts_fit :: "queue_op list \<Rightarrow> bool" where
  "puts_fit ops = list_all (\<lambda>x. case x of Put xs \<Rightarrow> length xs \<le> vec_max | Take n \<Rightarrow> True) ops"

lemma queue_spec_conserves: "queue_spec q ops = Some (out, r) \<Longrightarrow> out @ r = q @ queue_puts ops"
proof (induction q ops arbitrary: out r rule: queue_spec.induct)
  case (3 q n ops)
  then obtain out' where "queue_spec (drop n q) ops = Some (out', r)" "out = take n q @ out'"
    and n: "n \<le> length q"
    by (auto split: if_splits)
  with "3.IH" show ?case by (simp add: queue_puts_def)
qed (simp_all add: queue_puts_def)

locale byte_queue =
  fixes inv :: "'b \<Rightarrow> bool"
    and content :: "'b \<Rightarrow> char list"
    and put :: "'b \<Rightarrow> char list \<Rightarrow> 'b res"
    and tak :: "'b \<Rightarrow> nat \<Rightarrow> (char list \<times> 'b) res"
  assumes put_law: "inv b \<Longrightarrow> length xs \<le> vec_max \<Longrightarrow>
      (\<exists>b'. put b xs = Inr b' \<and> inv b' \<and> content b' = content b @ xs) \<or> put b xs = Inl LengthError"
    and take_law: "inv b \<Longrightarrow> n \<le> length (content b) \<Longrightarrow>
      \<exists>b'. tak b n = Inr (take n (content b), b') \<and> inv b' \<and> content b' = drop n (content b)"
    and take_fail: "inv b \<Longrightarrow> length (content b) < n \<Longrightarrow> tak b n = Inl AssertFailed"
begin

lemma run_refines:
  assumes "inv b" and "puts_fit ops"
  shows "case queue_run put tak b ops of
      Inr (out, b') \<Rightarrow> inv b' \<and> queue_spec (content b) ops = Some (out, content b')
    | Inl e \<Rightarrow> e = LengthError \<or> e = AssertFailed \<and> queue_spec (content b) ops = None"
  using assms
proof (induction ops arbitrary: b)
  case Nil
  then show ?case by simp
next
  case (Cons x ops)
  then have fit: "puts_fit ops" by (simp add: puts_fit_def)
  show ?case
  proof (cases x)
    case (Put xs)
    with Cons.prems have "length xs \<le> vec_max" by (simp add: puts_fit_def)
    from put_law [OF Cons.prems(1) this] show ?thesis
    proof
      assume "\<exists>b'. put b xs = Inr b' \<and> inv b' \<and> content b' = content b @ xs"
      then obtain c where c: "put b xs = Inr c" "inv c" "content c = content b @ xs" by blast
      from Cons.IH [OF c(2) fit] c(1,3) Put show ?thesis
        by (cases "queue_run put tak c ops") auto
    next
      assume "put b xs = Inl LengthError"
      with Put show ?thesis by simp
    qed
  next
    case (Take n)
    show ?thesis
    proof (cases "n \<le> length (content b)")
      case True
      from take_law [OF Cons.prems(1) this] obtain c where
        c: "tak b n = Inr (take n (content b), c)" "inv c" "content c = drop n (content b)" by blast
      from Cons.IH [OF c(2) fit] show ?thesis using c(1,3) Take True
        by (cases "queue_run put tak c ops") auto
    next
      case False
      with take_fail [OF Cons.prems(1)] Take show ?thesis by simp
    qed
  qed
qed

lemma run_fifo:
  assumes "inv b" and "puts_fit ops" and "queue_run put tak b ops = Inr (out, b')"
  shows "inv b' \<and> out @ content b' = content b @ queue_puts ops"
  using run_refines [OF assms(1,2)] assms(3) by (simp add: queue_spec_conserves)

end

lemma Buffer_take_too_much:
  "Buffer_inv b \<Longrightarrow> length (Buffer_content b) < n \<Longrightarrow> Buffer_retrieveAsString b n = Inl AssertFailed"
  by (simp add: Buffer_retrieveAsString_def Buffer_readable_eq)

lemma Buffer_append_law:
  assumes "Buffer_inv b" and "length xs \<le> vec_max"
  shows "(\<exists>b'. Buffer_append b xs = Inr b' \<and> Buffer_inv b' \<and> Buffer_content b' = Buffer_content b @ xs)
     \<or> Buffer_append b xs = Inl LengthError"
  using Buffer_append_ok [OF assms] Buffer_append_too_long [OF assms] linorder_not_le by blast

interpretation bq: byte_queue Buffer_inv Buffer_content Buffer_append Buffer_retrieveAsString
  using Buffer_append_law Buffer_retrieveAsString_ok Buffer_take_too_much
  by unfold_locales blast+


section \<open>Properties of the buffer\<close>

text \<open>A buffer for the witnesses: four bytes of capacity, two of them readable.\<close>

definition demo_buffer :: buffer where
  "demo_buffer = \<lparr>initialSize = 4,
     storage = [CHR 0x00, CHR 0x00, CHR 0x00, CHR 0x00, CHR 0x00, CHR 0x00, CHR 0x00, CHR 0x00,
       CHR ''a'', CHR ''b'', CHR 0x00, CHR 0x00],
     readerIndex = 8, writerIndex = 10\<rparr>"

text \<open>The definitions that evaluate a run of buffer operations by simplification.\<close>

lemmas buffer_exec_defs =
  buffer_access_defs Buffer_content_def Buffer_append_def Buffer_ensureWritableBytes_def
  Buffer_makeSpace_def Buffer_hasWritten_def Buffer_retrieveAsString_def Buffer_retrieve_def
  Buffer_retrieveAll_def Buffer_findCRLF_def Buffer_findChars_def vec_slice_def vec_write_def
  vec_resize_def vec_max_def sz_add_def sz_sub_def kCheapPrepend_def kCRLF_def

lemma demo_buffer_facts:
  "Buffer_inv demo_buffer" "Buffer_content demo_buffer = ''ab''" "writerIndex demo_buffer = 10"
  "readerIndex demo_buffer = 8" "length (storage demo_buffer) = 12"
  by (simp_all add: demo_buffer_def Buffer_inv_def Buffer_content_alt vec_slice_def
      kCheapPrepend_def vec_max_def)

text \<open>C1: any sequence of appends and reads on a buffer behaves as on a plain first-in
  first-out byte list: a run that succeeds returns exactly the bytes the list returns and leaves
  exactly the bytes the list holds, with the class invariant intact; a run fails only because the
  vector would exceed its maximal size, or because it reads more than the list holds.\<close>

theorem buffer_refines_byte_queue:
  assumes "Buffer_inv b" and "puts_fit ops"
  shows "case queue_run Buffer_append Buffer_retrieveAsString b ops of
      Inr (out, b') \<Rightarrow> Buffer_inv b' \<and> queue_spec (Buffer_content b) ops = Some (out, Buffer_content b')
    | Inl e \<Rightarrow> e = LengthError \<or> e = AssertFailed \<and> queue_spec (Buffer_content b) ops = None"
  using assms by (rule bq.run_refines)

theorem buffer_refines_byte_queue_witness:
  "\<exists>b'. queue_run Buffer_append Buffer_retrieveAsString demo_buffer [Put ''cde'', Take 4] = Inr (''abcd'', b')
     \<and> Buffer_content b' = ''e''"
proof -
  have fit: "puts_fit [Put ''cde'', Take 4]" by (simp add: puts_fit_def vec_max_def)
  have run: "isl (queue_run Buffer_append Buffer_retrieveAsString demo_buffer [Put ''cde'', Take 4]) = False"
    by (simp add: buffer_exec_defs demo_buffer_def Let_def)
  show ?thesis
    using buffer_refines_byte_queue [OF demo_buffer_facts(1) fit] run
    by (auto simp: demo_buffer_facts split: sum.splits)
qed

text \<open>\<open>append\<close> on every branch. It puts the data after the readable bytes; it
  keeps the vector (no reallocation) when the free bytes behind and in front suffice, and it ends in
  \<open>std::length_error\<close> exactly when they do not and the grown vector would exceed the
  maximal size. None of its assertions can fail.\<close>

theorem buffer_append_total:
  assumes "Buffer_inv b" and "length data \<le> vec_max"
  shows "if Buffer_room b (length data) \<or> writerIndex b + length data \<le> vec_max
     then \<exists>b'. Buffer_append b data = Inr b' \<and> Buffer_inv b' \<and>
        Buffer_content b' = Buffer_content b @ data \<and>
        (Buffer_room b (length data) \<longrightarrow> length (storage b') = length (storage b))
     else Buffer_append b data = Inl LengthError"
  using Buffer_append_ok [OF assms] Buffer_append_too_long [OF assms] by (auto simp: not_le)

theorem buffer_append_total_witness:
  "\<exists>b'. Buffer_append demo_buffer ''xyz'' = Inr b' \<and> Buffer_content b' = ''abxyz''"
proof -
  have fit: "length ''xyz'' \<le> vec_max" by (simp add: vec_max_def)
  show ?thesis using buffer_append_total [OF demo_buffer_facts(1) fit]
    by (auto simp: demo_buffer_facts vec_max_def split: if_splits)
qed

text \<open>\<open>findCRLF\<close> returns the first line break of the readable bytes: a hit splits
  them into a line without a line break, CR LF, and the rest; a null pointer means there is none.\<close>

theorem buffer_findCRLF_splits:
  assumes "Buffer_inv b"
  shows "case Buffer_findCRLF b of
      None \<Rightarrow> \<not> sublist kCRLF (Buffer_content b)
    | Some p \<Rightarrow> \<exists>line rest. Buffer_content b = line @ kCRLF @ rest \<and>
        p = Buffer_peek b + length line \<and> \<not> sublist kCRLF line"
proof (cases "Buffer_findCRLF b")
  case None
  then show ?thesis using Buffer_findChars_None_iff [OF assms, of kCRLF]
    by (simp add: Buffer_findCRLF_findChars kCRLF_def)
next
  case (Some p)
  then have "Buffer_findChars b kCRLF = Some p" by (simp add: Buffer_findCRLF_findChars)
  from Buffer_findChars_Some [OF assms this] obtain n where
    p: "p = readerIndex b + n" and n: "n < length (Buffer_content b)"
    and hit: "prefix kCRLF (drop n (Buffer_content b))"
    and first: "\<And>j. j < n \<Longrightarrow> \<not> prefix kCRLF (drop j (Buffer_content b))" by blast
  from hit obtain rest where rest: "drop n (Buffer_content b) = kCRLF @ rest" by (auto simp: prefix_def)
  have "\<not> sublist kCRLF (take n (Buffer_content b))"
    by (rule no_sublist_take) (use first in \<open>auto simp: kCRLF_def\<close>)
  moreover have "Buffer_content b = take n (Buffer_content b) @ kCRLF @ rest"
    using rest by (metis append_take_drop_id)
  ultimately show ?thesis using Some p n by (force simp: Buffer_peek_def)
qed

theorem buffer_findCRLF_splits_witness:
  "\<exists>b. Buffer_inv b \<and> Buffer_findCRLF b = None \<and> \<not> sublist kCRLF (Buffer_content b)"
proof -
  have "Buffer_findCRLF demo_buffer = None" by (simp add: buffer_exec_defs demo_buffer_def)
  with buffer_findCRLF_splits [OF demo_buffer_facts(1)] demo_buffer_facts(1) show ?thesis by force
qed

text \<open>C37: Integers survive the network. A 32-bit integer appended on one host and read on any other
  host, of the same or the opposite byte order, comes back unchanged, and the bytes after it stay.\<close>

theorem buffer_int32_network_roundtrip:
  assumes "Buffer_inv b" and "Buffer_appendInt32 h b x = Inr b'"
    and "Buffer_inv c" and "Buffer_content c = drop (length (Buffer_content b)) (Buffer_content b') @ rest"
  shows "\<exists>c'. Buffer_readInt32 h' c = Inr (x, c') \<and> Buffer_inv c' \<and> Buffer_content c' = rest"
proof -
  have "Buffer_append b (rev (le_bytes 4 x)) = Inr b'"
    using assms(2) by (simp add: Buffer_appendInt32_def Buffer_append_int_image)
  then have "Buffer_content b' = Buffer_content b @ rev (le_bytes 4 x)"
    using Buffer_appendD(2) [OF assms(1)] by (simp add: vec_max_def)
  then show ?thesis using Buffer_readInt32_prefix [OF assms(3), of x rest] assms(4) by simp
qed

theorem buffer_int32_network_roundtrip_witness:
  "\<exists>b' c c'. Buffer_appendInt32 LittleEndian demo_buffer 305419896 = Inr b' \<and>
     Buffer_content c = drop 2 (Buffer_content b') @ ''z'' \<and>
     Buffer_readInt32 BigEndian c = Inr (305419896, c') \<and> Buffer_content c' = ''z''"
proof -
  obtain b' where b': "Buffer_appendInt32 LittleEndian demo_buffer 305419896 = Inr b'"
    using Buffer_append_ok [OF demo_buffer_facts(1), of "mem_image LittleEndian 4 (hostToNetwork32 LittleEndian 305419896)"]
    by (auto simp: Buffer_appendInt32_def vec_max_def demo_buffer_facts)
  define bytes where "bytes = drop 2 (Buffer_content b') @ ''z''"
  have "length bytes < 100"
    using b' Buffer_appendD(2) [OF demo_buffer_facts(1), of "mem_image LittleEndian 4 (hostToNetwork32 LittleEndian 305419896)" b']
    by (simp add: Buffer_appendInt32_def bytes_def demo_buffer_facts vec_max_def)
  define c where "c = \<lparr>initialSize = 0, storage = replicate 8 (CHR 0x00) @ bytes, readerIndex = 8, writerIndex = 8 + length bytes\<rparr>"
  have c: "Buffer_inv c" "Buffer_content c = bytes"
    using \<open>length bytes < 100\<close> by (simp_all add: c_def Buffer_inv_def Buffer_content_alt vec_slice_def
      kCheapPrepend_def vec_max_def)
  have len2: "length (Buffer_content demo_buffer) = 2" by (simp add: demo_buffer_facts)
  have "Buffer_content c = drop (length (Buffer_content demo_buffer)) (Buffer_content b') @ ''z''"
    using c(2) unfolding len2 bytes_def .
  from buffer_int32_network_roundtrip [OF demo_buffer_facts(1) b' c(1) this, where h' = BigEndian]
  obtain c' where "Buffer_readInt32 BigEndian c = Inr (305419896, c')" "Buffer_content c' = ''z''"
    by blast
  moreover have "Buffer_content c = drop 2 (Buffer_content b') @ ''z''" using c by (simp add: bytes_def)
  ultimately show ?thesis using b' by blast
qed

text \<open>\<open>readFd\<close> never loses a byte that the kernel delivered: whatever part of the data
  went to the writable space and whatever part to the stack buffer, all of it is appended in order,
  and the return value is its length.\<close>

theorem buffer_readFd_appends:
  assumes "Buffer_inv b" and "readv_fits b (IoBytes data)"
    and "writerIndex b + length data + extrabuf_size \<le> vec_max"
  shows "\<exists>b'. Buffer_readFd b (IoBytes data) = Inr (int (length data), None, b') \<and> Buffer_inv b' \<and>
     Buffer_content b' = Buffer_content b @ data"
  using assms by (rule Buffer_readFd_ok)

theorem buffer_readFd_appends_witness:
  "\<exists>b'. Buffer_readFd demo_buffer (IoBytes ''hello'') = Inr (5, None, b') \<and> Buffer_content b' = ''abhello''"
proof -
  have "readv_fits demo_buffer (IoBytes ''hello'')"
    "writerIndex demo_buffer + length ''hello'' + extrabuf_size \<le> vec_max"
    by (simp_all add: readv_fits_def extrabuf_size_def vec_max_def demo_buffer_facts)
  from buffer_readFd_appends [OF demo_buffer_facts(1) this] show ?thesis
    by (auto simp: demo_buffer_facts)
qed

text \<open>
  \<open>makeSpace\<close> adds \<open>kCheapPrepend\<close> to the requested length in \<open>size_t\<close>. For the
  eight largest lengths the sum wraps around, the guard picks the compacting branch,
  and the program ends in a failed assertion instead of \<open>std::length_error\<close>.
\<close>

lemma Buffer_ensure_wraps:
  assumes inv: "Buffer_inv b" and r: "kCheapPrepend \<le> readerIndex b"
    and len: "2 ^ 64 - kCheapPrepend \<le> len" "len < 2 ^ 64"
  shows "Buffer_ensureWritableBytes b len = Inl AssertFailed"
proof -
  note D = Buffer_invD [OF inv]
  let ?W = "length (storage b) - writerIndex b"
  have need: "?W < len" using D len by (simp add: kCheapPrepend_def)
  have "sz_add len kCheapPrepend < kCheapPrepend"
  proof -
    have "(len + 8) mod 2 ^ 64 = len + 8 - 2 ^ 64"
      using len by (simp add: kCheapPrepend_def mod_if)
    then show ?thesis using len by (simp add: sz_add_def kCheapPrepend_def)
  qed
  moreover have "sz_add ?W (readerIndex b) = ?W + readerIndex b"
    by (rule sz_add_small) (use D in simp)
  ultimately have guard: "\<not> sz_add ?W (readerIndex b) < sz_add len kCheapPrepend" using r by simp
  show ?thesis
  proof (cases "kCheapPrepend < readerIndex b")
    case False
    then show ?thesis using need guard
      by (simp add: Buffer_ensureWritableBytes_def Buffer_makeSpace_def Buffer_writable_eq [OF inv]
          Buffer_prependableBytes_def)
  next
    case True
    let ?n = "length (Buffer_content b)"
    obtain v where v: "vec_write (storage b) kCheapPrepend (Buffer_content b) = Inr v"
      "Buffer_inv (b\<lparr>storage := v, readerIndex := kCheapPrepend, writerIndex := kCheapPrepend + ?n\<rparr>)"
      "Buffer_content (b\<lparr>storage := v, readerIndex := kCheapPrepend, writerIndex := kCheapPrepend + ?n\<rparr>)
         = Buffer_content b"
      using Buffer_compact [OF inv True] by blast
    have "sz_add kCheapPrepend ?n = kCheapPrepend + ?n"
      using D by (intro sz_add_small) (simp add: Buffer_length_content [OF inv] kCheapPrepend_def)
    moreover have "length v - (kCheapPrepend + ?n) < len"
      using Buffer_invD(4) [OF v(2)] len by (simp add: kCheapPrepend_def)
    ultimately show ?thesis using need guard True v
      by (simp add: Buffer_ensureWritableBytes_def Buffer_makeSpace_def Buffer_writable_eq [OF inv]
          Buffer_prependableBytes_def Buffer_readable_eq [OF inv] Buffer_readable_eq [OF v(2)]
          Buffer_writable_eq [OF v(2)] Let_def)
  qed
qed

section \<open>Lines\<close>

text \<open>Taking less than everything only moves the read index; the first line break is found.\<close>

lemma Buffer_retrieve_reader:
  assumes "Buffer_inv b" and "n < length (Buffer_content b)" and "Buffer_retrieve b n = Inr b'"
  shows "readerIndex b' = readerIndex b + n"
proof -
  have "sz_add (readerIndex b) n = readerIndex b + n"
    using assms(2) Buffer_invD [OF assms(1)]
    by (intro sz_add_small) (simp add: Buffer_length_content [OF assms(1)])
  with assms show ?thesis by (auto simp: Buffer_retrieve_def buffer_simps split: if_splits)
qed

lemma retrieveAsString_reader:
  assumes "Buffer_inv b" and "n < length (Buffer_content b)"
  shows "\<exists>b'. Buffer_retrieveAsString b n = Inr (take n (Buffer_content b), b') \<and> Buffer_inv b' \<and>
    Buffer_content b' = drop n (Buffer_content b) \<and> readerIndex b' = readerIndex b + n"
proof -
  from Buffer_retrieveAsString_ok [OF assms(1), of n] assms(2) obtain b' where
    b': "Buffer_retrieveAsString b n = Inr (take n (Buffer_content b), b')" "Buffer_inv b'"
      "Buffer_content b' = drop n (Buffer_content b)" by auto
  then have "Buffer_retrieve b n = Inr b'" by (auto simp: Buffer_retrieveAsString_def res_simps split: if_splits)
  from Buffer_retrieve_reader [OF assms this] b' show ?thesis by blast
qed

lemma findCRLF_line:
  assumes "Buffer_inv b" and "Buffer_content b = line @ kCRLF @ rest" and "CHR 0x0D \<notin> set line"
  shows "Buffer_findCRLF b = Some (readerIndex b + length line)"
proof -
  have "\<not> prefix kCRLF (drop j (Buffer_content b))" if "j < length line" for j
  proof
    assume "prefix kCRLF (drop j (Buffer_content b))"
    then have "hd (drop j (Buffer_content b)) = CHR 0x0D" by (auto simp: prefix_def kCRLF_def)
    moreover have "hd (drop j (Buffer_content b)) = line ! j"
      using that assms(2) by (simp add: hd_drop_conv_nth nth_append)
    ultimately show False using that assms(3) nth_mem by metis
  qed
  then show ?thesis unfolding Buffer_findCRLF_findChars
    by (intro Buffer_findChars_eqI [OF assms(1)]) (simp_all add: assms(2) kCRLF_def)
qed

end
