(* ===== verification/Timestamp.thy ===== *)
theory Timestamp
  imports Complex_Main FAS_Prelude
begin

text \<open>
  \<open>src/base/Timestamp.h\<close> and \<open>src/base/Timestamp.cpp\<close>: a time stamp is a signed
  64-bit number of microseconds. The type has the order of \<open>operator<\<close> as its
  \<open>linorder\<close>. Signed overflow is the fault \<open>SignedOverflow\<close>. A finite
  \<open>double\<close> is a rational number; the rounding of the product in \<open>addTime\<close> to
  the nearest \<open>double\<close> is the parameter \<open>rnd\<close>, which the identity instantiates
  where the product is representable. The value of \<open>now\<close> is an
  argument of the operations that read the clock; the texts are in \<open>Timestamp_Text\<close>.
\<close>

definition i64_range :: "int \<Rightarrow> bool" where
  "i64_range x \<longleftrightarrow> - (2 ^ 63) \<le> x \<and> x < 2 ^ 63"

definition i64 :: "int \<Rightarrow> int res" where
  "i64 x = (if i64_range x then Inr x else Inl SignedOverflow)"

datatype timestamp = Timestamp (usec: int)

definition Timestamp_less :: "timestamp \<Rightarrow> timestamp \<Rightarrow> bool" where
  "Timestamp_less lhs rhs \<longleftrightarrow> usec lhs < usec rhs"

definition Timestamp_greater :: "timestamp \<Rightarrow> timestamp \<Rightarrow> bool" where
  "Timestamp_greater lhs rhs \<longleftrightarrow> usec rhs < usec lhs"

definition Timestamp_equal :: "timestamp \<Rightarrow> timestamp \<Rightarrow> bool" where
  "Timestamp_equal lhs rhs \<longleftrightarrow> usec lhs = usec rhs"

instantiation timestamp :: linorder
begin

definition less_timestamp :: "timestamp \<Rightarrow> timestamp \<Rightarrow> bool" where
  "less_timestamp = Timestamp_less"

definition less_eq_timestamp :: "timestamp \<Rightarrow> timestamp \<Rightarrow> bool" where
  "less_eq_timestamp lhs rhs \<longleftrightarrow> usec lhs \<le> usec rhs"

instance
  by standard (auto simp: less_timestamp_def Timestamp_less_def less_eq_timestamp_def timestamp.expand)

end

text \<open>The three operators agree with the order and the equality of the type.\<close>

lemma Timestamp_operators:
  "Timestamp_less lhs rhs \<longleftrightarrow> lhs < rhs" "Timestamp_greater lhs rhs \<longleftrightarrow> rhs < lhs" "Timestamp_equal lhs rhs \<longleftrightarrow> lhs = rhs"
  by (auto simp: less_timestamp_def Timestamp_less_def Timestamp_greater_def Timestamp_equal_def intro: timestamp.expand)

text \<open>The default constructor, with which \<open>loop\<close> declares the time of a turn.\<close>

definition Timestamp_new :: timestamp where
  "Timestamp_new = Timestamp 0"

definition kMicroSecondsPerSecond :: int where
  "kMicroSecondsPerSecond = 1000 * 1000"

definition Timestamp_invalid :: timestamp where
  "Timestamp_invalid = Timestamp 0"

definition Timestamp_isvalid :: "timestamp \<Rightarrow> bool" where
  "Timestamp_isvalid t \<longleftrightarrow> 0 < usec t"

definition Timestamp_swap :: "timestamp \<Rightarrow> timestamp \<Rightarrow> timestamp \<times> timestamp" where
  "Timestamp_swap t that = (that, t)"

definition Timestamp_get_microSecondsSinceEpoch :: "timestamp \<Rightarrow> int" where
  "Timestamp_get_microSecondsSinceEpoch t = usec t"

text \<open>Division and remainder of C++ truncate towards zero.\<close>

definition c_div :: "int \<Rightarrow> int \<Rightarrow> int" where
  "c_div a b = sgn a * sgn b * (\<bar>a\<bar> div \<bar>b\<bar>)"

definition c_mod :: "int \<Rightarrow> int \<Rightarrow> int" where
  "c_mod a b = a - b * c_div a b"

definition Timestamp_secondsSinceEpoch :: "timestamp \<Rightarrow> int" where
  "Timestamp_secondsSinceEpoch t = c_div (usec t) kMicroSecondsPerSecond"

text \<open>The value of \<open>now\<close> for the \<open>struct timeval\<close> that the kernel returned.\<close>

definition Timestamp_of_timeval :: "int \<Rightarrow> int \<Rightarrow> timestamp res" where
  "Timestamp_of_timeval tv_sec tv_usec =
     bind_res (i64 (tv_sec * kMicroSecondsPerSecond)) (\<lambda>s.
     bind_res (i64 (s + tv_usec)) (\<lambda>u. Inr (Timestamp u)))"

text \<open>\<open>static_cast<int64_t>\<close> of a floating point number drops the fraction; a value that
  does not fit is undefined behaviour.\<close>

definition trunc_rat :: "rat \<Rightarrow> int" where
  "trunc_rat x = (if 0 \<le> x then \<lfloor>x\<rfloor> else \<lceil>x\<rceil>)"

definition timeDifference :: "(rat \<Rightarrow> rat) \<Rightarrow> timestamp \<Rightarrow> timestamp \<Rightarrow> rat res" where
  "timeDifference rnd high low =
     bind_res (i64 (usec high - usec low)) (\<lambda>diff.
     Inr (rnd (rnd (of_int diff) / of_int kMicroSecondsPerSecond)))"

definition addTime :: "(rat \<Rightarrow> rat) \<Rightarrow> timestamp \<Rightarrow> rat \<Rightarrow> timestamp res" where
  "addTime rnd t seconds =
     bind_res (i64 (trunc_rat (rnd (seconds * of_int kMicroSecondsPerSecond)))) (\<lambda>delta.
     bind_res (i64 (usec t + delta)) (\<lambda>u. Inr (Timestamp u)))"

lemma c_div_nonneg: "0 \<le> a \<Longrightarrow> 0 < b \<Longrightarrow> c_div a b = a div b"
  by (cases "a = 0") (simp_all add: c_div_def)

lemma c_mod_nonneg: "0 \<le> a \<Longrightarrow> 0 < b \<Longrightarrow> c_mod a b = a mod b"
  by (simp add: c_mod_def c_div_nonneg minus_mult_div_eq_mod)

lemma addTime_InrD:
  assumes "addTime rnd t s = Inr t'"
  shows "usec t' = usec t + trunc_rat (rnd (s * 1000000))" "i64_range (usec t')"
  using assms by (auto simp: addTime_def i64_def kMicroSecondsPerSecond_def split: if_splits)

text \<open>A positive interval never moves an expiration back.\<close>

lemma addTime_mono:
  assumes "0 \<le> rnd (s * 1000000)" and "addTime rnd t s = Inr t'"
  shows "t \<le> t'"
  using addTime_InrD [OF assms(2)] assms(1) by (simp add: less_eq_timestamp_def trunc_rat_def)

end
