(* ===== verification/Std_Containers.thy ===== *)
theory Std_Containers
  imports FAS_Prelude
begin

text \<open>
  The ordered containers of the C++ standard library that the repository uses:
  \<open>std::map\<close> is an association list with strictly increasing keys,
  \<open>std::set\<close> a strictly increasing list, so that iteration order is list order.
  The locale \<open>ordered_dict\<close> states what the components rely on when they look
  up, store and erase; it is interpreted on the association lists here.
\<close>

section \<open>std::map\<close>

type_synonym ('k, 'v) smap = "('k \<times> 'v) list"

definition smap_ok :: "('k::linorder, 'v) smap \<Rightarrow> bool" where
  "smap_ok m \<longleftrightarrow> sorted_wrt (<) (map fst m)"

text \<open>\<open>find\<close>: the value stored under the key, if any.\<close>

fun smap_find :: "('k::linorder, 'v) smap \<Rightarrow> 'k \<Rightarrow> 'v option" where
  "smap_find [] k = None"
| "smap_find ((k', v) # m) k = (if k' = k then Some v else smap_find m k)"

text \<open>\<open>m[k] = v\<close>: overwrites.\<close>

fun smap_set :: "('k::linorder, 'v) smap \<Rightarrow> 'k \<Rightarrow> 'v \<Rightarrow> ('k, 'v) smap" where
  "smap_set [] k v = [(k, v)]"
| "smap_set ((k', v') # m) k v =
     (if k < k' then (k, v) # (k', v') # m
      else if k = k' then (k, v) # m
      else (k', v') # smap_set m k v)"

text \<open>\<open>insert\<close>: keeps the value that is there.\<close>

definition smap_insert :: "('k::linorder, 'v) smap \<Rightarrow> 'k \<Rightarrow> 'v \<Rightarrow> ('k, 'v) smap" where
  "smap_insert m k v = (if smap_find m k = None then smap_set m k v else m)"

text \<open>\<open>erase(key)\<close>.\<close>

fun smap_erase :: "('k::linorder, 'v) smap \<Rightarrow> 'k \<Rightarrow> ('k, 'v) smap" where
  "smap_erase [] k = []"
| "smap_erase ((k', v) # m) k = (if k' = k then m else (k', v) # smap_erase m k)"

text \<open>\<open>upper_bound\<close>: the first entry with a larger key.\<close>

fun smap_upper_bound :: "('k::linorder, 'v) smap \<Rightarrow> 'k \<Rightarrow> ('k \<times> 'v) option" where
  "smap_upper_bound [] k = None"
| "smap_upper_bound ((k', v) # m) k = (if k < k' then Some (k', v) else smap_upper_bound m k)"

lemma smap_ok_Nil [simp]: "smap_ok []"
  by (simp add: smap_ok_def)

lemma smap_ok_Cons:
  "smap_ok ((k, v) # m) \<longleftrightarrow> (\<forall>k' \<in> fst ` set m. k < k') \<and> smap_ok m"
  by (auto simp: smap_ok_def)

lemma smap_find_eq_map_of: "smap_find m k = map_of m k"
  by (induction m k rule: smap_find.induct) auto

lemma smap_find_set [simp]: "smap_find (smap_set m k v) k' = (if k' = k then Some v else smap_find m k')"
  by (induction m k v rule: smap_set.induct) auto

lemma smap_set_keys: "fst ` set (smap_set m k v) = insert k (fst ` set m)"
  by (induction m k v rule: smap_set.induct) auto

lemma smap_set_ok: "smap_ok m \<Longrightarrow> smap_ok (smap_set m k v)"
  by (induction m k v rule: smap_set.induct) (auto simp: smap_ok_Cons smap_set_keys)

lemma smap_set_entries: "smap_ok m \<Longrightarrow> set (smap_set m k v) \<subseteq> insert (k, v) (set m)"
  by (induction m k v rule: smap_set.induct) (auto simp: smap_ok_Cons)

lemma smap_erase_entries: "set (smap_erase m k) \<subseteq> set m"
  by (induction m k rule: smap_erase.induct) auto

lemma smap_find_None_notin: "smap_find m k = None \<longleftrightarrow> k \<notin> fst ` set m"
  by (simp add: smap_find_eq_map_of map_of_eq_None_iff)

lemma smap_find_in: "smap_find m k = Some v \<Longrightarrow> (k, v) \<in> set m"
  by (simp add: smap_find_eq_map_of map_of_SomeD)

lemma smap_ok_distinct: "smap_ok m \<Longrightarrow> distinct (map fst m)"
  by (simp add: smap_ok_def strict_sorted_iff)

lemma smap_find_of_in: "smap_ok m \<Longrightarrow> (k, v) \<in> set m \<Longrightarrow> smap_find m k = Some v"
  by (simp add: smap_find_eq_map_of smap_ok_distinct)

lemma smap_find_erase [simp]:
  "smap_ok m \<Longrightarrow> smap_find (smap_erase m k) k' = (if k' = k then None else smap_find m k')"
proof (induction m k rule: smap_erase.induct)
  case (2 k2 v m k)
  then have "smap_find m k2 = None" by (auto simp: smap_ok_Cons smap_find_None_notin)
  with 2 show ?case by (auto simp: smap_ok_Cons)
qed simp

lemma smap_erase_ok: "smap_ok m \<Longrightarrow> smap_ok (smap_erase m k)"
proof (induction m k rule: smap_erase.induct)
  case (2 k' v m k)
  then show ?case using smap_erase_entries [of m k] by (auto simp: smap_ok_Cons)
qed simp

lemma smap_insert_ok: "smap_ok m \<Longrightarrow> smap_ok (smap_insert m k v)"
  by (simp add: smap_insert_def smap_set_ok)

lemma smap_find_insert [simp]:
  "smap_find (smap_insert m k v) k' =
     (if k' = k \<and> smap_find m k = None then Some v else smap_find m k')"
  by (simp add: smap_insert_def)

lemma smap_eqI:
  assumes "smap_ok m" and "smap_ok m'" and "\<And>k. smap_find m k = smap_find m' k"
  shows "m = m'"
proof -
  have s: "set m = set m'"
    using assms smap_find_in smap_find_of_in by (metis subrelI subset_antisym)
  have "distinct m" "distinct m'"
    using assms(1,2) by (auto simp: smap_ok_def distinct_map strict_sorted_iff)
  moreover have "sorted (map fst m)" "sorted (map fst m')"
    using assms(1,2) by (auto simp: smap_ok_def strict_sorted_iff)
  moreover have "inj_on fst (set m)" using assms(1) by (auto simp: smap_ok_def distinct_map strict_sorted_iff)
  ultimately show ?thesis using s map_sorted_distinct_set_unique [of fst m m'] assms(1,2)
    by (simp add: smap_ok_def strict_sorted_iff)
qed

lemma smap_upper_bound_Some:
  assumes "smap_ok m" and "smap_upper_bound m k = Some (k', v)"
  shows "smap_find m k' = Some v" "k < k'" "\<And>j. j \<in> fst ` set m \<Longrightarrow> k < j \<Longrightarrow> k' \<le> j"
  using assms
  by (induction m k rule: smap_upper_bound.induct)
    (force simp: smap_ok_Cons split: if_splits)+

lemma smap_upper_bound_None: "smap_upper_bound m k = None \<longleftrightarrow> (\<forall>j \<in> fst ` set m. j \<le> k)"
  by (induction m k rule: smap_upper_bound.induct) (auto simp: not_less)

section \<open>The dictionary interface\<close>

locale ordered_dict =
  fixes ok :: "'m \<Rightarrow> bool"
    and find :: "'m \<Rightarrow> 'k::linorder \<Rightarrow> 'v option"
    and store :: "'m \<Rightarrow> 'k \<Rightarrow> 'v \<Rightarrow> 'm"
    and erase :: "'m \<Rightarrow> 'k \<Rightarrow> 'm"
  assumes find_store: "ok m \<Longrightarrow> find (store m k v) k' = (if k' = k then Some v else find m k')"
    and find_erase: "ok m \<Longrightarrow> find (erase m k) k' = (if k' = k then None else find m k')"
    and store_ok: "ok m \<Longrightarrow> ok (store m k v)"
    and erase_ok: "ok m \<Longrightarrow> ok (erase m k)"
    and ext: "ok m \<Longrightarrow> ok m' \<Longrightarrow> (\<And>k. find m k = find m' k) \<Longrightarrow> m = m'"
begin

lemma store_store: "ok m \<Longrightarrow> store (store m k v) k w = store m k w"
  by (rule ext) (simp_all add: find_store store_ok)

lemma erase_store: "ok m \<Longrightarrow> erase (store m k v) k = erase m k"
  by (rule ext) (simp_all add: find_store find_erase store_ok erase_ok)

lemma erase_store_fresh: "ok m \<Longrightarrow> find m k = None \<Longrightarrow> erase (store m k v) k = m"
  by (rule ext) (auto simp: find_store find_erase store_ok erase_ok)

lemma store_commute: "ok m \<Longrightarrow> k \<noteq> j \<Longrightarrow> store (store m k v) j w = store (store m j w) k v"
  by (rule ext) (auto simp: find_store store_ok)

lemma store_same: "ok m \<Longrightarrow> find m k = Some v \<Longrightarrow> store m k v = m"
  by (rule ext) (auto simp: find_store store_ok)

end

interpretation sm: ordered_dict smap_ok smap_find smap_set smap_erase
  by unfold_locales (simp_all add: smap_set_ok smap_erase_ok smap_eqI)

section \<open>std::set\<close>

definition sset_ok :: "'a::linorder list \<Rightarrow> bool" where
  "sset_ok xs \<longleftrightarrow> sorted_wrt (<) xs"

fun sset_insert :: "'a::linorder list \<Rightarrow> 'a \<Rightarrow> 'a list" where
  "sset_insert [] x = [x]"
| "sset_insert (y # ys) x =
     (if x < y then x # y # ys else if x = y then y # ys else y # sset_insert ys x)"

definition sset_erase :: "'a::linorder list \<Rightarrow> 'a \<Rightarrow> 'a list" where
  "sset_erase xs x = filter (\<lambda>y. y \<noteq> x) xs"

text \<open>The elements before \<open>lower_bound(x)\<close>, and those from it on.\<close>

definition sset_below :: "'a::linorder list \<Rightarrow> 'a \<Rightarrow> 'a list" where
  "sset_below xs x = takeWhile (\<lambda>y. y < x) xs"

definition sset_from :: "'a::linorder list \<Rightarrow> 'a \<Rightarrow> 'a list" where
  "sset_from xs x = dropWhile (\<lambda>y. y < x) xs"

lemma sset_ok_Cons [simp]: "sset_ok (x # xs) \<longleftrightarrow> (\<forall>y \<in> set xs. x < y) \<and> sset_ok xs"
  by (simp add: sset_ok_def)

lemma sset_ok_Nil [simp]: "sset_ok []"
  by (simp add: sset_ok_def)

lemma set_sset_insert [simp]: "set (sset_insert xs x) = insert x (set xs)"
  by (induction xs x rule: sset_insert.induct) auto

lemma sset_insert_ok: "sset_ok xs \<Longrightarrow> sset_ok (sset_insert xs x)"
  by (induction xs x rule: sset_insert.induct) auto

lemma sset_insert_nonempty [simp]: "sset_insert xs x \<noteq> []"
  by (cases xs) auto

lemma set_sset_erase [simp]: "set (sset_erase xs x) = set xs - {x}"
  by (auto simp: sset_erase_def)

lemma sset_erase_ok: "sset_ok xs \<Longrightarrow> sset_ok (sset_erase xs x)"
  by (simp add: sset_erase_def sset_ok_def sorted_wrt_filter)

lemma sset_below_from: "sset_below xs x @ sset_from xs x = xs"
  by (simp add: sset_below_def sset_from_def)

lemma sset_split_ok:
  assumes "sset_ok xs"
  shows "sset_ok (sset_below xs x)" "sset_ok (sset_from xs x)"
    "set (sset_below xs x) = {y \<in> set xs. y < x}" "set (sset_from xs x) = {y \<in> set xs. x \<le> y}"
proof -
  have app: "sset_ok (sset_below xs x @ sset_from xs x)" by (simp add: sset_below_from assms)
  then show "sset_ok (sset_below xs x)" "sset_ok (sset_from xs x)"
    by (simp_all add: sset_ok_def sorted_wrt_append)
  have low: "\<forall>y \<in> set (sset_below xs x). y < x"
    by (auto simp: sset_below_def dest: set_takeWhileD)
  have high: "\<forall>y \<in> set (sset_from xs x). x \<le> y"
  proof (cases "sset_from xs x")
    case (Cons z zs)
    then have "\<not> z < x" unfolding sset_from_def by (metis dropWhile_eq_Cons_conv)
    moreover have "\<forall>y \<in> set zs. z < y"
      using \<open>sset_ok (sset_from xs x)\<close> Cons by simp
    ultimately show ?thesis using Cons by force
  qed simp
  have "set xs = set (sset_below xs x) \<union> set (sset_from xs x)"
    by (metis sset_below_from set_append)
  with low high show "set (sset_below xs x) = {y \<in> set xs. y < x}"
    "set (sset_from xs x) = {y \<in> set xs. x \<le> y}" by force+
qed

lemma sset_hd_least: "sset_ok xs \<Longrightarrow> x \<in> set xs \<Longrightarrow> hd xs \<le> x"
  by (cases xs) auto

end
