(* ===== verification/Timer_Heap.thy ===== *)
theory Timer_Heap
  imports Timestamp Std_Containers
begin

text \<open>
  \<open>src/base/Timer.h\<close>, \<open>Timer.cpp\<close>, \<open>TimerHeap.h\<close> and \<open>TimerHeap.cpp\<close>: timers and the
  ordered set of pending timers. A \<open>Timer*\<close> is an address (a natural number below
  \<open>UINTPTR_MAX\<close>); the memory maps live addresses to timers, \<open>delete\<close> removes an
  address, and any access through a removed address is \<open>UseAfterFree\<close>. The callback of a
  timer belongs to the scheduler (theory \<open>Timers_Scheduler\<close>).
\<close>

section \<open>Timers\<close>

datatype timer_state = ADDED | DELETED

record timer =
  tm_expiration :: timestamp
  tm_interval :: rat
  tm_repeat :: bool
  tm_state :: timer_state

type_synonym addr = nat
type_synonym timer_mem = "addr \<Rightarrow> timer option"

definition UINTPTR_MAX :: nat where
  "UINTPTR_MAX = 2 ^ 64 - 1"

definition Timer_new :: "timestamp \<Rightarrow> rat \<Rightarrow> timer" where
  "Timer_new t interval =
     \<lparr>tm_expiration = t, tm_interval = interval, tm_repeat = (0 < interval), tm_state = ADDED\<rparr>"

definition Timer_restart :: "(rat \<Rightarrow> rat) \<Rightarrow> timer \<Rightarrow> timestamp \<Rightarrow> timer res" where
  "Timer_restart rnd t now =
     (if tm_repeat t
      then bind_res (addTime rnd now (tm_interval t)) (\<lambda>e. Inr (t\<lparr>tm_expiration := e\<rparr>))
      else Inr (t\<lparr>tm_expiration := Timestamp_invalid\<rparr>))"

definition Timer_setState :: "timer \<Rightarrow> timer_state \<Rightarrow> timer" where
  "Timer_setState t s = t\<lparr>tm_state := s\<rparr>"

definition deref :: "timer_mem \<Rightarrow> addr \<Rightarrow> timer res" where
  "deref mem a = (case mem a of None \<Rightarrow> Inl UseAfterFree | Some t \<Rightarrow> Inr t)"

lemma deref_simps [simp]:
  "mem a = Some t \<Longrightarrow> deref mem a = Inr t" "mem a = None \<Longrightarrow> deref mem a = Inl UseAfterFree"
  by (simp_all add: deref_def)

lemma deref_eq_Inr_iff [res_simps]: "deref mem a = Inr t \<longleftrightarrow> mem a = Some t"
  by (simp add: deref_def split: option.splits)

section \<open>The heap\<close>

type_synonym entry = "timestamp \<times> addr"

record timer_heap =
  th_timers :: "entry list"
  th_earliest :: "addr option"
  th_change :: bool

definition TimerHeap_new :: timer_heap where
  "TimerHeap_new = \<lparr>th_timers = [], th_earliest = None, th_change = False\<rparr>"

definition TimerHeap_getTimerNum :: "timer_heap \<Rightarrow> nat" where
  "TimerHeap_getTimerNum h = length (th_timers h)"

definition TimerHeap_getEarlistChange :: "timer_heap \<Rightarrow> bool" where
  "TimerHeap_getEarlistChange h = th_change h"

definition TimerHeap_getEarlistExpiration :: "timer_mem \<Rightarrow> timer_heap \<Rightarrow> timestamp res" where
  "TimerHeap_getEarlistExpiration mem h =
     (case th_earliest h of
        None \<Rightarrow> Inl NullDeref
      | Some a \<Rightarrow> bind_res (deref mem a) (\<lambda>t. Inr (tm_expiration t)))"

text \<open>\<open>expired\<close> receives the entries up to and including the time \<open>now\<close>.\<close>

definition TimerHeap_getExpiredTimers ::
    "timer_heap \<Rightarrow> entry list \<Rightarrow> timestamp \<Rightarrow> (entry list \<times> timer_heap) res" where
  "TimerHeap_getExpiredTimers h expired now =
     (let sentry = (now, UINTPTR_MAX);
          before = sset_below (th_timers h) sentry;
          rest = sset_from (th_timers h) sentry
      in if \<not> (rest = [] \<or> now < fst (hd rest)) then Inl AssertFailed
         else Inr (expired @ before, h\<lparr>th_timers := rest\<rparr>))"

text \<open>\<open>earlistExpiration_\<close> and \<open>earlistChange_\<close> after the set has changed and is not empty.\<close>

definition note_earliest :: "timer_heap \<Rightarrow> timer_heap" where
  "note_earliest h =
     (let first = snd (hd (th_timers h))
      in if th_earliest h \<noteq> Some first
         then h\<lparr>th_earliest := Some first, th_change := True\<rparr>
         else h\<lparr>th_change := False\<rparr>)"

definition TimerHeap_addTimer :: "timer_mem \<Rightarrow> timer_heap \<Rightarrow> addr \<Rightarrow> (bool \<times> timer_heap) res" where
  "TimerHeap_addTimer mem h a =
     bind_res (deref mem a) (\<lambda>t.
     if \<not> Timestamp_isvalid (tm_expiration t) then Inl AssertFailed
     else if (tm_expiration t, a) \<in> set (th_timers h) then Inr (False, h)
     else let h' = h\<lparr>th_timers := sset_insert (th_timers h) (tm_expiration t, a)\<rparr>
          in Inr (True,
               if th_earliest h = None
               then h'\<lparr>th_earliest := Some a, th_change := True\<rparr>
               else note_earliest h'))"

definition TimerHeap_delTimer :: "timer_mem \<Rightarrow> timer_heap \<Rightarrow> addr \<Rightarrow> (timer_mem \<times> timer_heap) res" where
  "TimerHeap_delTimer mem h a =
     bind_res (deref mem a) (\<lambda>t.
     if (tm_expiration t, a) \<notin> set (th_timers h) then Inr (mem, h)
     else let h' = h\<lparr>th_timers := sset_erase (th_timers h) (tm_expiration t, a)\<rparr>
          in Inr (mem(a := None), if th_timers h' \<noteq> [] then note_earliest h' else h'))"

text \<open>
  The loop of \<open>restartIntervalTimer\<close>: \<open>clk a\<close> is the value of \<open>Timestamp::now()\<close> when
  the timer at \<open>a\<close> is restarted; \<open>acc\<close> is \<open>earlistChangeTemp\<close>. The result lists
  the expired entries with a null pointer where the timer was deleted.
\<close>

fun restart_loop :: "(rat \<Rightarrow> rat) \<Rightarrow> (addr \<Rightarrow> timestamp) \<Rightarrow> timer_mem \<Rightarrow> timer_heap \<Rightarrow> entry list \<Rightarrow> bool \<Rightarrow>
    (timer_mem \<times> timer_heap \<times> (timestamp \<times> addr option) list \<times> bool) res" where
  "restart_loop rnd clk mem h [] acc = Inr (mem, h, [], acc)"
| "restart_loop rnd clk mem h ((e, a) # expired) acc =
     bind_res (deref mem a) (\<lambda>t.
     if tm_repeat t \<and> tm_state t \<noteq> DELETED
     then bind_res (Timer_restart rnd t (clk a)) (\<lambda>t'.
          bind_res (TimerHeap_addTimer (mem(a := Some t')) h a) (\<lambda>(added, h').
          bind_res (restart_loop rnd clk (mem(a := Some t')) h' expired (acc \<or> th_change h'))
            (\<lambda>(mem'', h'', out, acc''). Inr (mem'', h'', (e, Some a) # out, acc''))))
     else bind_res (restart_loop rnd clk (mem(a := None)) h expired acc)
            (\<lambda>(mem'', h'', out, acc''). Inr (mem'', h'', (e, None) # out, acc'')))"

definition TimerHeap_restartIntervalTimer ::
    "(rat \<Rightarrow> rat) \<Rightarrow> (addr \<Rightarrow> timestamp) \<Rightarrow> timer_mem \<Rightarrow> timer_heap \<Rightarrow> entry list \<Rightarrow>
     (timer_mem \<times> timer_heap \<times> (timestamp \<times> addr option) list) res" where
  "TimerHeap_restartIntervalTimer rnd clk mem h expired =
     bind_res (restart_loop rnd clk mem h expired False)
       (\<lambda>(mem', h', out, acc). Inr (mem', h'\<lparr>th_change := acc\<rparr>, out))"

text \<open>The destructor deletes every timer that is still pending.\<close>

definition TimerHeap_destroy :: "timer_mem \<Rightarrow> timer_heap \<Rightarrow> timer_mem" where
  "TimerHeap_destroy mem h = (\<lambda>a. if a \<in> snd ` set (th_timers h) then None else mem a)"

section \<open>Well-formed heaps\<close>

text \<open>
  The pending set is ordered, every entry is a live timer filed under its own
  expiration, and \<open>th_earliest\<close> is what the set starts with, unless the set is empty.
\<close>

definition entry_ok :: "timer_mem \<Rightarrow> entry \<Rightarrow> bool" where
  "entry_ok mem x \<longleftrightarrow> snd x < UINTPTR_MAX \<and> Timestamp_isvalid (fst x) \<and>
     (\<exists>t. mem (snd x) = Some t \<and> tm_expiration t = fst x)"

definition heap_ok :: "timer_mem \<Rightarrow> timer_heap \<Rightarrow> bool" where
  "heap_ok mem h \<longleftrightarrow> sset_ok (th_timers h) \<and> (\<forall>x \<in> set (th_timers h). entry_ok mem x)"

definition earliest_ok :: "timer_heap \<Rightarrow> bool" where
  "earliest_ok h \<longleftrightarrow> th_timers h \<noteq> [] \<longrightarrow> th_earliest h = Some (snd (hd (th_timers h)))"

lemma heap_ok_new: "heap_ok mem TimerHeap_new" "earliest_ok TimerHeap_new"
  by (simp_all add: heap_ok_def earliest_ok_def TimerHeap_new_def)

lemma note_earliest_simps [simp]:
  "th_timers (note_earliest h) = th_timers h"
  "th_earliest (note_earliest h) = Some (snd (hd (th_timers h)))"
  "th_change (note_earliest h) \<longleftrightarrow> th_earliest h \<noteq> Some (snd (hd (th_timers h)))"
  by (simp_all add: note_earliest_def Let_def)

lemma entry_ok_upd_other: "a \<noteq> snd x \<Longrightarrow> entry_ok (mem(a := v)) x = entry_ok mem x"
  by (simp add: entry_ok_def)

lemma entry_ok_unique: "entry_ok mem (e, a) \<Longrightarrow> entry_ok mem (e', a) \<Longrightarrow> e = e'"
  by (auto simp: entry_ok_def)

text \<open>A timer is pending at most once.\<close>

lemma heap_ok_distinct_addrs:
  assumes "heap_ok mem h"
  shows "distinct (map snd (th_timers h))"
proof -
  have "distinct (th_timers h)"
    using assms by (simp add: heap_ok_def sset_ok_def strict_sorted_iff)
  moreover have "inj_on snd (set (th_timers h))"
  proof (rule inj_onI)
    fix x y assume "x \<in> set (th_timers h)" "y \<in> set (th_timers h)" and eq: "snd x = snd y"
    then have "entry_ok mem x" "entry_ok mem y" using assms by (simp_all add: heap_ok_def)
    with eq have "fst x = fst y" by (auto simp: entry_ok_def)
    with eq show "x = y" by (simp add: prod_eq_iff)
  qed
  ultimately show ?thesis by (simp add: distinct_map)
qed

lemma addTimer_ok:
  assumes "heap_ok mem h" and "a < UINTPTR_MAX" and "TimerHeap_addTimer mem h a = Inr (added, h')"
  shows "heap_ok mem h'"
    and "\<exists>t. mem a = Some t \<and> set (th_timers h') = insert (tm_expiration t, a) (set (th_timers h))
        \<and> (added \<longleftrightarrow> (tm_expiration t, a) \<notin> set (th_timers h))"
  using assms
  by (auto simp: TimerHeap_addTimer_def Let_def heap_ok_def res_simps entry_ok_def sset_insert_ok
      split: if_splits)

lemma addTimer_timers:
  assumes "TimerHeap_addTimer mem h a = Inr (True, h')"
  shows "\<exists>t. mem a = Some t \<and> th_timers h' = sset_insert (th_timers h) (tm_expiration t, a)"
  using assms by (auto simp: TimerHeap_addTimer_def Let_def res_simps split: if_splits)

lemma addTimer_earliest:
  assumes "TimerHeap_addTimer mem h a = Inr (True, h')" and "th_earliest h = None \<Longrightarrow> th_timers h = []"
  shows "th_earliest h' = Some (snd (hd (th_timers h')))"
  using assms by (auto simp: TimerHeap_addTimer_def Let_def res_simps split: if_splits)

lemma addTimer_change:
  assumes "TimerHeap_addTimer mem h a = Inr (True, h')" and "\<not> th_change h'"
  shows "th_earliest h = th_earliest h'" "th_earliest h' = Some (snd (hd (th_timers h')))"
  using assms by (auto simp: TimerHeap_addTimer_def Let_def res_simps split: if_splits)

lemma delTimer_ok:
  assumes "heap_ok mem h" and "TimerHeap_delTimer mem h a = Inr (mem', h')"
  shows "heap_ok mem' h'"
proof -
  from assms(2) obtain t where t: "mem a = Some t" by (auto simp: TimerHeap_delTimer_def res_simps)
  show ?thesis
  proof (cases "(tm_expiration t, a) \<in> set (th_timers h)")
    case False
    with t assms show ?thesis by (auto simp: TimerHeap_delTimer_def)
  next
    case True
    let ?xs = "sset_erase (th_timers h) (tm_expiration t, a)"
    have eq: "mem' = mem(a := None)" "th_timers h' = ?xs"
      using assms(2) t True by (auto simp: TimerHeap_delTimer_def Let_def split: if_splits)
    have "entry_ok (mem(a := None)) x" if "x \<in> set ?xs" for x
    proof -
      have x: "x \<in> set (th_timers h)" "x \<noteq> (tm_expiration t, a)" using that by simp_all
      then have "entry_ok mem x" using assms(1) by (simp add: heap_ok_def)
      moreover from this have "snd x \<noteq> a" using x(2) t by (cases x) (auto simp: entry_ok_def)
      ultimately show ?thesis by (simp add: entry_ok_upd_other)
    qed
    then show ?thesis using assms(1) eq by (simp add: heap_ok_def sset_erase_ok)
  qed
qed

lemma delTimer_earliest:
  assumes "TimerHeap_delTimer mem h a = Inr (mem', h')" and "earliest_ok h"
  shows "earliest_ok h'"
  using assms
  by (auto simp: TimerHeap_delTimer_def Let_def res_simps earliest_ok_def split: if_splits)

lemma getExpired_ok:
  assumes "heap_ok mem h"
  shows "\<exists>exp h'. TimerHeap_getExpiredTimers h expired now = Inr (expired @ exp, h') \<and>
     exp @ th_timers h' = th_timers h \<and>
     (\<forall>x \<in> set exp. fst x \<le> now) \<and> (\<forall>x \<in> set (th_timers h'). now < fst x) \<and>
     heap_ok mem h' \<and> th_earliest h' = th_earliest h \<and> th_change h' = th_change h"
proof -
  let ?s = "(now, UINTPTR_MAX)"
  let ?lo = "sset_below (th_timers h) ?s" and ?hi = "sset_from (th_timers h) ?s"
  have srt: "sset_ok (th_timers h)" and ent: "\<forall>x \<in> set (th_timers h). entry_ok mem x"
    using assms by (simp_all add: heap_ok_def)
  have later: "now < fst x" if "x \<in> set ?hi" for x
  proof -
    from that have "x \<in> set (th_timers h)" "?s \<le> x" by (simp_all add: sset_split_ok [OF srt])
    moreover from this ent have "snd x < UINTPTR_MAX" by (simp add: entry_ok_def)
    ultimately show ?thesis by (cases x) (auto simp: less_eq_prod_def)
  qed
  have earlier: "fst x \<le> now" if "x \<in> set ?lo" for x
  proof -
    from that have "x < ?s" by (simp add: sset_split_ok [OF srt])
    then show ?thesis by (auto simp: less_prod_def)
  qed
  have "?hi = [] \<or> now < fst (hd ?hi)" using later by (cases ?hi) auto
  then show ?thesis using later earlier srt ent
    by (auto simp: TimerHeap_getExpiredTimers_def Let_def sset_below_from heap_ok_def sset_split_ok)
qed


section \<open>Restarting the expired timers\<close>

text \<open>The addresses of a list of entries, and expired entries that are alive and not pending.\<close>

definition expired_ok :: "timer_mem \<Rightarrow> timer_heap \<Rightarrow> entry list \<Rightarrow> bool" where
  "expired_ok mem h xs \<longleftrightarrow> distinct (map snd xs) \<and>
     (\<forall>x \<in> set xs. snd x < UINTPTR_MAX \<and> mem (snd x) \<noteq> None \<and> snd x \<notin> snd ` set (th_timers h))"

text \<open>Restarting the timer at \<open>a\<close> gives it the valid expiration \<open>next_exp\<close>.\<close>

definition restarts :: "timer_mem \<Rightarrow> addr \<Rightarrow> bool" where
  "restarts mem a = (case mem a of None \<Rightarrow> False | Some t \<Rightarrow> tm_repeat t \<and> tm_state t \<noteq> DELETED)"

definition next_exp :: "(rat \<Rightarrow> rat) \<Rightarrow> (addr \<Rightarrow> timestamp) \<Rightarrow> timer_mem \<Rightarrow> addr \<Rightarrow> timestamp res" where
  "next_exp rnd clk mem a = bind_res (deref mem a) (\<lambda>t. addTime rnd (clk a) (tm_interval t))"

definition clock_ok :: "(rat \<Rightarrow> rat) \<Rightarrow> (addr \<Rightarrow> timestamp) \<Rightarrow> timer_mem \<Rightarrow> entry list \<Rightarrow> bool" where
  "clock_ok rnd clk mem xs \<longleftrightarrow>
     (\<forall>x \<in> set xs. restarts mem (snd x) \<longrightarrow>
        (\<exists>e. next_exp rnd clk mem (snd x) = Inr e \<and> Timestamp_isvalid e))"

lemma heap_ok_upd:
  assumes "heap_ok mem h" and "a \<notin> snd ` set (th_timers h)"
  shows "heap_ok (mem(a := v)) h"
proof -
  have "entry_ok (mem(a := v)) x" if "x \<in> set (th_timers h)" for x
    using assms that by (subst entry_ok_upd_other) (auto simp: heap_ok_def)
  with assms(1) show ?thesis by (simp add: heap_ok_def)
qed

lemma expired_ok_ConsD:
  assumes "expired_ok mem h ((e, a) # xs)"
  shows "a < UINTPTR_MAX" "\<exists>t. mem a = Some t" "a \<notin> snd ` set (th_timers h)"
    "expired_ok (mem(a := v)) h xs" "a \<notin> snd ` set xs"
  using assms by (auto simp: expired_ok_def)

lemma expired_ok_insert:
  assumes "expired_ok mem h xs" and "set (th_timers h') \<subseteq> insert (e, a) (set (th_timers h))" and "a \<notin> snd ` set xs"
  shows "expired_ok mem h' xs"
proof -
  have "snd x \<notin> snd ` set (th_timers h')" if "x \<in> set xs" for x
  proof
    assume "snd x \<in> snd ` set (th_timers h')"
    then obtain y where "y \<in> set (th_timers h')" "snd x = snd y" by auto
    have "y = (e, a) \<or> y \<in> set (th_timers h)" using assms(2) \<open>y \<in> set (th_timers h')\<close> by blast
    then have "snd x = a \<or> snd x \<in> snd ` set (th_timers h)" using \<open>snd x = snd y\<close> by auto
    moreover have "snd x \<noteq> a" using assms(3) that by force
    ultimately show False using assms(1) that by (simp add: expired_ok_def)
  qed
  with assms(1) show ?thesis by (simp add: expired_ok_def)
qed

lemma clock_ok_Cons_upd:
  assumes "clock_ok rnd clk mem ((e, a) # xs)" and "a \<notin> snd ` set xs"
  shows "clock_ok rnd clk (mem(a := v)) xs"
proof -
  have "snd x \<noteq> a" if "x \<in> set xs" for x using assms(2) that by force
  then show ?thesis using assms(1) by (auto simp: clock_ok_def restarts_def next_exp_def deref_def)
qed

lemma add_restarted:
  assumes "heap_ok mem h" and "a \<notin> snd ` set (th_timers h)" and "a < UINTPTR_MAX"
    and "Timestamp_isvalid (tm_expiration t)"
  shows "\<exists>h'. TimerHeap_addTimer (mem(a := Some t)) h a = Inr (True, h') \<and>
     heap_ok (mem(a := Some t)) h' \<and>
     th_timers h' = sset_insert (th_timers h) (tm_expiration t, a)"
proof -
  have fresh: "(tm_expiration t, a) \<notin> set (th_timers h)" using assms(2) by force
  then obtain h' where h': "TimerHeap_addTimer (mem(a := Some t)) h a = Inr (True, h')"
    using assms(4) by (simp add: TimerHeap_addTimer_def Let_def)
  then show ?thesis
    using addTimer_ok(1) [OF heap_ok_upd [OF assms(1,2)] assms(3) h'] addTimer_timers [OF h'] by simp
qed

text \<open>
  The whole loop succeeds, keeps the heap well formed, deletes exactly the timers that
  do not restart, and files each restarted timer under its next expiration.
\<close>

lemma restart_loop_ok:
  assumes "heap_ok mem h" and "expired_ok mem h xs" and "clock_ok rnd clk mem xs"
  shows "\<exists>mem' h' out acc'. restart_loop rnd clk mem h xs acc = Inr (mem', h', out, acc') \<and>
     heap_ok mem' h' \<and>
     set (th_timers h') = set (th_timers h) \<union>
       {(e, a). a \<in> snd ` set xs \<and> restarts mem a \<and> next_exp rnd clk mem a = Inr e} \<and>
     (\<forall>a. mem' a = None \<longleftrightarrow> mem a = None \<or> (a \<in> snd ` set xs \<and> \<not> restarts mem a))"
  using assms
proof (induction xs arbitrary: mem h acc)
  case Nil
  then show ?case by simp
next
  case (Cons x xs)
  obtain e a where x: "x = (e, a)" by (cases x)
  note ex = expired_ok_ConsD [OF Cons.prems(2) [unfolded x]]
  obtain t where t: "mem a = Some t" using ex(2) by blast
  note clk = clock_ok_Cons_upd [OF Cons.prems(3) [unfolded x] ex(5)]
  define A where "A = snd ` set xs"
  have aA: "a \<notin> A" using ex(5) by (simp add: A_def)
  have same: "{(e, b). b \<in> A \<and> restarts (mem(a := v)) b \<and> next_exp rnd clk (mem(a := v)) b = Inr e}
      = {(e, b). b \<in> A \<and> restarts mem b \<and> next_exp rnd clk mem b = Inr e}"
    "(b \<in> A \<and> \<not> restarts (mem(a := v)) b) = (b \<in> A \<and> \<not> restarts mem b)" for v b
    using aA by (auto simp: restarts_def next_exp_def deref_def)
  have xA: "snd ` set (x # xs) = insert a A" by (simp add: x A_def)
  show ?case
  proof (cases "restarts mem a")
    case True
    then have rep: "tm_repeat t" "tm_state t \<noteq> DELETED" using t by (auto simp: restarts_def)
    from Cons.prems(3) True x obtain e' where e': "next_exp rnd clk mem a = Inr e'" "Timestamp_isvalid e'"
      by (auto simp: clock_ok_def)
    let ?t' = "t\<lparr>tm_expiration := e'\<rparr>" let ?mem = "mem(a := Some (t\<lparr>tm_expiration := e'\<rparr>))"
    have restart: "Timer_restart rnd t (clk a) = Inr ?t'"
      using e'(1) t rep by (simp add: Timer_restart_def next_exp_def)
    obtain h1 where h1: "TimerHeap_addTimer ?mem h a = Inr (True, h1)" "heap_ok ?mem h1"
      "th_timers h1 = sset_insert (th_timers h) (e', a)"
      using add_restarted [OF Cons.prems(1) ex(3,1), of ?t'] e'(2) by auto
    have "expired_ok ?mem h1 xs"
      by (rule expired_ok_insert [where e = e', OF ex(4) _ ex(5)]) (simp add: h1(3))
    from Cons.IH [OF h1(2) this clk, of "acc \<or> th_change h1"] obtain mem' h' out acc' where
      r: "restart_loop rnd clk ?mem h1 xs (acc \<or> th_change h1) = Inr (mem', h', out, acc')"
        "heap_ok mem' h'"
        "set (th_timers h') = set (th_timers h1) \<union>
           {(e, b). b \<in> snd ` set xs \<and> restarts ?mem b \<and> next_exp rnd clk ?mem b = Inr e}"
        "\<forall>b. mem' b = None \<longleftrightarrow> ?mem b = None \<or> (b \<in> snd ` set xs \<and> \<not> restarts ?mem b)"
      by blast
    have "set (th_timers h') = set (th_timers h) \<union>
       {(e, b). b \<in> snd ` set (x # xs) \<and> restarts mem b \<and> next_exp rnd clk mem b = Inr e}"
      unfolding r(3) h1(3) xA A_def [symmetric] same using e'(1) True by auto
    moreover have "\<forall>b. mem' b = None \<longleftrightarrow> mem b = None \<or> (b \<in> snd ` set (x # xs) \<and> \<not> restarts mem b)"
      unfolding r(4) [rule_format] xA A_def [symmetric] same using t True by auto
    ultimately show ?thesis using r(1,2) x t rep restart h1(1) by auto
  next
    case False
    then have no: "\<not> (tm_repeat t \<and> tm_state t \<noteq> DELETED)" using t by (auto simp: restarts_def)
    from Cons.IH [OF heap_ok_upd [where v = None, OF Cons.prems(1) ex(3)] ex(4) [where v = None] clk [where v = None], of acc]
    obtain mem' h' out acc' where
      r: "restart_loop rnd clk (mem(a := None)) h xs acc = Inr (mem', h', out, acc')"
        "heap_ok mem' h'"
        "set (th_timers h') = set (th_timers h) \<union>
           {(e, b). b \<in> snd ` set xs \<and> restarts (mem(a := None)) b \<and> next_exp rnd clk (mem(a := None)) b = Inr e}"
        "\<forall>b. mem' b = None \<longleftrightarrow> (mem(a := None)) b = None \<or> (b \<in> snd ` set xs \<and> \<not> restarts (mem(a := None)) b)"
      by blast
    have "set (th_timers h') = set (th_timers h) \<union>
       {(e, b). b \<in> snd ` set (x # xs) \<and> restarts mem b \<and> next_exp rnd clk mem b = Inr e}"
      unfolding r(3) xA A_def [symmetric] same using False by auto
    moreover have "\<forall>b. mem' b = None \<longleftrightarrow> mem b = None \<or> (b \<in> snd ` set (x # xs) \<and> \<not> restarts mem b)"
      unfolding r(4) [rule_format] xA A_def [symmetric] same using t False by auto
    ultimately show ?thesis using r(1,2) x t no by auto
  qed
qed

text \<open>
  What the loop tells about the earliest timer. If it reports no change,
  \<open>th_earliest\<close> is as before; if it restarted anything, \<open>th_earliest\<close> heads the set.
\<close>

lemma restart_loop_no_change:
  "restart_loop rnd clk mem h xs acc = Inr (mem', h', out, acc') \<Longrightarrow> \<not> acc' \<Longrightarrow>
   \<not> acc \<and> th_earliest h' = th_earliest h"
proof (induction rnd clk mem h xs acc arbitrary: mem' h' out acc' rule: restart_loop.induct)
  case (2 rnd clk mem h e a expired acc)
  from "2.prems"(1) obtain t where t: "mem a = Some t" by (auto simp: res_simps)
  show ?case
  proof (cases "tm_repeat t \<and> tm_state t \<noteq> DELETED")
    case True
    with "2.prems" t obtain t' added h1 out1 where
      s: "Timer_restart rnd t (clk a) = Inr t'"
        "TimerHeap_addTimer (mem(a := Some t')) h a = Inr (added, h1)"
        "restart_loop rnd clk (mem(a := Some t')) h1 expired (acc \<or> th_change h1) = Inr (mem', h', out1, acc')"
      by (auto simp: res_simps)
    from "2.IH"(1) [OF _ True s(1,2) refl s(3) "2.prems"(2)] t
    have IH: "\<not> acc \<and> \<not> th_change h1 \<and> th_earliest h' = th_earliest h1" by simp
    have "th_earliest h1 = th_earliest h"
      using addTimer_change(1) [of "mem(a := Some t')" h a h1] s(2) IH
      by (cases added) (auto simp: TimerHeap_addTimer_def Let_def res_simps split: if_splits)
    with IH show ?thesis by simp
  next
    case False
    with "2.prems" t obtain out1 where
      "restart_loop rnd clk (mem(a := None)) h expired acc = Inr (mem', h', out1, acc')"
      by (auto simp: res_simps)
    from "2.IH"(2) [OF _ False this "2.prems"(2)] t show ?thesis by simp
  qed
qed simp

end
