(* ===== verification/Timers_Scheduler.thy ===== *)
theory Timers_Scheduler
  imports Timer_Heap
begin

text \<open>
  \<open>src/base/TimersScheduler.h\<close> and \<open>TimersScheduler.cpp\<close>: the component that owns the
  timer heap and one kernel timer (\<open>timerfd\<close>). The kernel timer is part of the state:
  the relative value it was last armed with, the clock at that moment, and whether its
  descriptor is readable. What a call reads from outside is the argument \<open>sched_env\<close>.
  A timer callback may do anything to the scheduler: it is a function on its state.
  Lemmas: the invariant \<open>sched_ok\<close> is kept by every operation, the timer is armed for
  the earliest expiration, and what one expiry does.
\<close>

section \<open>State and environment\<close>

record itimerspec =
  it_interval_sec :: int
  it_interval_nsec :: int
  it_value_sec :: int
  it_value_nsec :: int

record sched =
  ts_mem :: timer_mem
  ts_heap :: timer_heap
  ts_expired :: "entry list"
  ts_running :: bool
  ts_armed :: "(timestamp \<times> itimerspec) option"
  ts_readable :: bool

text \<open>Whether the caller is the owner thread, the clock that \<open>calculateTimerfdNewValue\<close>
  reads, whether \<open>timerfd_settime\<close> succeeds, the rounding of \<open>addTime\<close>, and the clock
  at the restart of each timer.\<close>

record sched_env =
  se_own :: bool
  se_now :: timestamp
  se_settime :: bool
  se_rnd :: "rat \<Rightarrow> rat"
  se_clk :: "addr \<Rightarrow> timestamp"

section \<open>Operations\<close>

definition TimersScheduler_new :: "timer_mem \<Rightarrow> sched" where
  "TimersScheduler_new mem =
     \<lparr>ts_mem = mem, ts_heap = TimerHeap_new, ts_expired = [], ts_running = False,
      ts_armed = None, ts_readable = False\<rparr>"

definition calculateTimerfdNewValue :: "timestamp \<Rightarrow> timestamp \<Rightarrow> itimerspec res" where
  "calculateTimerfdNewValue now earlist =
     bind_res (i64 (usec earlist - usec now)) (\<lambda>diff.
     let microseconds = if diff < 100 then 100 else diff
     in Inr \<lparr>it_interval_sec = 0, it_interval_nsec = 0,
             it_value_sec = c_div microseconds kMicroSecondsPerSecond,
             it_value_nsec = c_mod microseconds kMicroSecondsPerSecond * 1000\<rparr>)"

text \<open>Setting the kernel timer clears the expirations it counted.\<close>

definition TimersScheduler_resetTimer :: "sched_env \<Rightarrow> sched \<Rightarrow> timestamp \<Rightarrow> (bool \<times> sched) res" where
  "TimersScheduler_resetTimer env s earlist =
     bind_res (calculateTimerfdNewValue (se_now env) earlist) (\<lambda>newvalue.
     if se_settime env
     then Inr (True, s\<lparr>ts_armed := Some (se_now env, newvalue), ts_readable := False\<rparr>)
     else Inr (False, s))"

definition TimersScheduler_addTimer :: "sched_env \<Rightarrow> sched \<Rightarrow> addr \<Rightarrow> (bool \<times> sched) res" where
  "TimersScheduler_addTimer env s a =
     (if \<not> se_own env then Inl AssertFailed
      else bind_res (deref (ts_mem s) a) (\<lambda>t.
        if ts_running s \<and> (tm_expiration t, a) \<in> set (ts_expired s) then Inr (False, s)
        else bind_res (TimerHeap_addTimer (ts_mem s) (ts_heap s) a) (\<lambda>(added, h).
          if TimerHeap_getEarlistChange h
          then bind_res (TimerHeap_getEarlistExpiration (ts_mem s) h) (\<lambda>earlist.
               TimersScheduler_resetTimer env (s\<lparr>ts_heap := h\<rparr>) earlist)
          else Inr (True, s\<lparr>ts_heap := h\<rparr>))))"

definition TimersScheduler_delTimer :: "sched_env \<Rightarrow> sched \<Rightarrow> addr \<Rightarrow> sched res" where
  "TimersScheduler_delTimer env s a =
     (if \<not> se_own env then Inl AssertFailed
      else bind_res (deref (ts_mem s) a) (\<lambda>t.
        if ts_running s \<and> (tm_expiration t, a) \<in> set (ts_expired s)
        then Inr (s\<lparr>ts_mem := (ts_mem s)(a := Some (Timer_setState t DELETED))\<rparr>)
        else bind_res (TimerHeap_delTimer (ts_mem s) (ts_heap s) a) (\<lambda>(mem, h).
          if TimerHeap_getEarlistChange h
          then bind_res (TimerHeap_getEarlistExpiration mem h) (\<lambda>earlist.
               bind_res (TimersScheduler_resetTimer env (s\<lparr>ts_mem := mem, ts_heap := h\<rparr>) earlist)
                 (\<lambda>(ok, s'). Inr s'))
          else Inr (s\<lparr>ts_mem := mem, ts_heap := h\<rparr>))))"

text \<open>The expired timers run in order, except those deleted meanwhile.\<close>

fun run_expired :: "(addr \<Rightarrow> sched \<Rightarrow> sched res) \<Rightarrow> sched \<Rightarrow> entry list \<Rightarrow> sched res" where
  "run_expired cb s [] = Inr s"
| "run_expired cb s ((e, a) # xs) =
     bind_res (deref (ts_mem s) a) (\<lambda>t.
     if tm_state t \<noteq> DELETED then bind_res (cb a s) (\<lambda>s'. run_expired cb s' xs)
     else run_expired cb s xs)"

definition TimersScheduler_handdleRead ::
    "(addr \<Rightarrow> sched \<Rightarrow> sched res) \<Rightarrow> sched_env \<Rightarrow> timestamp \<Rightarrow> sched \<Rightarrow> sched res" where
  "TimersScheduler_handdleRead cb env now s =
     (if \<not> se_own env then Inl AssertFailed
      else bind_res (TimerHeap_getExpiredTimers (ts_heap s) (ts_expired s) now) (\<lambda>(expired, h).
        bind_res (run_expired cb (s\<lparr>ts_heap := h, ts_expired := expired, ts_running := True\<rparr>) expired) (\<lambda>s1.
        bind_res (TimerHeap_restartIntervalTimer (se_rnd env) (se_clk env) (ts_mem s1) (ts_heap s1) (ts_expired s1))
          (\<lambda>(mem, h', out).
        let s2 = s1\<lparr>ts_mem := mem, ts_heap := h', ts_running := False\<rparr> in
        if TimerHeap_getEarlistChange h'
        then bind_res (TimerHeap_getEarlistExpiration mem h') (\<lambda>earlist.
             bind_res (TimersScheduler_resetTimer env s2 earlist) (\<lambda>(ok, s3). Inr (s3\<lparr>ts_expired := []\<rparr>)))
        else Inr (s2\<lparr>ts_expired := []\<rparr>)))))"

definition TimersScheduler_destroy :: "sched \<Rightarrow> timer_mem" where
  "TimersScheduler_destroy s =
     TimerHeap_destroy (\<lambda>a. if a \<in> snd ` set (ts_expired s) then None else ts_mem s a) (ts_heap s)"

lemmas sched_defs =
  TimersScheduler_addTimer_def TimersScheduler_delTimer_def TimersScheduler_handdleRead_def
  TimersScheduler_resetTimer_def

section \<open>The value of the kernel timer\<close>

lemma calculate_ok:
  assumes "i64_range (usec earlist - usec now)"
  shows "\<exists>v. calculateTimerfdNewValue now earlist = Inr v \<and>
     it_interval_sec v = 0 \<and> it_interval_nsec v = 0 \<and>
     0 \<le> it_value_sec v \<and> 0 \<le> it_value_nsec v \<and> it_value_nsec v < 10 ^ 9 \<and>
     it_value_sec v * 10 ^ 9 + it_value_nsec v = 1000 * max 100 (usec earlist - usec now)"
proof -
  define us where "us = (if usec earlist - usec now < 100 then 100 else usec earlist - usec now)"
  have us: "0 \<le> us" "us = max 100 (usec earlist - usec now)" by (auto simp: us_def max_def)
  have "us div 1000000 * 1000000000 + us mod 1000000 * 1000 = 1000 * us"
    using div_mult_mod_eq [of us 1000000] by linarith
  moreover have "us mod 1000000 * 1000 < 10 ^ 9" using pos_mod_bound [of 1000000 us] by simp
  ultimately show ?thesis using us assms
    by (simp add: calculateTimerfdNewValue_def i64_def Let_def us_def [symmetric]
        kMicroSecondsPerSecond_def c_div_nonneg c_mod_nonneg)
qed

text \<open>The time for which the kernel timer is armed, in nanoseconds of the clock.\<close>

definition armed_until :: "sched \<Rightarrow> int option" where
  "armed_until s = (case ts_armed s of None \<Rightarrow> None
     | Some (t, v) \<Rightarrow> Some (1000 * usec t + (it_value_sec v * 10 ^ 9 + it_value_nsec v)))"

lemma resetTimer_armed:
  assumes "TimersScheduler_resetTimer env s e = Inr (ok, s')"
  shows "ok \<longleftrightarrow> se_settime env"
    and "ts_mem s' = ts_mem s" "ts_heap s' = ts_heap s" "ts_expired s' = ts_expired s"
      "ts_running s' = ts_running s"
    and "ok \<Longrightarrow> armed_until s' = Some (1000 * max (usec (se_now env) + 100) (usec e)) \<and> \<not> ts_readable s'"
    and "\<not> ok \<Longrightarrow> s' = s"
proof -
  from assms have rng: "i64_range (usec e - usec (se_now env))"
    by (auto simp: TimersScheduler_resetTimer_def calculateTimerfdNewValue_def i64_def res_simps split: if_splits)
  from calculate_ok [OF this] obtain v where v: "calculateTimerfdNewValue (se_now env) e = Inr v"
    "it_value_sec v * 10 ^ 9 + it_value_nsec v = 1000 * max 100 (usec e - usec (se_now env))" by blast
  show "ok \<longleftrightarrow> se_settime env" "ts_mem s' = ts_mem s" "ts_heap s' = ts_heap s"
    "ts_expired s' = ts_expired s" "ts_running s' = ts_running s" "\<not> ok \<Longrightarrow> s' = s"
    using assms v(1) by (auto simp: TimersScheduler_resetTimer_def split: if_splits)
  show "ok \<Longrightarrow> armed_until s' = Some (1000 * max (usec (se_now env) + 100) (usec e)) \<and> \<not> ts_readable s'"
    using assms v by (auto simp: TimersScheduler_resetTimer_def armed_until_def max_def split: if_splits)
qed

section \<open>The invariant\<close>

text \<open>
  The heap is well formed; outside an expiry nothing is listed as expired, and during
  one the expired entries are live timers under their own expiration, not pending.
  Once a timer has been added a wake-up is outstanding: the descriptor is readable or
  the kernel timer is armed.
\<close>

definition expired_entries_ok :: "sched \<Rightarrow> bool" where
  "expired_entries_ok s \<longleftrightarrow> expired_ok (ts_mem s) (ts_heap s) (ts_expired s) \<and>
     (\<forall>x \<in> set (ts_expired s). entry_ok (ts_mem s) x)"

definition wake_ok :: "sched \<Rightarrow> bool" where
  "wake_ok s \<longleftrightarrow> (th_timers (ts_heap s) \<noteq> [] \<longrightarrow> th_earliest (ts_heap s) \<noteq> None) \<and>
     (th_earliest (ts_heap s) \<noteq> None \<longrightarrow> ts_readable s \<or> ts_armed s \<noteq> None)"

definition sched_ok :: "sched \<Rightarrow> bool" where
  "sched_ok s \<longleftrightarrow> heap_ok (ts_mem s) (ts_heap s) \<and> expired_entries_ok s \<and>
     (\<not> ts_running s \<longrightarrow> ts_expired s = [])"

lemma sched_ok_new: "sched_ok (TimersScheduler_new mem)" "wake_ok (TimersScheduler_new mem)"
  by (simp_all add: sched_ok_def wake_ok_def TimersScheduler_new_def heap_ok_new expired_entries_ok_def
      expired_ok_def) (simp add: TimerHeap_new_def)


lemma sched_ok_cong:
  assumes "sched_ok s" and "ts_mem s' = ts_mem s" "ts_heap s' = ts_heap s" "ts_expired s' = ts_expired s"
    "ts_running s' = ts_running s"
  shows "sched_ok s'"
  using assms by (simp add: sched_ok_def expired_entries_ok_def)

lemma not_expired:
  assumes "sched_ok s" and "ts_mem s a = Some t"
    and "\<not> (ts_running s \<and> (tm_expiration t, a) \<in> set (ts_expired s))"
  shows "a \<notin> snd ` set (ts_expired s)"
proof
  assume "a \<in> snd ` set (ts_expired s)"
  then obtain e where e: "(e, a) \<in> set (ts_expired s)" by force
  then have "entry_ok (ts_mem s) (e, a)" "ts_running s"
    using assms(1) by (auto simp: sched_ok_def expired_entries_ok_def)
  with e assms(2,3) show False by (simp add: entry_ok_def)
qed

text \<open>What \<open>addTimer\<close> did, if it returned.\<close>

lemma addTimer_cases:
  assumes "TimersScheduler_addTimer env s a = Inr (ok, s')"
  obtains (listed) t where "ts_mem s a = Some t" "ts_running s" "(tm_expiration t, a) \<in> set (ts_expired s)"
      "s' = s" "\<not> ok"
  | (quiet) t added h where "ts_mem s a = Some t"
      "\<not> (ts_running s \<and> (tm_expiration t, a) \<in> set (ts_expired s))"
      "TimerHeap_addTimer (ts_mem s) (ts_heap s) a = Inr (added, h)" "\<not> th_change h"
      "s' = s\<lparr>ts_heap := h\<rparr>" "ok"
  | (rearmed) t added h e where "ts_mem s a = Some t"
      "\<not> (ts_running s \<and> (tm_expiration t, a) \<in> set (ts_expired s))"
      "TimerHeap_addTimer (ts_mem s) (ts_heap s) a = Inr (added, h)" "th_change h"
      "TimerHeap_getEarlistExpiration (ts_mem s) h = Inr e"
      "TimersScheduler_resetTimer env (s\<lparr>ts_heap := h\<rparr>) e = Inr (ok, s')"
proof -
  from assms obtain t where t: "ts_mem s a = Some t"
    by (auto simp: TimersScheduler_addTimer_def res_simps split: if_splits)
  show ?thesis
  proof (cases "ts_running s \<and> (tm_expiration t, a) \<in> set (ts_expired s)")
    case True
    with assms t show ?thesis by (intro listed [of t]) (auto simp: TimersScheduler_addTimer_def split: if_splits)
  next
    case False
    with assms t obtain added h where h: "TimerHeap_addTimer (ts_mem s) (ts_heap s) a = Inr (added, h)"
      by (auto simp: TimersScheduler_addTimer_def res_simps split: if_splits)
    show ?thesis
    proof (cases "th_change h")
      case True
      with False assms t h obtain e where e: "TimerHeap_getEarlistExpiration (ts_mem s) h = Inr e"
        "TimersScheduler_resetTimer env (s\<lparr>ts_heap := h\<rparr>) e = Inr (ok, s')"
        by (auto simp: TimersScheduler_addTimer_def TimerHeap_getEarlistChange_def res_simps split: if_splits)
      show ?thesis by (rule rearmed [OF t False h True e])
    next
      case no: False
      with False assms t h show ?thesis
        by (intro quiet [of t added h])
          (auto simp: TimersScheduler_addTimer_def TimerHeap_getEarlistChange_def split: if_splits)
    qed
  qed
qed

lemma sched_ok_add_heap:
  assumes "sched_ok s" and "ts_mem s a = Some t" and "a < UINTPTR_MAX"
    and "\<not> (ts_running s \<and> (tm_expiration t, a) \<in> set (ts_expired s))"
    and "TimerHeap_addTimer (ts_mem s) (ts_heap s) a = Inr (added, h)"
  shows "sched_ok (s\<lparr>ts_heap := h\<rparr>)"
proof -
  have hp: "heap_ok (ts_mem s) (ts_heap s)" using assms(1) by (simp add: sched_ok_def)
  note h = addTimer_ok [OF hp assms(3,5)]
  have sub: "set (th_timers h) \<subseteq> insert (tm_expiration t, a) (set (th_timers (ts_heap s)))"
    using h(2) assms(2) by auto
  have ex: "expired_ok (ts_mem s) (ts_heap s) (ts_expired s)"
    using assms(1) by (simp add: sched_ok_def expired_entries_ok_def)
  have "expired_ok (ts_mem s) h (ts_expired s)"
    by (rule expired_ok_insert [OF ex sub not_expired [OF assms(1,2,4)]])
  with h(1) assms(1) show ?thesis by (simp add: sched_ok_def expired_entries_ok_def)
qed

lemma addTimer_sched_ok:
  assumes "sched_ok s" and "a < UINTPTR_MAX" and "TimersScheduler_addTimer env s a = Inr (ok, s')"
  shows "sched_ok s'"
  using assms(3)
proof (cases rule: addTimer_cases)
  case listed
  with assms(1) show ?thesis by simp
next
  case quiet
  with sched_ok_add_heap [OF assms(1) quiet(1) assms(2) quiet(2,3)] show ?thesis by simp
next
  case rearmed
  from sched_ok_cong [OF sched_ok_add_heap [OF assms(1) rearmed(1) assms(2) rearmed(2,3)]]
    resetTimer_armed(2-5) [OF rearmed(6)] show ?thesis by simp
qed

lemma delTimer_cases:
  assumes "TimersScheduler_delTimer env s a = Inr s'"
  obtains (listed) t where "ts_mem s a = Some t" "ts_running s" "(tm_expiration t, a) \<in> set (ts_expired s)"
      "s' = s\<lparr>ts_mem := (ts_mem s)(a := Some (Timer_setState t DELETED))\<rparr>"
  | (quiet) t mem h where "ts_mem s a = Some t"
      "\<not> (ts_running s \<and> (tm_expiration t, a) \<in> set (ts_expired s))"
      "TimerHeap_delTimer (ts_mem s) (ts_heap s) a = Inr (mem, h)" "\<not> th_change h"
      "s' = s\<lparr>ts_mem := mem, ts_heap := h\<rparr>"
  | (rearmed) t mem h e ok where "ts_mem s a = Some t"
      "\<not> (ts_running s \<and> (tm_expiration t, a) \<in> set (ts_expired s))"
      "TimerHeap_delTimer (ts_mem s) (ts_heap s) a = Inr (mem, h)" "th_change h"
      "TimerHeap_getEarlistExpiration mem h = Inr e"
      "TimersScheduler_resetTimer env (s\<lparr>ts_mem := mem, ts_heap := h\<rparr>) e = Inr (ok, s')"
proof -
  from assms obtain t where t: "ts_mem s a = Some t"
    by (auto simp: TimersScheduler_delTimer_def res_simps split: if_splits)
  show ?thesis
  proof (cases "ts_running s \<and> (tm_expiration t, a) \<in> set (ts_expired s)")
    case True
    with assms t show ?thesis by (intro listed [of t]) (auto simp: TimersScheduler_delTimer_def split: if_splits)
  next
    case False
    with assms t obtain mem h where h: "TimerHeap_delTimer (ts_mem s) (ts_heap s) a = Inr (mem, h)"
      by (auto simp: TimersScheduler_delTimer_def res_simps split: if_splits)
    show ?thesis
    proof (cases "th_change h")
      case True
      with False assms t h obtain e ok where e: "TimerHeap_getEarlistExpiration mem h = Inr e"
        "TimersScheduler_resetTimer env (s\<lparr>ts_mem := mem, ts_heap := h\<rparr>) e = Inr (ok, s')"
        by (auto simp: TimersScheduler_delTimer_def TimerHeap_getEarlistChange_def res_simps split: if_splits)
      show ?thesis by (rule rearmed [OF t False h True e])
    next
      case no: False
      with False assms t h show ?thesis
        by (intro quiet [of t mem h])
          (auto simp: TimersScheduler_delTimer_def TimerHeap_getEarlistChange_def split: if_splits)
    qed
  qed
qed

lemma delTimer_set:
  assumes "TimerHeap_delTimer mem h a = Inr (mem', h')"
  shows "set (th_timers h') \<subseteq> set (th_timers h)" "b \<noteq> a \<Longrightarrow> mem' b = mem b"
  using assms by (auto simp: TimerHeap_delTimer_def Let_def res_simps split: if_splits)

lemma expired_ok_cong:
  assumes "expired_ok mem h xs" and "\<forall>x \<in> set xs. mem' (snd x) \<noteq> None"
    and "set (th_timers h') \<subseteq> set (th_timers h)"
  shows "expired_ok mem' h' xs"
proof -
  from assms(3) have sub: "snd ` set (th_timers h') \<subseteq> snd ` set (th_timers h)" by (rule image_mono)
  have "snd x < UINTPTR_MAX \<and> mem' (snd x) \<noteq> None \<and> snd x \<notin> snd ` set (th_timers h')"
    if "x \<in> set xs" for x
    using assms(1,2) that subsetD [OF sub, of "snd x"] unfolding expired_ok_def by blast
  with assms(1) show ?thesis unfolding expired_ok_def by blast
qed

lemma sched_ok_del_heap:
  assumes "sched_ok s" and "ts_mem s a = Some t"
    and "\<not> (ts_running s \<and> (tm_expiration t, a) \<in> set (ts_expired s))"
    and "TimerHeap_delTimer (ts_mem s) (ts_heap s) a = Inr (mem, h)"
  shows "sched_ok (s\<lparr>ts_mem := mem, ts_heap := h\<rparr>)"
proof -
  have hp: "heap_ok (ts_mem s) (ts_heap s)"
    and ex: "expired_ok (ts_mem s) (ts_heap s) (ts_expired s)"
    and en: "\<forall>x \<in> set (ts_expired s). entry_ok (ts_mem s) x"
    using assms(1) by (simp_all add: sched_ok_def expired_entries_ok_def)
  have mem: "mem (snd x) = ts_mem s (snd x)" if "x \<in> set (ts_expired s)" for x
    using not_expired [OF assms(1,2,3)] that by (intro delTimer_set(2) [OF assms(4)]) auto
  have "expired_ok mem h (ts_expired s)"
    using mem ex by (intro expired_ok_cong [OF ex _ delTimer_set(1) [OF assms(4)]])
      (simp add: expired_ok_def)
  moreover have "\<forall>x \<in> set (ts_expired s). entry_ok mem x" using en mem by (simp add: entry_ok_def)
  ultimately show ?thesis using delTimer_ok [OF hp assms(4)] assms(1)
    by (simp add: sched_ok_def expired_entries_ok_def)
qed

lemma sched_ok_mark:
  assumes "sched_ok s" and "ts_mem s a = Some t" and "tm_expiration t' = tm_expiration t"
  shows "sched_ok (s\<lparr>ts_mem := (ts_mem s)(a := Some t')\<rparr>)"
proof -
  have same: "entry_ok ((ts_mem s)(a := Some t')) x = entry_ok (ts_mem s) x" for x
    using assms(2,3) by (auto simp: entry_ok_def)
  have ex: "expired_ok (ts_mem s) (ts_heap s) (ts_expired s)"
    using assms(1) by (simp add: sched_ok_def expired_entries_ok_def)
  then have "\<forall>x \<in> set (ts_expired s). ((ts_mem s)(a := Some t')) (snd x) \<noteq> None"
    by (simp add: expired_ok_def)
  then have "expired_ok ((ts_mem s)(a := Some t')) (ts_heap s) (ts_expired s)"
    by (rule expired_ok_cong [OF ex _ subset_refl])
  then show ?thesis
    using assms(1) by (simp add: sched_ok_def expired_entries_ok_def heap_ok_def same del: fun_upd_apply)
qed

lemma delTimer_sched_ok:
  assumes "sched_ok s" and "TimersScheduler_delTimer env s a = Inr s'"
  shows "sched_ok s'"
  using assms(2)
proof (cases rule: delTimer_cases)
  case (listed t)
  with sched_ok_mark [OF assms(1) listed(1), of "Timer_setState t DELETED"] show ?thesis
    by (simp add: Timer_setState_def)
next
  case quiet
  with sched_ok_del_heap [OF assms(1) quiet(1-3)] show ?thesis by simp
next
  case rearmed
  from sched_ok_cong [OF sched_ok_del_heap [OF assms(1) rearmed(1-3)]]
    resetTimer_armed(2-5) [OF rearmed(6)] show ?thesis by simp
qed

section \<open>Wake-ups\<close>

lemma addTimer_quiet_earliest:
  assumes "TimerHeap_addTimer mem h a = Inr (added, h')" and "\<not> th_change h'"
  shows "th_earliest h' = th_earliest h" "added \<Longrightarrow> th_earliest h \<noteq> None"
    "\<not> added \<Longrightarrow> h' = h"
  using assms by (auto simp: TimerHeap_addTimer_def Let_def res_simps split: if_splits)

lemma getEarlist_not_None:
  "TimerHeap_getEarlistExpiration mem h = Inr e \<Longrightarrow> th_earliest h \<noteq> None"
  by (auto simp: TimerHeap_getEarlistExpiration_def split: option.splits)

lemma resetTimer_wake:
  assumes "TimersScheduler_resetTimer env s e = Inr (ok, s')" and "se_settime env"
    and "th_earliest (ts_heap s) \<noteq> None"
  shows "wake_ok s'"
  using assms by (auto simp: TimersScheduler_resetTimer_def res_simps wake_ok_def)

lemma addTimer_wake_ok:
  assumes "wake_ok s" and "se_settime env" and "TimersScheduler_addTimer env s a = Inr (ok, s')"
  shows "wake_ok s'"
  using assms(3)
proof (cases rule: addTimer_cases)
  case listed
  with assms(1) show ?thesis by simp
next
  case (quiet t added h)
  from addTimer_quiet_earliest [OF quiet(3,4)] assms(1) quiet(5) show ?thesis
    by (cases added) (auto simp: wake_ok_def)
next
  case rearmed
  from resetTimer_wake [OF rearmed(6) assms(2)] getEarlist_not_None [OF rearmed(5)] show ?thesis by simp
qed

lemma delTimer_quiet_earliest:
  assumes "TimerHeap_delTimer mem h a = Inr (mem', h')" and "\<not> th_change h'"
  shows "th_earliest h' = th_earliest h" "th_timers h' \<noteq> [] \<Longrightarrow> th_timers h \<noteq> []"
  using assms by (auto simp: TimerHeap_delTimer_def Let_def res_simps split: if_splits)

lemma delTimer_wake_ok:
  assumes "wake_ok s" and "se_settime env" and "TimersScheduler_delTimer env s a = Inr s'"
  shows "wake_ok s'"
  using assms(3)
proof (cases rule: delTimer_cases)
  case listed
  with assms(1) show ?thesis by (simp add: wake_ok_def)
next
  case (quiet t mem h)
  from delTimer_quiet_earliest [OF quiet(3,4)] assms(1) quiet(5) show ?thesis
    by (auto simp: wake_ok_def)
next
  case rearmed
  from resetTimer_wake [OF rearmed(6) assms(2)] getEarlist_not_None [OF rearmed(5)] show ?thesis by simp
qed

section \<open>One expiry\<close>

text \<open>\<open>th_earliest\<close> heads the set, and it is set once the set is not empty.\<close>

definition earliest_set :: "timer_heap \<Rightarrow> bool" where
  "earliest_set h \<longleftrightarrow> (th_timers h \<noteq> [] \<longrightarrow> th_earliest h \<noteq> None)"

definition earliest_heads :: "timer_heap \<Rightarrow> bool" where
  "earliest_heads h \<longleftrightarrow> th_timers h \<noteq> [] \<and> th_earliest h = Some (snd (hd (th_timers h)))"

lemma addTimer_heads:
  assumes "TimerHeap_addTimer mem h a = Inr (added, h')" and "a \<notin> snd ` set (th_timers h)"
    and "earliest_set h"
  shows "earliest_heads h'"
proof -
  from assms(1) obtain t where t: "mem a = Some t" by (auto simp: TimerHeap_addTimer_def res_simps)
  have fresh: "(tm_expiration t, a) \<notin> set (th_timers h)" using assms(2) by force
  show ?thesis
  proof (cases "th_earliest h")
    case None
    then have "th_timers h = []" using assms(3) by (simp add: earliest_set_def)
    with None assms(1) t show ?thesis
      by (auto simp: TimerHeap_addTimer_def Let_def earliest_heads_def split: if_splits)
  next
    case (Some b)
    with assms(1) t fresh show ?thesis
      by (auto simp: TimerHeap_addTimer_def Let_def earliest_heads_def split: if_splits)
  qed
qed

lemma heads_set: "earliest_heads h \<Longrightarrow> earliest_set h"
  by (simp add: earliest_heads_def earliest_set_def)

lemma addTimer_sub:
  assumes "TimerHeap_addTimer (mem(a := Some t)) h a = Inr (added, h')"
  shows "set (th_timers h') \<subseteq> insert (tm_expiration t, a) (set (th_timers h))"
  using assms by (auto simp: TimerHeap_addTimer_def Let_def split: if_splits)

lemma restart_loop_heads:
  "restart_loop rnd clk mem h xs acc = Inr (mem', h', out, acc') \<Longrightarrow> expired_ok mem h xs \<Longrightarrow>
   earliest_set h \<Longrightarrow> (acc \<longrightarrow> earliest_heads h) \<Longrightarrow>
   earliest_set h' \<and> (acc' \<longrightarrow> earliest_heads h')"
proof (induction rnd clk mem h xs acc arbitrary: mem' h' out acc' rule: restart_loop.induct)
  case (2 rnd clk mem h e a expired acc)
  from "2.prems"(1) obtain t where t: "mem a = Some t" by (auto simp: res_simps)
  note ex = expired_ok_ConsD [OF "2.prems"(2)]
  show ?case
  proof (cases "tm_repeat t \<and> tm_state t \<noteq> DELETED")
    case True
    with "2.prems"(1) t obtain t' added h1 out1 where
      s: "Timer_restart rnd t (clk a) = Inr t'"
        "TimerHeap_addTimer (mem(a := Some t')) h a = Inr (added, h1)"
        "restart_loop rnd clk (mem(a := Some t')) h1 expired (acc \<or> th_change h1) = Inr (mem', h', out1, acc')"
      by (auto simp: res_simps)
    have heads: "earliest_heads h1" by (rule addTimer_heads [OF s(2) ex(3) "2.prems"(3)])
    have "expired_ok (mem(a := Some t')) h1 expired"
      by (rule expired_ok_insert [OF ex(4) addTimer_sub [OF s(2)] ex(5)])
    from "2.IH"(1) [OF _ True s(1,2) refl s(3) this heads_set [OF heads]] t heads show ?thesis by simp
  next
    case False
    with "2.prems"(1) t obtain out1 where
      "restart_loop rnd clk (mem(a := None)) h expired acc = Inr (mem', h', out1, acc')"
      by (auto simp: res_simps)
    from "2.IH"(2) [OF _ False this ex(4) "2.prems"(3,4)] t show ?thesis by simp
  qed
qed simp

text \<open>The expirations of live timers are signed 64-bit numbers, as their type says.\<close>

definition mem_typed :: "timer_mem \<Rightarrow> bool" where
  "mem_typed mem \<longleftrightarrow> (\<forall>a t. mem a = Some t \<longrightarrow> i64_range (usec (tm_expiration t)))"

lemma mem_typed_upd:
  "mem_typed mem \<Longrightarrow> i64_range (usec (tm_expiration t)) \<Longrightarrow> mem_typed (mem(a := Some t))"
  "mem_typed mem \<Longrightarrow> mem_typed (mem(a := None))"
  by (simp_all add: mem_typed_def)

lemma restart_loop_typed:
  "restart_loop rnd clk mem h xs acc = Inr (mem', h', out, acc') \<Longrightarrow> mem_typed mem \<Longrightarrow> mem_typed mem'"
proof (induction rnd clk mem h xs acc arbitrary: mem' h' out acc' rule: restart_loop.induct)
  case (2 rnd clk mem h e a expired acc)
  from "2.prems"(1) obtain t where t: "mem a = Some t" by (auto simp: res_simps)
  show ?case
  proof (cases "tm_repeat t \<and> tm_state t \<noteq> DELETED")
    case True
    with "2.prems"(1) t obtain t' added h1 out1 where
      s: "Timer_restart rnd t (clk a) = Inr t'"
        "TimerHeap_addTimer (mem(a := Some t')) h a = Inr (added, h1)"
        "restart_loop rnd clk (mem(a := Some t')) h1 expired (acc \<or> th_change h1) = Inr (mem', h', out1, acc')"
      by (auto simp: res_simps)
    have "i64_range (usec (tm_expiration t'))"
      using s(1) True by (auto simp: Timer_restart_def res_simps dest: addTime_InrD)
    then have "mem_typed (mem(a := Some t'))" using "2.prems"(2) by (simp add: mem_typed_upd)
    from "2.IH"(1) [OF _ True s(1,2) refl s(3) this] t show ?thesis by simp
  next
    case False
    with "2.prems"(1) t obtain out1 where
      "restart_loop rnd clk (mem(a := None)) h expired acc = Inr (mem', h', out1, acc')"
      by (auto simp: res_simps)
    from "2.IH"(2) [OF _ False this mem_typed_upd(2) [OF "2.prems"(2)]] t show ?thesis by simp
  qed
qed simp

text \<open>What a callback finds and must leave: the invariant during an expiry.\<close>

definition expiry_inv :: "sched_env \<Rightarrow> sched \<Rightarrow> bool" where
  "expiry_inv env s \<longleftrightarrow> sched_ok s \<and> ts_running s \<and> earliest_set (ts_heap s) \<and>
     mem_typed (ts_mem s) \<and> clock_ok (se_rnd env) (se_clk env) (ts_mem s) (ts_expired s)"

lemma run_expired_ok:
  assumes cb: "\<And>a u. expiry_inv env u \<Longrightarrow>
      \<exists>u'. cb a u = Inr u' \<and> expiry_inv env u' \<and> ts_expired u' = ts_expired u"
    and "expiry_inv env s" and "set xs \<subseteq> set (ts_expired s)"
  shows "\<exists>s'. run_expired cb s xs = Inr s' \<and> expiry_inv env s' \<and> ts_expired s' = ts_expired s"
  using assms(2,3)
proof (induction xs arbitrary: s)
  case Nil
  then show ?case by simp
next
  case (Cons x xs)
  obtain e a where x: "x = (e, a)" by (cases x)
  from Cons.prems x have "entry_ok (ts_mem s) (e, a)"
    by (auto simp: expiry_inv_def sched_ok_def expired_entries_ok_def)
  then obtain t where t: "ts_mem s a = Some t" by (auto simp: entry_ok_def)
  from cb [OF Cons.prems(1)] obtain s1 where
    s1: "cb a s = Inr s1" "expiry_inv env s1" "ts_expired s1 = ts_expired s" by blast
  from Cons.IH [OF s1(2)] Cons.IH [OF Cons.prems(1)] Cons.prems(2) s1(1,3) show ?case
    by (auto simp: x t)
qed

text \<open>The state in which the callbacks of an expiry at time \<open>now\<close> run.\<close>

definition expiry_start :: "timestamp \<Rightarrow> sched \<Rightarrow> sched" where
  "expiry_start now s = s
     \<lparr>ts_heap := (ts_heap s)\<lparr>th_timers := filter (\<lambda>x. now < fst x) (th_timers (ts_heap s))\<rparr>,
      ts_expired := filter (\<lambda>x. fst x \<le> now) (th_timers (ts_heap s)), ts_running := True\<rparr>"

lemma filter_split:
  assumes "xs @ ys = zs" and "\<forall>x \<in> set xs. P x" and "\<forall>y \<in> set ys. \<not> P y"
  shows "filter P zs = xs" "filter (\<lambda>x. \<not> P x) zs = ys"
  using assms by (auto simp: filter_id_conv filter_empty_conv)

lemma getExpired_eq:
  assumes "heap_ok mem h"
  shows "TimerHeap_getExpiredTimers h [] now =
     Inr (filter (\<lambda>x. fst x \<le> now) (th_timers h), h\<lparr>th_timers := filter (\<lambda>x. now < fst x) (th_timers h)\<rparr>)"
    and "heap_ok mem (h\<lparr>th_timers := filter (\<lambda>x. now < fst x) (th_timers h)\<rparr>)"
proof -
  from getExpired_ok [OF assms, of "[]" now] obtain xs h' where
    h': "TimerHeap_getExpiredTimers h [] now = Inr (xs, h')" "xs @ th_timers h' = th_timers h"
      "\<forall>x \<in> set xs. fst x \<le> now" "\<forall>x \<in> set (th_timers h'). now < fst x"
      "heap_ok mem h'" "th_earliest h' = th_earliest h" "th_change h' = th_change h" by auto
  have "filter (\<lambda>x. fst x \<le> now) (th_timers h) = xs"
    "filter (\<lambda>x. now < fst x) (th_timers h) = th_timers h'"
    using filter_split [OF h'(2), of "\<lambda>x. fst x \<le> now"] h'(3,4) by (simp_all add: not_le)
  moreover have "h' = h\<lparr>th_timers := th_timers h'\<rparr>" using h'(6,7) by (cases h, cases h') simp
  ultimately show "TimerHeap_getExpiredTimers h [] now =
     Inr (filter (\<lambda>x. fst x \<le> now) (th_timers h), h\<lparr>th_timers := filter (\<lambda>x. now < fst x) (th_timers h)\<rparr>)"
    "heap_ok mem (h\<lparr>th_timers := filter (\<lambda>x. now < fst x) (th_timers h)\<rparr>)"
    using h'(1,5) by simp_all
qed

lemma expiry_start_inv:
  assumes "sched_ok s" and "\<not> ts_running s" and "earliest_set (ts_heap s)" and "mem_typed (ts_mem s)"
    and "clock_ok (se_rnd env) (se_clk env) (ts_mem s) (filter (\<lambda>x. fst x \<le> now) (th_timers (ts_heap s)))"
  shows "expiry_inv env (expiry_start now s)"
proof -
  have hp: "heap_ok (ts_mem s) (ts_heap s)" using assms(1) by (simp add: sched_ok_def)
  have dist: "distinct (map snd (th_timers (ts_heap s)))" by (rule heap_ok_distinct_addrs [OF hp])
  then have inj: "inj_on snd (set (th_timers (ts_heap s)))" by (simp add: distinct_map)
  have "snd x \<notin> snd ` set (filter (\<lambda>x. now < fst x) (th_timers (ts_heap s)))"
    if "x \<in> set (filter (\<lambda>x. fst x \<le> now) (th_timers (ts_heap s)))" for x
    using that inj by (auto simp: inj_on_def)
  then have "expired_entries_ok (expiry_start now s)"
    using hp dist by (auto simp: expired_entries_ok_def expired_ok_def expiry_start_def heap_ok_def
        entry_ok_def distinct_map_filter)
  moreover have "earliest_set (ts_heap (expiry_start now s))"
    using assms(3) by (auto simp: earliest_set_def expiry_start_def filter_empty_conv)
  ultimately show ?thesis using assms(4,5) getExpired_eq(2) [OF hp, of now]
    by (simp add: expiry_inv_def sched_ok_def expiry_start_def)
qed

lemma heads_entry:
  assumes "heap_ok mem h" and "earliest_heads h"
  shows "\<exists>e. TimerHeap_getEarlistExpiration mem h = Inr e \<and> e = fst (hd (th_timers h)) \<and> Timestamp_isvalid e"
proof -
  have "hd (th_timers h) \<in> set (th_timers h)" using assms(2) by (simp add: earliest_heads_def)
  then have "entry_ok mem (hd (th_timers h))" using assms(1) by (simp add: heap_ok_def)
  then show ?thesis using assms(2)
    by (auto simp: entry_ok_def TimerHeap_getEarlistExpiration_def earliest_heads_def)
qed

lemma i64_diff: "i64_range e \<Longrightarrow> 0 < e \<Longrightarrow> 0 \<le> n \<Longrightarrow> i64_range n \<Longrightarrow> i64_range (e - n)"
  by (simp add: i64_range_def)

text \<open>The timerfd can be set to the first of the entries that are left.\<close>

lemma resetTimer_total:
  assumes "heap_ok mem h" and "earliest_heads h" and "mem_typed mem"
    and now: "0 \<le> usec (se_now env)" "i64_range (usec (se_now env))"
  shows "\<exists>e ok s'. TimerHeap_getEarlistExpiration mem h = Inr e \<and> TimersScheduler_resetTimer env s e = Inr (ok, s') \<and>
    ts_mem s' = ts_mem s \<and> ts_heap s' = ts_heap s \<and> ts_running s' = ts_running s"
proof -
  from heads_entry [OF assms(1,2)] obtain e where
    e: "TimerHeap_getEarlistExpiration mem h = Inr e" "Timestamp_isvalid e" by blast
  then obtain b t where "mem b = Some t" "tm_expiration t = e"
    by (auto simp: TimerHeap_getEarlistExpiration_def res_simps split: option.splits)
  then have "i64_range (usec e)" using assms(3) by (auto simp: mem_typed_def)
  then have "i64_range (usec e - usec (se_now env))"
    using e(2) now by (intro i64_diff) (simp_all add: Timestamp_isvalid_def)
  from calculate_ok [OF this] obtain v where "calculateTimerfdNewValue (se_now env) e = Inr v" by blast
  with e(1) show ?thesis by (auto simp: TimersScheduler_resetTimer_def)
qed

lemma handdleRead_ok:
  assumes own: "se_own env" and now: "0 \<le> usec (se_now env)" "i64_range (usec (se_now env))"
    and s: "sched_ok s" "\<not> ts_running s" "earliest_set (ts_heap s)" "mem_typed (ts_mem s)"
    and clk: "clock_ok (se_rnd env) (se_clk env) (ts_mem s) (filter (\<lambda>x. fst x \<le> now) (th_timers (ts_heap s)))"
    and cb: "\<And>a u. expiry_inv env u \<Longrightarrow>
      \<exists>u'. cb a u = Inr u' \<and> expiry_inv env u' \<and> ts_expired u' = ts_expired u"
  shows "\<exists>s1 s'. run_expired cb (expiry_start now s) (ts_expired (expiry_start now s)) = Inr s1 \<and>
    TimersScheduler_handdleRead cb env now s = Inr s' \<and> sched_ok s' \<and> \<not> ts_running s' \<and>
    earliest_set (ts_heap s') \<and> mem_typed (ts_mem s') \<and>
    set (th_timers (ts_heap s')) = set (th_timers (ts_heap s1)) \<union>
      {(e, a). a \<in> snd ` set (ts_expired s1) \<and> restarts (ts_mem s1) a \<and>
               next_exp (se_rnd env) (se_clk env) (ts_mem s1) a = Inr e} \<and>
    (\<forall>a. ts_mem s' a = None \<longleftrightarrow> ts_mem s1 a = None \<or>
      (a \<in> snd ` set (ts_expired s1) \<and> \<not> restarts (ts_mem s1) a)) \<and>
    ts_expired s1 = filter (\<lambda>x. fst x \<le> now) (th_timers (ts_heap s))"
proof -
  let ?s0 = "expiry_start now s"
  have hp: "heap_ok (ts_mem s) (ts_heap s)" and none: "ts_expired s = []"
    using s(1,2) by (simp_all add: sched_ok_def)
  have s0: "expiry_inv env ?s0" by (rule expiry_start_inv [OF s clk])
  obtain s1 where s1: "run_expired cb ?s0 (ts_expired ?s0) = Inr s1" "expiry_inv env s1"
    "ts_expired s1 = ts_expired ?s0"
    using run_expired_ok [where cb = cb and env = env and s = "?s0", OF cb s0 subset_refl] by blast
  have inv: "heap_ok (ts_mem s1) (ts_heap s1)" "expired_ok (ts_mem s1) (ts_heap s1) (ts_expired s1)"
    "earliest_set (ts_heap s1)" "mem_typed (ts_mem s1)"
    "clock_ok (se_rnd env) (se_clk env) (ts_mem s1) (ts_expired s1)"
    using s1(2) by (simp_all add: expiry_inv_def sched_ok_def expired_entries_ok_def)
  obtain mem h out acc where
    l: "restart_loop (se_rnd env) (se_clk env) (ts_mem s1) (ts_heap s1) (ts_expired s1) False = Inr (mem, h, out, acc)"
      "heap_ok mem h"
      "set (th_timers h) = set (th_timers (ts_heap s1)) \<union>
        {(e, a). a \<in> snd ` set (ts_expired s1) \<and> restarts (ts_mem s1) a \<and>
                 next_exp (se_rnd env) (se_clk env) (ts_mem s1) a = Inr e}"
      "\<forall>a. mem a = None \<longleftrightarrow> ts_mem s1 a = None \<or>
        (a \<in> snd ` set (ts_expired s1) \<and> \<not> restarts (ts_mem s1) a)"
    using restart_loop_ok [OF inv(1,2,5), of False] by blast
  have heads: "earliest_set h" "acc \<longrightarrow> earliest_heads h"
    using restart_loop_heads [OF l(1) inv(2,3)] by simp_all
  have typed: "mem_typed mem" by (rule restart_loop_typed [OF l(1) inv(4)])
  let ?s2 = "s1\<lparr>ts_mem := mem, ts_heap := h\<lparr>th_change := acc\<rparr>, ts_running := False\<rparr>"
  have run: "run_expired cb (s\<lparr>ts_heap := (ts_heap s)\<lparr>th_timers := filter (\<lambda>x. now < fst x) (th_timers (ts_heap s))\<rparr>,
      ts_expired := filter (\<lambda>x. fst x \<le> now) (th_timers (ts_heap s)), ts_running := True\<rparr>)
      (filter (\<lambda>x. fst x \<le> now) (th_timers (ts_heap s))) = Inr s1"
    using s1(1) by (simp add: expiry_start_def)
  have step: "TimersScheduler_handdleRead cb env now s =
    (if acc then bind_res (TimerHeap_getEarlistExpiration mem (h\<lparr>th_change := acc\<rparr>)) (\<lambda>earlist.
        bind_res (TimersScheduler_resetTimer env ?s2 earlist) (\<lambda>(ok, s3). Inr (s3\<lparr>ts_expired := []\<rparr>)))
     else Inr (?s2\<lparr>ts_expired := []\<rparr>))"
    using own none run by (simp add: TimersScheduler_handdleRead_def getExpired_eq(1) [OF hp]
        TimerHeap_restartIntervalTimer_def l(1) TimerHeap_getEarlistChange_def)
  have fin: "\<exists>s'. TimersScheduler_handdleRead cb env now s = Inr s' \<and> ts_mem s' = mem \<and>
    ts_heap s' = h\<lparr>th_change := acc\<rparr> \<and> ts_expired s' = [] \<and> \<not> ts_running s'"
  proof (cases acc)
    case True
    have heap: "heap_ok mem (h\<lparr>th_change := acc\<rparr>)" "earliest_heads (h\<lparr>th_change := acc\<rparr>)"
      using l(2) heads(2) True by (simp_all add: heap_ok_def earliest_heads_def)
    from resetTimer_total [OF heap typed now, of ?s2] True step show ?thesis by auto
  next
    case False
    with step show ?thesis by simp
  qed
  then obtain s' where s': "TimersScheduler_handdleRead cb env now s = Inr s'" "ts_mem s' = mem"
    "ts_heap s' = h\<lparr>th_change := acc\<rparr>" "ts_expired s' = []" "\<not> ts_running s'" by blast
  have "sched_ok s'" "earliest_set (ts_heap s')" "mem_typed (ts_mem s')"
    using s' l(2) heads(1) typed
    by (simp_all add: sched_ok_def expired_entries_ok_def expired_ok_def heap_ok_def earliest_set_def)
  moreover have "ts_expired s1 = filter (\<lambda>x. fst x \<le> now) (th_timers (ts_heap s))"
    using s1(3) by (simp add: expiry_start_def)
  ultimately show ?thesis using s1(1) s' l(3,4) by (intro exI [of _ s1] exI [of _ s']) simp
qed

lemma addTimer_earliest_set:
  assumes "TimerHeap_addTimer mem h a = Inr (added, h')" and "earliest_set h"
  shows "earliest_set h'"
  using assms by (auto simp: TimerHeap_addTimer_def Let_def res_simps earliest_set_def split: if_splits)

lemma restart_loop_earliest_set:
  "restart_loop rnd clk mem h xs acc = Inr (mem', h', out, acc') \<Longrightarrow> earliest_set h \<Longrightarrow> earliest_set h'"
proof (induction rnd clk mem h xs acc arbitrary: mem' h' out acc' rule: restart_loop.induct)
  case (2 rnd clk mem h e a expired acc)
  from "2.prems"(1) obtain t where t: "mem a = Some t" by (auto simp: res_simps)
  show ?case
  proof (cases "tm_repeat t \<and> tm_state t \<noteq> DELETED")
    case True
    with "2.prems"(1) t obtain t' added h1 out1 where
      s: "Timer_restart rnd t (clk a) = Inr t'"
        "TimerHeap_addTimer (mem(a := Some t')) h a = Inr (added, h1)"
        "restart_loop rnd clk (mem(a := Some t')) h1 expired (acc \<or> th_change h1) = Inr (mem', h', out1, acc')"
      by (auto simp: res_simps)
    from "2.IH"(1) [OF _ True s(1,2) refl s(3) addTimer_earliest_set [OF s(2) "2.prems"(2)]] t
    show ?thesis by simp
  next
    case False
    with "2.prems"(1) t obtain out1 where
      "restart_loop rnd clk (mem(a := None)) h expired acc = Inr (mem', h', out1, acc')"
      by (auto simp: res_simps)
    from "2.IH"(2) [OF _ False this "2.prems"(2)] t show ?thesis by simp
  qed
qed simp

lemma run_expired_wake_ok:
  assumes cb: "\<And>a u u'. wake_ok u \<Longrightarrow> cb a u = Inr u' \<Longrightarrow> wake_ok u'"
    and "run_expired cb s xs = Inr s'" and "wake_ok s"
  shows "wake_ok s'"
  using assms(2,3)
proof (induction xs arbitrary: s)
  case Nil
  then show ?case by simp
next
  case (Cons x xs)
  obtain e a where x: "x = (e, a)" by (cases x)
  from Cons.prems(1) x obtain t where t: "ts_mem s a = Some t" by (auto simp: res_simps)
  show ?case
  proof (cases "tm_state t = DELETED")
    case True
    with Cons t x show ?thesis by simp
  next
    case False
    with Cons.prems(1) t x obtain s1 where "cb a s = Inr s1" "run_expired cb s1 xs = Inr s'"
      by (auto simp: res_simps)
    with Cons.IH Cons.prems(2) cb show ?thesis by blast
  qed
qed

lemma getExpired_sub:
  assumes "TimerHeap_getExpiredTimers h expired now = Inr (xs, h')"
  shows "th_earliest h' = th_earliest h" "th_timers h' \<noteq> [] \<longrightarrow> th_timers h \<noteq> []"
proof -
  have "sset_from (th_timers h) x \<noteq> [] \<longrightarrow> th_timers h \<noteq> []" for x
    using sset_below_from [of "th_timers h" x] by auto
  then show "th_earliest h' = th_earliest h" "th_timers h' \<noteq> [] \<longrightarrow> th_timers h \<noteq> []"
    using assms by (auto simp: TimerHeap_getExpiredTimers_def Let_def split: if_splits)
qed

lemma handdleRead_wake_ok:
  assumes cb: "\<And>a u u'. wake_ok u \<Longrightarrow> cb a u = Inr u' \<Longrightarrow> wake_ok u'"
    and "TimersScheduler_handdleRead cb env now s = Inr s'" and "wake_ok s" and "se_settime env"
  shows "wake_ok s'"
proof -
  have own: "se_own env" using assms(2) by (auto simp: TimersScheduler_handdleRead_def split: if_splits)
  obtain xs h where r1: "TimerHeap_getExpiredTimers (ts_heap s) (ts_expired s) now = Inr (xs, h)"
    using assms(2) own by (auto simp: TimersScheduler_handdleRead_def res_simps)
  obtain s1 where r2: "run_expired cb (s\<lparr>ts_heap := h, ts_expired := xs, ts_running := True\<rparr>) xs = Inr s1"
    using assms(2) own r1 by (auto simp: TimersScheduler_handdleRead_def res_simps)
  obtain mem h' out acc where
    r3: "restart_loop (se_rnd env) (se_clk env) (ts_mem s1) (ts_heap s1) (ts_expired s1) False = Inr (mem, h', out, acc)"
    using assms(2) own r1 r2
    by (auto simp: TimersScheduler_handdleRead_def TimerHeap_restartIntervalTimer_def res_simps)
  let ?s2 = "s1\<lparr>ts_mem := mem, ts_heap := h'\<lparr>th_change := acc\<rparr>, ts_running := False\<rparr>"
  have r4: "(if acc then bind_res (TimerHeap_getEarlistExpiration mem (h'\<lparr>th_change := acc\<rparr>)) (\<lambda>earlist.
          bind_res (TimersScheduler_resetTimer env ?s2 earlist) (\<lambda>(ok, s3). Inr (s3\<lparr>ts_expired := []\<rparr>)))
        else Inr (?s2\<lparr>ts_expired := []\<rparr>)) = Inr s'"
    using assms(2) own r1 r2 r3
    by (cases acc) (simp_all add: TimersScheduler_handdleRead_def TimerHeap_restartIntervalTimer_def
        TimerHeap_getEarlistChange_def Let_def)
  have w0: "wake_ok (s\<lparr>ts_heap := h, ts_expired := xs, ts_running := True\<rparr>)"
    using assms(3) getExpired_sub [OF r1] by (simp add: wake_ok_def)
  have w1: "wake_ok s1" by (rule run_expired_wake_ok [OF _ r2 w0]) (erule (1) cb)
  then have set1: "earliest_set h'" 
    using restart_loop_earliest_set [OF r3] by (simp add: wake_ok_def earliest_set_def)
  show ?thesis
  proof (cases acc)
    case True
    with r4 obtain e ok s3 where
      e: "TimerHeap_getEarlistExpiration mem (h'\<lparr>th_change := acc\<rparr>) = Inr e"
        "TimersScheduler_resetTimer env ?s2 e = Inr (ok, s3)"
        "s' = s3\<lparr>ts_expired := []\<rparr>"
      by (auto simp: res_simps)
    from resetTimer_wake [OF e(2) assms(4)] getEarlist_not_None [OF e(1)] e(3) show ?thesis
      by (simp add: wake_ok_def)
  next
    case False
    then have "th_earliest h' = th_earliest (ts_heap s1)" using restart_loop_no_change [OF r3] by simp
    moreover have "s' = ?s2\<lparr>ts_expired := []\<rparr>" using r4 False by simp
    ultimately show ?thesis using w1 set1 by (simp add: wake_ok_def earliest_set_def)
  qed
qed

section \<open>Runs of the scheduler\<close>

text \<open>
  A caller, in the loop or in a timer callback, creates timers, adds them and deletes
  them; the kernel timer goes off if it is armed; and the loop handles the expiry.
  The callback of the timer at \<open>a\<close> makes the calls \<open>prog a\<close>.
\<close>

datatype timer_call = NewTimer addr timer | AddTimer addr | DelTimer addr
datatype sched_event = Calls "timer_call list" | Tick | Expiry timestamp

fun timer_call_step :: "sched_env \<Rightarrow> timer_call \<Rightarrow> sched \<Rightarrow> sched res" where
  "timer_call_step env (NewTimer a t) s =
     (if ts_mem s a = None \<and> a < UINTPTR_MAX then Inr (s\<lparr>ts_mem := (ts_mem s)(a := Some t)\<rparr>)
      else Inl OutOfBounds)"
| "timer_call_step env (AddTimer a) s =
     bind_res (TimersScheduler_addTimer env s a) (\<lambda>(ok, s'). Inr s')"
| "timer_call_step env (DelTimer a) s = TimersScheduler_delTimer env s a"

fun timer_calls :: "sched_env \<Rightarrow> timer_call list \<Rightarrow> sched \<Rightarrow> sched res" where
  "timer_calls env [] s = Inr s"
| "timer_calls env (c # cs) s = bind_res (timer_call_step env c s) (timer_calls env cs)"

fun sched_step :: "(addr \<Rightarrow> timer_call list) \<Rightarrow> sched_env \<Rightarrow> sched_event \<Rightarrow> sched \<Rightarrow> sched res" where
  "sched_step prog env (Calls cs) s = timer_calls env cs s"
| "sched_step prog env Tick s = Inr (if ts_armed s = None then s else s\<lparr>ts_readable := True\<rparr>)"
| "sched_step prog env (Expiry now) s =
     TimersScheduler_handdleRead (\<lambda>a. timer_calls env (prog a)) env now s"

fun sched_run :: "(addr \<Rightarrow> timer_call list) \<Rightarrow> (sched_env \<times> sched_event) list \<Rightarrow> sched \<Rightarrow> sched res" where
  "sched_run prog [] s = Inr s"
| "sched_run prog ((env, ev) # evs) s = bind_res (sched_step prog env ev s) (sched_run prog evs)"

lemma timer_call_wake_ok:
  "se_settime env \<Longrightarrow> wake_ok s \<Longrightarrow> timer_call_step env c s = Inr s' \<Longrightarrow> wake_ok s'"
proof (cases c)
  case NewTimer
  assume "wake_ok s" "timer_call_step env c s = Inr s'"
  with NewTimer show ?thesis by (auto simp: wake_ok_def split: if_splits)
qed (auto simp: res_simps dest: addTimer_wake_ok delTimer_wake_ok)

lemma timer_calls_wake_ok:
  "se_settime env \<Longrightarrow> wake_ok s \<Longrightarrow> timer_calls env cs s = Inr s' \<Longrightarrow> wake_ok s'"
  by (induction cs arbitrary: s) (auto simp: res_simps dest: timer_call_wake_ok)

lemma sched_step_wake_ok:
  assumes "se_settime env" and "wake_ok s" and "sched_step prog env ev s = Inr s'"
  shows "wake_ok s'"
proof (cases ev)
  case (Calls cs)
  with assms show ?thesis by (auto intro: timer_calls_wake_ok)
next
  case Tick
  with assms show ?thesis by (auto simp: wake_ok_def)
next
  case (Expiry now)
  with assms(3) have "TimersScheduler_handdleRead (\<lambda>a. timer_calls env (prog a)) env now s = Inr s'" by simp
  from handdleRead_wake_ok [OF timer_calls_wake_ok [OF assms(1)] this assms(2,1)] show ?thesis .
qed

lemma sched_run_wake_ok:
  "\<forall>(env, ev) \<in> set evs. se_settime env \<Longrightarrow> wake_ok s \<Longrightarrow> sched_run prog evs s = Inr s' \<Longrightarrow> wake_ok s'"
proof (induction evs arbitrary: s)
  case (Cons x evs)
  obtain env ev where x: "x = (env, ev)" by (cases x)
  with Cons.prems obtain s1 where "sched_step prog env ev s = Inr s1" "sched_run prog evs s1 = Inr s'"
    by (auto simp: res_simps)
  moreover have "se_settime env" using Cons.prems(1) x by simp
  ultimately show ?case using Cons.IH Cons.prems(1,2) sched_step_wake_ok by (meson list.set_intros(2))
qed simp

section \<open>Armed for the earliest timer\<close>

text \<open>The kernel timer goes off at \<open>e\<close>, or 100 microseconds after it was armed if \<open>e\<close> is earlier.\<close>

definition armed_for :: "sched \<Rightarrow> timestamp \<Rightarrow> bool" where
  "armed_for s e \<longleftrightarrow> (\<exists>t v. ts_armed s = Some (t, v) \<and>
     armed_until s = Some (1000 * max (usec t + 100) (usec e)))"

definition armed_exact :: "sched \<Rightarrow> bool" where
  "armed_exact s \<longleftrightarrow> (th_timers (ts_heap s) \<noteq> [] \<longrightarrow>
     earliest_heads (ts_heap s) \<and> armed_for s (fst (hd (th_timers (ts_heap s)))))"

lemma resetTimer_armed_for:
  assumes "TimersScheduler_resetTimer env s e = Inr (ok, s')" and "se_settime env"
  shows "ok" "armed_for s' e"
  using assms resetTimer_armed(1,6) [OF assms(1)]
  by (auto simp: TimersScheduler_resetTimer_def res_simps armed_for_def)

lemma addTimer_new_head:
  assumes hp: "heap_ok mem h" and heads: "th_timers h \<noteq> [] \<longrightarrow> earliest_heads h"
    and fresh: "a \<notin> snd ` set (th_timers h)" and a: "a < UINTPTR_MAX"
    and reuse: "th_timers h = [] \<longrightarrow> th_earliest h \<noteq> Some a"
    and add: "TimerHeap_addTimer mem h a = Inr (added, h')"
  shows "earliest_heads h'"
    and "\<not> th_change h' \<Longrightarrow> th_timers h \<noteq> [] \<and> hd (th_timers h') = hd (th_timers h)"
proof -
  from add obtain t where t: "mem a = Some t" by (auto simp: TimerHeap_addTimer_def res_simps)
  have new: "(tm_expiration t, a) \<notin> set (th_timers h)" using fresh by force
  have "earliest_set h" using heads by (cases "th_timers h") (auto simp: earliest_set_def earliest_heads_def)
  from addTimer_heads [OF add fresh this] show heads': "earliest_heads h'" .
  assume quiet: "\<not> th_change h'"
  from addTimer_quiet_earliest(1) [OF add quiet] heads'
  have same: "th_earliest h = Some (snd (hd (th_timers h')))" by (simp add: earliest_heads_def)
  note ok = addTimer_ok [OF hp a add]
  have "set (th_timers h') = insert (tm_expiration t, a) (set (th_timers h))" using ok(2) t by auto
  moreover have "hd (th_timers h') \<in> set (th_timers h')" using heads' by (simp add: earliest_heads_def)
  ultimately have mem_hd: "hd (th_timers h') = (tm_expiration t, a) \<or> hd (th_timers h') \<in> set (th_timers h)"
    by simp
  show "th_timers h \<noteq> [] \<and> hd (th_timers h') = hd (th_timers h)"
  proof (cases "th_timers h = []")
    case True
    with mem_hd same reuse show ?thesis by simp
  next
    case False
    with heads same have snd_eq: "snd (hd (th_timers h')) = snd (hd (th_timers h))"
      and hd_in: "hd (th_timers h) \<in> set (th_timers h)" by (simp_all add: earliest_heads_def)
    from hd_in fresh have "snd (hd (th_timers h)) \<noteq> a" by force
    with snd_eq mem_hd have "hd (th_timers h') \<in> set (th_timers h)" by (metis snd_conv)
    moreover have "inj_on snd (set (th_timers h))"
      using heap_ok_distinct_addrs [OF hp] by (simp add: distinct_map)
    ultimately show ?thesis using False snd_eq hd_in by (simp add: inj_on_eq_iff)
  qed
qed

lemma addTimer_armed_exact:
  assumes "sched_ok s" and "armed_exact s" and "se_settime env" and "a < UINTPTR_MAX"
    and "a \<notin> snd ` set (th_timers (ts_heap s))" and "a \<notin> snd ` set (ts_expired s)"
    and "th_timers (ts_heap s) = [] \<longrightarrow> th_earliest (ts_heap s) \<noteq> Some a"
    and "TimersScheduler_addTimer env s a = Inr (ok, s')"
  shows "ok \<and> armed_exact s' \<and> a \<in> snd ` set (th_timers (ts_heap s'))"
  using assms(8)
proof (cases rule: addTimer_cases)
  case listed
  with assms(6) show ?thesis by force
next
  case (quiet t added h)
  have hp: "heap_ok (ts_mem s) (ts_heap s)" using assms(1) by (simp add: sched_ok_def)
  have heads: "th_timers (ts_heap s) \<noteq> [] \<longrightarrow> earliest_heads (ts_heap s)"
    using assms(2) by (simp add: armed_exact_def)
  note new = addTimer_new_head [OF hp heads assms(5,4,7) quiet(3)]
  have "a \<in> snd ` set (th_timers h)" using addTimer_ok(2) [OF hp assms(4) quiet(3)] by auto
  with new(1) new(2) [OF quiet(4)] assms(2) quiet(5,6) show ?thesis
    by (auto simp: armed_exact_def armed_for_def armed_until_def)
next
  case (rearmed t added h e)
  have hp: "heap_ok (ts_mem s) (ts_heap s)" using assms(1) by (simp add: sched_ok_def)
  have heads: "th_timers (ts_heap s) \<noteq> [] \<longrightarrow> earliest_heads (ts_heap s)"
    using assms(2) by (simp add: armed_exact_def)
  note new = addTimer_new_head(1) [OF hp heads assms(5,4,7) rearmed(3)]
  have e: "e = fst (hd (th_timers h))"
    using heads_entry [OF addTimer_ok(1) [OF hp assms(4) rearmed(3)] new] rearmed(5) by auto
  have "a \<in> snd ` set (th_timers h)" using addTimer_ok(2) [OF hp assms(4) rearmed(3)] by auto
  with new e resetTimer_armed_for [OF rearmed(6) assms(3)] resetTimer_armed(3) [OF rearmed(6)]
  show ?thesis by (simp add: armed_exact_def)
qed

section \<open>Properties\<close>

definition demo_env :: sched_env where
  "demo_env = \<lparr>se_own = True, se_now = Timestamp 1000, se_settime = True, se_rnd = (\<lambda>x. x),
     se_clk = (\<lambda>a. Timestamp 2000)\<rparr>"

definition demo_calls :: "timer_call list" where
  "demo_calls = [NewTimer 1 (Timer_new (Timestamp 1500) 1), AddTimer 1,
     NewTimer 2 (Timer_new (Timestamp 90000) 0), AddTimer 2]"

lemmas sched_exec_defs =
  sched_defs Let_def TimersScheduler_new_def TimerHeap_new_def TimerHeap_addTimer_def
  TimerHeap_delTimer_def note_earliest_def
  TimerHeap_getExpiredTimers_def TimerHeap_getEarlistChange_def TimerHeap_getEarlistExpiration_def
  TimerHeap_restartIntervalTimer_def Timer_new_def Timer_restart_def Timestamp_isvalid_def
  deref_def calculateTimerfdNewValue_def i64_def i64_range_def kMicroSecondsPerSecond_def
  addTime_def trunc_rat_def sset_erase_def sset_below_def sset_from_def less_timestamp_def Timestamp_less_def
  less_eq_timestamp_def UINTPTR_MAX_def

lemma demo_run:
  "case sched_run (\<lambda>a. []) [(demo_env, Calls demo_calls), (demo_env, Tick), (demo_env, Expiry (Timestamp 2000))]
     (TimersScheduler_new (\<lambda>a. None)) of
     Inl e \<Rightarrow> False
   | Inr s \<Rightarrow> map snd (th_timers (ts_heap s)) = [2, 1]"
  by (simp add: sched_exec_defs demo_env_def demo_calls_def)

lemma demo_run_ok:
  "\<exists>s'. sched_run (\<lambda>a. []) [(demo_env, Calls demo_calls), (demo_env, Tick), (demo_env, Expiry (Timestamp 2000))]
     (TimersScheduler_new (\<lambda>a. None)) = Inr s' \<and> th_timers (ts_heap s') \<noteq> []"
  using demo_run by (auto split: sum.splits)

text \<open>
  The value that \<open>calculateTimerfdNewValue\<close> computes for any two 64-bit time stamps
  whose difference fits is one that the kernel accepts and that cannot disarm the timer:
  the interval is zero, the nanoseconds are in [0, 10^9), and the total is exactly the
  time left, or 100 microseconds when less than that is left.
\<close>
theorem timerfd_value_bounds:
  assumes "i64_range (usec earlist - usec now)"
  shows "\<exists>v. calculateTimerfdNewValue now earlist = Inr v \<and>
     it_interval_sec v = 0 \<and> it_interval_nsec v = 0 \<and>
     0 \<le> it_value_sec v \<and> 0 \<le> it_value_nsec v \<and> it_value_nsec v < 10 ^ 9 \<and>
     it_value_sec v * 10 ^ 9 + it_value_nsec v = 1000 * max 100 (usec earlist - usec now)"
  by (rule calculate_ok [OF assms])

theorem timerfd_value_bounds_witness:
  "\<exists>v. calculateTimerfdNewValue (Timestamp 5) (Timestamp 2500010) = Inr v \<and>
     it_interval_sec v = 0 \<and> it_interval_nsec v = 0 \<and>
     0 \<le> it_value_sec v \<and> 0 \<le> it_value_nsec v \<and> it_value_nsec v < 10 ^ 9 \<and>
     it_value_sec v * 10 ^ 9 + it_value_nsec v = 1000 * max 100 (usec (Timestamp 2500010) - usec (Timestamp 5))"
  by (rule timerfd_value_bounds) (simp add: i64_range_def)

text \<open>
  The expired timers are exactly the pending ones that are due, in the order of
  their expirations; the others stay pending, and the heap stays well formed (in
  particular the assertion of \<open>getExpiredTimers\<close> holds).
\<close>
theorem timer_heap_expires_due:
  assumes "heap_ok mem h"
  shows "\<exists>h'. TimerHeap_getExpiredTimers h [] now =
      Inr (filter (\<lambda>x. fst x \<le> now) (th_timers h), h') \<and>
    th_timers h' = filter (\<lambda>x. now < fst x) (th_timers h) \<and> heap_ok mem h'"
  using getExpired_eq [OF assms, of now] by simp

definition demo_mem :: timer_mem where
  "demo_mem = (\<lambda>a. if a = 1 then Some (Timer_new (Timestamp 1500) 1)
     else if a = 2 then Some (Timer_new (Timestamp 90000) 0) else None)"

definition demo_heap :: timer_heap where
  "demo_heap = \<lparr>th_timers = [(Timestamp 1500, 1), (Timestamp 90000, 2)], th_earliest = Some 1, th_change = False\<rparr>"

lemma demo_heap_ok: "heap_ok demo_mem demo_heap" "earliest_heads demo_heap"
  by (simp_all add: heap_ok_def entry_ok_def demo_heap_def demo_mem_def UINTPTR_MAX_def Timer_new_def
      Timestamp_isvalid_def less_timestamp_def Timestamp_less_def earliest_heads_def)

theorem timer_heap_expires_due_witness:
  "\<exists>h'. TimerHeap_getExpiredTimers demo_heap [] (Timestamp 2000) =
      Inr (filter (\<lambda>x. fst x \<le> Timestamp 2000) (th_timers demo_heap), h') \<and>
    th_timers h' = filter (\<lambda>x. Timestamp 2000 < fst x) (th_timers demo_heap) \<and> heap_ok demo_mem h'"
  by (rule timer_heap_expires_due [OF demo_heap_ok(1)])


text \<open>A callback that cancels its own timer.\<close>

definition cancel_self :: "sched_env \<Rightarrow> addr \<Rightarrow> sched \<Rightarrow> sched res" where
  "cancel_self env a s = (if a \<in> snd ` set (ts_expired s) then TimersScheduler_delTimer env s a else Inr s)"

lemma cancel_self_ok:
  assumes "expiry_inv env u" and "se_own env"
  shows "\<exists>u'. cancel_self env a u = Inr u' \<and> expiry_inv env u' \<and> ts_expired u' = ts_expired u"
proof (cases "a \<in> snd ` set (ts_expired u)")
  case False
  with assms show ?thesis by (simp add: cancel_self_def)
next
  case True
  then obtain e where e: "(e, a) \<in> set (ts_expired u)" by force
  with assms(1) obtain t where t: "ts_mem u a = Some t" "tm_expiration t = e"
    by (auto simp: expiry_inv_def sched_ok_def expired_entries_ok_def entry_ok_def dest!: bspec)
  let ?u = "u\<lparr>ts_mem := (ts_mem u)(a := Some (Timer_setState t DELETED))\<rparr>"
  have del: "cancel_self env a u = Inr ?u"
    using assms e t True by (simp add: cancel_self_def TimersScheduler_delTimer_def expiry_inv_def)
  have "sched_ok ?u" using assms(1) t(1)
    by (intro sched_ok_mark) (simp_all add: expiry_inv_def Timer_setState_def)
  moreover have "mem_typed (ts_mem ?u)"
    using assms(1) t(1) by (auto simp: expiry_inv_def mem_typed_def Timer_setState_def)
  moreover have "clock_ok (se_rnd env) (se_clk env) (ts_mem ?u) (ts_expired u)"
    using assms(1) t(1) by (auto simp: expiry_inv_def clock_ok_def restarts_def next_exp_def deref_def Timer_setState_def)
  ultimately show ?thesis using assms(1) del by (simp add: expiry_inv_def)
qed

definition demo_sched :: sched where
  "demo_sched = \<lparr>ts_mem = demo_mem, ts_heap = demo_heap, ts_expired = [], ts_running = False,
     ts_armed = Some (Timestamp 1000, \<lparr>it_interval_sec = 0, it_interval_nsec = 0, it_value_sec = 0, it_value_nsec = 500000\<rparr>),
     ts_readable = True\<rparr>"

lemma demo_sched_ok:
  "sched_ok demo_sched" "\<not> ts_running demo_sched" "earliest_set (ts_heap demo_sched)" "mem_typed (ts_mem demo_sched)"
  "clock_ok (se_rnd demo_env) (se_clk demo_env) (ts_mem demo_sched)
     (filter (\<lambda>x. fst x \<le> Timestamp 2000) (th_timers (ts_heap demo_sched)))"
  "armed_exact demo_sched"
  using demo_heap_ok heads_set [OF demo_heap_ok(2)]
  by (simp_all add: demo_sched_def sched_ok_def expired_entries_ok_def expired_ok_def)
    (simp_all add: mem_typed_def demo_mem_def Timer_new_def i64_range_def clock_ok_def demo_heap_def
      less_eq_timestamp_def restarts_def next_exp_def demo_env_def addTime_def trunc_rat_def
      kMicroSecondsPerSecond_def i64_def Timestamp_isvalid_def armed_exact_def armed_for_def armed_until_def)


text \<open>
  Adding a fresh timer keeps the kernel timer exact: if it was armed for the earliest
  pending timer, then afterwards the new timer is pending and the kernel timer is
  armed for the earliest one (100 microseconds ahead if that is already due). The
  address must not be the one \<open>earlistExpiration_\<close> still holds for a deleted timer.
\<close>
theorem scheduler_armed_for_earliest:
  assumes "sched_ok s" and "armed_exact s" and "se_settime env" and "a < UINTPTR_MAX"
    and "a \<notin> snd ` set (th_timers (ts_heap s))" and "a \<notin> snd ` set (ts_expired s)"
    and "th_timers (ts_heap s) = [] \<longrightarrow> th_earliest (ts_heap s) \<noteq> Some a"
    and "TimersScheduler_addTimer env s a = Inr (ok, s')"
  shows "ok \<and> armed_exact s' \<and> a \<in> snd ` set (th_timers (ts_heap s'))"
  using assms by (rule addTimer_armed_exact)

definition demo_sched3 :: sched where
  "demo_sched3 = demo_sched\<lparr>ts_mem := demo_mem(3 := Some (Timer_new (Timestamp 1200) 0))\<rparr>"

theorem scheduler_armed_for_earliest_witness:
  "case TimersScheduler_addTimer demo_env demo_sched3 3 of
     Inl e \<Rightarrow> False
   | Inr (ok, s') \<Rightarrow> ok \<and> armed_exact s' \<and> 3 \<in> snd ` set (th_timers (ts_heap s'))"
proof -
  have "\<exists>r. TimersScheduler_addTimer demo_env demo_sched3 3 = Inr r"
    by (simp add: sched_exec_defs demo_sched3_def demo_sched_def demo_env_def demo_heap_def demo_mem_def) blast
  then obtain ok s' where r: "TimersScheduler_addTimer demo_env demo_sched3 3 = Inr (ok, s')" by auto
  have "sched_ok demo_sched3" "armed_exact demo_sched3"
    using demo_sched_ok(1,6) heap_ok_upd [OF demo_heap_ok(1), of 3 "Some (Timer_new (Timestamp 1200) 0)"]
    by (simp_all add: demo_sched3_def demo_sched_def sched_ok_def expired_entries_ok_def expired_ok_def
        armed_exact_def armed_for_def armed_until_def demo_heap_def)
  from scheduler_armed_for_earliest [OF this _ _ _ _ _ r] r show ?thesis
    by (simp add: demo_env_def UINTPTR_MAX_def demo_sched3_def demo_sched_def demo_heap_def)
qed



text \<open>
  C39: Cancelling the only pending timer right after adding it is a use after free:
  \<open>TimerHeap::delTimer\<close> leaves \<open>earlistExpiration_\<close> at the freed timer and the change
  flag set by the insertion, so \<open>TimersScheduler::delTimer\<close> reads the freed timer.
\<close>
theorem scheduler_cancel_last_uaf:
  assumes "\<not> ts_running s" and "th_timers (ts_heap s) = []" and "th_earliest (ts_heap s) \<noteq> Some a"
    and "TimersScheduler_addTimer env s a = Inr (ok, s')"
  shows "TimersScheduler_delTimer env s' a = Inl UseAfterFree"
proof -
  have own: "se_own env" using assms(4) by (auto simp: TimersScheduler_addTimer_def split: if_splits)
  from assms(4) obtain t where t: "ts_mem s a = Some t"
    by (auto simp: TimersScheduler_addTimer_def res_simps split: if_splits)
  have "ts_mem s' = ts_mem s \<and> \<not> ts_running s' \<and> th_timers (ts_heap s') = [(tm_expiration t, a)] \<and>
    th_earliest (ts_heap s') = Some a \<and> th_change (ts_heap s')"
    using assms t own by (auto simp: sched_defs TimerHeap_addTimer_def Let_def res_simps note_earliest_def
        TimerHeap_getEarlistChange_def split: if_splits)
  then show ?thesis using own t
    by (simp add: TimersScheduler_delTimer_def TimerHeap_delTimer_def Let_def sset_erase_def
        TimerHeap_getEarlistChange_def TimerHeap_getEarlistExpiration_def)
qed

theorem scheduler_cancel_last_uaf_witness:
  "case TimersScheduler_addTimer demo_env (TimersScheduler_new demo_mem) 1 of
     Inl e \<Rightarrow> False
   | Inr (ok, s') \<Rightarrow> TimersScheduler_delTimer demo_env s' 1 = Inl UseAfterFree"
proof -
  have "\<exists>r. TimersScheduler_addTimer demo_env (TimersScheduler_new demo_mem) 1 = Inr r"
    by (simp add: sched_exec_defs demo_env_def demo_mem_def) blast
  then obtain ok s' where r: "TimersScheduler_addTimer demo_env (TimersScheduler_new demo_mem) 1 = Inr (ok, s')"
    by auto
  from scheduler_cancel_last_uaf [OF _ _ _ r] r show ?thesis
    by (simp add: TimersScheduler_new_def TimerHeap_new_def)
qed

end
