(* ===== verification/Timer_Typing.thy ===== *)
theory Timer_Typing
  imports Timers_Scheduler
begin

text \<open>
  A discipline for the clients of the timer scheduler, the fields and calls of
  \<open>src/base/TimersScheduler.cpp\<close> seen as a small typed language. The scheduler keeps raw pointers, and
  its calls trust them; a call is typed in a state when the pointer is good for what the call
  does with it. Lemmas: a typed call makes no fault and leaves a typed scheduler, and so does
  every run of typed events.
\<close>

section \<open>Typed calls\<close>

definition clock_env_ok :: "sched_env \<Rightarrow> bool" where
  "clock_env_ok env \<longleftrightarrow> se_own env \<and> 0 \<le> usec (se_now env) \<and> i64_range (usec (se_now env))"

text \<open>What the fields may hold: pointers to live timers, and a pointer to the earliest one.\<close>

definition typed_sched :: "sched \<Rightarrow> bool" where
  "typed_sched s \<longleftrightarrow> sched_ok s \<and> earliest_set (ts_heap s) \<and> mem_typed (ts_mem s)"

text \<open>The timer at \<open>a\<close> waits in the heap; it is one of those that expire just now.\<close>

definition pending :: "sched \<Rightarrow> addr \<Rightarrow> bool" where
  "pending s a \<longleftrightarrow> a \<in> snd ` set (th_timers (ts_heap s))"

definition expiring :: "sched \<Rightarrow> addr \<Rightarrow> bool" where
  "expiring s a \<longleftrightarrow> ts_running s \<and> a \<in> snd ` set (ts_expired s)"

text \<open>
  A new timer gets memory that is free. A timer that is added is live, has a valid expiration and does not
  wait already. A timer that is cancelled is either expiring or one of several that wait.
\<close>

fun typed_call :: "sched \<Rightarrow> timer_call \<Rightarrow> bool" where
  "typed_call s (NewTimer a t) \<longleftrightarrow> ts_mem s a = None \<and> a < UINTPTR_MAX \<and> i64_range (usec (tm_expiration t))"
| "typed_call s (AddTimer a) \<longleftrightarrow> a < UINTPTR_MAX \<and> \<not> pending s a \<and>
     (case ts_mem s a of None \<Rightarrow> False | Some t \<Rightarrow> Timestamp_isvalid (tm_expiration t))"
| "typed_call s (DelTimer a) \<longleftrightarrow> expiring s a \<or> pending s a \<and> 2 \<le> length (th_timers (ts_heap s))"

text \<open>Every call is typed in the state in which it is made.\<close>

fun calls_typed :: "sched_env \<Rightarrow> timer_call list \<Rightarrow> sched \<Rightarrow> bool" where
  "calls_typed env [] s \<longleftrightarrow> True"
| "calls_typed env (c # cs) s \<longleftrightarrow> typed_call s c \<and>
     (case timer_call_step env c s of Inl e \<Rightarrow> True | Inr s' \<Rightarrow> calls_typed env cs s')"

section \<open>A typed call makes no fault\<close>

lemma resetTimer_heads:
  assumes "clock_env_ok env" and "sched_ok s" and "mem_typed (ts_mem s)" and "earliest_heads (ts_heap s)"
  shows "\<exists>e ok s'. TimerHeap_getEarlistExpiration (ts_mem s) (ts_heap s) = Inr e \<and>
    TimersScheduler_resetTimer env s e = Inr (ok, s')"
proof -
  have hp: "heap_ok (ts_mem s) (ts_heap s)" using assms(2) by (simp add: sched_ok_def)
  from heads_entry [OF hp assms(4)] obtain e where
    e: "TimerHeap_getEarlistExpiration (ts_mem s) (ts_heap s) = Inr e" "e = fst (hd (th_timers (ts_heap s)))" "Timestamp_isvalid e"
    by blast
  have "hd (th_timers (ts_heap s)) \<in> set (th_timers (ts_heap s))" using assms(4) by (simp add: earliest_heads_def)
  with hp have "entry_ok (ts_mem s) (hd (th_timers (ts_heap s)))" by (simp add: heap_ok_def)
  with e(2) assms(3) have "i64_range (usec e)" by (auto simp: entry_ok_def mem_typed_def) metis
  with e(3) assms(1) have "i64_range (usec e - usec (se_now env))"
    by (intro i64_diff) (simp_all add: clock_env_ok_def Timestamp_isvalid_def)
  from calculate_ok [OF this] obtain v where "calculateTimerfdNewValue (se_now env) e = Inr v" by blast
  with e(1) show ?thesis by (auto simp: TimersScheduler_resetTimer_def)
qed

text \<open>What a call leaves: the fields that an expiry relies on while it runs the callbacks.\<close>

definition call_leaves :: "sched \<Rightarrow> sched \<Rightarrow> bool" where
  "call_leaves s s' \<longleftrightarrow> typed_sched s' \<and> ts_expired s' = ts_expired s \<and> ts_running s' = ts_running s \<and>
     (\<forall>rnd clk. clock_ok rnd clk (ts_mem s) (ts_expired s) \<longrightarrow> clock_ok rnd clk (ts_mem s') (ts_expired s))"

lemma reset_leaves:
  assumes "TimersScheduler_resetTimer env s1 e = Inr (ok, s')" and "call_leaves s s1"
  shows "call_leaves s s'"
  using assms resetTimer_armed(2-5) [OF assms(1)] sched_ok_cong [of s1 s'] by (simp add: call_leaves_def typed_sched_def)

text \<open>Memory of a timer that is not expiring does not matter to those that are.\<close>

lemma clock_ok_other:
  assumes "clock_ok rnd clk mem xs" and "a \<notin> snd ` set xs"
  shows "clock_ok rnd clk (mem(a := v)) xs"
  using clock_ok_Cons_upd [of rnd clk mem e a xs v] assms
  by (auto simp: clock_ok_def restarts_def next_exp_def deref_def image_iff)

lemma newTimer_typed:
  assumes "typed_sched s" and "typed_call s (NewTimer a t)"
  shows "\<exists>s'. timer_call_step env (NewTimer a t) s = Inr s' \<and> call_leaves s s'"
proof -
  let ?s = "s\<lparr>ts_mem := (ts_mem s)(a := Some t)\<rparr>"
  have a: "ts_mem s a = None" "a < UINTPTR_MAX" "i64_range (usec (tm_expiration t))" using assms(2) by simp_all
  have ok: "sched_ok s" using assms(1) by (simp add: typed_sched_def)
  have free: "a \<notin> snd ` set (th_timers (ts_heap s))" "a \<notin> snd ` set (ts_expired s)"
    using ok a(1) by (auto simp: sched_ok_def heap_ok_def entry_ok_def expired_entries_ok_def dest!: bspec)
  have "heap_ok ((ts_mem s)(a := Some t)) (ts_heap s)" using ok free(1) by (simp add: sched_ok_def heap_ok_upd)
  moreover have "expired_ok ((ts_mem s)(a := Some t)) (ts_heap s) (ts_expired s)"
    using ok by (auto simp: sched_ok_def expired_entries_ok_def expired_ok_def)
  moreover have "entry_ok ((ts_mem s)(a := Some t)) x" if "x \<in> set (ts_expired s)" for x
  proof -
    have "a \<noteq> snd x" using that free(2) by auto
    with that ok show ?thesis by (simp add: entry_ok_upd_other sched_ok_def expired_entries_ok_def del: fun_upd_apply)
  qed
  ultimately have "sched_ok ?s" using ok by (simp add: sched_ok_def expired_entries_ok_def del: fun_upd_apply)
  then have "call_leaves s ?s" using assms(1) a(3) clock_ok_other [OF _ free(2)]
    by (simp add: call_leaves_def typed_sched_def mem_typed_upd del: fun_upd_apply)
  with a show ?thesis by simp
qed

lemma addTimer_typed:
  assumes "clock_env_ok env" and "typed_sched s" and "typed_call s (AddTimer a)"
  shows "\<exists>s'. timer_call_step env (AddTimer a) s = Inr s' \<and> call_leaves s s'"
proof -
  from assms(3) obtain t where t: "ts_mem s a = Some t" "Timestamp_isvalid (tm_expiration t)"
    and a: "a < UINTPTR_MAX" "a \<notin> snd ` set (th_timers (ts_heap s))" by (auto simp: pending_def split: option.splits)
  have own: "se_own env" using assms(1) by (simp add: clock_env_ok_def)
  have ok: "sched_ok s" "earliest_set (ts_heap s)" "mem_typed (ts_mem s)" using assms(2) by (simp_all add: typed_sched_def)
  show ?thesis
  proof (cases "ts_running s \<and> (tm_expiration t, a) \<in> set (ts_expired s)")
    case True
    with assms(2) t own show ?thesis by (simp add: TimersScheduler_addTimer_def call_leaves_def)
  next
    case False
    have fresh: "(tm_expiration t, a) \<notin> set (th_timers (ts_heap s))" using a(2) by force
    then obtain h where h: "TimerHeap_addTimer (ts_mem s) (ts_heap s) a = Inr (True, h)"
      using t by (auto simp: TimerHeap_addTimer_def Let_def)
    have heads: "earliest_heads h" by (rule addTimer_heads [OF h a(2) ok(2)])
    let ?s = "s\<lparr>ts_heap := h\<rparr>"
    have ok': "sched_ok ?s" by (rule sched_ok_add_heap [OF ok(1) t(1) a(1) False h])
    then have l: "call_leaves s ?s" using ok(3) heads_set [OF heads] by (simp add: call_leaves_def typed_sched_def)
    from resetTimer_heads [OF assms(1) ok'] ok(3) heads obtain e b s' where
      r: "TimerHeap_getEarlistExpiration (ts_mem s) h = Inr e" "TimersScheduler_resetTimer env ?s e = Inr (b, s')"
      by auto
    show ?thesis
    proof (cases "th_change h")
      case True
      with False own t(1) h r reset_leaves [OF r(2) l] show ?thesis
        by (auto simp: TimersScheduler_addTimer_def TimerHeap_getEarlistChange_def)
    next
      case no: False
      with False own t(1) h l show ?thesis by (auto simp: TimersScheduler_addTimer_def TimerHeap_getEarlistChange_def)
    qed
  qed
qed

lemma clock_ok_mark:
  assumes "clock_ok rnd clk mem xs"
  shows "clock_ok rnd clk (mem(a := Some (Timer_setState t DELETED))) xs"
  using assms by (auto simp: clock_ok_def restarts_def next_exp_def deref_def Timer_setState_def)

lemma delTimer_typed:
  assumes "clock_env_ok env" and "typed_sched s" and "typed_call s (DelTimer a)"
  shows "\<exists>s'. timer_call_step env (DelTimer a) s = Inr s' \<and> call_leaves s s'"
proof -
  have own: "se_own env" using assms(1) by (simp add: clock_env_ok_def)
  have ok: "sched_ok s" "earliest_set (ts_heap s)" "mem_typed (ts_mem s)" using assms(2) by (simp_all add: typed_sched_def)
  have hp: "heap_ok (ts_mem s) (ts_heap s)" using ok(1) by (simp add: sched_ok_def)
  show ?thesis
  proof (cases "expiring s a")
    case True
    then obtain e where e: "(e, a) \<in> set (ts_expired s)" and run: "ts_running s" by (auto simp: expiring_def)
    with ok(1) obtain t where t: "ts_mem s a = Some t" "tm_expiration t = e"
      by (auto simp: sched_ok_def expired_entries_ok_def entry_ok_def dest!: bspec)
    have "sched_ok (s\<lparr>ts_mem := (ts_mem s)(a := Some (Timer_setState t DELETED))\<rparr>)"
      by (rule sched_ok_mark [OF ok(1) t(1)]) (simp add: Timer_setState_def)
    moreover have "i64_range (usec (tm_expiration (Timer_setState t DELETED)))"
      using ok(3) t(1) by (auto simp: mem_typed_def Timer_setState_def)
    ultimately show ?thesis using own e run t ok(2,3)
      by (simp add: TimersScheduler_delTimer_def call_leaves_def typed_sched_def mem_typed_upd clock_ok_mark del: fun_upd_apply)
  next
    case False
    then have w: "a \<in> snd ` set (th_timers (ts_heap s))" and several: "2 \<le> length (th_timers (ts_heap s))"
      using assms(3) by (auto simp: pending_def)
    then obtain e where e: "(e, a) \<in> set (th_timers (ts_heap s))" by auto
    with hp obtain t where t: "ts_mem s a = Some t" "tm_expiration t = e" by (auto simp: heap_ok_def entry_ok_def dest!: bspec)
    have unlisted: "\<not> (ts_running s \<and> (tm_expiration t, a) \<in> set (ts_expired s))"
      using False by (force simp: expiring_def)
    let ?h = "(ts_heap s)\<lparr>th_timers := sset_erase (th_timers (ts_heap s)) (e, a)\<rparr>"
    let ?s = "s\<lparr>ts_mem := (ts_mem s)(a := None), ts_heap := note_earliest ?h\<rparr>"
    have "sset_erase (th_timers (ts_heap s)) (e, a) \<noteq> []"
    proof
      assume "sset_erase (th_timers (ts_heap s)) (e, a) = []"
      then have "set (th_timers (ts_heap s)) \<subseteq> {(e, a)}" by (simp add: sset_erase_def filter_empty_conv) blast
      moreover have "distinct (th_timers (ts_heap s))" using hp by (simp add: heap_ok_def sset_ok_def strict_sorted_iff)
      ultimately have "length (th_timers (ts_heap s)) \<le> 1"
        by (metis card.empty card_insert_disjoint card_mono distinct_card empty_iff finite.intros One_nat_def)
      with several show False by simp
    qed
    then have del: "TimerHeap_delTimer (ts_mem s) (ts_heap s) a = Inr ((ts_mem s)(a := None), note_earliest ?h)"
      and heads: "earliest_heads (note_earliest ?h)"
      using t e by (simp_all add: TimerHeap_delTimer_def earliest_heads_def)
    have ok': "sched_ok ?s" by (rule sched_ok_del_heap [OF ok(1) t(1) unlisted del])
    have "a \<notin> snd ` set (ts_expired s)" by (rule not_expired [OF ok(1) t(1) unlisted])
    then have l: "call_leaves s ?s" using ok' ok(3) heads_set [OF heads] clock_ok_other
      by (simp add: call_leaves_def typed_sched_def mem_typed_upd del: fun_upd_apply)
    have "mem_typed ((ts_mem s)(a := None))" using ok(3) by (simp add: mem_typed_upd)
    with resetTimer_heads [OF assms(1) ok'] heads obtain e' b s' where
      r: "TimerHeap_getEarlistExpiration ((ts_mem s)(a := None)) (note_earliest ?h) = Inr e'"
        "TimersScheduler_resetTimer env ?s e' = Inr (b, s')" by auto
    have step: "TimersScheduler_delTimer env s a = (if th_change (note_earliest ?h) then Inr s' else Inr ?s)"
      using own t(1) unlisted del r by (auto simp: TimersScheduler_delTimer_def TimerHeap_getEarlistChange_def)
    show ?thesis unfolding timer_call_step.simps step using l reset_leaves [OF r(2) l] by auto
  qed
qed

lemma typed_call_safe:
  assumes "clock_env_ok env" and "typed_sched s" and "typed_call s c"
  shows "\<exists>s'. timer_call_step env c s = Inr s' \<and> call_leaves s s'"
proof (cases c)
  case NewTimer
  with assms show ?thesis using newTimer_typed by blast
next
  case AddTimer
  with assms show ?thesis using addTimer_typed by blast
next
  case DelTimer
  with assms show ?thesis using delTimer_typed by blast
qed

lemma call_leaves_refl: "typed_sched s \<Longrightarrow> call_leaves s s"
  by (simp add: call_leaves_def)

lemma call_leaves_trans: "call_leaves s s' \<Longrightarrow> call_leaves s' s'' \<Longrightarrow> call_leaves s s''"
  by (simp add: call_leaves_def)

lemma calls_typed_safe:
  "clock_env_ok env \<Longrightarrow> typed_sched s \<Longrightarrow> calls_typed env cs s \<Longrightarrow> \<exists>s'. timer_calls env cs s = Inr s' \<and> call_leaves s s'"
proof (induction cs arbitrary: s)
  case (Cons c cs)
  from typed_call_safe [OF Cons.prems(1,2)] Cons.prems(3) obtain s1 where
    s1: "timer_call_step env c s = Inr s1" "call_leaves s s1" by auto
  then have "typed_sched s1" "calls_typed env cs s1" using Cons.prems(3) by (simp_all add: call_leaves_def)
  from Cons.IH [OF Cons.prems(1) this] s1 call_leaves_trans [OF s1(2)] show ?case by auto
qed (simp add: call_leaves_refl)

section \<open>Typed runs\<close>

text \<open>
  What a timer callback does may depend on what it finds, such as the address that \<open>new\<close>
  gives it: \<open>prog a s\<close> are the calls of the callback of the timer at \<open>a\<close>.
\<close>

fun client_step :: "(addr \<Rightarrow> sched \<Rightarrow> timer_call list) \<Rightarrow> sched_env \<Rightarrow> sched_event \<Rightarrow> sched \<Rightarrow> sched res" where
  "client_step prog env (Calls cs) s = timer_calls env cs s"
| "client_step prog env Tick s = Inr (if ts_armed s = None then s else s\<lparr>ts_readable := True\<rparr>)"
| "client_step prog env (Expiry now) s =
     TimersScheduler_handdleRead (\<lambda>a u. timer_calls env (prog a u) u) env now s"

fun client_run :: "(addr \<Rightarrow> sched \<Rightarrow> timer_call list) \<Rightarrow> (sched_env \<times> sched_event) list \<Rightarrow> sched \<Rightarrow> sched res" where
  "client_run prog [] s = Inr s"
| "client_run prog ((env, ev) # evs) s = bind_res (client_step prog env ev s) (client_run prog evs)"

text \<open>Callbacks that are typed whenever they are called.\<close>

definition typed_prog :: "(addr \<Rightarrow> sched \<Rightarrow> timer_call list) \<Rightarrow> bool" where
  "typed_prog prog \<longleftrightarrow> (\<forall>env a u. clock_env_ok env \<longrightarrow> typed_sched u \<longrightarrow> ts_running u \<longrightarrow> calls_typed env (prog a u) u)"

text \<open>At an expiry the next expirations of the repeating timers that are due must be numbers that fit.\<close>

fun event_typed :: "sched_env \<Rightarrow> sched_event \<Rightarrow> sched \<Rightarrow> bool" where
  "event_typed env (Calls cs) s \<longleftrightarrow> clock_env_ok env \<and> calls_typed env cs s"
| "event_typed env Tick s \<longleftrightarrow> True"
| "event_typed env (Expiry now) s \<longleftrightarrow> clock_env_ok env \<and>
     clock_ok (se_rnd env) (se_clk env) (ts_mem s) (filter (\<lambda>x. fst x \<le> now) (th_timers (ts_heap s)))"

fun run_typed :: "(addr \<Rightarrow> sched \<Rightarrow> timer_call list) \<Rightarrow> (sched_env \<times> sched_event) list \<Rightarrow> sched \<Rightarrow> bool" where
  "run_typed prog [] s \<longleftrightarrow> True"
| "run_typed prog ((env, ev) # evs) s \<longleftrightarrow> event_typed env ev s \<and>
     (case client_step prog env ev s of Inl e \<Rightarrow> True | Inr s' \<Rightarrow> run_typed prog evs s')"

lemma client_step_safe:
  assumes "typed_prog prog" and "typed_sched s" and "\<not> ts_running s" and "event_typed env ev s"
  shows "\<exists>s'. client_step prog env ev s = Inr s' \<and> typed_sched s' \<and> \<not> ts_running s'"
proof (cases ev)
  case (Calls cs)
  with assms calls_typed_safe [of env s cs] show ?thesis by (auto simp: call_leaves_def)
next
  case Tick
  with assms sched_ok_cong [of s "s\<lparr>ts_readable := True\<rparr>"] show ?thesis by (simp add: typed_sched_def)
next
  case (Expiry now)
  with assms(4) have env: "clock_env_ok env"
    and clk: "clock_ok (se_rnd env) (se_clk env) (ts_mem s) (filter (\<lambda>x. fst x \<le> now) (th_timers (ts_heap s)))" by simp_all
  have cb: "\<exists>u'. timer_calls env (prog a u) u = Inr u' \<and> expiry_inv env u' \<and> ts_expired u' = ts_expired u"
    if "expiry_inv env u" for a u
  proof -
    have "typed_sched u" "ts_running u" using that by (simp_all add: expiry_inv_def typed_sched_def)
    with assms(1) env calls_typed_safe [of env u "prog a u"] that show ?thesis
      by (auto simp: typed_prog_def call_leaves_def expiry_inv_def typed_sched_def)
  qed
  have "\<exists>s'. TimersScheduler_handdleRead (\<lambda>a u. timer_calls env (prog a u) u) env now s = Inr s' \<and>
      sched_ok s' \<and> \<not> ts_running s' \<and> earliest_set (ts_heap s') \<and> mem_typed (ts_mem s')"
    using handdleRead_ok [where env = env and s = s and now = now and cb = "\<lambda>a u. timer_calls env (prog a u) u", OF _ _ _ _ assms(3) _ _ clk cb]
      env assms(2) by (auto simp: clock_env_ok_def typed_sched_def)
  with Expiry show ?thesis by (auto simp: typed_sched_def)
qed

text \<open>
  C11: Typed clients do not go wrong. Whatever timers a program creates, adds and cancels, between
  expiries and in the callbacks of timers, as long as every call is typed in the state in which it
  is made, no call and no expiry dereferences a freed timer or a null pointer, fails an
  assertion or overflows, and the scheduler stays typed.
\<close>

theorem scheduler_typed_clients_safe:
  assumes "typed_prog prog" and "typed_sched s" and "\<not> ts_running s" and "run_typed prog evs s"
  shows "\<exists>s'. client_run prog evs s = Inr s' \<and> typed_sched s' \<and> \<not> ts_running s'"
  using assms(2-)
proof (induction evs arbitrary: s)
  case (Cons x evs)
  obtain env ev where x: "x = (env, ev)" by (cases x)
  from client_step_safe [OF assms(1) Cons.prems(1,2), of env ev] Cons.prems(3) x obtain s1 where
    s1: "client_step prog env ev s = Inr s1" "typed_sched s1" "\<not> ts_running s1" by auto
  with Cons.prems(3) x Cons.IH [OF s1(2,3)] show ?case by simp
qed simp

text \<open>Callbacks that cancel their own timer, in a run with a repeating and a single timer.\<close>

definition cancel_own :: "addr \<Rightarrow> sched \<Rightarrow> timer_call list" where
  "cancel_own a u = (if expiring u a then [DelTimer a] else [])"

definition demo_events :: "(sched_env \<times> sched_event) list" where
  "demo_events = [(demo_env, Calls demo_calls), (demo_env, Tick), (demo_env, Expiry (Timestamp 2000))]"

lemma cancel_own_typed: "typed_prog cancel_own"
  by (auto simp: typed_prog_def cancel_own_def split: sum.split)

lemma demo_events_typed: "run_typed cancel_own demo_events (TimersScheduler_new (\<lambda>a. None))"
  by (simp add: demo_events_def sched_exec_defs demo_env_def demo_calls_def clock_env_ok_def pending_def cancel_own_def expiring_def
      clock_ok_def restarts_def next_exp_def)

lemma scheduler_typed_clients_safe_witness:
  "\<exists>s'. client_run cancel_own demo_events (TimersScheduler_new (\<lambda>a. None)) = Inr s' \<and> typed_sched s'"
proof -
  have "typed_sched (TimersScheduler_new (\<lambda>a. None))"
    using sched_ok_new by (simp add: typed_sched_def TimersScheduler_new_def earliest_set_def TimerHeap_new_def mem_typed_def)
  from scheduler_typed_clients_safe [OF cancel_own_typed this _ demo_events_typed]
  show ?thesis by (auto simp: TimersScheduler_new_def)
qed

end
