(* ===== verification/Events.thy ===== *)
theory Events
  imports FAS_Prelude
begin

unbundle bit_operations_syntax

text \<open>
  \<open>src/base/Events.h\<close> and \<open>src/base/Events.cpp\<close>: a descriptor with a 32-bit
  mask of poll events, and its translation to and from the kernel's
  \<open>struct epoll_event\<close> (32-bit mask) and \<open>struct pollfd\<close> (16-bit signed masks).
  The event constants are those of Linux; \<open>EPOLLIN = POLLIN\<close> and the other
  equalities the header asserts statically hold for them.
\<close>

definition POLLIN :: "32 word" where "POLLIN = 0x001"
definition POLLPRI :: "32 word" where "POLLPRI = 0x002"
definition POLLOUT :: "32 word" where "POLLOUT = 0x004"
definition POLLERR :: "32 word" where "POLLERR = 0x008"
definition POLLHUP :: "32 word" where "POLLHUP = 0x010"
definition POLLNVAL :: "32 word" where "POLLNVAL = 0x020"
definition POLLRDHUP :: "32 word" where "POLLRDHUP = 0x2000"

lemmas poll_bits = POLLIN_def POLLPRI_def POLLOUT_def POLLERR_def POLLHUP_def POLLNVAL_def POLLRDHUP_def

definition kNoneEvent :: "32 word" where "kNoneEvent = 0"
definition kReadEvent :: "32 word" where "kReadEvent = POLLIN OR POLLPRI"
definition kWriteEvent :: "32 word" where "kWriteEvent = POLLOUT"

record events =
  ev_fd :: int
  ev_mask :: "32 word"

record epoll_event =
  ee_events :: "32 word"
  ee_fd :: int

record pollfd =
  pf_fd :: int
  pf_events :: "16 word"
  pf_revents :: "16 word"

definition Events_new :: "int \<Rightarrow> 32 word \<Rightarrow> events" where
  "Events_new fd m = \<lparr>ev_fd = fd, ev_mask = m\<rparr>"

definition Events_copy :: "events \<Rightarrow> events" where
  "Events_copy e = Events_new (ev_fd e) (ev_mask e)"

definition Events_of_epoll :: "epoll_event \<Rightarrow> events" where
  "Events_of_epoll e = Events_new (ee_fd e) (ee_events e)"

text \<open>\<open>revents\<close> is a \<open>short\<close>: its conversion to \<open>uint32_t\<close> extends the sign.\<close>

definition Events_of_poll :: "pollfd \<Rightarrow> events" where
  "Events_of_poll p = Events_new (pf_fd p) (scast (pf_revents p))"

definition Events_getFd :: "events \<Rightarrow> int" where
  "Events_getFd e = ev_fd e"

definition Events_getEvents :: "events \<Rightarrow> 32 word" where
  "Events_getEvents e = ev_mask e"

definition Events_updateEvents :: "events \<Rightarrow> 32 word \<Rightarrow> events" where
  "Events_updateEvents e m = e\<lparr>ev_mask := m\<rparr>"

definition Events_addEvent :: "events \<Rightarrow> 32 word \<Rightarrow> events" where
  "Events_addEvent e m = e\<lparr>ev_mask := ev_mask e OR m\<rparr>"

definition Events_deleteEvent :: "events \<Rightarrow> 32 word \<Rightarrow> events" where
  "Events_deleteEvent e m = e\<lparr>ev_mask := ev_mask e AND NOT m\<rparr>"

definition Events_containsEvents :: "events \<Rightarrow> 32 word \<Rightarrow> bool" where
  "Events_containsEvents e m \<longleftrightarrow> ev_mask e AND m = m"

definition Events_containsAtLeastOneEvents :: "events \<Rightarrow> 32 word \<Rightarrow> bool" where
  "Events_containsAtLeastOneEvents e m \<longleftrightarrow> ev_mask e AND m \<noteq> 0"

definition Events_epollEvents :: "events \<Rightarrow> epoll_event" where
  "Events_epollEvents e = \<lparr>ee_events = Events_getEvents e, ee_fd = Events_getFd e\<rparr>"

text \<open>The assignment to the \<open>short\<close> field keeps the low 16 bits.\<close>

definition Events_pollEvents :: "events \<Rightarrow> pollfd" where
  "Events_pollEvents e = \<lparr>pf_fd = Events_getFd e, pf_events = ucast (Events_getEvents e), pf_revents = 0\<rparr>"

lemmas events_defs =
  Events_new_def Events_copy_def Events_of_epoll_def Events_of_poll_def Events_getFd_def
  Events_getEvents_def Events_updateEvents_def Events_addEvent_def Events_deleteEvent_def
  Events_containsEvents_def Events_containsAtLeastOneEvents_def Events_epollEvents_def
  Events_pollEvents_def

section \<open>Masks\<close>

lemma Events_fd_simps [simp]:
  "ev_fd (Events_addEvent e m) = ev_fd e"
  "ev_fd (Events_deleteEvent e m) = ev_fd e"
  "ev_fd (Events_updateEvents e m) = ev_fd e"
  "ev_fd (Events_new fd m) = fd"
  "ev_mask (Events_new fd m) = m"
  by (simp_all add: events_defs)

lemma Events_add_contains: "Events_containsEvents (Events_addEvent e m) m"
  by (simp add: events_defs bit_eq_iff bit_simps)

lemma Events_delete_removes: "\<not> Events_containsAtLeastOneEvents (Events_deleteEvent e m) m"
  by (simp add: events_defs bit_eq_iff bit_simps)

lemma Events_add_other:
  "m AND n = 0 \<Longrightarrow>
   Events_containsAtLeastOneEvents (Events_addEvent e m) n = Events_containsAtLeastOneEvents e n"
  by (simp add: events_defs bit_eq_iff bit_simps) blast

lemma Events_delete_other:
  "m AND n = 0 \<Longrightarrow>
   Events_containsAtLeastOneEvents (Events_deleteEvent e m) n = Events_containsAtLeastOneEvents e n"
  by (simp add: events_defs bit_eq_iff bit_simps) blast

lemma Events_contains_or:
  "Events_containsAtLeastOneEvents e (m OR n) \<longleftrightarrow>
     Events_containsAtLeastOneEvents e m \<or> Events_containsAtLeastOneEvents e n"
  by (simp add: events_defs bit_eq_iff bit_simps) blast

lemma Events_add_delete:
  "ev_mask e AND m = 0 \<Longrightarrow> Events_deleteEvent (Events_addEvent e m) m = e"
  by (simp add: events_defs bit_eq_iff bit_simps) (rule events.equality; simp add: bit_eq_iff bit_simps; blast)

lemma Events_epoll_roundtrip: "Events_of_epoll (Events_epollEvents e) = e"
  by (simp add: events_defs)

text \<open>
  A mask that \<open>poll\<close> echoes comes back unchanged when it fits the non-negative
  half of a \<open>short\<close>, which holds for every poll event; larger masks lose bits.
\<close>

lemma scast_ucast_small:
  assumes "m < 2 ^ 15"
  shows "scast (ucast (m :: 32 word) :: 16 word) = m"
proof (rule bit_word_eqI)
  fix n assume n: "n < LENGTH(32)"
  have "take_bit 15 m = m" using less_mask_eq [OF assms] by (simp add: take_bit_eq_mask)
  then have high: "\<not> bit m k" if "15 \<le> k" for k
    using that by (metis bit_take_bit_iff linorder_not_le)
  show "bit (scast (ucast m :: 16 word) :: 32 word) n = bit m n"
    using n high by (cases "n < 15") (auto simp: bit_simps not_less min_def)
qed

lemma Events_poll_roundtrip:
  assumes "ev_mask e < 2 ^ 15"
  shows "Events_of_poll ((Events_pollEvents e)\<lparr>pf_revents := pf_events (Events_pollEvents e)\<rparr>) = e"
  using scast_ucast_small [OF assms] by (simp add: events_defs)

end
