(* ===== verification/Handle.thy ===== *)
theory Handle
  imports Events Timestamp
begin

text \<open>
  \<open>src/base/Handle.h\<close> and \<open>Handle.cpp\<close>: a handle ties the events of a descriptor to the
  callbacks of its user. The data of a handle is the record \<open>handle\<close>; the functions set
  on it are the record \<open>handlers\<close>, over the state \<open>'w\<close> of whoever runs them. Lemmas: which
  callbacks an event triggers, and in which order.
\<close>

datatype handle_state = STATE_ADD | STATE_MOD | STATE_DEL | STATE_LOOP | STATE_NEW

text \<open>\<open>loop_\<close> is the identity of an event loop, or nothing for a null pointer.\<close>

record handle =
  h_loop :: "nat option"
  h_events :: events
  h_state :: handle_state

type_synonym event_check = "events \<Rightarrow> bool"
type_synonym 'w event_handle = "events \<Rightarrow> timestamp \<Rightarrow> 'w \<Rightarrow> 'w res"

record 'w handlers =
  hd_checkRead :: event_check
  hd_checkWrite :: event_check
  hd_checkClose :: event_check
  hd_checkErr :: event_check
  hd_read :: "'w event_handle option"
  hd_write :: "'w event_handle option"
  hd_error :: "'w event_handle option"
  hd_close :: "'w event_handle option"

definition Handle_defaultCheckRead :: event_check where
  "Handle_defaultCheckRead event = Events_containsAtLeastOneEvents event (POLLIN OR POLLPRI OR POLLRDHUP)"

definition Handle_defaultCheckWrite :: event_check where
  "Handle_defaultCheckWrite event = Events_containsAtLeastOneEvents event POLLOUT"

definition Handle_defaultCheckError :: event_check where
  "Handle_defaultCheckError event = Events_containsAtLeastOneEvents event (POLLERR OR POLLNVAL)"

definition Handle_defaultCheckClose :: event_check where
  "Handle_defaultCheckClose event \<longleftrightarrow> Events_containsAtLeastOneEvents event POLLHUP \<and>
     \<not> Events_containsAtLeastOneEvents event POLLIN"

definition Handle_new :: "nat option \<Rightarrow> events \<Rightarrow> handle" where
  "Handle_new loop ev = \<lparr>h_loop = loop, h_events = Events_copy ev, h_state = STATE_NEW\<rparr>"

definition Handle_new_handlers :: "'w handlers" where
  "Handle_new_handlers =
     \<lparr>hd_checkRead = Handle_defaultCheckRead, hd_checkWrite = Handle_defaultCheckWrite,
      hd_checkClose = Handle_defaultCheckClose, hd_checkErr = Handle_defaultCheckError,
      hd_read = None, hd_write = None, hd_error = None, hd_close = None\<rparr>"

definition Handle_getLoop :: "handle \<Rightarrow> nat res" where
  "Handle_getLoop h = (case h_loop h of None \<Rightarrow> Inl AssertFailed | Some l \<Rightarrow> Inr l)"

definition Handle_fd :: "handle \<Rightarrow> int" where
  "Handle_fd h = Events_getFd (h_events h)"

definition Handle_getEvent :: "handle \<Rightarrow> events" where
  "Handle_getEvent h = h_events h"

definition Handle_enableWrite :: "handle \<Rightarrow> handle" where
  "Handle_enableWrite h = h\<lparr>h_events := Events_addEvent (h_events h) kWriteEvent\<rparr>"

definition Handle_disableWrite :: "handle \<Rightarrow> handle" where
  "Handle_disableWrite h = h\<lparr>h_events := Events_deleteEvent (h_events h) kWriteEvent\<rparr>"

definition Handle_enableRead :: "handle \<Rightarrow> handle" where
  "Handle_enableRead h = h\<lparr>h_events := Events_addEvent (h_events h) kReadEvent\<rparr>"

definition Handle_disableRead :: "handle \<Rightarrow> handle" where
  "Handle_disableRead h = h\<lparr>h_events := Events_deleteEvent (h_events h) kReadEvent\<rparr>"

definition Handle_setState :: "handle \<Rightarrow> handle_state \<Rightarrow> handle" where
  "Handle_setState h s = h\<lparr>h_state := s\<rparr>"

definition Handle_getState :: "handle \<Rightarrow> handle_state" where
  "Handle_getState h = h_state h"

definition Handle_setHandleRead :: "'w handlers \<Rightarrow> 'w event_handle \<Rightarrow> 'w handlers" where
  "Handle_setHandleRead hs f = hs\<lparr>hd_read := Some f\<rparr>"

definition Handle_setHandleWrite :: "'w handlers \<Rightarrow> 'w event_handle \<Rightarrow> 'w handlers" where
  "Handle_setHandleWrite hs f = hs\<lparr>hd_write := Some f\<rparr>"

definition Handle_setHandleError :: "'w handlers \<Rightarrow> 'w event_handle \<Rightarrow> 'w handlers" where
  "Handle_setHandleError hs f = hs\<lparr>hd_error := Some f\<rparr>"

definition Handle_setHandleClose :: "'w handlers \<Rightarrow> 'w event_handle \<Rightarrow> 'w handlers" where
  "Handle_setHandleClose hs f = hs\<lparr>hd_close := Some f\<rparr>"

definition Handle_setCheckRead :: "'w handlers \<Rightarrow> event_check \<Rightarrow> 'w handlers" where
  "Handle_setCheckRead hs f = hs\<lparr>hd_checkRead := f\<rparr>"

definition Handle_setCheckWrite :: "'w handlers \<Rightarrow> event_check \<Rightarrow> 'w handlers" where
  "Handle_setCheckWrite hs f = hs\<lparr>hd_checkWrite := f\<rparr>"

definition Handle_setCheckError :: "'w handlers \<Rightarrow> event_check \<Rightarrow> 'w handlers" where
  "Handle_setCheckError hs f = hs\<lparr>hd_checkErr := f\<rparr>"

definition Handle_setCheckClose :: "'w handlers \<Rightarrow> event_check \<Rightarrow> 'w handlers" where
  "Handle_setCheckClose hs f = hs\<lparr>hd_checkClose := f\<rparr>"

definition fire :: "bool \<Rightarrow> 'w event_handle option \<Rightarrow> 'w event_handle" where
  "fire check cb ev time w =
     (if check then (case cb of None \<Rightarrow> Inr w | Some f \<Rightarrow> f ev time w) else Inr w)"

definition Handle_handleEvent :: "'w handlers \<Rightarrow> 'w event_handle" where
  "Handle_handleEvent hs ev time w =
     bind_res (fire (hd_checkClose hs ev) (hd_close hs) ev time w) (\<lambda>w.
     bind_res (fire (hd_checkErr hs ev) (hd_error hs) ev time w) (\<lambda>w.
     bind_res (fire (hd_checkRead hs ev) (hd_read hs) ev time w) (\<lambda>w.
     fire (hd_checkWrite hs ev) (hd_write hs) ev time w)))"

section \<open>Dispatch\<close>

datatype event_kind = CloseEvent | ErrorEvent | ReadEvent | WriteEvent

fun handler_of :: "'w handlers \<Rightarrow> event_kind \<Rightarrow> 'w event_handle option" where
  "handler_of hs CloseEvent = hd_close hs"
| "handler_of hs ErrorEvent = hd_error hs"
| "handler_of hs ReadEvent = hd_read hs"
| "handler_of hs WriteEvent = hd_write hs"

text \<open>The specification: the kinds of callback that a returned event mask asks for.\<close>

definition has :: "events \<Rightarrow> 32 word \<Rightarrow> bool" where
  "has ev b \<longleftrightarrow> ev_mask ev AND b \<noteq> 0"

definition wanted :: "events \<Rightarrow> event_kind list" where
  "wanted ev =
     (if has ev POLLHUP \<and> \<not> has ev POLLIN then [CloseEvent] else []) @
     (if has ev POLLERR \<or> has ev POLLNVAL then [ErrorEvent] else []) @
     (if has ev POLLIN \<or> has ev POLLPRI \<or> has ev POLLRDHUP then [ReadEvent] else []) @
     (if has ev POLLOUT then [WriteEvent] else [])"

fun run_kinds :: "'w handlers \<Rightarrow> event_kind list \<Rightarrow> 'w event_handle" where
  "run_kinds hs [] ev time w = Inr w"
| "run_kinds hs (k # ks) ev time w =
     bind_res (case handler_of hs k of None \<Rightarrow> Inr w | Some f \<Rightarrow> f ev time w) (run_kinds hs ks ev time)"

definition default_checks :: "'w handlers \<Rightarrow> bool" where
  "default_checks hs \<longleftrightarrow> hd_checkRead hs = Handle_defaultCheckRead \<and>
     hd_checkWrite hs = Handle_defaultCheckWrite \<and> hd_checkErr hs = Handle_defaultCheckError \<and>
     hd_checkClose hs = Handle_defaultCheckClose"

lemma default_checks_new: "default_checks Handle_new_handlers"
  by (simp add: default_checks_def Handle_new_handlers_def)

lemma default_checks_set [simp]:
  "default_checks (Handle_setHandleRead hs f) = default_checks hs"
  "default_checks (Handle_setHandleWrite hs f) = default_checks hs"
  "default_checks (Handle_setHandleError hs f) = default_checks hs"
  "default_checks (Handle_setHandleClose hs f) = default_checks hs"
  by (simp_all add: default_checks_def Handle_setHandleRead_def Handle_setHandleWrite_def
      Handle_setHandleError_def Handle_setHandleClose_def)

lemma has_iff: "Events_containsAtLeastOneEvents ev b = has ev b"
  by (simp add: has_def Events_containsAtLeastOneEvents_def)

lemma default_check_has:
  "Handle_defaultCheckRead ev \<longleftrightarrow> has ev POLLIN \<or> has ev POLLPRI \<or> has ev POLLRDHUP"
  "Handle_defaultCheckWrite ev \<longleftrightarrow> has ev POLLOUT"
  "Handle_defaultCheckError ev \<longleftrightarrow> has ev POLLERR \<or> has ev POLLNVAL"
  "Handle_defaultCheckClose ev \<longleftrightarrow> has ev POLLHUP \<and> \<not> has ev POLLIN"
  by (simp_all add: Handle_defaultCheckRead_def Handle_defaultCheckWrite_def Handle_defaultCheckError_def
      Handle_defaultCheckClose_def Events_contains_or flip: has_iff)

lemma run_kinds_single:
  "run_kinds hs (if b then [k] else []) ev time = fire b (handler_of hs k) ev time"
  by (rule ext) (simp add: fire_def bind_res_def split: option.splits sum.splits)

lemma run_kinds_append:
  "run_kinds hs (ks @ ls) ev time = (\<lambda>w. bind_res (run_kinds hs ks ev time w) (run_kinds hs ls ev time))"
proof (induction ks)
  case (Cons k ks)
  show ?case
  proof (rule ext)
    fix w
    show "run_kinds hs ((k # ks) @ ls) ev time w =
        bind_res (run_kinds hs (k # ks) ev time w) (run_kinds hs ls ev time)"
      by (cases "case handler_of hs k of None \<Rightarrow> Inr w | Some f \<Rightarrow> f ev time w")
        (simp_all add: Cons.IH)
  qed
qed simp

lemma handleEvent_run_kinds:
  assumes "default_checks hs"
  shows "Handle_handleEvent hs ev time w = run_kinds hs (wanted ev) ev time w"
proof -
  have checks: "hd_checkRead hs = Handle_defaultCheckRead" "hd_checkWrite hs = Handle_defaultCheckWrite"
    "hd_checkErr hs = Handle_defaultCheckError" "hd_checkClose hs = Handle_defaultCheckClose"
    using assms by (simp_all add: default_checks_def)
  show ?thesis
    by (simp only: Handle_handleEvent_def wanted_def run_kinds_append run_kinds_single checks
        default_check_has handler_of.simps)
qed

text \<open>
  With the default checks, \<open>handleEvent\<close> runs exactly the callbacks that the returned
  mask asks for and that are set, in the order close, error, read, write, each on the
  state its predecessors left and none after one that failed: close on a hang-up
  without data, error on \<open>POLLERR\<close> or \<open>POLLNVAL\<close>, read on data, urgent data or a peer
  that shut down, write on \<open>POLLOUT\<close>.
\<close>
theorem handle_dispatch:
  assumes "default_checks hs"
  shows "Handle_handleEvent hs ev time w = run_kinds hs (wanted ev) ev time w"
  by (rule handleEvent_run_kinds [OF assms])

text \<open>Handlers that log what runs; a hang-up with data left is read, not closed.\<close>

definition log_handlers :: "event_kind list handlers" where
  "log_handlers =
     Handle_setHandleClose (Handle_setHandleError (Handle_setHandleWrite (Handle_setHandleRead
       Handle_new_handlers
       (\<lambda>ev t w. Inr (w @ [ReadEvent]))) (\<lambda>ev t w. Inr (w @ [WriteEvent])))
       (\<lambda>ev t w. Inr (w @ [ErrorEvent]))) (\<lambda>ev t w. Inr (w @ [CloseEvent]))"

theorem handle_dispatch_witness:
  "Handle_handleEvent log_handlers (Events_new 7 (POLLHUP OR POLLIN OR POLLOUT)) (Timestamp 1) [] =
     Inr [ReadEvent, WriteEvent] \<and>
   Handle_handleEvent log_handlers (Events_new 7 (POLLHUP OR POLLERR)) (Timestamp 1) [] =
     Inr [CloseEvent, ErrorEvent]"
  by (subst (1 2) handle_dispatch; simp add: log_handlers_def default_checks_new wanted_def has_def
      POLLHUP_def POLLIN_def POLLOUT_def POLLERR_def POLLNVAL_def POLLPRI_def POLLRDHUP_def
      Handle_setHandleClose_def Handle_setHandleError_def Handle_setHandleWrite_def
      Handle_setHandleRead_def default_checks_def Handle_new_handlers_def)

end
