(* ===== verification/Pollers.thy ===== *)
theory Pollers
  imports Events Std_Containers
begin

text \<open>
  \<open>src/base/Poller.h\<close>, \<open>Poll.h\<close>, \<open>Poll.cpp\<close>, \<open>Epoll.h\<close> and \<open>Epoll.cpp\<close>. The virtual class
  \<open>Poller\<close> is the record \<open>poller_ops\<close> of its registration functions and the locale
  \<open>poller\<close> of what the event loop relies on; \<open>Poll\<close> interprets it with its array of
  \<open>struct pollfd\<close>, \<open>Epoll\<close> for every kernel that keeps the documented contract of
  \<open>epoll_ctl\<close> (locale \<open>epoll_kernel\<close>). The system calls themselves are arguments: the
  results that \<open>poll\<close> and \<open>epoll_wait\<close> return, in order, so that a retry after
  \<open>EINTR\<close> reads the next one; \<open>None\<close> is a call that has not returned yet.
\<close>

section \<open>The interface\<close>

record 'p poller_ops =
  pl_add :: "'p \<Rightarrow> events \<Rightarrow> (bool \<times> 'p) res"
  pl_mod :: "'p \<Rightarrow> events \<Rightarrow> (bool \<times> 'p) res"
  pl_del :: "'p \<Rightarrow> events \<Rightarrow> (bool \<times> 'p) res"

locale poller =
  fixes ops :: "'p poller_ops"
    and ok :: "'p \<Rightarrow> bool"
    and fits :: "32 word \<Rightarrow> bool"
    and interest :: "'p \<Rightarrow> int \<Rightarrow> 32 word option"
  assumes add_total: "ok p \<Longrightarrow> \<exists>r. pl_add ops p ev = Inr r"
    and add_taken: "ok p \<Longrightarrow> interest p (ev_fd ev) = None \<Longrightarrow> fits (ev_mask ev) \<Longrightarrow>
        pl_add ops p ev = Inr (True, p') \<Longrightarrow>
        ok p' \<and> interest p' = (interest p)(ev_fd ev := Some (ev_mask ev))"
    and add_refused: "ok p \<Longrightarrow> pl_add ops p ev = Inr (False, p') \<Longrightarrow> p' = p"
    and mod_known: "ok p \<Longrightarrow> interest p (ev_fd ev) \<noteq> None \<Longrightarrow> fits (ev_mask ev) \<Longrightarrow>
        \<exists>p'. pl_mod ops p ev = Inr (True, p') \<and> ok p' \<and>
             interest p' = (interest p)(ev_fd ev := Some (ev_mask ev))"
    and mod_unknown: "ok p \<Longrightarrow> interest p (ev_fd ev) = None \<Longrightarrow> pl_mod ops p ev = Inr (False, p)"
    and del_known: "ok p \<Longrightarrow> interest p (ev_fd ev) \<noteq> None \<Longrightarrow>
        \<exists>p'. pl_del ops p ev = Inr (True, p') \<and> ok p' \<and>
             interest p' = (interest p)(ev_fd ev := None)"
    and del_unknown: "ok p \<Longrightarrow> interest p (ev_fd ev) = None \<Longrightarrow> pl_del ops p ev = Inr (False, p)"
begin

lemma add_cases:
  assumes "ok p" and "interest p (ev_fd ev) = None" and "fits (ev_mask ev)"
  obtains (refused) "pl_add ops p ev = Inr (False, p)"
  | (taken) p' where "pl_add ops p ev = Inr (True, p')" "ok p'"
      "interest p' = (interest p)(ev_fd ev := Some (ev_mask ev))"
proof -
  obtain b p' where r: "pl_add ops p ev = Inr (b, p')" using add_total [OF assms(1), of ev] by (metis surj_pair)
  show ?thesis
  proof (cases b)
    case True
    with r add_taken [OF assms] show ?thesis by (auto intro: taken)
  next
    case False
    with r add_refused [OF assms(1)] show ?thesis by (auto intro: refused)
  qed
qed

text \<open>What the calls leave, whether or not the poller knew the descriptor.\<close>

lemma add_any:
  assumes "ok p" and "interest p fd = None" and "ev_fd ev = fd" and "fits (ev_mask ev)"
  obtains b p' where "pl_add ops p ev = Inr (b, p')" "ok p'" "\<forall>fd'. interest p' fd' \<noteq> None \<longrightarrow> fd' = fd \<or> interest p fd' \<noteq> None"
proof -
  from assms(2,3) have none: "interest p (ev_fd ev) = None" by simp
  show ?thesis
  proof (cases rule: add_cases [OF assms(1) none assms(4)])
    case 1
    show ?thesis by (rule that [of False p]) (use 1 assms(1) in auto)
  next
    case (2 p')
    then show ?thesis using assms(3) by (auto intro!: that split: if_splits)
  qed
qed

lemma mod_any:
  assumes "ok p" and "ev_fd ev = fd" and "fits (ev_mask ev)"
  obtains b p' where "pl_mod ops p ev = Inr (b, p')" "ok p'" "\<forall>fd'. interest p' fd' \<noteq> None \<longrightarrow> fd' = fd \<or> interest p fd' \<noteq> None"
    "interest p fd \<noteq> None \<longrightarrow> interest p' fd = Some (ev_mask ev)"
proof (cases "interest p fd = None")
  case True
  with mod_unknown [OF assms(1), of ev] assms(1,2) show ?thesis by (auto intro: that)
next
  case False
  with mod_known [OF assms(1) _ assms(3)] assms(2) obtain p' where
    "pl_mod ops p ev = Inr (True, p')" "ok p'" "interest p' = (interest p)(fd := Some (ev_mask ev))" by blast
  then show ?thesis by (auto intro!: that split: if_splits)
qed

lemma del_any:
  assumes "ok p" and "ev_fd ev = fd"
  obtains b p' where "pl_del ops p ev = Inr (b, p')" "ok p'" "interest p' = (interest p)(fd := None)"
proof (cases "interest p fd = None")
  case True
  then have "interest p = (interest p)(fd := None)" by (simp only: fun_upd_idem)
  with True del_unknown [OF assms(1), of ev] assms show ?thesis by (auto intro: that)
next
  case False
  with del_known [OF assms(1), of ev] assms(2) show ?thesis by (auto intro: that)
qed

lemma add_then_del:
  assumes "ok p" and "interest p (ev_fd ev) = None" and "fits (ev_mask ev)"
    and "pl_add ops p ev = Inr (True, p1)"
  shows "\<exists>p2. pl_del ops p1 ev = Inr (True, p2) \<and> ok p2 \<and> interest p2 = interest p"
  using add_taken [OF assms] del_known [of p1 ev] assms(2) by (auto simp: fun_upd_idem)

lemma mod_twice:
  assumes "ok p" and "interest p (ev_fd ev) \<noteq> None" and "fits (ev_mask ev)"
    and "ev_fd ev' = ev_fd ev" and "fits (ev_mask ev')"
  shows "\<exists>p1 p2. pl_mod ops p ev = Inr (True, p1) \<and> pl_mod ops p1 ev' = Inr (True, p2) \<and>
    interest p2 = (interest p)(ev_fd ev := Some (ev_mask ev'))"
  using mod_known [OF assms(1-3)] mod_known [of _ ev'] assms(4,5) by (metis fun_upd_same fun_upd_upd option.distinct(1))

end

section \<open>Poll\<close>

type_synonym poll = "pollfd list"

definition kMaxPollNum :: nat where
  "kMaxPollNum = 1024"

definition Poll_new :: poll where
  "Poll_new = []"

text \<open>\<open>getEventPos\<close>: the index of the entry of the descriptor.\<close>

fun Poll_getEventPos :: "poll \<Rightarrow> pollfd \<Rightarrow> nat option" where
  "Poll_getEventPos [] event = None"
| "Poll_getEventPos (x # xs) event =
     (if pf_fd x = pf_fd event then Some 0 else map_option Suc (Poll_getEventPos xs event))"

definition Poll_EventsAdd :: "poll \<Rightarrow> events \<Rightarrow> (bool \<times> poll) res" where
  "Poll_EventsAdd p ev =
     (if kMaxPollNum \<le> length p then Inr (False, p) else Inr (True, p @ [Events_pollEvents ev]))"

definition Poll_EventsMod :: "poll \<Rightarrow> events \<Rightarrow> (bool \<times> poll) res" where
  "Poll_EventsMod p ev =
     (case Poll_getEventPos p (Events_pollEvents ev) of
        None \<Rightarrow> Inr (False, p)
      | Some pos \<Rightarrow> Inr (True, p[pos := Events_pollEvents ev]))"

definition Poll_EventsDel :: "poll \<Rightarrow> events \<Rightarrow> (bool \<times> poll) res" where
  "Poll_EventsDel p ev =
     (case Poll_getEventPos p (Events_pollEvents ev) of
        None \<Rightarrow> Inr (False, p)
      | Some pos \<Rightarrow> Inr (True, take pos p @ drop (Suc pos) p))"

definition EINTR :: int where "EINTR = 4"

text \<open>\<open>poll\<close> fails with an error number, or returns a count and fills the \<open>revents\<close>.\<close>

datatype poll_result = PollError int | PollReady nat "16 word list"

definition poll_fill :: "poll \<Rightarrow> 16 word list \<Rightarrow> poll" where
  "poll_fill p rs = map2 (\<lambda>x r. x\<lparr>pf_revents := r\<rparr>) p rs"

text \<open>The loop over the entries stops when \<open>ret\<close> of them were found.\<close>

fun poll_scan :: "nat \<Rightarrow> nat \<Rightarrow> poll \<Rightarrow> events list \<times> poll" where
  "poll_scan ret count [] = ([], [])"
| "poll_scan ret count (x # xs) =
     (if pf_revents x \<noteq> 0
      then (if Suc count = ret then ([Events_of_poll x], x\<lparr>pf_revents := 0\<rparr> # xs)
            else let (es, ys) = poll_scan ret (Suc count) xs
                 in (Events_of_poll x # es, x\<lparr>pf_revents := 0\<rparr> # ys))
      else let (es, ys) = poll_scan ret count xs in (es, x # ys))"

fun Poll_Loop :: "poll \<Rightarrow> events list \<Rightarrow> poll_result list \<Rightarrow> (events list \<times> poll) option" where
  "Poll_Loop p evs [] = None"
| "Poll_Loop p evs (PollError e # rs) = (if e = EINTR then Poll_Loop p evs rs else Some ([], []))"
| "Poll_Loop p evs (PollReady ret revs # rs) =
     (let (es, p') = poll_scan ret 0 (poll_fill p revs) in Some (evs @ es, p'))"

definition poll_ops :: "poll poller_ops" where
  "poll_ops = \<lparr>pl_add = Poll_EventsAdd, pl_mod = Poll_EventsMod, pl_del = Poll_EventsDel\<rparr>"

text \<open>One entry per descriptor, at most \<open>kMaxPollNum\<close> of them.\<close>

definition Poll_ok :: "poll \<Rightarrow> bool" where
  "Poll_ok p \<longleftrightarrow> distinct (map pf_fd p) \<and> length p \<le> kMaxPollNum"

definition poll_fits :: "32 word \<Rightarrow> bool" where
  "poll_fits m \<longleftrightarrow> m < 2 ^ 15"

definition Poll_interest :: "poll \<Rightarrow> int \<Rightarrow> 32 word option" where
  "Poll_interest p = map_of (map (\<lambda>x. (pf_fd x, scast (pf_events x))) p)"

lemma getEventPos_None: "Poll_getEventPos p e = None \<longleftrightarrow> pf_fd e \<notin> pf_fd ` set p"
  by (induction p e rule: Poll_getEventPos.induct) auto

lemma getEventPos_Some:
  "Poll_getEventPos p e = Some i \<Longrightarrow> i < length p \<and> pf_fd (p ! i) = pf_fd e \<and> pf_fd e \<notin> pf_fd ` set (take i p)"
  by (induction p e arbitrary: i rule: Poll_getEventPos.induct) (auto split: if_splits)

lemma interest_None: "Poll_interest p fd = None \<longleftrightarrow> fd \<notin> pf_fd ` set p"
  by (force simp: Poll_interest_def map_of_eq_None_iff)

lemma interest_append:
  "fd \<notin> pf_fd ` set p \<Longrightarrow> pf_fd x = fd \<Longrightarrow> Poll_interest (p @ [x]) = (Poll_interest p)(fd := Some (scast (pf_events x)))"
  by (induction p) (auto simp: Poll_interest_def fun_eq_iff)

lemma poll_split:
  assumes "Poll_ok p" and "Poll_getEventPos p e = Some i"
  obtains xs x ys where "p = xs @ x # ys" "length xs = i" "pf_fd x = pf_fd e"
    "pf_fd e \<notin> pf_fd ` set xs" "pf_fd e \<notin> pf_fd ` set ys"
proof -
  note i = getEventPos_Some [OF assms(2)]
  then have "p = take i p @ p ! i # drop (Suc i) p" by (simp add: id_take_nth_drop)
  moreover have "pf_fd e \<notin> pf_fd ` set (drop (Suc i) p)"
  proof -
    have "distinct (map pf_fd (take i p @ p ! i # drop (Suc i) p))"
      using assms(1) calculation by (simp add: Poll_ok_def)
    with i show ?thesis by simp
  qed
  ultimately show ?thesis using i by (intro that [of "take i p" "p ! i" "drop (Suc i) p"]) auto
qed

lemma interest_update:
  assumes "fd \<notin> pf_fd ` set xs" and "pf_fd x = fd" and "pf_fd y = fd"
  shows "Poll_interest (xs @ y # ys) = (Poll_interest (xs @ x # ys))(fd := Some (scast (pf_events y)))"
  using assms by (induction xs) (auto simp: Poll_interest_def fun_eq_iff)

lemma interest_remove:
  assumes "fd \<notin> pf_fd ` set xs" and "fd \<notin> pf_fd ` set ys" and "pf_fd x = fd"
  shows "Poll_interest (xs @ ys) = (Poll_interest (xs @ x # ys))(fd := None)"
proof -
  have "map_of (map (\<lambda>x. (pf_fd x, scast (pf_events x) :: 32 word)) ys) fd = None"
    "map_of (map (\<lambda>x. (pf_fd x, scast (pf_events x) :: 32 word)) xs) fd = None"
    using assms(1,2) by (force simp: map_of_eq_None_iff)+
  then show ?thesis using assms(3)
    by (intro ext) (auto simp: Poll_interest_def map_add_def split: option.splits)
qed

lemma pollEvents_simps [simp]:
  "pf_fd (Events_pollEvents ev) = ev_fd ev" "pf_revents (Events_pollEvents ev) = 0"
  by (simp_all add: events_defs)

lemma pollEvents_fits: "poll_fits (ev_mask ev) \<Longrightarrow> scast (pf_events (Events_pollEvents ev)) = ev_mask ev"
  by (simp add: events_defs poll_fits_def scast_ucast_small)

lemma Poll_add_taken:
  assumes "Poll_ok p" and "Poll_interest p (ev_fd ev) = None" and "poll_fits (ev_mask ev)"
    and "Poll_EventsAdd p ev = Inr (True, p')"
  shows "Poll_ok p' \<and> Poll_interest p' = (Poll_interest p)(ev_fd ev := Some (ev_mask ev))"
proof -
  have p': "p' = p @ [Events_pollEvents ev]" "length p < kMaxPollNum"
    using assms(4) by (auto simp: Poll_EventsAdd_def split: if_splits)
  have fresh: "ev_fd ev \<notin> pf_fd ` set p" using assms(2) by (simp add: interest_None)
  then have "Poll_ok p'" using assms(1) p' by (simp add: Poll_ok_def)
  then show ?thesis
    using interest_append [OF fresh, of "Events_pollEvents ev"] p' assms(3) by (simp add: pollEvents_fits)
qed

lemma Poll_known:
  assumes "Poll_ok p" and "Poll_interest p (ev_fd ev) \<noteq> None"
  obtains xs x ys where "p = xs @ x # ys"
    "Poll_getEventPos p (Events_pollEvents ev) = Some (length xs)" "pf_fd x = ev_fd ev"
    "ev_fd ev \<notin> pf_fd ` set xs" "ev_fd ev \<notin> pf_fd ` set ys"
proof -
  from assms(2) have "Poll_getEventPos p (Events_pollEvents ev) \<noteq> None"
    by (simp add: getEventPos_None interest_None)
  then obtain i where i: "Poll_getEventPos p (Events_pollEvents ev) = Some i" by blast
  obtain xs x ys where s: "p = xs @ x # ys" "length xs = i" "pf_fd x = ev_fd ev"
    "ev_fd ev \<notin> pf_fd ` set xs" "ev_fd ev \<notin> pf_fd ` set ys"
    by (rule poll_split [OF assms(1) i]) simp
  show ?thesis by (rule that [OF s(1) _ s(3-5)]) (simp add: i s(2))
qed

lemma Poll_mod_known:
  assumes "Poll_ok p" and "Poll_interest p (ev_fd ev) \<noteq> None" and "poll_fits (ev_mask ev)"
  shows "\<exists>p'. Poll_EventsMod p ev = Inr (True, p') \<and> Poll_ok p' \<and>
     Poll_interest p' = (Poll_interest p)(ev_fd ev := Some (ev_mask ev))"
proof -
  obtain xs x ys where s: "p = xs @ x # ys"
    "Poll_getEventPos p (Events_pollEvents ev) = Some (length xs)" "pf_fd x = ev_fd ev"
    "ev_fd ev \<notin> pf_fd ` set xs" "ev_fd ev \<notin> pf_fd ` set ys"
    by (rule Poll_known [OF assms(1,2)])
  have "Poll_ok (xs @ Events_pollEvents ev # ys)" using assms(1) s(1,3) by (simp add: Poll_ok_def)
  moreover have "Poll_EventsMod p ev = Inr (True, xs @ Events_pollEvents ev # ys)"
    using s(1,2) by (simp add: Poll_EventsMod_def)
  ultimately show ?thesis
    using interest_update [OF s(4,3), of "Events_pollEvents ev"] s(1) assms(3) by (simp add: pollEvents_fits)
qed

lemma Poll_del_known:
  assumes "Poll_ok p" and "Poll_interest p (ev_fd ev) \<noteq> None"
  shows "\<exists>p'. Poll_EventsDel p ev = Inr (True, p') \<and> Poll_ok p' \<and>
     Poll_interest p' = (Poll_interest p)(ev_fd ev := None)"
proof -
  obtain xs x ys where s: "p = xs @ x # ys"
    "Poll_getEventPos p (Events_pollEvents ev) = Some (length xs)" "pf_fd x = ev_fd ev"
    "ev_fd ev \<notin> pf_fd ` set xs" "ev_fd ev \<notin> pf_fd ` set ys"
    by (rule Poll_known [OF assms])
  have "Poll_ok (xs @ ys)" using assms(1) s(1,3) by (simp add: Poll_ok_def)
  moreover have "Poll_EventsDel p ev = Inr (True, xs @ ys)"
    using s(1,2) by (simp add: Poll_EventsDel_def)
  ultimately show ?thesis using interest_remove [OF s(4,5,3)] s(1) by simp
qed

lemma Poll_unknown:
  assumes "Poll_interest p (ev_fd ev) = None"
  shows "Poll_EventsMod p ev = Inr (False, p)" "Poll_EventsDel p ev = Inr (False, p)"
proof -
  have "Poll_getEventPos p (Events_pollEvents ev) = None"
    using assms by (simp add: getEventPos_None interest_None)
  then show "Poll_EventsMod p ev = Inr (False, p)" "Poll_EventsDel p ev = Inr (False, p)"
    by (simp_all add: Poll_EventsMod_def Poll_EventsDel_def)
qed

lemma Poll_add_other:
  "\<exists>r. Poll_EventsAdd p ev = Inr r" "Poll_EventsAdd p ev = Inr (False, p') \<Longrightarrow> p' = p"
  by (auto simp: Poll_EventsAdd_def split: if_splits)

lemma poll_ops_simps [simp]:
  "pl_add poll_ops = Poll_EventsAdd" "pl_mod poll_ops = Poll_EventsMod" "pl_del poll_ops = Poll_EventsDel"
  by (simp_all add: poll_ops_def)

interpretation pl: poller poll_ops Poll_ok poll_fits Poll_interest
  by (unfold_locales; unfold poll_ops_simps)
    (rule Poll_add_other Poll_add_taken Poll_mod_known Poll_del_known Poll_unknown; assumption)+

text \<open>What one successful \<open>poll\<close> delivers.\<close>

lemma poll_scan_all:
  assumes "ret = count + length (filter (\<lambda>x. pf_revents x \<noteq> 0) xs)"
  shows "poll_scan ret count xs =
    (map Events_of_poll (filter (\<lambda>x. pf_revents x \<noteq> 0) xs), map (\<lambda>x. x\<lparr>pf_revents := 0\<rparr>) xs)"
  using assms
proof (induction xs arbitrary: count)
  case Nil
  then show ?case by simp
next
  case (Cons x xs)
  show ?case
  proof (cases "pf_revents x = 0")
    case True
    with Cons.IH [of count] Cons.prems show ?thesis by simp
  next
    case nz: False
    show ?thesis
    proof (cases "Suc count = ret")
      case True
      then have none: "filter (\<lambda>x. pf_revents x \<noteq> 0) xs = []" using Cons.prems nz by simp
      then have "map (\<lambda>x. x\<lparr>pf_revents := 0\<rparr>) xs = xs"
        by (intro map_idI) (auto simp: filter_empty_conv)
      with nz True none show ?thesis by simp
    next
      case False
      with nz Cons.IH [of "Suc count"] Cons.prems show ?thesis by simp
    qed
  qed
qed

lemma Poll_Loop_interrupted:
  "Poll_Loop p evs (replicate n (PollError EINTR) @ rs) = Poll_Loop p evs rs"
  by (induction n) simp_all

section \<open>Epoll\<close>

datatype epoll_op = EPOLL_CTL_ADD | EPOLL_CTL_MOD | EPOLL_CTL_DEL

text \<open>
  The kernel's side of an epoll descriptor is a state of type \<open>'k\<close>; \<open>epoll_ctl\<close> acts on
  it and tells whether it succeeded.
\<close>

type_synonym 'k epoll_ctl = "epoll_op \<Rightarrow> int \<Rightarrow> epoll_event \<Rightarrow> 'k \<Rightarrow> bool \<times> 'k"

text \<open>The members of \<open>Epoll\<close>, with the number of elements that \<open>revents_\<close> has and has room for.\<close>

record epoll =
  ep_fd :: int
  ep_size :: nat
  ep_capacity :: nat
  ep_maxNum :: nat
  ep_addStep :: nat

text \<open>\<open>resize\<close> grows the room only when it has to, \<open>clear\<close> never gives it back.\<close>

definition revents_resize :: "epoll \<Rightarrow> nat \<Rightarrow> epoll" where
  "revents_resize e n = e\<lparr>ep_size := n, ep_capacity := max (ep_capacity e) n\<rparr>"

definition revents_clear :: "epoll \<Rightarrow> epoll" where
  "revents_clear e = e\<lparr>ep_size := 0\<rparr>"

definition Epoll_new :: "int \<Rightarrow> epoll" where
  "Epoll_new fd =
     revents_resize \<lparr>ep_fd = fd, ep_size = 0, ep_capacity = 0, ep_maxNum = 20, ep_addStep = 15\<rparr> 20"

definition Epoll_destroy :: "(int \<Rightarrow> 'k \<Rightarrow> 'k) \<Rightarrow> epoll \<Rightarrow> 'k \<Rightarrow> 'k" where
  "Epoll_destroy close e k = close (ep_fd e) k"

definition Epoll_eventCtl ::
    "'k epoll_ctl \<Rightarrow> epoll \<times> 'k \<Rightarrow> epoll_op \<Rightarrow> int \<Rightarrow> epoll_event \<Rightarrow> (bool \<times> (epoll \<times> 'k)) res" where
  "Epoll_eventCtl ctl p op sd event =
     (if ep_fd (fst p) = -1 then Inl AssertFailed
      else let (ok, k') = ctl op sd event (snd p) in Inr (ok, (fst p, k')))"

definition Epoll_eventAdd :: "'k epoll_ctl \<Rightarrow> epoll \<times> 'k \<Rightarrow> int \<Rightarrow> epoll_event \<Rightarrow> (bool \<times> (epoll \<times> 'k)) res" where
  "Epoll_eventAdd ctl p sd event = Epoll_eventCtl ctl p EPOLL_CTL_ADD sd event"

definition Epoll_eventMod :: "'k epoll_ctl \<Rightarrow> epoll \<times> 'k \<Rightarrow> int \<Rightarrow> epoll_event \<Rightarrow> (bool \<times> (epoll \<times> 'k)) res" where
  "Epoll_eventMod ctl p sd event = Epoll_eventCtl ctl p EPOLL_CTL_MOD sd event"

definition Epoll_eventDel :: "'k epoll_ctl \<Rightarrow> epoll \<times> 'k \<Rightarrow> int \<Rightarrow> epoll_event \<Rightarrow> (bool \<times> (epoll \<times> 'k)) res" where
  "Epoll_eventDel ctl p sd event = Epoll_eventCtl ctl p EPOLL_CTL_DEL sd event"

definition Epoll_EventsAdd :: "'k epoll_ctl \<Rightarrow> epoll \<times> 'k \<Rightarrow> events \<Rightarrow> (bool \<times> (epoll \<times> 'k)) res" where
  "Epoll_EventsAdd ctl p ev = (let event = Events_epollEvents ev in Epoll_eventAdd ctl p (ee_fd event) event)"

definition Epoll_EventsMod :: "'k epoll_ctl \<Rightarrow> epoll \<times> 'k \<Rightarrow> events \<Rightarrow> (bool \<times> (epoll \<times> 'k)) res" where
  "Epoll_EventsMod ctl p ev = (let event = Events_epollEvents ev in Epoll_eventMod ctl p (ee_fd event) event)"

definition Epoll_EventsDel :: "'k epoll_ctl \<Rightarrow> epoll \<times> 'k \<Rightarrow> events \<Rightarrow> (bool \<times> (epoll \<times> 'k)) res" where
  "Epoll_EventsDel ctl p ev = (let event = Events_epollEvents ev in Epoll_eventDel ctl p (ee_fd event) event)"

text \<open>\<open>epoll_wait\<close> fails with an error number, or writes events into the array.\<close>

datatype wait_result = WaitError int | WaitReady "epoll_event list"

fun Epoll_loopWait :: "wait_result list \<Rightarrow> wait_result option" where
  "Epoll_loopWait [] = None"
| "Epoll_loopWait (WaitError e # rs) = (if e = EINTR then Epoll_loopWait rs else Some (WaitError e))"
| "Epoll_loopWait (WaitReady es # rs) = Some (WaitReady es)"

text \<open>
  The kernel writes the events behind the pointer \<open>revents_.data()\<close>; more of them than
  the vector has room for is \<open>OutOfBounds\<close>.
\<close>

definition Epoll_Loop :: "epoll \<Rightarrow> events list \<Rightarrow> wait_result list \<Rightarrow> (events list \<times> epoll) res option" where
  "Epoll_Loop e evs rs =
     (case Epoll_loopWait rs of
        None \<Rightarrow> None
      | Some (WaitError en) \<Rightarrow> Some (Inr (evs, revents_clear e))
      | Some (WaitReady es) \<Rightarrow>
          Some (if ep_capacity e < length es then Inl OutOfBounds
            else let e1 = revents_clear e
                 in Inr (evs @ map Events_of_epoll es,
                      if length es = ep_maxNum e1
                      then revents_resize (e1\<lparr>ep_maxNum := ep_maxNum e1 + ep_addStep e1\<rparr>) (ep_maxNum e1 + ep_addStep e1)
                      else e1)))"

text \<open>There is room for everything that \<open>epoll_wait\<close> may write.\<close>

definition epoll_room :: "epoll \<Rightarrow> bool" where
  "epoll_room e \<longleftrightarrow> ep_maxNum e \<le> ep_capacity e"

text \<open>What the kernel returns: at most \<open>maxnum\<close> events.\<close>

fun kernel_returns :: "nat \<Rightarrow> wait_result \<Rightarrow> bool" where
  "kernel_returns maxnum (WaitError en) = True"
| "kernel_returns maxnum (WaitReady es) = (length es \<le> maxnum)"

fun epoll_rounds :: "epoll \<Rightarrow> wait_result list \<Rightarrow> epoll res" where
  "epoll_rounds e [] = Inr e"
| "epoll_rounds e (r # rs) =
     (case Epoll_Loop e [] [r] of
        None \<Rightarrow> epoll_rounds e rs
      | Some res \<Rightarrow> bind_res res (\<lambda>(evs, e'). epoll_rounds e' rs))"

fun rounds_documented :: "epoll \<Rightarrow> wait_result list \<Rightarrow> bool" where
  "rounds_documented e [] = True"
| "rounds_documented e (r # rs) = (kernel_returns (ep_maxNum e) r \<and>
     (case Epoll_Loop e [] [r] of
        None \<Rightarrow> rounds_documented e rs
      | Some (Inl f) \<Rightarrow> True
      | Some (Inr (evs, e')) \<Rightarrow> rounds_documented e' rs))"

lemma epoll_room_new: "epoll_room (Epoll_new fd)"
  by (simp add: epoll_room_def Epoll_new_def revents_resize_def)

lemma Epoll_Loop_room:
  assumes "epoll_room e" and "kernel_returns (ep_maxNum e) r" and "Epoll_Loop e evs [r] = Some res"
  shows "\<exists>es e'. res = Inr (es, e') \<and> epoll_room e'"
  using assms
  by (cases r) (auto simp: Epoll_Loop_def epoll_room_def revents_clear_def revents_resize_def Let_def
      split: if_splits)

lemma epoll_rounds_room:
  "epoll_room e \<Longrightarrow> rounds_documented e rs \<Longrightarrow> \<exists>e'. epoll_rounds e rs = Inr e' \<and> epoll_room e'"
proof (induction rs arbitrary: e)
  case Nil
  then show ?case by simp
next
  case (Cons r rs)
  show ?case
  proof (cases "Epoll_Loop e [] [r]")
    case None
    with Cons show ?thesis by simp
  next
    case (Some res)
    with Cons.prems obtain es e' where e': "res = Inr (es, e')" "epoll_room e'"
      using Epoll_Loop_room [of e r "[]" res] by auto
    with Some Cons.prems(2) have "rounds_documented e' rs" by simp
    with Cons.IH [OF e'(2)] Some e'(1) show ?thesis by simp
  qed
qed

definition epoll_ops :: "'k epoll_ctl \<Rightarrow> (epoll \<times> 'k) poller_ops" where
  "epoll_ops ctl = \<lparr>pl_add = Epoll_EventsAdd ctl, pl_mod = Epoll_EventsMod ctl, pl_del = Epoll_EventsDel ctl\<rparr>"

lemma epoll_ops_simps [simp]:
  "pl_add (epoll_ops ctl) = Epoll_EventsAdd ctl" "pl_mod (epoll_ops ctl) = Epoll_EventsMod ctl"
  "pl_del (epoll_ops ctl) = Epoll_EventsDel ctl"
  by (simp_all add: epoll_ops_def)

lemmas epoll_event_defs =
  Epoll_EventsAdd_def Epoll_EventsMod_def Epoll_EventsDel_def Epoll_eventAdd_def Epoll_eventMod_def
  Epoll_eventDel_def Epoll_eventCtl_def Let_def

text \<open>
  The documented contract of \<open>epoll_ctl\<close>: \<open>ADD\<close> may be refused, and is for a descriptor
  that is registered; \<open>MOD\<close> and \<open>DEL\<close> work on exactly the registered descriptors.
\<close>

locale epoll_kernel =
  fixes ctl :: "'k epoll_ctl"
    and registered :: "'k \<Rightarrow> int \<Rightarrow> 32 word option"
  assumes ctl_refused: "ctl op fd e k = (False, k') \<Longrightarrow> k' = k"
    and ctl_add: "ctl EPOLL_CTL_ADD fd e k = (True, k') \<Longrightarrow>
        registered k fd = None \<and> registered k' = (registered k)(fd := Some (ee_events e))"
    and ctl_mod: "registered k fd \<noteq> None \<Longrightarrow>
        \<exists>k'. ctl EPOLL_CTL_MOD fd e k = (True, k') \<and> registered k' = (registered k)(fd := Some (ee_events e))"
    and ctl_del: "registered k fd \<noteq> None \<Longrightarrow>
        \<exists>k'. ctl EPOLL_CTL_DEL fd e k = (True, k') \<and> registered k' = (registered k)(fd := None)"
    and ctl_unknown: "registered k fd = None \<Longrightarrow> op \<noteq> EPOLL_CTL_ADD \<Longrightarrow> ctl op fd e k = (False, k)"
begin

lemma epoll_add:
  assumes "ep_fd (fst p) \<noteq> -1"
  shows "\<exists>b k'. Epoll_EventsAdd ctl p ev = Inr (b, (fst p, k')) \<and>
    (if b then registered (snd p) (ev_fd ev) = None \<and> registered k' = (registered (snd p))(ev_fd ev := Some (ev_mask ev))
     else k' = snd p)"
proof -
  obtain b k' where r: "ctl EPOLL_CTL_ADD (ev_fd ev) (Events_epollEvents ev) (snd p) = (b, k')" by fastforce
  have e: "ee_fd (Events_epollEvents ev) = ev_fd ev" "ee_events (Events_epollEvents ev) = ev_mask ev"
    by (simp_all add: events_defs)
  from r assms e have "Epoll_EventsAdd ctl p ev = Inr (b, (fst p, k'))" by (simp add: epoll_event_defs)
  then show ?thesis using r e ctl_refused ctl_add by (cases b) auto
qed

lemma epoll_mod:
  assumes "ep_fd (fst p) \<noteq> -1" and "registered (snd p) (ev_fd ev) \<noteq> None"
  shows "\<exists>k'. Epoll_EventsMod ctl p ev = Inr (True, (fst p, k')) \<and>
    registered k' = (registered (snd p))(ev_fd ev := Some (ev_mask ev))"
  using ctl_mod [OF assms(2), of "Events_epollEvents ev"] assms(1)
  by (auto simp: epoll_event_defs events_defs)

lemma epoll_del:
  assumes "ep_fd (fst p) \<noteq> -1" and "registered (snd p) (ev_fd ev) \<noteq> None"
  shows "\<exists>k'. Epoll_EventsDel ctl p ev = Inr (True, (fst p, k')) \<and>
    registered k' = (registered (snd p))(ev_fd ev := None)"
  using ctl_del [OF assms(2), of "Events_epollEvents ev"] assms(1)
  by (auto simp: epoll_event_defs events_defs)

lemma epoll_unknown:
  assumes "ep_fd (fst p) \<noteq> -1" and "registered (snd p) (ev_fd ev) = None"
  shows "Epoll_EventsMod ctl p ev = Inr (False, p)" "Epoll_EventsDel ctl p ev = Inr (False, p)"
  using ctl_unknown [OF assms(2)] assms(1) by (auto simp: epoll_event_defs events_defs)

end

sublocale epoll_kernel \<subseteq> poller "epoll_ops ctl" "\<lambda>p. ep_fd (fst p) \<noteq> -1" "\<lambda>m. True" "\<lambda>p. registered (snd p)"
proof (unfold_locales; unfold epoll_ops_simps)
  fix p :: "epoll \<times> 'k" and ev :: events and p'
  assume ok: "ep_fd (fst p) \<noteq> -1"
  note add = epoll_add [OF ok, of ev]
  from add show "\<exists>r. Epoll_EventsAdd ctl p ev = Inr r" by blast
  show "p' = p" if "Epoll_EventsAdd ctl p ev = Inr (False, p')" using add that by (auto simp: prod_eq_iff)
  show "ep_fd (fst p') \<noteq> -1 \<and> registered (snd p') = (registered (snd p))(ev_fd ev := Some (ev_mask ev))"
    if "Epoll_EventsAdd ctl p ev = Inr (True, p')" using add that ok by auto
  show "\<exists>p'. Epoll_EventsMod ctl p ev = Inr (True, p') \<and> ep_fd (fst p') \<noteq> -1 \<and>
      registered (snd p') = (registered (snd p))(ev_fd ev := Some (ev_mask ev))"
    if "registered (snd p) (ev_fd ev) \<noteq> None" using epoll_mod [OF ok that] ok by auto
  show "\<exists>p'. Epoll_EventsDel ctl p ev = Inr (True, p') \<and> ep_fd (fst p') \<noteq> -1 \<and>
      registered (snd p') = (registered (snd p))(ev_fd ev := None)"
    if "registered (snd p) (ev_fd ev) \<noteq> None" using epoll_del [OF ok that] ok by auto
  show "Epoll_EventsMod ctl p ev = Inr (False, p)" if "registered (snd p) (ev_fd ev) = None"
    by (rule epoll_unknown [OF ok that])
  show "Epoll_EventsDel ctl p ev = Inr (False, p)" if "registered (snd p) (ev_fd ev) = None"
    by (rule epoll_unknown [OF ok that])
qed

text \<open>A kernel that keeps a table of the registered descriptors satisfies the contract.\<close>

fun table_ctl :: "(int, 32 word) smap epoll_ctl" where
  "table_ctl EPOLL_CTL_ADD fd e k =
     (if smap_find k fd = None then (True, smap_set k fd (ee_events e)) else (False, k))"
| "table_ctl EPOLL_CTL_MOD fd e k =
     (if smap_find k fd = None then (False, k) else (True, smap_set k fd (ee_events e)))"
| "table_ctl EPOLL_CTL_DEL fd e k =
     (if smap_find k fd = None then (False, k) else (True, filter (\<lambda>x. fst x \<noteq> fd) k))"

lemma smap_find_filter: "smap_find (filter (\<lambda>x. fst x \<noteq> fd) k) = (smap_find k)(fd := None)"
  by (rule ext) (induction k, auto)

interpretation table: epoll_kernel table_ctl smap_find
proof
  show "k' = k" if "table_ctl op fd e k = (False, k')" for op fd e and k k' :: "(int, 32 word) smap"
    using that by (cases op) (auto split: if_splits)
  show "table_ctl op fd e k = (False, k)" if "smap_find k fd = None" "op \<noteq> EPOLL_CTL_ADD"
    for op fd e and k :: "(int, 32 word) smap"
    using that by (cases op) auto
qed (auto simp: smap_find_filter split: if_splits)

section \<open>Properties\<close>

text \<open>
  A successful \<open>poll\<close> appends exactly the descriptors that returned events, in the
  order of the array and with those events, however often it was interrupted before, and
  leaves no returned event behind for the next call.
\<close>
theorem poll_delivers:
  assumes "ret = length (filter (\<lambda>x. pf_revents x \<noteq> 0) (poll_fill p revs))"
  shows "Poll_Loop p evs (replicate n (PollError EINTR) @ PollReady ret revs # rs) =
    Some (evs @ map Events_of_poll (filter (\<lambda>x. pf_revents x \<noteq> 0) (poll_fill p revs)),
          map (\<lambda>x. x\<lparr>pf_revents := 0\<rparr>) (poll_fill p revs))"
  using poll_scan_all [of ret 0 "poll_fill p revs"] assms by (simp add: Poll_Loop_interrupted)

theorem poll_delivers_witness:
  "Poll_Loop [Events_pollEvents (Events_new 5 1), Events_pollEvents (Events_new 6 1), Events_pollEvents (Events_new 7 4)]
     [] (replicate 2 (PollError EINTR) @ PollReady 2 [0, 1, 4] # []) =
   Some ([Events_new 6 1, Events_new 7 4],
     [Events_pollEvents (Events_new 5 1), Events_pollEvents (Events_new 6 1), Events_pollEvents (Events_new 7 4)])"
  by (subst poll_delivers) (simp_all add: poll_fill_def events_defs)

text \<open>
  C34: \<open>epoll_wait\<close> is never given more room than the vector has: starting from a new
  \<open>Epoll\<close>, as long as the kernel returns at most \<open>maxevents\<close> events, any number of
  rounds succeeds and the capacity covers \<open>maxNum_\<close>, although \<open>revents_\<close> is cleared
  after every round and used again without a resize.
\<close>
theorem epoll_never_overflows:
  assumes "rounds_documented (Epoll_new fd) rs"
  shows "\<exists>e. epoll_rounds (Epoll_new fd) rs = Inr e \<and> epoll_room e"
  by (rule epoll_rounds_room [OF epoll_room_new assms])

theorem epoll_never_overflows_witness:
  "\<exists>e. epoll_rounds (Epoll_new 9)
      [WaitReady (replicate 20 \<lparr>ee_events = 1, ee_fd = 3\<rparr>), WaitError 9,
       WaitReady (replicate 35 \<lparr>ee_events = 1, ee_fd = 3\<rparr>)] = Inr e \<and> epoll_room e"
  by (rule epoll_never_overflows)
    (simp add: Epoll_Loop_def Epoll_new_def revents_resize_def revents_clear_def EINTR_def)

end
