(* ===== verification/Event_Loop.thy ===== *)
theory Event_Loop
  imports Handle Pollers
begin

text \<open>
  \<open>src/base/EventLoop.h\<close> and \<open>EventLoop.cpp\<close>: the loop that keeps the registered handles
  and the poller in step, dispatches returned events, and runs functors queued by other
  threads. The poller is reached through \<open>poller_ops\<close> (theory \<open>Pollers\<close>); handles live
  in a store under an identity and are freed when no shared pointer is left; functors
  are numbers whose effect is an argument. An operation holds the mutex from start
  to end, so it is one step; \<open>own\<close> says whether the calling thread owns the loop.
\<close>

section \<open>State\<close>

type_synonym hid = nat

text \<open>
  \<open>el_pins\<close> lists the handles some pointer outside the two maps keeps alive (the creator
  of a handle not yet added, the holder of a shared pointer, the loop while it runs a
  handler); \<open>el_wakeups\<close> is the counter of the eventfd; \<open>el_app\<close> is everything else.
\<close>

record ('p, 'u) evloop =
  el_id :: nat
  el_poll :: 'p
  el_handles :: "(int, hid) smap"
  el_updates :: "(int, hid) smap"
  el_store :: "hid \<Rightarrow> handle option"
  el_pins :: "hid list"
  el_functors :: "nat list"
  el_runningFunctors :: bool
  el_wakeups :: nat
  el_quit :: bool
  el_app :: 'u

definition handle_at :: "('p, 'u) evloop \<Rightarrow> hid \<Rightarrow> handle res" where
  "handle_at l h = (case el_store l h of None \<Rightarrow> Inl UseAfterFree | Some x \<Rightarrow> Inr x)"

definition set_handle :: "('p, 'u) evloop \<Rightarrow> hid \<Rightarrow> handle \<Rightarrow> ('p, 'u) evloop" where
  "set_handle l h x = l\<lparr>el_store := (el_store l)(h := Some x)\<rparr>"

text \<open>The handles that a shared pointer still refers to; the others are deleted.\<close>

definition live_handles :: "('p, 'u) evloop \<Rightarrow> hid list" where
  "live_handles l = map snd (el_handles l) @ map snd (el_updates l) @ el_pins l"

definition drop_dead :: "('p, 'u) evloop \<Rightarrow> ('p, 'u) evloop" where
  "drop_dead l = l\<lparr>el_store := (\<lambda>h. if h \<in> set (live_handles l) then el_store l h else None)\<rparr>"

definition pin :: "hid \<Rightarrow> ('p, 'u) evloop \<Rightarrow> ('p, 'u) evloop" where
  "pin h l = l\<lparr>el_pins := h # el_pins l\<rparr>"

definition unpin :: "hid \<Rightarrow> ('p, 'u) evloop \<Rightarrow> ('p, 'u) evloop" where
  "unpin h l = drop_dead (l\<lparr>el_pins := remove1 h (el_pins l)\<rparr>)"

section \<open>Registration of handles\<close>

definition EventLoop_updateOne :: "'p poller_ops \<Rightarrow> int \<times> hid \<Rightarrow> ('p, 'u) evloop \<Rightarrow> ('p, 'u) evloop res" where
  "EventLoop_updateOne ops cur l =
     bind_res (handle_at l (snd cur)) (\<lambda>handle.
     let event = Handle_getEvent handle in
     case Handle_getState handle of
       STATE_ADD \<Rightarrow> bind_res (pl_add ops (el_poll l) event) (\<lambda>(ok, p).
         Inr (set_handle (l\<lparr>el_poll := p, el_handles := smap_set (el_handles l) (fst cur) (snd cur)\<rparr>)
           (snd cur) (Handle_setState handle STATE_LOOP)))
     | STATE_MOD \<Rightarrow> bind_res (pl_mod ops (el_poll l) event) (\<lambda>(ok, p).
         Inr (set_handle (l\<lparr>el_poll := p, el_handles := smap_set (el_handles l) (fst cur) (snd cur)\<rparr>)
           (snd cur) (Handle_setState handle STATE_LOOP)))
     | STATE_DEL \<Rightarrow> bind_res (pl_del ops (el_poll l) event) (\<lambda>(ok, p).
         if smap_find (el_handles l) (Handle_fd handle) = None then Inl AssertFailed
         else Inr (l\<lparr>el_poll := p, el_handles := smap_erase (el_handles l) (Handle_fd handle)\<rparr>))
     | STATE_LOOP \<Rightarrow> Inl AssertFailed
     | STATE_NEW \<Rightarrow> Inl AssertFailed)"

fun update_all :: "'p poller_ops \<Rightarrow> (int, hid) smap \<Rightarrow> ('p, 'u) evloop \<Rightarrow> ('p, 'u) evloop res" where
  "update_all ops [] l = Inr l"
| "update_all ops (cur # us) l = bind_res (EventLoop_updateOne ops cur l) (update_all ops us)"

definition EventLoop_updateHandlesUnlock :: "'p poller_ops \<Rightarrow> ('p, 'u) evloop \<Rightarrow> (bool \<times> ('p, 'u) evloop) res" where
  "EventLoop_updateHandlesUnlock ops l =
     bind_res (update_all ops (el_updates l) l) (\<lambda>l'. Inr (True, drop_dead (l'\<lparr>el_updates := []\<rparr>)))"

definition EventLoop_updateHandles :: "'p poller_ops \<Rightarrow> ('p, 'u) evloop \<Rightarrow> (bool \<times> ('p, 'u) evloop) res" where
  "EventLoop_updateHandles ops l = EventLoop_updateHandlesUnlock ops l"

definition EventLoop_updateHandle ::
    "'p poller_ops \<Rightarrow> bool \<Rightarrow> hid \<Rightarrow> ('p, 'u) evloop \<Rightarrow> (bool \<times> ('p, 'u) evloop) res" where
  "EventLoop_updateHandle ops own h l =
     bind_res (handle_at l h) (\<lambda>handle.
     bind_res (Handle_getLoop handle) (\<lambda>loop.
     if loop \<noteq> el_id l then Inl AssertFailed
     else let l' = l\<lparr>el_updates := smap_set (el_updates l) (Handle_fd handle) h\<rparr>
          in if own then EventLoop_updateHandlesUnlock ops l' else Inr (True, drop_dead l')))"

text \<open>\<open>addHandle\<close> takes over the pointer of the caller, \<open>addSHandle\<close> shares it.\<close>

definition EventLoop_addSHandle ::
    "'p poller_ops \<Rightarrow> bool \<Rightarrow> hid \<Rightarrow> ('p, 'u) evloop \<Rightarrow> (bool \<times> ('p, 'u) evloop) res" where
  "EventLoop_addSHandle ops own h l =
     bind_res (handle_at l h) (\<lambda>handle.
     if Handle_getState handle \<noteq> STATE_NEW then Inl AssertFailed
     else EventLoop_updateHandle ops own h (set_handle l h (Handle_setState handle STATE_ADD)))"

definition EventLoop_addHandle ::
    "'p poller_ops \<Rightarrow> bool \<Rightarrow> hid \<Rightarrow> ('p, 'u) evloop \<Rightarrow> (bool \<times> ('p, 'u) evloop) res" where
  "EventLoop_addHandle ops own h l =
     bind_res (handle_at l h) (\<lambda>handle.
     if Handle_getState handle \<noteq> STATE_NEW then Inl AssertFailed
     else EventLoop_updateHandle ops own h
            (set_handle (l\<lparr>el_pins := remove1 h (el_pins l)\<rparr>) h (Handle_setState handle STATE_ADD)))"

text \<open>\<open>modHandle\<close> and \<open>delHandle\<close> act on the handle registered for the descriptor.\<close>

definition EventLoop_changeHandle ::
    "handle_state \<Rightarrow> 'p poller_ops \<Rightarrow> bool \<Rightarrow> hid \<Rightarrow> ('p, 'u) evloop \<Rightarrow> (bool \<times> ('p, 'u) evloop) res" where
  "EventLoop_changeHandle st ops own h l =
     bind_res (handle_at l h) (\<lambda>handle.
     case smap_find (el_handles l) (Handle_fd handle) of
       None \<Rightarrow> Inr (False, l)
     | Some m \<Rightarrow> bind_res (handle_at l m) (\<lambda>x.
         EventLoop_updateHandle ops own m (set_handle l m (Handle_setState x st))))"

definition EventLoop_modHandle ::
    "'p poller_ops \<Rightarrow> bool \<Rightarrow> hid \<Rightarrow> ('p, 'u) evloop \<Rightarrow> (bool \<times> ('p, 'u) evloop) res" where
  "EventLoop_modHandle = EventLoop_changeHandle STATE_MOD"

definition EventLoop_delHandle ::
    "'p poller_ops \<Rightarrow> bool \<Rightarrow> hid \<Rightarrow> ('p, 'u) evloop \<Rightarrow> (bool \<times> ('p, 'u) evloop) res" where
  "EventLoop_delHandle = EventLoop_changeHandle STATE_DEL"

section \<open>Functors and wake-ups\<close>

definition EventLoop_wakeUp :: "('p, 'u) evloop \<Rightarrow> ('p, 'u) evloop" where
  "EventLoop_wakeUp l = l\<lparr>el_wakeups := Suc (el_wakeups l)\<rparr>"

definition EventLoop_handWakeUp :: "('p, 'u) evloop \<Rightarrow> ('p, 'u) evloop" where
  "EventLoop_handWakeUp l = l\<lparr>el_wakeups := 0\<rparr>"

definition EventLoop_queueInLoop :: "bool \<Rightarrow> nat \<Rightarrow> ('p, 'u) evloop \<Rightarrow> ('p, 'u) evloop" where
  "EventLoop_queueInLoop own cb l =
     (let l' = l\<lparr>el_functors := el_functors l @ [cb]\<rparr>
      in if \<not> own \<or> el_runningFunctors l' then EventLoop_wakeUp l' else l')"

definition EventLoop_runInLoop ::
    "(nat \<Rightarrow> ('p, 'u) evloop \<Rightarrow> ('p, 'u) evloop res) \<Rightarrow> bool \<Rightarrow> nat \<Rightarrow> ('p, 'u) evloop \<Rightarrow> ('p, 'u) evloop res" where
  "EventLoop_runInLoop exec own cb l = (if own then exec cb l else Inr (EventLoop_queueInLoop own cb l))"

definition EventLoop_quit :: "bool \<Rightarrow> ('p, 'u) evloop \<Rightarrow> ('p, 'u) evloop" where
  "EventLoop_quit own l =
     (let l' = l\<lparr>el_quit := True\<rparr> in if \<not> own then EventLoop_wakeUp l' else l')"

definition flush_updates :: "'p poller_ops \<Rightarrow> ('p, 'u) evloop \<Rightarrow> ('p, 'u) evloop res" where
  "flush_updates ops l =
     (if el_updates l \<noteq> [] then bind_res (EventLoop_updateHandles ops l) (\<lambda>(ok, l'). Inr l') else Inr l)"

fun run_functors :: "(nat \<Rightarrow> ('p, 'u) evloop \<Rightarrow> ('p, 'u) evloop res) \<Rightarrow> 'p poller_ops \<Rightarrow> nat list \<Rightarrow>
    ('p, 'u) evloop \<Rightarrow> ('p, 'u) evloop res" where
  "run_functors exec ops [] l = Inr l"
| "run_functors exec ops (f # fs) l =
     bind_res (exec f l) (\<lambda>l1. bind_res (flush_updates ops l1) (run_functors exec ops fs))"

definition EventLoop_runFunctors :: "(nat \<Rightarrow> ('p, 'u) evloop \<Rightarrow> ('p, 'u) evloop res) \<Rightarrow> 'p poller_ops \<Rightarrow>
    ('p, 'u) evloop \<Rightarrow> ('p, 'u) evloop res" where
  "EventLoop_runFunctors exec ops l =
     bind_res (run_functors exec ops (el_functors l) (l\<lparr>el_runningFunctors := True, el_functors := []\<rparr>))
       (\<lambda>l'. Inr (l'\<lparr>el_runningFunctors := False\<rparr>))"

section \<open>The loop\<close>

text \<open>\<open>hnd h\<close> are the callbacks set on the handle \<open>h\<close>.\<close>

fun EventLoop_dispatch :: "(hid \<Rightarrow> ('p, 'u) evloop handlers) \<Rightarrow> 'p poller_ops \<Rightarrow> timestamp \<Rightarrow> events list \<Rightarrow>
    ('p, 'u) evloop \<Rightarrow> ('p, 'u) evloop res" where
  "EventLoop_dispatch hnd ops time [] l = Inr l"
| "EventLoop_dispatch hnd ops time (ev # evs) l =
     (case smap_find (el_handles l) (Events_getFd ev) of
        None \<Rightarrow> EventLoop_dispatch hnd ops time evs l
      | Some h \<Rightarrow> bind_res (handle_at l h) (\<lambda>handle.
          if Handle_getState handle \<noteq> STATE_LOOP then EventLoop_dispatch hnd ops time evs l
          else bind_res (Handle_handleEvent (hnd h) ev time (pin h l)) (\<lambda>l1.
               bind_res (flush_updates ops l1) (\<lambda>l2.
               EventLoop_dispatch hnd ops time evs (unpin h l2)))))"

text \<open>
  One turn of the \<open>while\<close> loop; \<open>lp\<close> is the \<open>Loop\<close> of the poller on what the kernel
  returns this time, with the time it reports.
\<close>

definition EventLoop_turn :: "(hid \<Rightarrow> ('p, 'u) evloop handlers) \<Rightarrow> (nat \<Rightarrow> ('p, 'u) evloop \<Rightarrow> ('p, 'u) evloop res) \<Rightarrow>
    'p poller_ops \<Rightarrow> ('p \<Rightarrow> (events list \<times> timestamp \<times> 'p) res) \<Rightarrow> ('p, 'u) evloop \<Rightarrow> ('p, 'u) evloop res" where
  "EventLoop_turn hnd exec ops lp l =
     bind_res (flush_updates ops l) (\<lambda>l1.
     bind_res (lp (el_poll l1)) (\<lambda>(revents, looptime, p).
     bind_res (EventLoop_dispatch hnd ops looptime revents (l1\<lparr>el_poll := p\<rparr>)) (\<lambda>l2.
     if el_runningFunctors l2 then Inl AssertFailed else EventLoop_runFunctors exec ops l2)))"

text \<open>The loop over the poll results of as many turns; it returns when \<open>quit_\<close> is set.\<close>

fun loop_turns :: "(hid \<Rightarrow> ('p, 'u) evloop handlers) \<Rightarrow> (nat \<Rightarrow> ('p, 'u) evloop \<Rightarrow> ('p, 'u) evloop res) \<Rightarrow>
    'p poller_ops \<Rightarrow> ('p \<Rightarrow> (events list \<times> timestamp \<times> 'p) res) list \<Rightarrow> ('p, 'u) evloop \<Rightarrow>
    (bool \<times> ('p, 'u) evloop) res" where
  "loop_turns hnd exec ops [] l = Inr (el_quit l, l)"
| "loop_turns hnd exec ops (lp # lps) l =
     (if el_quit l then Inr (True, l)
      else bind_res (EventLoop_turn hnd exec ops lp l) (loop_turns hnd exec ops lps))"

definition EventLoop_loop :: "bool \<Rightarrow> (hid \<Rightarrow> ('p, 'u) evloop handlers) \<Rightarrow> (nat \<Rightarrow> ('p, 'u) evloop \<Rightarrow> ('p, 'u) evloop res) \<Rightarrow>
    'p poller_ops \<Rightarrow> ('p \<Rightarrow> (events list \<times> timestamp \<times> 'p) res) list \<Rightarrow> ('p, 'u) evloop \<Rightarrow>
    (bool \<times> ('p, 'u) evloop) res" where
  "EventLoop_loop own hnd exec ops lps l =
     (if \<not> own then Inl AssertFailed else loop_turns hnd exec ops lps l)"

lemma handle_at_simps [simp]:
  "el_store l h = Some x \<Longrightarrow> handle_at l h = Inr x" "el_store l h = None \<Longrightarrow> handle_at l h = Inl UseAfterFree"
  by (simp_all add: handle_at_def)

lemma handle_at_eq_Inr_iff [res_simps]: "handle_at l h = Inr x \<longleftrightarrow> el_store l h = Some x"
  by (simp add: handle_at_def split: option.splits)

lemma set_handle_simps [simp]:
  "el_store (set_handle l h x) = (el_store l)(h := Some x)" "el_handles (set_handle l h x) = el_handles l"
  "el_updates (set_handle l h x) = el_updates l" "el_pins (set_handle l h x) = el_pins l"
  "el_poll (set_handle l h x) = el_poll l" "el_id (set_handle l h x) = el_id l"
  "el_functors (set_handle l h x) = el_functors l" "el_wakeups (set_handle l h x) = el_wakeups l"
  "el_runningFunctors (set_handle l h x) = el_runningFunctors l"
  by (simp_all add: set_handle_def)

lemma drop_dead_simps [simp]:
  "el_handles (drop_dead l) = el_handles l" "el_updates (drop_dead l) = el_updates l"
  "el_pins (drop_dead l) = el_pins l" "el_poll (drop_dead l) = el_poll l" "el_id (drop_dead l) = el_id l"
  "el_functors (drop_dead l) = el_functors l" "el_wakeups (drop_dead l) = el_wakeups l"
  "el_runningFunctors (drop_dead l) = el_runningFunctors l"
  "el_store (drop_dead l) h = (if h \<in> set (live_handles l) then el_store l h else None)"
  by (simp_all add: drop_dead_def)

lemma Handle_setState_simps [simp]:
  "h_state (Handle_setState x s) = s" "h_events (Handle_setState x s) = h_events x"
  "h_loop (Handle_setState x s) = h_loop x" "Handle_fd (Handle_setState x s) = Handle_fd x"
  by (simp_all add: Handle_setState_def Handle_fd_def)

section \<open>The invariant of the registration\<close>

text \<open>
  Every handle in the maps is alive, belongs to this loop and is filed under its own
  descriptor; it is in state \<open>STATE_LOOP\<close> unless an update of it is pending; a pending
  update is an addition of an unregistered descriptor or a change of a registered one;
  and the poller watches registered descriptors only. \<open>us\<close> are the pending updates.
\<close>

definition good_handle :: "(32 word \<Rightarrow> bool) \<Rightarrow> ('p, 'u) evloop \<Rightarrow> int \<Rightarrow> handle \<Rightarrow> bool" where
  "good_handle fits l fd x \<longleftrightarrow>
     Handle_fd x = fd \<and> h_loop x = Some (el_id l) \<and> fits (ev_mask (h_events x))"

definition registered_ok :: "(32 word \<Rightarrow> bool) \<Rightarrow> (int, hid) smap \<Rightarrow> ('p, 'u) evloop \<Rightarrow> bool" where
  "registered_ok fits us l \<longleftrightarrow> (\<forall>fd h. smap_find (el_handles l) fd = Some h \<longrightarrow>
     (\<exists>x. el_store l h = Some x \<and> good_handle fits l fd x \<and>
        (h_state x = STATE_LOOP \<or> smap_find us fd = Some h)))"

definition pending_ok :: "(32 word \<Rightarrow> bool) \<Rightarrow> (int, hid) smap \<Rightarrow> ('p, 'u) evloop \<Rightarrow> bool" where
  "pending_ok fits us l \<longleftrightarrow> (\<forall>fd h. smap_find us fd = Some h \<longrightarrow>
     (\<exists>x. el_store l h = Some x \<and> good_handle fits l fd x \<and>
        (h_state x = STATE_ADD \<and> smap_find (el_handles l) fd = None \<or>
         h_state x \<in> {STATE_MOD, STATE_DEL} \<and> smap_find (el_handles l) fd = Some h)))"

definition loop_inv :: "('p \<Rightarrow> bool) \<Rightarrow> (32 word \<Rightarrow> bool) \<Rightarrow> ('p \<Rightarrow> int \<Rightarrow> 32 word option) \<Rightarrow> (int, hid) smap \<Rightarrow>
    ('p, 'u) evloop \<Rightarrow> bool" where
  "loop_inv ok fits interest us l \<longleftrightarrow> ok (el_poll l) \<and> smap_ok (el_handles l) \<and> smap_ok us \<and>
     registered_ok fits us l \<and> pending_ok fits us l \<and>
     (\<forall>fd. interest (el_poll l) fd \<noteq> None \<longrightarrow> smap_find (el_handles l) fd \<noteq> None)"

lemma smap_find_Cons_fresh:
  "smap_ok ((k, v) # m) \<Longrightarrow> smap_ok m \<and> smap_find m k = None"
  by (auto simp: smap_ok_Cons smap_find_None_notin)

lemma good_handle_unique: "good_handle fits l fd x \<Longrightarrow> good_handle fits l fd' x \<Longrightarrow> fd = fd'"
  by (simp add: good_handle_def)

lemma registered_okD:
  "registered_ok fits us l \<Longrightarrow> smap_find (el_handles l) fd = Some h \<Longrightarrow>
   \<exists>x. el_store l h = Some x \<and> good_handle fits l fd x \<and> (h_state x = STATE_LOOP \<or> smap_find us fd = Some h)"
  by (simp add: registered_ok_def)

lemma pending_okD:
  "pending_ok fits us l \<Longrightarrow> smap_find us fd = Some h \<Longrightarrow>
   \<exists>x. el_store l h = Some x \<and> good_handle fits l fd x \<and>
     (h_state x = STATE_ADD \<and> smap_find (el_handles l) fd = None \<or>
      h_state x \<in> {STATE_MOD, STATE_DEL} \<and> smap_find (el_handles l) fd = Some h)"
  by (simp add: pending_ok_def)

text \<open>Filing the handle of the first pending update, and erasing it.\<close>

lemma loop_inv_file:
  assumes inv: "loop_inv ok fits interest ((fd, h) # us) l" and x: "el_store l h = Some x"
    and p: "ok p" "\<forall>fd'. interest p fd' \<noteq> None \<longrightarrow> fd' = fd \<or> interest (el_poll l) fd' \<noteq> None"
  shows "loop_inv ok fits interest us
    (set_handle (l\<lparr>el_poll := p, el_handles := smap_set (el_handles l) fd h\<rparr>) h (Handle_setState x STATE_LOOP))"
    (is "loop_inv ok fits interest us ?l")
proof -
  have us: "smap_ok us" "smap_find us fd = None"
    using inv smap_find_Cons_fresh [of fd h us] by (simp_all add: loop_inv_def)
  have reg: "registered_ok fits ((fd, h) # us) l" and pen: "pending_ok fits ((fd, h) # us) l"
    using inv by (simp_all add: loop_inv_def)
  have good: "good_handle fits l fd x" using pending_okD [OF pen, of fd h] x by simp
  have other: "h' \<noteq> h" if "good_handle fits l fd' y" "el_store l h' = Some y" "fd' \<noteq> fd" for fd' h' y
    using that good x good_handle_unique by fastforce
  have same: "good_handle fits ?l = good_handle fits l" by (simp add: good_handle_def fun_eq_iff)
  have "registered_ok fits us ?l"
    unfolding registered_ok_def
  proof (intro allI impI)
    fix fd' h' assume f: "smap_find (el_handles ?l) fd' = Some h'"
    show "\<exists>y. el_store ?l h' = Some y \<and> good_handle fits ?l fd' y \<and>
      (h_state y = STATE_LOOP \<or> smap_find us fd' = Some h')"
    proof (cases "fd' = fd")
      case True
      with f good same show ?thesis by (simp add: good_handle_def)
    next
      case False
      with f registered_okD [OF reg, of fd' h'] obtain y where
        y: "el_store l h' = Some y" "good_handle fits l fd' y" "h_state y = STATE_LOOP \<or> smap_find us fd' = Some h'"
        by auto
      with other [OF y(2,1) False] same show ?thesis by simp
    qed
  qed
  moreover have "pending_ok fits us ?l"
    unfolding pending_ok_def
  proof (intro allI impI)
    fix fd' h' assume f: "smap_find us fd' = Some h'"
    then have ne: "fd' \<noteq> fd" using us(2) by auto
    with f pending_okD [OF pen, of fd' h'] obtain y where
      y: "el_store l h' = Some y" "good_handle fits l fd' y"
        "h_state y = STATE_ADD \<and> smap_find (el_handles l) fd' = None \<or>
         h_state y \<in> {STATE_MOD, STATE_DEL} \<and> smap_find (el_handles l) fd' = Some h'"
      by auto
    with other [OF y(2,1) ne] same ne show "\<exists>y. el_store ?l h' = Some y \<and> good_handle fits ?l fd' y \<and>
      (h_state y = STATE_ADD \<and> smap_find (el_handles ?l) fd' = None \<or>
       h_state y \<in> {STATE_MOD, STATE_DEL} \<and> smap_find (el_handles ?l) fd' = Some h')" by simp
  qed
  ultimately show ?thesis using inv us(1) p by (auto simp: loop_inv_def smap_set_ok)
qed

lemma loop_inv_erase:
  assumes inv: "loop_inv ok fits interest ((fd, h) # us) l"
    and p: "ok p" "interest p = (interest (el_poll l))(fd := None)"
  shows "loop_inv ok fits interest us (l\<lparr>el_poll := p, el_handles := smap_erase (el_handles l) fd\<rparr>)"
    (is "loop_inv ok fits interest us ?l")
proof -
  have us: "smap_ok us" "smap_find us fd = None" and hs: "smap_ok (el_handles l)"
    using inv smap_find_Cons_fresh [of fd h us] by (simp_all add: loop_inv_def)
  have reg: "registered_ok fits ((fd, h) # us) l" and pen: "pending_ok fits ((fd, h) # us) l"
    using inv by (simp_all add: loop_inv_def)
  have same: "good_handle fits ?l = good_handle fits l" by (simp add: good_handle_def fun_eq_iff)
  have "registered_ok fits us ?l"
    using reg hs same by (fastforce simp: registered_ok_def split: if_splits)
  moreover have "pending_ok fits us ?l"
    unfolding pending_ok_def
  proof (intro allI impI)
    fix fd' h' assume f: "smap_find us fd' = Some h'"
    then have ne: "fd' \<noteq> fd" using us(2) by auto
    with f pending_okD [OF pen, of fd' h'] same hs show "\<exists>y. el_store ?l h' = Some y \<and> good_handle fits ?l fd' y \<and>
      (h_state y = STATE_ADD \<and> smap_find (el_handles ?l) fd' = None \<or>
       h_state y \<in> {STATE_MOD, STATE_DEL} \<and> smap_find (el_handles ?l) fd' = Some h')" by simp
  qed
  ultimately show ?thesis using inv us(1) p by (auto simp: loop_inv_def smap_erase_ok split: if_splits)
qed

lemma loop_inv_drop_dead:
  assumes "loop_inv ok fits interest (el_updates l) l"
  shows "loop_inv ok fits interest (el_updates l) (drop_dead l)"
proof -
  have live: "h \<in> set (live_handles l)"
    if "smap_find (el_handles l) fd = Some h \<or> smap_find (el_updates l) fd = Some h" for fd h
    using that by (auto simp: live_handles_def dest!: smap_find_in intro: rev_image_eqI)
  have same: "good_handle fits (drop_dead l) = good_handle fits l" by (simp add: good_handle_def fun_eq_iff)
  have store: "el_store (drop_dead l) h = el_store l h"
    if "smap_find (el_handles l) fd = Some h \<or> smap_find (el_updates l) fd = Some h" for fd h
    using live [OF that] by simp
  have "registered_ok fits (el_updates l) (drop_dead l)"
    using assms store same unfolding loop_inv_def registered_ok_def drop_dead_simps(1) by metis
  moreover have "pending_ok fits (el_updates l) (drop_dead l)"
    using assms store same unfolding loop_inv_def pending_ok_def drop_dead_simps(1) by metis
  ultimately show ?thesis using assms by (simp add: loop_inv_def)
qed

section \<open>Operations keep the invariant\<close>

lemma good_handle_fd: "good_handle fits l fd x \<Longrightarrow> ev_fd (h_events x) = fd \<and> fits (ev_mask (h_events x))"
  by (simp add: good_handle_def Handle_fd_def Events_getFd_def)

context poller begin

lemma updateOne_ok:
  assumes inv: "loop_inv ok fits interest ((fd, h) # us) l"
  shows "\<exists>l'. EventLoop_updateOne ops (fd, h) l = Inr l' \<and> loop_inv ok fits interest us l' \<and>
    el_id l' = el_id l \<and> el_pins l' = el_pins l \<and> el_functors l' = el_functors l \<and>
    el_wakeups l' = el_wakeups l \<and> el_runningFunctors l' = el_runningFunctors l"
proof -
  have pen: "pending_ok fits ((fd, h) # us) l" and okp: "ok (el_poll l)" and hs: "smap_ok (el_handles l)"
    and dom: "\<forall>fd. interest (el_poll l) fd \<noteq> None \<longrightarrow> smap_find (el_handles l) fd \<noteq> None"
    using inv by (simp_all add: loop_inv_def)
  from pending_okD [OF pen, of fd h] obtain x where x: "el_store l h = Some x" "good_handle fits l fd x"
    "h_state x = STATE_ADD \<and> smap_find (el_handles l) fd = None \<or>
     h_state x \<in> {STATE_MOD, STATE_DEL} \<and> smap_find (el_handles l) fd = Some h" by auto
  have ev: "ev_fd (h_events x) = fd" "fits (ev_mask (h_events x))" using good_handle_fd [OF x(2)] by simp_all
  have fd: "Handle_fd x = fd" using x(2) by (simp add: good_handle_def)
  from x(3) consider (add) "h_state x = STATE_ADD" "smap_find (el_handles l) fd = None"
    | (md) "h_state x = STATE_MOD" | (del) "h_state x = STATE_DEL" "smap_find (el_handles l) fd = Some h" by auto
  then show ?thesis
  proof cases
    case add
    then have none: "interest (el_poll l) fd = None" using dom by blast
    obtain b p' where
      p': "pl_add ops (el_poll l) (h_events x) = Inr (b, p')" "ok p'"
        "\<forall>fd'. interest p' fd' \<noteq> None \<longrightarrow> fd' = fd \<or> interest (el_poll l) fd' \<noteq> None"
      by (rule add_any [OF okp none ev])
    from loop_inv_file [OF inv x(1) p'(2,3)] p'(1) x(1) add(1) show ?thesis
      by (simp add: EventLoop_updateOne_def Handle_getState_def Handle_getEvent_def set_handle_def)
  next
    case md
    obtain b p' where
      p': "pl_mod ops (el_poll l) (h_events x) = Inr (b, p')" "ok p'"
        "\<forall>fd'. interest p' fd' \<noteq> None \<longrightarrow> fd' = fd \<or> interest (el_poll l) fd' \<noteq> None"
        "interest (el_poll l) fd \<noteq> None \<longrightarrow> interest p' fd = Some (ev_mask (h_events x))"
      by (rule mod_any [OF okp ev])
    from loop_inv_file [OF inv x(1) p'(2,3)] p'(1) x(1) md show ?thesis
      by (simp add: EventLoop_updateOne_def Handle_getState_def Handle_getEvent_def set_handle_def)
  next
    case del
    obtain b p' where
      p': "pl_del ops (el_poll l) (h_events x) = Inr (b, p')" "ok p'" "interest p' = (interest (el_poll l))(fd := None)"
      by (rule del_any [OF okp ev(1)])
    from loop_inv_erase [OF inv p'(2,3)] p'(1) x(1) del fd show ?thesis
      by (simp add: EventLoop_updateOne_def Handle_getState_def Handle_getEvent_def)
  qed
qed

lemma update_all_ok:
  "loop_inv ok fits interest us l \<Longrightarrow>
   \<exists>l'. update_all ops us l = Inr l' \<and> loop_inv ok fits interest [] l' \<and>
    el_id l' = el_id l \<and> el_pins l' = el_pins l \<and> el_functors l' = el_functors l \<and>
    el_wakeups l' = el_wakeups l \<and> el_runningFunctors l' = el_runningFunctors l"
proof (induction us arbitrary: l)
  case Nil
  then show ?case by simp
next
  case (Cons u us)
  obtain fd h where u: "u = (fd, h)" by (cases u)
  from updateOne_ok Cons.prems u obtain l1 where
    l1: "EventLoop_updateOne ops u l = Inr l1" "loop_inv ok fits interest us l1"
      "el_id l1 = el_id l" "el_pins l1 = el_pins l" "el_functors l1 = el_functors l"
      "el_wakeups l1 = el_wakeups l" "el_runningFunctors l1 = el_runningFunctors l" by blast
  from Cons.IH [OF l1(2)] l1 show ?case by auto
qed

lemma loop_inv_updates_cong:
  assumes "loop_inv ok fits interest us l"
  shows "loop_inv ok fits interest us (l\<lparr>el_updates := vs\<rparr>)"
  using assms by (simp add: loop_inv_def registered_ok_def pending_ok_def good_handle_def)

lemma updateHandlesUnlock_ok:
  assumes "loop_inv ok fits interest (el_updates l) l"
  shows "\<exists>l'. EventLoop_updateHandlesUnlock ops l = Inr (True, l') \<and>
    loop_inv ok fits interest (el_updates l') l' \<and> el_updates l' = [] \<and>
    el_id l' = el_id l \<and> el_pins l' = el_pins l \<and> el_functors l' = el_functors l \<and>
    el_wakeups l' = el_wakeups l \<and> el_runningFunctors l' = el_runningFunctors l"
proof -
  from update_all_ok [OF assms] obtain l' where
    l': "update_all ops (el_updates l) l = Inr l'" "loop_inv ok fits interest [] l'"
      "el_id l' = el_id l" "el_pins l' = el_pins l" "el_functors l' = el_functors l"
      "el_wakeups l' = el_wakeups l" "el_runningFunctors l' = el_runningFunctors l" by blast
  have "loop_inv ok fits interest [] (drop_dead (l'\<lparr>el_updates := []\<rparr>))"
    using loop_inv_drop_dead [of ok fits interest "l'\<lparr>el_updates := []\<rparr>"] loop_inv_updates_cong [OF l'(2), of "[]"] by simp
  with l' show ?thesis by (simp add: EventLoop_updateHandlesUnlock_def)
qed

lemma flush_updates_ok:
  assumes "loop_inv ok fits interest (el_updates l) l"
  shows "\<exists>l'. flush_updates ops l = Inr l' \<and> loop_inv ok fits interest (el_updates l') l' \<and> el_updates l' = [] \<and>
    el_id l' = el_id l \<and> el_pins l' = el_pins l \<and> el_functors l' = el_functors l \<and>
    el_wakeups l' = el_wakeups l \<and> el_runningFunctors l' = el_runningFunctors l"
  using updateHandlesUnlock_ok [OF assms] assms
  by (auto simp: flush_updates_def EventLoop_updateHandles_def)

end

lemma loop_inv_mark:
  assumes inv: "loop_inv ok fits interest us l" and x: "el_store l h = Some x" "good_handle fits l fd x"
    and st: "st = STATE_ADD \<and> smap_find (el_handles l) fd = None \<or>
             st \<in> {STATE_MOD, STATE_DEL} \<and> smap_find (el_handles l) fd = Some h"
  shows "loop_inv ok fits interest (smap_set us fd h) (set_handle l h (Handle_setState x st))"
    (is "loop_inv ok fits interest ?us ?l")
proof -
  have reg: "registered_ok fits us l" and pen: "pending_ok fits us l"
    using inv by (simp_all add: loop_inv_def)
  have other: "h' \<noteq> h" if "good_handle fits l fd' y" "el_store l h' = Some y" "fd' \<noteq> fd" for fd' h' y
    using that x good_handle_unique by fastforce
  have same: "good_handle fits ?l = good_handle fits l" by (simp add: good_handle_def fun_eq_iff)
  have good: "good_handle fits l fd (Handle_setState x st)" using x(2) by (simp add: good_handle_def)
  have "registered_ok fits ?us ?l"
    unfolding registered_ok_def
  proof (intro allI impI)
    fix fd' h' assume f: "smap_find (el_handles ?l) fd' = Some h'"
    show "\<exists>y. el_store ?l h' = Some y \<and> good_handle fits ?l fd' y \<and>
      (h_state y = STATE_LOOP \<or> smap_find ?us fd' = Some h')"
    proof (cases "fd' = fd")
      case True
      with f st have "h' = h" by auto
      with True good same show ?thesis by simp
    next
      case False
      with f registered_okD [OF reg, of fd' h'] obtain y where
        y: "el_store l h' = Some y" "good_handle fits l fd' y" "h_state y = STATE_LOOP \<or> smap_find us fd' = Some h'"
        by auto
      with other [OF y(2,1) False] same False show ?thesis by simp
    qed
  qed
  moreover have "pending_ok fits ?us ?l"
    unfolding pending_ok_def
  proof (intro allI impI)
    fix fd' h' assume f: "smap_find ?us fd' = Some h'"
    show "\<exists>y. el_store ?l h' = Some y \<and> good_handle fits ?l fd' y \<and>
      (h_state y = STATE_ADD \<and> smap_find (el_handles ?l) fd' = None \<or>
       h_state y \<in> {STATE_MOD, STATE_DEL} \<and> smap_find (el_handles ?l) fd' = Some h')"
    proof (cases "fd' = fd")
      case True
      with f good same st show ?thesis by auto
    next
      case False
      with f pending_okD [OF pen, of fd' h'] obtain y where
        y: "el_store l h' = Some y" "good_handle fits l fd' y"
          "h_state y = STATE_ADD \<and> smap_find (el_handles l) fd' = None \<or>
           h_state y \<in> {STATE_MOD, STATE_DEL} \<and> smap_find (el_handles l) fd' = Some h'"
        by auto
      with other [OF y(2,1) False] same show ?thesis by simp
    qed
  qed
  ultimately show ?thesis using inv by (auto simp: loop_inv_def smap_set_ok)
qed

lemma loop_inv_pins_cong:
  "loop_inv ok fits interest us (l\<lparr>el_pins := ps\<rparr>) = loop_inv ok fits interest us l"
  by (simp add: loop_inv_def registered_ok_def pending_ok_def good_handle_def)

text \<open>What callers may rely on when they pass a handle: a new one for a free descriptor.\<close>

definition addable :: "(32 word \<Rightarrow> bool) \<Rightarrow> ('p, 'u) evloop \<Rightarrow> hid \<Rightarrow> bool" where
  "addable fits l h = (case el_store l h of None \<Rightarrow> False
     | Some x \<Rightarrow> h_state x = STATE_NEW \<and> h_loop x = Some (el_id l) \<and> fits (ev_mask (h_events x)) \<and>
         smap_find (el_handles l) (Handle_fd x) = None \<and> smap_find (el_updates l) (Handle_fd x) = None)"

context poller begin

lemma updateHandle_ok:
  assumes "loop_inv ok fits interest (smap_set (el_updates l) fd h) l"
    and "el_store l h = Some x" and "good_handle fits l fd x"
  shows "\<exists>l'. EventLoop_updateHandle ops own h l = Inr (True, l') \<and>
    loop_inv ok fits interest (el_updates l') l' \<and> (own \<longrightarrow> el_updates l' = []) \<and>
    el_id l' = el_id l \<and> el_pins l' = el_pins l \<and> el_functors l' = el_functors l \<and>
    el_wakeups l' = el_wakeups l \<and> el_runningFunctors l' = el_runningFunctors l"
proof -
  let ?l = "l\<lparr>el_updates := smap_set (el_updates l) fd h\<rparr>"
  have inv: "loop_inv ok fits interest (el_updates ?l) ?l"
    using loop_inv_updates_cong [OF assms(1)] by simp
  have step: "EventLoop_updateHandle ops own h l =
      (if own then EventLoop_updateHandlesUnlock ops ?l else Inr (True, drop_dead ?l))"
    using assms(2,3) by (simp add: EventLoop_updateHandle_def good_handle_def Handle_getLoop_def Let_def)
  show ?thesis
  proof (cases own)
    case True
    with updateHandlesUnlock_ok [OF inv] step show ?thesis by auto
  next
    case False
    with loop_inv_drop_dead [OF inv] step show ?thesis by simp
  qed
qed

lemma addHandle_ok:
  assumes inv: "loop_inv ok fits interest (el_updates l) l" and add: "addable fits l h"
  shows "\<exists>l'. EventLoop_addHandle ops own h l = Inr (True, l') \<and> loop_inv ok fits interest (el_updates l') l'"
    and "\<exists>l'. EventLoop_addSHandle ops own h l = Inr (True, l') \<and> loop_inv ok fits interest (el_updates l') l'"
proof -
  from add obtain x where x: "el_store l h = Some x" "h_state x = STATE_NEW" "h_loop x = Some (el_id l)"
    "fits (ev_mask (h_events x))" "smap_find (el_handles l) (Handle_fd x) = None"
    by (auto simp: addable_def split: option.splits)
  have good: "good_handle fits l (Handle_fd x) x" using x by (simp add: good_handle_def)
  have inv': "loop_inv ok fits interest (smap_set (el_updates l) (Handle_fd x) h) (set_handle l h (Handle_setState x STATE_ADD))"
    by (rule loop_inv_mark [OF inv x(1) good]) (simp add: x)
  have good': "good_handle fits (set_handle l h (Handle_setState x STATE_ADD)) (Handle_fd x) (Handle_setState x STATE_ADD)"
    using good by (simp add: good_handle_def)
  from updateHandle_ok [of "set_handle l h (Handle_setState x STATE_ADD)", OF _ _ good', of h own] inv'
  show "\<exists>l'. EventLoop_addSHandle ops own h l = Inr (True, l') \<and> loop_inv ok fits interest (el_updates l') l'"
    using x(1,2) by (auto simp: EventLoop_addSHandle_def Handle_getState_def)
  let ?l = "set_handle (l\<lparr>el_pins := remove1 h (el_pins l)\<rparr>) h (Handle_setState x STATE_ADD)"
  have "?l = (set_handle l h (Handle_setState x STATE_ADD))\<lparr>el_pins := remove1 h (el_pins l)\<rparr>"
    by (simp add: set_handle_def)
  then have "loop_inv ok fits interest (smap_set (el_updates ?l) (Handle_fd x) h) ?l"
    using inv' by (simp add: loop_inv_pins_cong)
  moreover have "good_handle fits ?l (Handle_fd x) (Handle_setState x STATE_ADD)"
    using good by (simp add: good_handle_def)
  ultimately show "\<exists>l'. EventLoop_addHandle ops own h l = Inr (True, l') \<and> loop_inv ok fits interest (el_updates l') l'"
    using updateHandle_ok [of ?l "Handle_fd x" h "Handle_setState x STATE_ADD" own] x(1,2)
    by (auto simp: EventLoop_addHandle_def Handle_getState_def)
qed

lemma changeHandle_ok:
  assumes inv: "loop_inv ok fits interest (el_updates l) l" and x: "el_store l h = Some x"
    and st: "st \<in> {STATE_MOD, STATE_DEL}"
  shows "\<exists>b l'. EventLoop_changeHandle st ops own h l = Inr (b, l') \<and>
    loop_inv ok fits interest (el_updates l') l' \<and>
    (b \<longleftrightarrow> smap_find (el_handles l) (Handle_fd x) \<noteq> None) \<and> (b \<and> own \<longrightarrow> el_updates l' = [])"
proof (cases "smap_find (el_handles l) (Handle_fd x)")
  case None
  with inv x show ?thesis
    by (intro exI [of _ False] exI [of _ l]) (simp add: EventLoop_changeHandle_def)
next
  case (Some m)
  have reg: "registered_ok fits (el_updates l) l" using inv by (simp add: loop_inv_def)
  from registered_okD [OF reg Some] obtain y where
    y: "el_store l m = Some y" "good_handle fits l (Handle_fd x) y" by blast
  let ?l = "set_handle l m (Handle_setState y st)"
  have "loop_inv ok fits interest (smap_set (el_updates l) (Handle_fd x) m) ?l"
    by (rule loop_inv_mark [OF inv y]) (use st Some in auto)
  moreover have "good_handle fits ?l (Handle_fd x) (Handle_setState y st)"
    using y(2) by (simp add: good_handle_def)
  ultimately show ?thesis
    using updateHandle_ok [of ?l "Handle_fd x" m "Handle_setState y st" own] x y(1) Some
    by (auto simp: EventLoop_changeHandle_def)
qed

end

section \<open>Interleaved calls\<close>

text \<open>
  The calls of the threads that use a loop, in the order in which they get the mutex: a
  user creates a handle, adds it (giving up its pointer or sharing it), turns its
  events on or off, modifies or deletes the registration; the loop applies the pending
  updates.
\<close>

datatype loop_call =
    NewHandle hid handle
  | AddHandle bool hid
  | AddSHandle bool hid
  | EnableWrite hid
  | DisableWrite hid
  | ModHandle bool hid
  | DelHandle bool hid
  | Flush

fun loop_call_step :: "'p poller_ops \<Rightarrow> loop_call \<Rightarrow> ('p, 'u) evloop \<Rightarrow> ('p, 'u) evloop res" where
  "loop_call_step ops (NewHandle h x) l = Inr (pin h (set_handle l h x))"
| "loop_call_step ops (AddHandle own h) l = bind_res (EventLoop_addHandle ops own h l) (\<lambda>(b, l'). Inr l')"
| "loop_call_step ops (AddSHandle own h) l = bind_res (EventLoop_addSHandle ops own h l) (\<lambda>(b, l'). Inr l')"
| "loop_call_step ops (EnableWrite h) l = bind_res (handle_at l h) (\<lambda>x. Inr (set_handle l h (Handle_enableWrite x)))"
| "loop_call_step ops (DisableWrite h) l = bind_res (handle_at l h) (\<lambda>x. Inr (set_handle l h (Handle_disableWrite x)))"
| "loop_call_step ops (ModHandle own h) l = bind_res (EventLoop_modHandle ops own h l) (\<lambda>(b, l'). Inr l')"
| "loop_call_step ops (DelHandle own h) l = bind_res (EventLoop_delHandle ops own h l) (\<lambda>(b, l'). Inr l')"
| "loop_call_step ops Flush l = flush_updates ops l"

text \<open>
  What the callers must observe: a new handle is new, an added one is addable, and a
  pointer that is passed or written through is alive.
\<close>

fun call_allowed :: "(32 word \<Rightarrow> bool) \<Rightarrow> loop_call \<Rightarrow> ('p, 'u) evloop \<Rightarrow> bool" where
  "call_allowed fits (NewHandle h x) l = (el_store l h = None)"
| "call_allowed fits (AddHandle own h) l = addable fits l h"
| "call_allowed fits (AddSHandle own h) l = addable fits l h"
| "call_allowed fits (EnableWrite h) l = (case el_store l h of None \<Rightarrow> False
     | Some x \<Rightarrow> fits (ev_mask (h_events (Handle_enableWrite x))))"
| "call_allowed fits (DisableWrite h) l = (case el_store l h of None \<Rightarrow> False
     | Some x \<Rightarrow> fits (ev_mask (h_events (Handle_disableWrite x))))"
| "call_allowed fits (ModHandle own h) l = (el_store l h \<noteq> None)"
| "call_allowed fits (DelHandle own h) l = (el_store l h \<noteq> None)"
| "call_allowed fits Flush l = True"

fun loop_calls :: "'p poller_ops \<Rightarrow> loop_call list \<Rightarrow> ('p, 'u) evloop \<Rightarrow> ('p, 'u) evloop res" where
  "loop_calls ops [] l = Inr l"
| "loop_calls ops (c # cs) l = bind_res (loop_call_step ops c l) (loop_calls ops cs)"

fun calls_allowed :: "'p poller_ops \<Rightarrow> (32 word \<Rightarrow> bool) \<Rightarrow> loop_call list \<Rightarrow> ('p, 'u) evloop \<Rightarrow> bool" where
  "calls_allowed ops fits [] l = True"
| "calls_allowed ops fits (c # cs) l = (call_allowed fits c l \<and>
     (case loop_call_step ops c l of Inl e \<Rightarrow> True | Inr l' \<Rightarrow> calls_allowed ops fits cs l'))"

lemma loop_inv_store:
  assumes inv: "loop_inv ok fits interest us l"
    and new: "\<forall>y. el_store l h = Some y \<longrightarrow> h_state x = h_state y \<and> h_loop x = h_loop y \<and>
        Handle_fd x = Handle_fd y \<and> fits (ev_mask (h_events x))"
  shows "loop_inv ok fits interest us (set_handle l h x)"
proof -
  have step: "\<exists>y'. el_store (set_handle l h x) h' = Some y' \<and> good_handle fits (set_handle l h x) fd y' \<and> h_state y' = h_state y"
    if "el_store l h' = Some y" "good_handle fits l fd y" for h' fd y
    using that new by (cases "h' = h") (auto simp: good_handle_def)
  have reg: "registered_ok fits us l" and pen: "pending_ok fits us l"
    using inv by (simp_all add: loop_inv_def)
  have "registered_ok fits us (set_handle l h x)"
    unfolding registered_ok_def set_handle_simps(2)
  proof (intro allI impI)
    fix fd h' assume "smap_find (el_handles l) fd = Some h'"
    from registered_okD [OF reg this] obtain y where
      y: "el_store l h' = Some y" "good_handle fits l fd y" "h_state y = STATE_LOOP \<or> smap_find us fd = Some h'"
      by blast
    from step [OF y(1,2)] y(3) show "\<exists>x'. el_store (set_handle l h x) h' = Some x' \<and>
      good_handle fits (set_handle l h x) fd x' \<and> (h_state x' = STATE_LOOP \<or> smap_find us fd = Some h')" by auto
  qed
  moreover have "pending_ok fits us (set_handle l h x)"
    unfolding pending_ok_def set_handle_simps(2)
  proof (intro allI impI)
    fix fd h' assume "smap_find us fd = Some h'"
    from pending_okD [OF pen this] obtain y where
      y: "el_store l h' = Some y" "good_handle fits l fd y"
        "h_state y = STATE_ADD \<and> smap_find (el_handles l) fd = None \<or>
         h_state y \<in> {STATE_MOD, STATE_DEL} \<and> smap_find (el_handles l) fd = Some h'" by blast
    from step [OF y(1,2)] y(3) show "\<exists>x'. el_store (set_handle l h x) h' = Some x' \<and>
      good_handle fits (set_handle l h x) fd x' \<and>
      (h_state x' = STATE_ADD \<and> smap_find (el_handles l) fd = None \<or>
       h_state x' \<in> {STATE_MOD, STATE_DEL} \<and> smap_find (el_handles l) fd = Some h')" by auto
  qed
  ultimately show ?thesis using inv by (simp add: loop_inv_def)
qed

lemma enable_frame [simp]:
  "h_state (Handle_enableWrite x) = h_state x" "h_loop (Handle_enableWrite x) = h_loop x"
  "Handle_fd (Handle_enableWrite x) = Handle_fd x"
  "h_state (Handle_disableWrite x) = h_state x" "h_loop (Handle_disableWrite x) = h_loop x"
  "Handle_fd (Handle_disableWrite x) = Handle_fd x"
  by (simp_all add: Handle_enableWrite_def Handle_disableWrite_def Handle_fd_def events_defs)

context poller begin

lemma loop_call_ok:
  assumes inv: "loop_inv ok fits interest (el_updates l) l" and c: "call_allowed fits c l"
  shows "\<exists>l'. loop_call_step ops c l = Inr l' \<and> loop_inv ok fits interest (el_updates l') l'"
proof (cases c)
  case (NewHandle h x)
  with c loop_inv_store [OF inv, of h x] show ?thesis by (simp add: pin_def loop_inv_pins_cong)
next
  case (AddHandle own h)
  with c addHandle_ok(1) [OF inv, of h own] show ?thesis by auto
next
  case (AddSHandle own h)
  with c addHandle_ok(2) [OF inv, of h own] show ?thesis by auto
next
  case (EnableWrite h)
  with c obtain x where "el_store l h = Some x" "fits (ev_mask (h_events (Handle_enableWrite x)))"
    by (auto split: option.splits)
  with EnableWrite loop_inv_store [OF inv, of h "Handle_enableWrite x"] show ?thesis by simp
next
  case (DisableWrite h)
  with c obtain x where "el_store l h = Some x" "fits (ev_mask (h_events (Handle_disableWrite x)))"
    by (auto split: option.splits)
  with DisableWrite loop_inv_store [OF inv, of h "Handle_disableWrite x"] show ?thesis by simp
next
  case (ModHandle own h)
  with c obtain x where "el_store l h = Some x" by auto
  from changeHandle_ok [OF inv this, of STATE_MOD own] ModHandle show ?thesis
    by (auto simp: EventLoop_modHandle_def)
next
  case (DelHandle own h)
  with c obtain x where "el_store l h = Some x" by auto
  from changeHandle_ok [OF inv this, of STATE_DEL own] DelHandle show ?thesis
    by (auto simp: EventLoop_delHandle_def)
next
  case Flush
  with flush_updates_ok [OF inv] show ?thesis by auto
qed

lemma loop_calls_ok:
  "loop_inv ok fits interest (el_updates l) l \<Longrightarrow> calls_allowed ops fits cs l \<Longrightarrow>
   \<exists>l'. loop_calls ops cs l = Inr l' \<and> loop_inv ok fits interest (el_updates l') l'"
proof (induction cs arbitrary: l)
  case Nil
  then show ?case by simp
next
  case (Cons c cs)
  from loop_call_ok [OF Cons.prems(1), of c] Cons.prems(2) obtain l1 where
    "loop_call_step ops c l = Inr l1" "loop_inv ok fits interest (el_updates l1) l1" by auto
  with Cons show ?case by simp
qed

end

section \<open>Turns of the loop\<close>

lemma updateOne_frame:
  assumes "EventLoop_updateOne ops cur l = Inr l'"
  shows "el_functors l' = el_functors l \<and> el_wakeups l' = el_wakeups l \<and>
    el_runningFunctors l' = el_runningFunctors l"
proof -
  from assms obtain x where x: "el_store l (snd cur) = Some x"
    by (auto simp: EventLoop_updateOne_def res_simps)
  show ?thesis
    using assms x
    by (cases "h_state x")
      (auto simp: EventLoop_updateOne_def Handle_getState_def res_simps Let_def split: if_splits)
qed

lemma update_all_frame:
  "update_all ops us l = Inr l' \<Longrightarrow> el_functors l' = el_functors l \<and> el_wakeups l' = el_wakeups l \<and>
    el_runningFunctors l' = el_runningFunctors l"
proof (induction us arbitrary: l)
  case (Cons u us)
  then obtain l1 where "EventLoop_updateOne ops u l = Inr l1" "update_all ops us l1 = Inr l'"
    by (auto simp: res_simps)
  with Cons.IH updateOne_frame show ?case by metis
qed simp

lemma flush_updates_frame:
  assumes "flush_updates ops l = Inr l'"
  shows "el_functors l' = el_functors l \<and> el_wakeups l' = el_wakeups l \<and>
    el_runningFunctors l' = el_runningFunctors l"
  using assms
  by (auto simp: flush_updates_def EventLoop_updateHandles_def EventLoop_updateHandlesUnlock_def res_simps
      dest: update_all_frame split: if_splits)

text \<open>A functor that waits has a wake-up behind it.\<close>

definition wake_pending :: "('p, 'u) evloop \<Rightarrow> bool" where
  "wake_pending l \<longleftrightarrow> (el_functors l \<noteq> [] \<longrightarrow> 0 < el_wakeups l)"

lemma queueInLoop_wakes:
  assumes "\<not> own \<or> el_runningFunctors l"
  shows "wake_pending (EventLoop_queueInLoop own cb l)"
  using assms by (auto simp: wake_pending_def EventLoop_queueInLoop_def EventLoop_wakeUp_def Let_def)

lemma run_functors_wakes:
  assumes exec: "\<And>f l l'. exec f l = Inr l' \<Longrightarrow> wake_pending l \<Longrightarrow> el_runningFunctors l \<Longrightarrow>
      wake_pending l' \<and> el_runningFunctors l'"
  shows "run_functors exec ops fs l = Inr l' \<Longrightarrow> wake_pending l \<Longrightarrow> el_runningFunctors l \<Longrightarrow> wake_pending l'"
proof (induction fs arbitrary: l)
  case Nil
  then show ?case by simp
next
  case (Cons f fs)
  then obtain l1 l2 where r: "exec f l = Inr l1" "flush_updates ops l1 = Inr l2" "run_functors exec ops fs l2 = Inr l'"
    by (auto simp: res_simps)
  from exec [OF r(1) Cons.prems(2,3)] flush_updates_frame [OF r(2)] have
    "wake_pending l2" "el_runningFunctors l2" by (simp_all add: wake_pending_def)
  from Cons.IH [OF r(3) this] show ?case .
qed

lemma runFunctors_wakes:
  assumes exec: "\<And>f l l'. exec f l = Inr l' \<Longrightarrow> wake_pending l \<Longrightarrow> el_runningFunctors l \<Longrightarrow>
      wake_pending l' \<and> el_runningFunctors l'"
    and "EventLoop_runFunctors exec ops l = Inr l'"
  shows "wake_pending l' \<and> \<not> el_runningFunctors l'"
proof -
  from assms(2) obtain l1 where
    r: "run_functors exec ops (el_functors l) (l\<lparr>el_runningFunctors := True, el_functors := []\<rparr>) = Inr l1"
      "l' = l1\<lparr>el_runningFunctors := False\<rparr>"
    by (auto simp: EventLoop_runFunctors_def res_simps)
  have "wake_pending l1"
    by (rule run_functors_wakes [OF _ r(1)]) (auto simp: wake_pending_def dest: exec [unfolded wake_pending_def])
  with r(2) show ?thesis by (simp add: wake_pending_def)
qed

lemma turn_wakes:
  assumes exec: "\<And>f l l'. exec f l = Inr l' \<Longrightarrow> wake_pending l \<Longrightarrow> el_runningFunctors l \<Longrightarrow>
      wake_pending l' \<and> el_runningFunctors l'"
    and "EventLoop_turn hnd exec ops lp l = Inr l'"
  shows "wake_pending l'"
proof -
  from assms(2) obtain l2 where "EventLoop_runFunctors exec ops l2 = Inr l'"
    by (auto simp: EventLoop_turn_def res_simps split: if_splits)
  from runFunctors_wakes [OF _ this] exec show ?thesis by blast
qed

context poller begin

lemma unpin_ok:
  assumes "loop_inv ok fits interest (el_updates l) l"
  shows "loop_inv ok fits interest (el_updates (unpin h l)) (unpin h l)"
  using loop_inv_drop_dead [of ok fits interest "l\<lparr>el_pins := remove1 h (el_pins l)\<rparr>"] assms
  by (simp add: unpin_def loop_inv_pins_cong)

lemma dispatch_ok:
  assumes hnd: "\<And>h ev t l. loop_inv ok fits interest (el_updates l) l \<Longrightarrow>
      \<exists>l'. Handle_handleEvent (hnd h) ev t l = Inr l' \<and> loop_inv ok fits interest (el_updates l') l' \<and>
           el_runningFunctors l' = el_runningFunctors l"
  shows "loop_inv ok fits interest (el_updates l) l \<Longrightarrow>
    \<exists>l'. EventLoop_dispatch hnd ops t evs l = Inr l' \<and> loop_inv ok fits interest (el_updates l') l' \<and>
         el_runningFunctors l' = el_runningFunctors l"
proof (induction evs arbitrary: l)
  case Nil
  then show ?case by simp
next
  case (Cons ev evs)
  show ?case
  proof (cases "smap_find (el_handles l) (Events_getFd ev)")
    case None
    with Cons show ?thesis by simp
  next
    case (Some h)
    have "registered_ok fits (el_updates l) l" using Cons.prems by (simp add: loop_inv_def)
    from registered_okD [OF this Some] obtain x where x: "el_store l h = Some x" by blast
    show ?thesis
    proof (cases "Handle_getState x = STATE_LOOP")
      case False
      with Some x Cons show ?thesis by simp
    next
      case True
      have "loop_inv ok fits interest (el_updates (pin h l)) (pin h l)"
        using Cons.prems by (simp add: pin_def loop_inv_pins_cong)
      from hnd [OF this, of h ev t] obtain l1 where
        l1: "Handle_handleEvent (hnd h) ev t (pin h l) = Inr l1" "loop_inv ok fits interest (el_updates l1) l1"
          "el_runningFunctors l1 = el_runningFunctors l" by (auto simp: pin_def)
      from flush_updates_ok [OF l1(2)] obtain l2 where
        l2: "flush_updates ops l1 = Inr l2" "loop_inv ok fits interest (el_updates l2) l2"
          "el_runningFunctors l2 = el_runningFunctors l1" by blast
      from Cons.IH [OF unpin_ok [OF l2(2)], of h] obtain l' where
        "EventLoop_dispatch hnd ops t evs (unpin h l2) = Inr l'" "loop_inv ok fits interest (el_updates l') l'"
        "el_runningFunctors l' = el_runningFunctors l2" by (auto simp: unpin_def)
      with Some x True l1 l2 show ?thesis by simp
    qed
  qed
qed

lemma loop_inv_running_cong:
  "loop_inv ok fits interest us (l\<lparr>el_runningFunctors := b, el_functors := fs\<rparr>) = loop_inv ok fits interest us l"
  "loop_inv ok fits interest us (l\<lparr>el_runningFunctors := b\<rparr>) = loop_inv ok fits interest us l"
  by (simp_all add: loop_inv_def registered_ok_def pending_ok_def good_handle_def)

lemma run_functors_ok:
  assumes exec: "\<And>f l. loop_inv ok fits interest (el_updates l) l \<Longrightarrow>
      \<exists>l'. exec f l = Inr l' \<and> loop_inv ok fits interest (el_updates l') l'"
  shows "loop_inv ok fits interest (el_updates l) l \<Longrightarrow>
    \<exists>l'. run_functors exec ops fs l = Inr l' \<and> loop_inv ok fits interest (el_updates l') l'"
proof (induction fs arbitrary: l)
  case Nil
  then show ?case by simp
next
  case (Cons f fs)
  from exec [OF Cons.prems] obtain l1 where
    l1: "exec f l = Inr l1" "loop_inv ok fits interest (el_updates l1) l1" by blast
  from flush_updates_ok [OF l1(2)] obtain l2 where
    l2: "flush_updates ops l1 = Inr l2" "loop_inv ok fits interest (el_updates l2) l2" by blast
  from Cons.IH [OF l2(2)] l1(1) l2(1) show ?case by simp
qed

lemma turn_ok:
  assumes hnd: "\<And>h ev t l. loop_inv ok fits interest (el_updates l) l \<Longrightarrow>
      \<exists>l'. Handle_handleEvent (hnd h) ev t l = Inr l' \<and> loop_inv ok fits interest (el_updates l') l' \<and>
           el_runningFunctors l' = el_runningFunctors l"
    and exec: "\<And>f l. loop_inv ok fits interest (el_updates l) l \<Longrightarrow>
      \<exists>l'. exec f l = Inr l' \<and> loop_inv ok fits interest (el_updates l') l'"
    and lp: "\<And>p. ok p \<Longrightarrow> \<exists>evs t p'. lp p = Inr (evs, t, p') \<and> ok p' \<and> interest p' = interest p"
    and inv: "loop_inv ok fits interest (el_updates l) l" and run: "\<not> el_runningFunctors l"
  shows "\<exists>l'. EventLoop_turn hnd exec ops lp l = Inr l' \<and> loop_inv ok fits interest (el_updates l') l' \<and>
    \<not> el_runningFunctors l'"
proof -
  from flush_updates_ok [OF inv] obtain l1 where
    l1: "flush_updates ops l = Inr l1" "loop_inv ok fits interest (el_updates l1) l1"
      "el_runningFunctors l1 = el_runningFunctors l" by blast
  then have "ok (el_poll l1)" by (simp add: loop_inv_def)
  from lp [OF this] obtain evs t p' where
    p': "lp (el_poll l1) = Inr (evs, t, p')" "ok p'" "interest p' = interest (el_poll l1)" by blast
  have "loop_inv ok fits interest (el_updates (l1\<lparr>el_poll := p'\<rparr>)) (l1\<lparr>el_poll := p'\<rparr>)"
    using l1(2) p'(2,3) by (simp add: loop_inv_def registered_ok_def pending_ok_def good_handle_def)
  from dispatch_ok [where hnd = hnd, OF hnd this] obtain l2 where
    l2: "EventLoop_dispatch hnd ops t evs (l1\<lparr>el_poll := p'\<rparr>) = Inr l2" "loop_inv ok fits interest (el_updates l2) l2"
      "\<not> el_runningFunctors l2" using l1(3) run by auto
  have "loop_inv ok fits interest (el_updates (l2\<lparr>el_runningFunctors := True, el_functors := []\<rparr>))
      (l2\<lparr>el_runningFunctors := True, el_functors := []\<rparr>)"
    using l2(2) by (simp add: loop_inv_running_cong)
  from run_functors_ok [where exec = exec, OF exec this] obtain l3 where
    l3: "run_functors exec ops (el_functors l2) (l2\<lparr>el_runningFunctors := True, el_functors := []\<rparr>) = Inr l3"
      "loop_inv ok fits interest (el_updates l3) l3" by blast
  then have "EventLoop_runFunctors exec ops l2 = Inr (l3\<lparr>el_runningFunctors := False\<rparr>)"
    by (simp add: EventLoop_runFunctors_def)
  with l1(1) p'(1) l2(1,3) l3(2) show ?thesis
    by (simp add: EventLoop_turn_def loop_inv_running_cong)
qed

end

section \<open>Deletions\<close>

lemma loop_inv_same_handle:
  assumes "loop_inv ok fits interest [] l" and "smap_find (el_handles l) fd = Some h"
  shows "\<exists>x. el_store l h = Some x \<and> Handle_fd x = fd \<and> h_state x = STATE_LOOP \<and> h_loop x = Some (el_id l)"
  using assms registered_okD [of fits "[]" l fd h] by (auto simp: loop_inv_def good_handle_def)

context poller begin

text \<open>A deletion by the owner thread takes effect at once.\<close>

lemma delHandle_owner:
  assumes inv: "loop_inv ok fits interest [] l" and up: "el_updates l = []"
    and h: "smap_find (el_handles l) fd = Some h"
  shows "\<exists>l'. EventLoop_delHandle ops True h l = Inr (True, l') \<and> el_updates l' = [] \<and>
    el_handles l' = smap_erase (el_handles l) fd \<and> interest (el_poll l') fd = None \<and>
    (h \<notin> set (el_pins l) \<longrightarrow> el_store l' h = None)"
proof -
  from loop_inv_same_handle [OF inv h] obtain x where
    x: "el_store l h = Some x" "Handle_fd x = fd" "h_loop x = Some (el_id l)" by blast
  have okp: "ok (el_poll l)" and hs: "smap_ok (el_handles l)" using inv by (simp_all add: loop_inv_def)
  have fd: "ev_fd (h_events x) = fd" using x(2) by (simp add: Handle_fd_def Events_getFd_def)
  obtain b p' where p': "pl_del ops (el_poll l) (h_events x) = Inr (b, p')" "ok p'" "interest p' = (interest (el_poll l))(fd := None)"
    by (rule del_any [OF okp fd])
  have gone: "h \<notin> snd ` set (smap_erase (el_handles l) fd)"
  proof
    assume "h \<in> snd ` set (smap_erase (el_handles l) fd)"
    then obtain fd' where m: "(fd', h) \<in> set (smap_erase (el_handles l) fd)" by force
    have okm: "smap_ok (smap_erase (el_handles l) fd)" using hs by (rule smap_erase_ok)
    from smap_find_of_in [OF okm m] have f: "smap_find (smap_erase (el_handles l) fd) fd' = Some h" .
    then have ne: "fd' \<noteq> fd" and "smap_find (el_handles l) fd' = Some h"
      using hs by (auto split: if_splits)
    from loop_inv_same_handle [OF inv this(2)] x(1,2) ne show False by auto
  qed
  let ?l = "(set_handle l h (Handle_setState x STATE_DEL))\<lparr>el_updates := [(fd, h)]\<rparr>"
  have "EventLoop_updateOne ops (fd, h) ?l =
      Inr (?l\<lparr>el_poll := p', el_handles := smap_erase (el_handles l) fd\<rparr>)"
    using x p'(1) h by (simp add: EventLoop_updateOne_def Handle_getState_def Handle_getEvent_def)
  then have "EventLoop_delHandle ops True h l =
      Inr (True, drop_dead (?l\<lparr>el_poll := p', el_handles := smap_erase (el_handles l) fd, el_updates := []\<rparr>))"
    using x h up by (simp add: EventLoop_delHandle_def EventLoop_changeHandle_def EventLoop_updateHandle_def
        EventLoop_updateHandlesUnlock_def Handle_getLoop_def Let_def set_handle_def)
  then show ?thesis using p'(3) gone by (auto simp: live_handles_def)
qed

text \<open>So does a modification: the poller then watches the events the handle has now.\<close>

lemma modHandle_owner:
  assumes inv: "loop_inv ok fits interest [] l" and up: "el_updates l = []"
    and h: "smap_find (el_handles l) fd = Some h" and x: "el_store l h = Some x"
  shows "\<exists>l'. EventLoop_modHandle ops True h l = Inr (True, l') \<and> loop_inv ok fits interest [] l' \<and>
    el_updates l' = [] \<and> el_handles l' = el_handles l \<and> el_store l' h = Some x \<and>
    (interest (el_poll l) fd \<noteq> None \<longrightarrow> interest (el_poll l') fd = Some (ev_mask (h_events x)))"
proof -
  from loop_inv_same_handle [OF inv h] x have
    x': "Handle_fd x = fd" "h_loop x = Some (el_id l)" "h_state x = STATE_LOOP" by auto
  have okp: "ok (el_poll l)" and gf: "fits (ev_mask (h_events x))" and hs: "smap_ok (el_handles l)"
    using inv registered_okD [of fits "[]" l fd h] h x by (auto simp: loop_inv_def good_handle_def)
  have fd: "ev_fd (h_events x) = fd" using x'(1) by (simp add: Handle_fd_def Events_getFd_def)
  obtain b p' where p': "pl_mod ops (el_poll l) (h_events x) = Inr (b, p')" "ok p'"
    "\<forall>fd'. interest p' fd' \<noteq> None \<longrightarrow> fd' = fd \<or> interest (el_poll l) fd' \<noteq> None"
    "interest (el_poll l) fd \<noteq> None \<longrightarrow> interest p' fd = Some (ev_mask (h_events x))" by (rule mod_any [OF okp fd gf])
  have same: "smap_set (el_handles l) fd h = el_handles l" by (rule sm.store_same [OF hs h])
  have live: "h \<in> snd ` set (el_handles l)" using smap_find_in [OF h] by force
  have setset: "Handle_setState (Handle_setState x s) STATE_LOOP = x" for s
    using x'(3) by (simp add: Handle_setState_def)
  let ?l1 = "(set_handle l h (Handle_setState x STATE_MOD))\<lparr>el_updates := [(fd, h)]\<rparr>"
  let ?l2 = "set_handle (?l1\<lparr>el_poll := p', el_handles := el_handles l\<rparr>) h x"
  have "EventLoop_updateOne ops (fd, h) ?l1 = Inr ?l2"
    using p'(1) by (simp add: EventLoop_updateOne_def Handle_getState_def Handle_getEvent_def setset same)
  then have eq: "EventLoop_modHandle ops True h l = Inr (True, drop_dead (?l2\<lparr>el_updates := []\<rparr>))"
    using x x' h up by (simp add: EventLoop_modHandle_def EventLoop_changeHandle_def EventLoop_updateHandle_def
        EventLoop_updateHandlesUnlock_def Handle_getLoop_def Let_def set_handle_def)
  from changeHandle_ok [of l h x STATE_MOD True] inv up x eq
  have "loop_inv ok fits interest [] (drop_dead (?l2\<lparr>el_updates := []\<rparr>))"
    by (simp add: EventLoop_modHandle_def)
  with eq p'(4) live show ?thesis by (simp add: live_handles_def)
qed

text \<open>A modification after a deletion, both pending, undoes the deletion.\<close>

lemma lost_deletion:
  assumes inv: "loop_inv ok fits interest [] l" and up: "el_updates l = []"
    and h: "smap_find (el_handles l) fd = Some h"
  shows "\<exists>l'. loop_calls ops [DelHandle False h, ModHandle False h, Flush] l = Inr l' \<and>
    smap_find (el_handles l') fd = Some h \<and> (\<exists>x. el_store l' h = Some x \<and> h_state x = STATE_LOOP)"
proof -
  from loop_inv_same_handle [OF inv h] obtain x where
    x: "el_store l h = Some x" "Handle_fd x = fd" "h_loop x = Some (el_id l)" by blast
  have hs: "smap_ok (el_handles l)" using inv by (simp add: loop_inv_def)
  have live: "h \<in> snd ` set (el_handles l)" using smap_find_in [OF h] by force
  have fd: "ev_fd (h_events x) = fd" using x(2) by (simp add: Handle_fd_def Events_getFd_def)
  have okp: "ok (el_poll l)" and gf: "fits (ev_mask (h_events x))"
    using inv registered_okD [of fits "[]" l fd h] h x(1) by (auto simp: loop_inv_def good_handle_def)
  obtain b p' where p': "pl_mod ops (el_poll l) (h_events x) = Inr (b, p')" "ok p'"
    "\<forall>fd'. interest p' fd' \<noteq> None \<longrightarrow> fd' = fd \<or> interest (el_poll l) fd' \<noteq> None"
    "interest (el_poll l) fd \<noteq> None \<longrightarrow> interest p' fd = Some (ev_mask (h_events x))" by (rule mod_any [OF okp fd gf])
  define l1 where "l1 = drop_dead ((set_handle l h (Handle_setState x STATE_DEL))\<lparr>el_updates := [(fd, h)]\<rparr>)"
  have del: "EventLoop_delHandle ops False h l = Inr (True, l1)"
    using x h up by (simp add: EventLoop_delHandle_def EventLoop_changeHandle_def EventLoop_updateHandle_def
        Handle_getLoop_def set_handle_def l1_def)
  have l1: "el_store l1 h = Some (Handle_setState x STATE_DEL)" "el_handles l1 = el_handles l"
    "el_updates l1 = [(fd, h)]" "el_poll l1 = el_poll l" "el_id l1 = el_id l"
    using live by (simp_all add: l1_def live_handles_def)
  define l2 where "l2 = drop_dead ((set_handle l1 h (Handle_setState x STATE_MOD))\<lparr>el_updates := [(fd, h)]\<rparr>)"
  have setset: "Handle_setState (Handle_setState x s) s' = Handle_setState x s'" for s s'
    by (simp add: Handle_setState_def)
  have md: "EventLoop_modHandle ops False h l1 = Inr (True, l2)"
    using x h l1 by (simp add: EventLoop_modHandle_def EventLoop_changeHandle_def EventLoop_updateHandle_def
        Handle_getLoop_def setset l2_def)
  have l2: "el_store l2 h = Some (Handle_setState x STATE_MOD)" "el_handles l2 = el_handles l"
    "el_updates l2 = [(fd, h)]" "el_poll l2 = el_poll l"
    using live l1 by (simp_all add: l2_def live_handles_def)
  let ?l3 = "set_handle (l2\<lparr>el_poll := p', el_handles := smap_set (el_handles l) fd h\<rparr>) h (Handle_setState x STATE_LOOP)"
  have "flush_updates ops l2 = Inr (drop_dead (?l3\<lparr>el_updates := []\<rparr>))"
    using l2 p' by (simp add: flush_updates_def EventLoop_updateHandles_def EventLoop_updateHandlesUnlock_def
        EventLoop_updateOne_def Handle_getState_def Handle_getEvent_def setset)
  moreover have "h \<in> snd ` set (smap_set (el_handles l) fd h)"
    using smap_find_in [of "smap_set (el_handles l) fd h" fd h] by force
  ultimately show ?thesis using del md hs by (simp add: live_handles_def)
qed

end

section \<open>Properties\<close>

text \<open>The loop over \<open>Epoll\<close>, the poller that its constructor installs.\<close>

type_synonym ('k, 'u) epoll_loop = "(epoll \<times> 'k, 'u) evloop"

definition epoll_loop_inv :: "('k \<Rightarrow> int \<Rightarrow> 32 word option) \<Rightarrow> ('k, 'u) epoll_loop \<Rightarrow> bool" where
  "epoll_loop_inv registered l \<longleftrightarrow>
     loop_inv (\<lambda>p. ep_fd (fst p) \<noteq> -1) (\<lambda>m. True) (\<lambda>p. registered (snd p)) (el_updates l) l"

context epoll_kernel begin

lemma epoll_poller:
  "poller (epoll_ops ctl) (\<lambda>p. ep_fd (fst p) \<noteq> -1) (\<lambda>m. True) (\<lambda>p. registered (snd p))"
  by (rule poller_axioms)

end

definition demo_loop :: "((int, 32 word) smap, unit) epoll_loop" where
  "demo_loop = \<lparr>el_id = 1, el_poll = (Epoll_new 9, []), el_handles = [], el_updates = [], el_store = (\<lambda>h. None),
     el_pins = [], el_functors = [], el_runningFunctors = False, el_wakeups = 0, el_quit = False, el_app = ()\<rparr>"

lemma demo_loop_inv: "epoll_loop_inv smap_find demo_loop"
  by (simp add: epoll_loop_inv_def loop_inv_def registered_ok_def pending_ok_def demo_loop_def Epoll_new_def
      revents_resize_def)

lemmas loop_exec_defs =
  EventLoop_addHandle_def EventLoop_addSHandle_def EventLoop_modHandle_def EventLoop_delHandle_def
  EventLoop_changeHandle_def EventLoop_updateHandle_def EventLoop_updateHandles_def
  EventLoop_updateHandlesUnlock_def EventLoop_updateOne_def flush_updates_def Handle_getLoop_def
  Handle_getState_def Handle_getEvent_def Handle_fd_def Handle_new_def Handle_setState_def
  Handle_enableWrite_def handle_at_def set_handle_def pin_def drop_dead_def live_handles_def
  epoll_event_defs events_defs addable_def

text \<open>
  C2: However the threads interleave their calls (handles created, added by giving up or
  sharing the pointer, their write events toggled, registrations modified or deleted by the
  owner thread or by others, pending updates applied), no assertion of \<open>EventLoop\<close> fails
  and no freed handle is touched, as long as callers add only new handles for free
  descriptors and pass live pointers; the maps, the handle states and the kernel's
  registrations stay consistent.
\<close>
theorem event_loop_calls_consistent:
  assumes "epoll_kernel ctl registered" and "epoll_loop_inv registered l"
    and "calls_allowed (epoll_ops ctl) (\<lambda>m. True) cs l"
  shows "\<exists>l'. loop_calls (epoll_ops ctl) cs l = Inr l' \<and> epoll_loop_inv registered l'"
  using poller.loop_calls_ok [OF epoll_kernel.epoll_poller [OF assms(1)], of l cs] assms(2,3)
  by (simp add: epoll_loop_inv_def)

definition demo_calls15 :: "loop_call list" where
  "demo_calls15 = [NewHandle 0 (Handle_new (Some 1) (Events_new 5 kReadEvent)), AddHandle False 0, EnableWrite 0,
     Flush, ModHandle False 0, DelHandle True 0]"

theorem event_loop_calls_consistent_witness:
  "\<exists>l'. loop_calls (epoll_ops table_ctl) demo_calls15 demo_loop = Inr l' \<and> epoll_loop_inv smap_find l'"
  by (rule event_loop_calls_consistent [OF table.epoll_kernel_axioms demo_loop_inv])
    (simp add: demo_calls15_def demo_loop_def loop_exec_defs Epoll_new_def revents_resize_def)

text \<open>
  A deletion by the owner thread takes effect before \<open>delHandle\<close> returns: the
  descriptor is no longer registered nor watched by the kernel, the other registrations
  stay, and the handle is freed unless someone else still holds a pointer to it.
\<close>
theorem event_loop_delete:
  assumes "epoll_kernel ctl registered" and "epoll_loop_inv registered l" and "el_updates l = []"
    and "smap_find (el_handles l) fd = Some h"
  shows "\<exists>l'. EventLoop_delHandle (epoll_ops ctl) True h l = Inr (True, l') \<and> el_updates l' = [] \<and>
    el_handles l' = smap_erase (el_handles l) fd \<and> registered (snd (el_poll l')) fd = None \<and>
    (h \<notin> set (el_pins l) \<longrightarrow> el_store l' h = None)"
  using poller.delHandle_owner [OF epoll_kernel.epoll_poller [OF assms(1)], of l fd h] assms(2-4)
  by (simp add: epoll_loop_inv_def)

definition demo_loop5 :: "((int, 32 word) smap, unit) epoll_loop" where
  "demo_loop5 = demo_loop\<lparr>el_poll := (Epoll_new 9, [(5, kReadEvent)]), el_handles := [(5, 0)],
     el_store := (\<lambda>h. if h = 0 then Some \<lparr>h_loop = Some 1, h_events = Events_new 5 kReadEvent, h_state = STATE_LOOP\<rparr> else None)\<rparr>"

lemma demo_loop5_inv: "epoll_loop_inv smap_find demo_loop5" "el_updates demo_loop5 = []"
  "smap_find (el_handles demo_loop5) 5 = Some 0"
  by (simp_all add: epoll_loop_inv_def loop_inv_def registered_ok_def pending_ok_def good_handle_def
      demo_loop5_def demo_loop_def Epoll_new_def revents_resize_def smap_ok_Cons Handle_fd_def events_defs)

theorem event_loop_delete_witness:
  "\<exists>l'. EventLoop_delHandle (epoll_ops table_ctl) True 0 demo_loop5 = Inr (True, l') \<and> el_updates l' = [] \<and>
    el_handles l' = smap_erase (el_handles demo_loop5) 5 \<and> smap_find (snd (el_poll l')) 5 = None \<and>
    (0 \<notin> set (el_pins demo_loop5) \<longrightarrow> el_store l' 0 = None)"
  by (rule event_loop_delete [OF table.epoll_kernel_axioms demo_loop5_inv])

text \<open>
  C40: A deletion requested by another thread is lost when a modification of the same
  handle follows before the loop applies the updates: \<open>modHandle\<close> overwrites the state
  \<open>STATE_DEL\<close>, so the handle stays registered and goes on receiving events.
\<close>
theorem event_loop_lost_deletion:
  assumes "epoll_kernel ctl registered" and "epoll_loop_inv registered l" and "el_updates l = []"
    and "smap_find (el_handles l) fd = Some h"
  shows "\<exists>l'. loop_calls (epoll_ops ctl) [DelHandle False h, ModHandle False h, Flush] l = Inr l' \<and>
    smap_find (el_handles l') fd = Some h \<and> (\<exists>x. el_store l' h = Some x \<and> h_state x = STATE_LOOP)"
  using poller.lost_deletion [OF epoll_kernel.epoll_poller [OF assms(1)], of l fd h] assms(2-4)
  by (simp only: epoll_loop_inv_def)

theorem event_loop_lost_deletion_witness:
  "\<exists>l'. loop_calls (epoll_ops table_ctl) [DelHandle False 0, ModHandle False 0, Flush] demo_loop5 = Inr l' \<and>
    smap_find (el_handles l') 5 = Some 0 \<and> (\<exists>x. el_store l' 0 = Some x \<and> h_state x = STATE_LOOP)"
  by (rule event_loop_lost_deletion [OF table.epoll_kernel_axioms demo_loop5_inv])

text \<open>
  C30: A turn of the loop succeeds and keeps the loop consistent, whatever events the
  kernel returns (also for descriptors that are gone or were deleted by an earlier
  handler of the same turn), as long as handlers and functors keep the invariant and
  handlers leave \<open>runningFunctors_\<close> alone.
\<close>
theorem event_loop_turn_safe:
  assumes "epoll_kernel ctl registered"
    and "\<And>h ev t l. epoll_loop_inv registered l \<Longrightarrow> \<exists>l'. Handle_handleEvent (hnd h) ev t l = Inr l' \<and>
      epoll_loop_inv registered l' \<and> el_runningFunctors l' = el_runningFunctors l"
    and "\<And>f l. epoll_loop_inv registered l \<Longrightarrow> \<exists>l'. exec f l = Inr l' \<and> epoll_loop_inv registered l'"
    and "\<And>p. ep_fd (fst p) \<noteq> -1 \<Longrightarrow> \<exists>evs t p'. lp p = Inr (evs, t, p') \<and> ep_fd (fst p') \<noteq> -1 \<and>
      registered (snd p') = registered (snd p)"
    and "epoll_loop_inv registered l" and "\<not> el_runningFunctors l"
  shows "\<exists>l'. EventLoop_turn hnd exec (epoll_ops ctl) lp l = Inr l' \<and> epoll_loop_inv registered l' \<and>
    \<not> el_runningFunctors l'"
  unfolding epoll_loop_inv_def
  by (rule poller.turn_ok [OF epoll_kernel.epoll_poller [OF assms(1)]])
    (use assms(2-6) in \<open>simp_all add: epoll_loop_inv_def\<close>)

text \<open>A read handler that empties the eventfd, and one of a handle that deletes itself.\<close>

definition wakeup_handlers :: "('k, 'u) epoll_loop handlers" where
  "wakeup_handlers = Handle_setHandleRead Handle_new_handlers (\<lambda>ev t l. Inr (EventLoop_handWakeUp l))"

lemma wakeup_handlers_ok:
  assumes "epoll_loop_inv registered l"
  shows "\<exists>l'. Handle_handleEvent wakeup_handlers ev t l = Inr l' \<and> epoll_loop_inv registered l' \<and>
    el_runningFunctors l' = el_runningFunctors l"
  using assms
  by (cases "Handle_defaultCheckRead ev")
    (simp_all add: Handle_handleEvent_def wakeup_handlers_def Handle_setHandleRead_def Handle_new_handlers_def
      fire_def EventLoop_handWakeUp_def epoll_loop_inv_def loop_inv_def registered_ok_def pending_ok_def
      good_handle_def)

theorem event_loop_turn_safe_witness:
  "\<exists>l'. EventLoop_turn (\<lambda>h. wakeup_handlers) (\<lambda>f l. Inr l) (epoll_ops table_ctl)
      (\<lambda>p. Inr ([Events_new 5 POLLIN, Events_new 8 POLLIN], Timestamp 1, p)) demo_loop5 = Inr l' \<and>
    epoll_loop_inv smap_find l' \<and> \<not> el_runningFunctors l'"
  by (rule event_loop_turn_safe [OF table.epoll_kernel_axioms wakeup_handlers_ok _ _ demo_loop5_inv(1)])
    (simp_all add: demo_loop5_def demo_loop_def)


text \<open>Functor 1 queues functor 2.\<close>

definition requeue :: "nat \<Rightarrow> ('p, 'u) evloop \<Rightarrow> ('p, 'u) evloop res" where
  "requeue f l = Inr (if f = 1 then EventLoop_queueInLoop True 2 l else l)"

lemma requeue_wakes:
  "requeue f l = Inr l' \<Longrightarrow> wake_pending l \<Longrightarrow> el_runningFunctors l \<Longrightarrow> wake_pending l' \<and> el_runningFunctors l'"
  by (auto simp: requeue_def queueInLoop_wakes)
    (simp add: EventLoop_queueInLoop_def EventLoop_wakeUp_def Let_def)


text \<open>A turn in which the poller reports one event: its handler runs, then the functors.\<close>

lemma turn_handler:
  assumes "el_updates l = []" and "lp (el_poll l) = Inr ([ev], t, p)"
    and "smap_find (el_handles l) (Events_getFd ev) = Some h" and "el_store l h = Some x" "h_state x = STATE_LOOP"
  shows "Handle_handleEvent (hnd h) ev t (pin h (l\<lparr>el_poll := p\<rparr>)) = Inr l1 \<Longrightarrow> el_updates l1 = [] \<Longrightarrow> \<not> el_runningFunctors l1 \<Longrightarrow>
      EventLoop_turn hnd exec ops lp l = EventLoop_runFunctors exec ops (unpin h l1)"
    and "Handle_handleEvent (hnd h) ev t (pin h (l\<lparr>el_poll := p\<rparr>)) = Inl e \<Longrightarrow> EventLoop_turn hnd exec ops lp l = Inl e"
proof -
  have "el_store (l\<lparr>el_poll := p\<rparr>) h = Some x" using assms(4) by simp
  then have d: "EventLoop_dispatch hnd ops t [ev] (l\<lparr>el_poll := p\<rparr>) =
      bind_res (Handle_handleEvent (hnd h) ev t (pin h (l\<lparr>el_poll := p\<rparr>))) (\<lambda>l1. bind_res (flush_updates ops l1) (\<lambda>l2. Inr (unpin h l2)))"
    using assms(3,5) by (simp add: Handle_getState_def)
  have turn: "EventLoop_turn hnd exec ops lp l = bind_res (EventLoop_dispatch hnd ops t [ev] (l\<lparr>el_poll := p\<rparr>))
      (\<lambda>l2. if el_runningFunctors l2 then Inl AssertFailed else EventLoop_runFunctors exec ops l2)"
    using assms(1,2) by (simp add: EventLoop_turn_def flush_updates_def del: EventLoop_dispatch.simps)
  show "EventLoop_turn hnd exec ops lp l = EventLoop_runFunctors exec ops (unpin h l1)"
    if "Handle_handleEvent (hnd h) ev t (pin h (l\<lparr>el_poll := p\<rparr>)) = Inr l1" "el_updates l1 = []" "\<not> el_runningFunctors l1"
    using that by (simp add: turn d flush_updates_def unpin_def del: EventLoop_dispatch.simps)
  show "EventLoop_turn hnd exec ops lp l = Inl e" if "Handle_handleEvent (hnd h) ev t (pin h (l\<lparr>el_poll := p\<rparr>)) = Inl e"
    using that by (simp add: turn d del: EventLoop_dispatch.simps)
qed

end
