(* ===== verification/Loop_Timers.thy ===== *)
theory Loop_Timers
  imports Event_Loop Timers_Scheduler
begin

text \<open>
  The constructor of \<open>EventLoop\<close> (\<open>src/base/EventLoop.cpp\<close>) with the part of the constructor of
  \<open>TimersScheduler\<close> that registers the timer descriptor, and the calls of the loop that go to the
  scheduler. Here the application's state of the loop is its scheduler. Lemmas: a new loop
  satisfies the invariant that the properties of \<open>Event_Loop\<close> start from, and a turn in
  which the timer descriptor is readable is one expiry of the scheduler.
\<close>

section \<open>Operations\<close>

text \<open>The scheduler's handle for its descriptor; \<open>addHandle\<close> takes it over.\<close>

definition TimersScheduler_attach :: "'p poller_ops \<Rightarrow> int \<Rightarrow> hid \<Rightarrow> ('p, 'u) evloop \<Rightarrow> ('p, 'u) evloop res" where
  "TimersScheduler_attach ops timerfd h l =
     bind_res (EventLoop_addHandle ops True h (pin h (set_handle l h (Handle_new (Some (el_id l)) (Events_new timerfd kReadEvent)))))
       (\<lambda>(ok, l'). Inr l')"

text \<open>
  \<open>poller\<close> is the new \<open>Epoll\<close>, \<open>wakeH\<close> and \<open>timerH\<close> the addresses of the two handles; without
  an eventfd the program aborts. The loop keeps a pointer to the handle of its eventfd.
\<close>

definition createEventfd :: "int \<Rightarrow> int res" where
  "createEventfd evtfd = (if evtfd < 0 then Inl AssertFailed else Inr evtfd)"

definition EventLoop_new :: "'p poller_ops \<Rightarrow> 'p \<Rightarrow> nat \<Rightarrow> int \<Rightarrow> hid \<Rightarrow> int \<Rightarrow> hid \<Rightarrow> timer_mem \<Rightarrow> ('p, sched) evloop res" where
  "EventLoop_new ops poll self wakeUpFd wakeH timerfd timerH mem =
     bind_res (createEventfd wakeUpFd) (\<lambda>wakeUpFd.
      let l = \<lparr>el_id = self, el_poll = poll, el_handles = [], el_updates = [], el_store = (\<lambda>h. None), el_pins = [],
                    el_functors = [], el_runningFunctors = False, el_wakeups = 0, el_quit = False, el_app = TimersScheduler_new mem\<rparr>
           in bind_res (EventLoop_addSHandle ops True wakeH
                  (pin wakeH (set_handle l wakeH (Handle_new (Some self) (Events_new wakeUpFd kReadEvent)))))
                (\<lambda>(ok, l'). TimersScheduler_attach ops timerfd timerH l'))"

definition EventLoop_addTimer :: "bool \<Rightarrow> sched_env \<Rightarrow> addr \<Rightarrow> ('p, sched) evloop \<Rightarrow> ('p, sched) evloop res" where
  "EventLoop_addTimer own env timer l =
     (if \<not> own then Inl AssertFailed
      else bind_res (TimersScheduler_addTimer env (el_app l) timer) (\<lambda>(ok, s). Inr (l\<lparr>el_app := s\<rparr>)))"

definition EventLoop_delTimer :: "bool \<Rightarrow> sched_env \<Rightarrow> addr \<Rightarrow> ('p, sched) evloop \<Rightarrow> ('p, sched) evloop res" where
  "EventLoop_delTimer own env timer l =
     (if \<not> own then Inl AssertFailed
      else bind_res (TimersScheduler_delTimer env (el_app l) timer) (\<lambda>s. Inr (l\<lparr>el_app := s\<rparr>)))"

text \<open>The destructor deletes the scheduler; what is left is the memory of the timers.\<close>

definition EventLoop_destroy :: "('p, sched) evloop \<Rightarrow> timer_mem" where
  "EventLoop_destroy l = TimersScheduler_destroy (el_app l)"

text \<open>The callbacks on the handle of the timer descriptor; \<open>cb\<close> are those of the timers.\<close>

definition timer_handlers :: "(addr \<Rightarrow> sched \<Rightarrow> sched res) \<Rightarrow> sched_env \<Rightarrow> timestamp \<Rightarrow> ('p, sched) evloop handlers" where
  "timer_handlers cb env now = Handle_setHandleRead Handle_new_handlers
     (\<lambda>ev t l. bind_res (TimersScheduler_handdleRead cb env now (el_app l)) (\<lambda>s. Inr (l\<lparr>el_app := s\<rparr>)))"

section \<open>Construction\<close>

text \<open>The owner thread adds a new handle for a free descriptor, and the poller takes it.\<close>

lemma add_owner:
  assumes "el_updates l = []" and "el_store l h = Some x" "h_state x = STATE_NEW" "h_loop x = Some (el_id l)" "Handle_fd x = fd"
    and "smap_find (el_handles l) fd = None" and "pl_add ops (el_poll l) (h_events x) = Inr (True, p)"
  shows "EventLoop_addSHandle ops True h l = Inr (True, drop_dead
      (set_handle (l\<lparr>el_poll := p, el_handles := smap_set (el_handles l) fd h\<rparr>) h (Handle_setState x STATE_LOOP)))"
    and "EventLoop_addHandle ops True h l = Inr (True, drop_dead
      (set_handle (l\<lparr>el_pins := remove1 h (el_pins l), el_poll := p, el_handles := smap_set (el_handles l) fd h\<rparr>) h
        (Handle_setState x STATE_LOOP)))"
  using assms
  by (cases l; simp add: EventLoop_addSHandle_def EventLoop_addHandle_def EventLoop_updateHandle_def
    EventLoop_updateHandlesUnlock_def EventLoop_updateOne_def Handle_getLoop_def Handle_getState_def Handle_getEvent_def
    Handle_setState_def set_handle_def Handle_fd_def Events_copy_def)+

lemma new_handle_facts:
  "h_state (Handle_new i (Events_new fd m)) = STATE_NEW" "h_loop (Handle_new i (Events_new fd m)) = i"
  "Handle_fd (Handle_new i (Events_new fd m)) = fd" "ev_fd (h_events (Handle_new i (Events_new fd m))) = fd"
  "ev_mask (h_events (Handle_new i (Events_new fd m))) = m"
  by (simp_all add: Handle_new_def Handle_fd_def Events_copy_def Events_getFd_def Events_new_def)

context epoll_kernel begin

lemma epoll_takes:
  assumes "\<exists>k'. ctl EPOLL_CTL_ADD (ev_fd ev) (Events_epollEvents ev) k = (True, k')" and "ep_fd e \<noteq> -1"
  obtains k' where "Epoll_EventsAdd ctl (e, k) ev = Inr (True, (e, k'))"
    "registered k' = (registered k)(ev_fd ev := Some (ev_mask ev))" "registered k (ev_fd ev) = None"
proof -
  from assms(1) obtain k' where k': "ctl EPOLL_CTL_ADD (ev_fd ev) (Events_epollEvents ev) k = (True, k')" by blast
  have e: "ee_fd (Events_epollEvents ev) = ev_fd ev" "ee_events (Events_epollEvents ev) = ev_mask ev"
    by (simp_all add: events_defs)
  have "Epoll_EventsAdd ctl (e, k) ev = Inr (True, (e, k'))" using k' assms(2) by (simp add: epoll_event_defs e)
  with ctl_add [OF k'] e that show ?thesis by simp
qed

lemma new_loop:
  assumes none: "registered k = (\<lambda>fd. None)" and fds: "ep_fd e \<noteq> -1" "0 \<le> wakeFd" "wakeFd \<noteq> timerFd" "wakeH \<noteq> timerH"
    and takes: "\<And>k fd ev. registered k fd = None \<Longrightarrow> \<exists>k'. ctl EPOLL_CTL_ADD fd ev k = (True, k')"
  shows "\<exists>l. EventLoop_new (epoll_ops ctl) (e, k) self wakeFd wakeH timerFd timerH mem = Inr l \<and> epoll_loop_inv registered l \<and>
    el_updates l = [] \<and> el_functors l = [] \<and> \<not> el_runningFunctors l \<and> \<not> el_quit l \<and> el_app l = TimersScheduler_new mem \<and>
    (\<forall>h. h \<noteq> wakeH \<and> h \<noteq> timerH \<longrightarrow> el_store l h = None) \<and>
    (\<forall>fd. smap_find (el_handles l) fd = (if fd = wakeFd then Some wakeH else if fd = timerFd then Some timerH else None)) \<and>
    (\<forall>fd. registered (snd (el_poll l)) fd = (if fd = wakeFd \<or> fd = timerFd then Some kReadEvent else None))"
proof -
  let ?x = "Handle_new (Some self) (Events_new wakeFd kReadEvent)" and ?y = "Handle_new (Some self) (Events_new timerFd kReadEvent)"
  let ?l0 = "\<lparr>el_id = self, el_poll = (e, k), el_handles = [], el_updates = [], el_store = (\<lambda>h. None), el_pins = [],
    el_functors = [], el_runningFunctors = False, el_wakeups = 0, el_quit = False, el_app = TimersScheduler_new mem\<rparr>"
  have "\<exists>k'. ctl EPOLL_CTL_ADD (ev_fd (h_events ?x)) (Events_epollEvents (h_events ?x)) k = (True, k')"
    using takes none by simp
  from epoll_takes [OF this fds(1)] obtain k1 where
    k1: "Epoll_EventsAdd ctl (e, k) (h_events ?x) = Inr (True, (e, k1))" "registered k1 = [wakeFd \<mapsto> kReadEvent]"
    using none by (auto simp: new_handle_facts)
  define l1 where "l1 = pin wakeH (set_handle ?l0 wakeH ?x)"
  define l2 where "l2 = drop_dead (set_handle (l1\<lparr>el_poll := (e, k1), el_handles := smap_set (el_handles l1) wakeFd wakeH\<rparr>) wakeH
    (Handle_setState ?x STATE_LOOP))"
  have add1: "EventLoop_addSHandle (epoll_ops ctl) True wakeH l1 = Inr (True, l2)"
    unfolding l2_def by (rule add_owner(1) [where x = ?x]) (use k1 in \<open>simp_all add: l1_def pin_def new_handle_facts\<close>)
  have l2: "el_id l2 = self" "el_updates l2 = []" "el_handles l2 = [(wakeFd, wakeH)]" "el_poll l2 = (e, k1)" "el_pins l2 = [wakeH]"
    "el_store l2 wakeH = Some (Handle_setState ?x STATE_LOOP)" "el_functors l2 = []" "\<not> el_runningFunctors l2" "\<not> el_quit l2"
    "el_app l2 = TimersScheduler_new mem"
    by (simp_all add: l2_def l1_def pin_def live_handles_def drop_dead_def set_handle_def)
  have "\<exists>k'. ctl EPOLL_CTL_ADD (ev_fd (h_events ?y)) (Events_epollEvents (h_events ?y)) k1 = (True, k')"
    using takes k1(2) fds(3) by (simp add: new_handle_facts)
  from epoll_takes [OF this fds(1)] obtain k2 where
    k2: "Epoll_EventsAdd ctl (e, k1) (h_events ?y) = Inr (True, (e, k2))" "registered k2 = [wakeFd \<mapsto> kReadEvent, timerFd \<mapsto> kReadEvent]"
    using k1(2) by (auto simp: new_handle_facts)
  define l3 where "l3 = pin timerH (set_handle l2 timerH ?y)"
  define l4 where "l4 = drop_dead (set_handle (l3\<lparr>el_pins := remove1 timerH (el_pins l3), el_poll := (e, k2),
    el_handles := smap_set (el_handles l3) timerFd timerH\<rparr>) timerH (Handle_setState ?y STATE_LOOP))"
  have add2: "EventLoop_addHandle (epoll_ops ctl) True timerH l3 = Inr (True, l4)"
    unfolding l4_def by (rule add_owner(2) [where x = ?y]) (use k2 fds(3) l2 in \<open>simp_all add: l3_def pin_def new_handle_facts\<close>)
  have "EventLoop_new (epoll_ops ctl) (e, k) self wakeFd wakeH timerFd timerH mem =
      bind_res (EventLoop_addSHandle (epoll_ops ctl) True wakeH l1) (\<lambda>(ok, l'). TimersScheduler_attach (epoll_ops ctl) timerFd timerH l')"
    using fds(2) by (simp only: EventLoop_new_def createEventfd_def Let_def l1_def if_False not_less [symmetric] bind_res_Inr)
  also have "\<dots> = TimersScheduler_attach (epoll_ops ctl) timerFd timerH l2" by (simp add: add1)
  also have "\<dots> = Inr l4" using add2 l2(1) by (simp add: TimersScheduler_attach_def l3_def)
  finally have new: "EventLoop_new (epoll_ops ctl) (e, k) self wakeFd wakeH timerFd timerH mem = Inr l4" .
  have hs: "el_handles l4 = smap_set [(wakeFd, wakeH)] timerFd timerH" using l2 by (simp add: l4_def l3_def pin_def)
  then have find: "smap_find (el_handles l4) fd = (if fd = wakeFd then Some wakeH else if fd = timerFd then Some timerH else None)" for fd
    using fds(3) by auto
  have hok: "smap_ok (el_handles l4)" unfolding hs by (rule smap_set_ok) (simp add: smap_ok_Cons)
  have live: "wakeH \<in> set (live_handles l)" "timerH \<in> set (live_handles l)" if "el_handles l = el_handles l4" for l :: "('k, sched) epoll_loop"
    using that find [of wakeFd] find [of timerFd] fds(3) by (auto simp: live_handles_def dest!: smap_find_in intro: rev_image_eqI)
  have l4: "el_id l4 = self" "el_updates l4 = []" "el_poll l4 = (e, k2)" "el_functors l4 = []" "\<not> el_runningFunctors l4"
    "\<not> el_quit l4" "el_app l4 = TimersScheduler_new mem"
    using l2 by (simp_all add: l4_def l3_def pin_def drop_dead_def set_handle_def)
  have store: "el_store l4 wakeH = Some (Handle_setState ?x STATE_LOOP)" "el_store l4 timerH = Some (Handle_setState ?y STATE_LOOP)"
    using l2 fds(4) live hs by (simp_all add: l4_def l3_def pin_def)
  have none: "el_store l4 h = None" if "h \<noteq> wakeH" "h \<noteq> timerH" for h
    using that by (simp add: l4_def l3_def l2_def l1_def pin_def)
  have "epoll_loop_inv registered l4"
    unfolding epoll_loop_inv_def loop_inv_def registered_ok_def pending_ok_def
    using l4 hok find store k2(2) fds(1)
    by (auto simp: good_handle_def new_handle_facts split: if_splits)
  with new l4 find k2(2) none show ?thesis by (intro exI [of _ l4]) auto
qed

end

section \<open>A turn that runs timers\<close>

lemma timer_event:
  assumes "Events_containsAtLeastOneEvents ev (POLLIN OR POLLPRI OR POLLRDHUP)"
    and "TimersScheduler_handdleRead cb env now (el_app l) = Inr s"
  shows "Handle_handleEvent (timer_handlers cb env now) ev t l = Inr (l\<lparr>el_app := s\<rparr>)"
  using assms
  by (simp add: Handle_handleEvent_def timer_handlers_def Handle_setHandleRead_def Handle_new_handlers_def fire_def
    Handle_defaultCheckRead_def)

lemma epoll_loop_inv_app [simp]: "epoll_loop_inv registered (l\<lparr>el_app := a\<rparr>) = epoll_loop_inv registered l"
  by (simp add: epoll_loop_inv_def loop_inv_def registered_ok_def pending_ok_def good_handle_def)

lemma turn_one_event:
  assumes "el_updates l = []" "el_functors l = []" "\<not> el_runningFunctors l"
    and "lp (el_poll l) = Inr ([ev], t, p)" and "smap_find (el_handles l) (Events_getFd ev) = Some h"
    and "el_store l h = Some x" "h_state x = STATE_LOOP"
    and "Handle_handleEvent (hnd h) ev t (pin h (l\<lparr>el_poll := p\<rparr>)) = Inr (pin h (l\<lparr>el_poll := p, el_app := s\<rparr>))"
  shows "EventLoop_turn hnd exec ops lp l = Inr (drop_dead (l\<lparr>el_poll := p, el_app := s\<rparr>))"
proof -
  have "unpin h (pin h (l\<lparr>el_poll := p, el_app := s\<rparr>)) = drop_dead (l\<lparr>el_poll := p, el_app := s\<rparr>)"
    by (simp add: unpin_def pin_def)
  moreover have "(drop_dead (l\<lparr>el_poll := p, el_app := s\<rparr>))\<lparr>el_runningFunctors := True, el_functors := [], el_runningFunctors := False\<rparr> =
      drop_dead (l\<lparr>el_poll := p, el_app := s\<rparr>)"
    using assms(2,3) by (cases l) (simp add: drop_dead_def live_handles_def)
  ultimately show ?thesis
    using turn_handler(1) [where hnd = hnd and lp = lp, OF assms(1,4-8)] assms(1-3)
    by (simp add: EventLoop_runFunctors_def pin_def)
qed



section \<open>Examples\<close>


text \<open>A loop with its timer descriptor and two timers, one of them due.\<close>

definition demo_timed_loop :: "((int, 32 word) smap, sched) epoll_loop" where
  "demo_timed_loop = \<lparr>el_id = 1, el_poll = (Epoll_new 9, [(5, kReadEvent)]), el_handles = [(5, 0)], el_updates = [],
     el_store = (\<lambda>h. if h = 0 then Some \<lparr>h_loop = Some 1, h_events = Events_new 5 kReadEvent, h_state = STATE_LOOP\<rparr> else None),
     el_pins = [], el_functors = [], el_runningFunctors = False, el_wakeups = 0, el_quit = False, el_app = demo_sched\<rparr>"

lemma demo_timed_inv: "epoll_loop_inv smap_find demo_timed_loop"
  by (auto simp: epoll_loop_inv_def loop_inv_def registered_ok_def pending_ok_def good_handle_def
      demo_timed_loop_def Epoll_new_def revents_resize_def smap_ok_Cons Handle_fd_def events_defs)


end
