(* ===== verification/Md5.thy ===== *)
theory Md5
  imports Byte_Order
begin

text \<open>
  \<open>src/mdm/Md5.h\<close>, \<open>src/mdm/Md5.cpp\<close>: the MD5 of the consistent hash. A byte is a
  \<open>char\<close>, a \<open>uint32\<close> a 32-bit word. The object's \<open>unsigned long m_data[4]\<close> is its
  image in memory, whose size depends on \<open>sizeof(unsigned long)\<close>: the digest fills
  only its first 16 bytes. Lemmas: the context after any sequence of updates is that of
  the concatenated message, the digest is that of RFC 1321, and the text form of a
  digest is read back.
\<close>

unbundle bit_operations_syntax

section \<open>The context\<close>

record md5_context =
  mc_total0 :: "32 word"
  mc_total1 :: "32 word"
  mc_state :: "32 word \<times> 32 word \<times> 32 word \<times> 32 word"
  mc_buffer :: "char list"

definition uint32_of :: "char \<Rightarrow> 32 word" where
  "uint32_of c = word_of_nat (of_char c)"

definition GET_UINT32 :: "char list \<Rightarrow> nat \<Rightarrow> 32 word" where
  "GET_UINT32 b i = uint32_of (b ! i) OR push_bit 8 (uint32_of (b ! (i + 1))) OR
     push_bit 16 (uint32_of (b ! (i + 2))) OR push_bit 24 (uint32_of (b ! (i + 3)))"

definition uint8_of :: "32 word \<Rightarrow> char" where
  "uint8_of w = char_of (unat (w AND 0xFF))"

definition PUT_UINT32 :: "32 word \<Rightarrow> char list" where
  "PUT_UINT32 n = [uint8_of n, uint8_of (drop_bit 8 n), uint8_of (drop_bit 16 n), uint8_of (drop_bit 24 n)]"

text \<open>\<open>md5_starts\<close> leaves \<open>buffer\<close> as it was on the stack.\<close>

definition md5_starts :: "md5_context \<Rightarrow> md5_context" where
  "md5_starts ctx = ctx\<lparr>mc_total0 := 0, mc_total1 := 0,
     mc_state := (0x67452301, 0xEFCDAB89, 0x98BADCFE, 0x10325476)\<rparr>"

section \<open>The compression function\<close>

definition md5_S :: "32 word \<Rightarrow> nat \<Rightarrow> 32 word" where
  "md5_S x n = push_bit n x OR drop_bit (32 - n) (x AND 0xFFFFFFFF)"

text \<open>
  The macro \<open>P\<close>. The source calls it with its four variables rotated by one place
  from call to call; so the result here is the tuple in the order of the next call.
\<close>

definition md5_P :: "(32 word \<Rightarrow> 32 word \<Rightarrow> 32 word \<Rightarrow> 32 word) \<Rightarrow> 32 word list \<Rightarrow> nat \<times> nat \<times> 32 word \<Rightarrow>
    32 word \<times> 32 word \<times> 32 word \<times> 32 word \<Rightarrow> 32 word \<times> 32 word \<times> 32 word \<times> 32 word" where
  "md5_P f X = (\<lambda>(k, s, t) (a, b, c, d). (d, md5_S (a + (f b c d + X ! k + t)) s + b, b, c))"

definition md5_F1 :: "32 word \<Rightarrow> 32 word \<Rightarrow> 32 word \<Rightarrow> 32 word" where
  "md5_F1 x y z = z XOR (x AND (y XOR z))"

definition md5_F2 :: "32 word \<Rightarrow> 32 word \<Rightarrow> 32 word \<Rightarrow> 32 word" where
  "md5_F2 x y z = y XOR (z AND (x XOR y))"

definition md5_F3 :: "32 word \<Rightarrow> 32 word \<Rightarrow> 32 word \<Rightarrow> 32 word" where
  "md5_F3 x y z = x XOR y XOR z"

definition md5_F4 :: "32 word \<Rightarrow> 32 word \<Rightarrow> 32 word \<Rightarrow> 32 word" where
  "md5_F4 x y z = y XOR (x OR NOT z)"

definition md5_round1 :: "(nat \<times> nat \<times> 32 word) list" where
  "md5_round1 =
    [(0, 7, 0xD76AA478), (1, 12, 0xE8C7B756), (2, 17, 0x242070DB), (3, 22, 0xC1BDCEEE),
     (4, 7, 0xF57C0FAF), (5, 12, 0x4787C62A), (6, 17, 0xA8304613), (7, 22, 0xFD469501),
     (8, 7, 0x698098D8), (9, 12, 0x8B44F7AF), (10, 17, 0xFFFF5BB1), (11, 22, 0x895CD7BE),
     (12, 7, 0x6B901122), (13, 12, 0xFD987193), (14, 17, 0xA679438E), (15, 22, 0x49B40821)]"

definition md5_round2 :: "(nat \<times> nat \<times> 32 word) list" where
  "md5_round2 =
    [(1, 5, 0xF61E2562), (6, 9, 0xC040B340), (11, 14, 0x265E5A51), (0, 20, 0xE9B6C7AA),
     (5, 5, 0xD62F105D), (10, 9, 0x02441453), (15, 14, 0xD8A1E681), (4, 20, 0xE7D3FBC8),
     (9, 5, 0x21E1CDE6), (14, 9, 0xC33707D6), (3, 14, 0xF4D50D87), (8, 20, 0x455A14ED),
     (13, 5, 0xA9E3E905), (2, 9, 0xFCEFA3F8), (7, 14, 0x676F02D9), (12, 20, 0x8D2A4C8A)]"

definition md5_round3 :: "(nat \<times> nat \<times> 32 word) list" where
  "md5_round3 =
    [(5, 4, 0xFFFA3942), (8, 11, 0x8771F681), (11, 16, 0x6D9D6122), (14, 23, 0xFDE5380C),
     (1, 4, 0xA4BEEA44), (4, 11, 0x4BDECFA9), (7, 16, 0xF6BB4B60), (10, 23, 0xBEBFBC70),
     (13, 4, 0x289B7EC6), (0, 11, 0xEAA127FA), (3, 16, 0xD4EF3085), (6, 23, 0x04881D05),
     (9, 4, 0xD9D4D039), (12, 11, 0xE6DB99E5), (15, 16, 0x1FA27CF8), (2, 23, 0xC4AC5665)]"

definition md5_round4 :: "(nat \<times> nat \<times> 32 word) list" where
  "md5_round4 =
    [(0, 6, 0xF4292244), (7, 10, 0x432AFF97), (14, 15, 0xAB9423A7), (5, 21, 0xFC93A039),
     (12, 6, 0x655B59C3), (3, 10, 0x8F0CCC92), (10, 15, 0xFFEFF47D), (1, 21, 0x85845DD1),
     (8, 6, 0x6FA87E4F), (15, 10, 0xFE2CE6E0), (6, 15, 0xA3014314), (13, 21, 0x4E0811A1),
     (4, 6, 0xF7537E82), (11, 10, 0xBD3AF235), (2, 15, 0x2AD7D2BB), (9, 21, 0xEB86D391)]"

definition md5_process :: "md5_context \<Rightarrow> char list \<Rightarrow> md5_context" where
  "md5_process ctx data =
     (let X = map (\<lambda>k. GET_UINT32 data (4 * k)) [0..<16];
          (A, B, C, D) = fold (md5_P md5_F4 X) md5_round4 (fold (md5_P md5_F3 X) md5_round3
                        (fold (md5_P md5_F2 X) md5_round2 (fold (md5_P md5_F1 X) md5_round1 (mc_state ctx))));
          (s0, s1, s2, s3) = mc_state ctx
      in ctx\<lparr>mc_state := (s0 + A, s1 + B, s2 + C, s3 + D)\<rparr>)"

section \<open>Update and finish\<close>

text \<open>The \<open>while\<close> loop over whole blocks: the context and the bytes left over.\<close>

function md5_blocks :: "md5_context \<Rightarrow> char list \<Rightarrow> md5_context \<times> char list" where
  "md5_blocks ctx input =
     (if 64 \<le> length input then md5_blocks (md5_process ctx (take 64 input)) (drop 64 input)
      else (ctx, input))"
  by pat_completeness auto
termination by (relation "measure (\<lambda>(ctx, input). length input)") auto

declare md5_blocks.simps [simp del]

text \<open>
  \<open>input\<close> is the memory from the pointer on; after the first line \<open>inp\<close> is the part that
  \<open>length\<close> (\<open>len\<close>) still counts, so that the code's \<open>length\<close> is its length.
\<close>

definition md5_update :: "md5_context \<Rightarrow> char list \<Rightarrow> 32 word \<Rightarrow> md5_context res" where
  "md5_update ctx input len =
     (if len = 0 then Inr ctx
      else if length input < unat len then Inl OutOfBounds
      else let inp = take (unat len) input;
               left = unat (drop_bit 3 (mc_total0 ctx) AND 0x3F);
               fill = 64 - left;
               total0 = (mc_total0 ctx + push_bit 3 len) AND 0xFFFFFFFF;
               total1 = mc_total1 ctx + drop_bit 29 len + (if total0 < push_bit 3 len then 1 else 0);
               ctx1 = ctx\<lparr>mc_total0 := total0, mc_total1 := total1\<rparr>
           in bind_res
                (if left \<noteq> 0 \<and> fill \<le> length inp
                 then bind_res (vec_write (mc_buffer ctx1) left (take fill inp)) (\<lambda>v.
                      Inr (md5_process (ctx1\<lparr>mc_buffer := v\<rparr>) v, drop fill inp, 0))
                 else Inr (ctx1, inp, left))
                (\<lambda>(ctx2, inp2, left2).
                 let (ctx3, rest) = md5_blocks ctx2 inp2
                 in if rest \<noteq> []
                    then bind_res (vec_write (mc_buffer ctx3) left2 rest) (\<lambda>v. Inr (ctx3\<lparr>mc_buffer := v\<rparr>))
                    else Inr ctx3))"

definition md5_padding :: "char list" where
  "md5_padding = CHR 0x80 # replicate 63 (CHR 0x00)"

definition md5_finish :: "md5_context \<Rightarrow> (md5_context \<times> char list) res" where
  "md5_finish ctx =
     (let msglen = PUT_UINT32 (mc_total0 ctx) @ PUT_UINT32 (mc_total1 ctx);
          last = drop_bit 3 (mc_total0 ctx) AND 0x3F;
          padn = (if last < 56 then 56 - last else 120 - last)
      in bind_res (md5_update ctx md5_padding padn) (\<lambda>ctx1.
         bind_res (md5_update ctx1 msglen 8) (\<lambda>ctx2.
         let (s0, s1, s2, s3) = mc_state ctx2
         in Inr (ctx2, PUT_UINT32 s0 @ PUT_UINT32 s1 @ PUT_UINT32 s2 @ PUT_UINT32 s3))))"


section \<open>The digest of RFC 1321\<close>

text \<open>
  The reference: the auxiliary functions as the RFC writes them, the message schedule
  and the shifts by formula, the padding of section 3.1 and 3.2. The 64 additive
  constants are those of the tables above.
\<close>

definition rfc_aux :: "nat \<Rightarrow> 32 word \<Rightarrow> 32 word \<Rightarrow> 32 word \<Rightarrow> 32 word" where
  "rfc_aux i x y z =
     (if i < 16 then (x AND y) OR (NOT x AND z) else if i < 32 then (x AND z) OR (y AND NOT z)
      else if i < 48 then x XOR y XOR z else y XOR (x OR NOT z))"

definition rfc_index :: "nat \<Rightarrow> nat" where
  "rfc_index i = (if i < 16 then i else if i < 32 then 5 * i + 1 else if i < 48 then 3 * i + 5 else 7 * i) mod 16"

definition rfc_shift :: "nat \<Rightarrow> nat" where
  "rfc_shift i = [[7, 12, 17, 22], [5, 9, 14, 20], [4, 11, 16, 23], [6, 10, 15, 21]] ! (i div 16) ! (i mod 4)"

definition rfc_T :: "32 word list" where
  "rfc_T = map (\<lambda>(k, s, t). t) (md5_round1 @ md5_round2 @ md5_round3 @ md5_round4)"

definition rfc_step :: "(nat \<Rightarrow> 32 word) \<Rightarrow> nat \<Rightarrow> 32 word \<times> 32 word \<times> 32 word \<times> 32 word \<Rightarrow>
    32 word \<times> 32 word \<times> 32 word \<times> 32 word" where
  "rfc_step X i = (\<lambda>(a, b, c, d).
     (d, b + word_rotl (rfc_shift i) (a + rfc_aux i b c d + X (rfc_index i) + rfc_T ! i), b, c))"

definition rfc_compress :: "char list \<Rightarrow> 32 word \<times> 32 word \<times> 32 word \<times> 32 word \<Rightarrow>
    32 word \<times> 32 word \<times> 32 word \<times> 32 word" where
  "rfc_compress block = (\<lambda>(s0, s1, s2, s3).
     let (A, B, C, D) = fold (rfc_step (\<lambda>k. word_of_nat (le_value (take 4 (drop (4 * k) block))))) [0..<64] (s0, s1, s2, s3)
     in (s0 + A, s1 + B, s2 + C, s3 + D))"

function blocks64 :: "char list \<Rightarrow> char list list" where
  "blocks64 xs = (if 64 \<le> length xs then take 64 xs # blocks64 (drop 64 xs) else [])"
  by pat_completeness auto
termination by (relation "measure length") auto

declare blocks64.simps [simp del]

definition rfc_pad :: "char list \<Rightarrow> char list" where
  "rfc_pad m = m @ CHR 0x80 # replicate ((119 - length m mod 64) mod 64) (CHR 0x00) @
     le_bytes 8 (word_of_nat (8 * length m) :: 64 word)"

definition rfc_md5 :: "char list \<Rightarrow> char list" where
  "rfc_md5 m =
     (let (s0, s1, s2, s3) = fold rfc_compress (blocks64 (rfc_pad m)) (0x67452301, 0xEFCDAB89, 0x98BADCFE, 0x10325476)
      in le_bytes 4 s0 @ le_bytes 4 s1 @ le_bytes 4 s2 @ le_bytes 4 s3)"

section \<open>The compression function is that of the RFC\<close>

lemma mask32: "x AND 0xFFFFFFFF = (x :: 32 word)"
proof -
  have "(0xFFFFFFFF :: 32 word) = mask 32" by (simp add: mask_eq_exp_minus_1)
  then show ?thesis by (simp add: bit_eq_iff bit_simps)
qed

lemma md5_S_rotl:
  assumes "n < 32"
  shows "md5_S x n = word_rotl n x"
proof (rule bit_word_eqI)
  fix i assume i: "i < LENGTH(32)"
  show "bit (md5_S x n) i \<longleftrightarrow> bit (word_rotl n x) i"
  proof (cases "n \<le> i")
    case True
    moreover have "(i + 32 - n) mod 32 = i - n"
      using i True by (simp add: mod_if)
    moreover have "\<not> bit x (32 + i - n)" using True bit_imp_le_length [of x "32 + i - n"] by auto
    ultimately show ?thesis using assms i by (simp add: md5_S_def mask32 bit_simps)
  next
    case False
    then have "(i + 32 - n) mod 32 = 32 + i - n" using i by (simp add: add.commute)
    then show ?thesis using assms i False by (simp add: md5_S_def mask32 bit_simps)
  qed
qed

lemma md5_F_rfc:
  "i < 16 \<Longrightarrow> rfc_aux i = md5_F1" "16 \<le> i \<Longrightarrow> i < 32 \<Longrightarrow> rfc_aux i = md5_F2"
  "32 \<le> i \<Longrightarrow> i < 48 \<Longrightarrow> rfc_aux i = md5_F3" "48 \<le> i \<Longrightarrow> rfc_aux i = md5_F4"
  by (auto simp: fun_eq_iff rfc_aux_def md5_F1_def md5_F2_def md5_F3_def md5_F4_def bit_eq_iff bit_simps)

lemma md5_rounds:
  "md5_round1 = map (\<lambda>i. (rfc_index i, rfc_shift i, rfc_T ! i)) [0..<16]"
  "md5_round2 = map (\<lambda>i. (rfc_index i, rfc_shift i, rfc_T ! i)) [16..<32]"
  "md5_round3 = map (\<lambda>i. (rfc_index i, rfc_shift i, rfc_T ! i)) [32..<48]"
  "md5_round4 = map (\<lambda>i. (rfc_index i, rfc_shift i, rfc_T ! i)) [48..<64]"
  by (simp_all add: rfc_index_def rfc_shift_def rfc_T_def md5_round1_def md5_round2_def md5_round3_def
      md5_round4_def upt_rec)

lemma byte_or: "(of_char (c :: char) :: nat) + 256 * r = of_char c OR push_bit 8 r"
proof -
  have low: "bit (of_char c :: nat) n \<Longrightarrow> n < 8" for n
  proof (rule ccontr)
    assume b: "bit (of_char c :: nat) n" and "\<not> n < 8"
    then have "(256 :: nat) \<le> 2 ^ n" using power_increasing [of 8 n "2 :: nat"] by simp
    then have "(of_char c :: nat) < 2 ^ n" using nat_of_char_less_256 [of c] by linarith
    with b show False by (simp add: bit_iff_odd)
  qed
  then have "of_char c + push_bit 8 r = (of_char c OR push_bit 8 r :: nat)"
    by (intro disjunctive_add) (auto simp: bit_simps dest: low)
  then show ?thesis by (simp add: push_bit_eq_mult mult.commute)
qed

lemma GET_UINT32_le:
  assumes "i + 4 \<le> length b"
  shows "GET_UINT32 b i = word_of_nat (le_value (take 4 (drop i b)))"
proof -
  have "take 4 (drop i b) = [b ! i, b ! (i + 1), b ! (i + 2), b ! (i + 3)]"
    using assms by (intro nth_equalityI) (auto simp: less_Suc_eq numeral_eq_Suc)
  then show ?thesis
    by (simp only: le_value_Cons le_value_Nil byte_or)
      (simp add: GET_UINT32_def uint32_of_def of_nat_or_eq push_bit_or flip: push_bit_of_nat)
qed

lemma PUT_UINT32_le: "PUT_UINT32 n = le_bytes 4 n"
proof -
  have "uint8_of (drop_bit k n) = char_of (unat n div 2 ^ k)" for k
  proof -
    have "drop_bit k n AND 0xFF = take_bit 8 (drop_bit k n)" by (simp add: take_bit_eq_mask mask_eq_exp_minus_1)
    moreover have "unat (take_bit 8 (drop_bit k n)) = take_bit 8 (unat (drop_bit k n))"
      by (rule unsigned_take_bit_eq)
    moreover have "take_bit 8 (unat (drop_bit k n)) = unat (drop_bit k n) mod 256"
      by (simp add: take_bit_eq_mod)
    moreover have "unat (drop_bit k n) = unat n div 2 ^ k"
      by (simp only: unat_drop_bit_eq) (simp only: drop_bit_eq_div)
    ultimately have "unat (drop_bit k n AND 0xFF) = (unat n div 2 ^ k) mod 256" by simp
    then show ?thesis by (simp add: uint8_of_def char_of_mod_256)
  qed
  from this [of 0] this [of 8] this [of 16] this [of 24] show ?thesis
    by (simp add: PUT_UINT32_def le_bytes_def upt_rec)
qed

lemma rfc_shift_less:
  assumes "i < 64"
  shows "rfc_shift i < 32"
proof -
  let ?tab = "[[7, 12, 17, 22], [5, 9, 14, 20], [4, 11, 16, 23], [6, 10, 15, 21]] :: nat list list"
  have all: "\<forall>row \<in> set ?tab. length row = 4 \<and> (\<forall>x \<in> set row. x < 32)" by simp
  have "?tab ! (i div 16) \<in> set ?tab" using assms by (intro nth_mem) simp
  with all have r: "length (?tab ! (i div 16)) = 4" "\<forall>x \<in> set (?tab ! (i div 16)). x < 32" by blast+
  then have "?tab ! (i div 16) ! (i mod 4) \<in> set (?tab ! (i div 16))" by (intro nth_mem) simp
  with r(2) show ?thesis unfolding rfc_shift_def by blast
qed

lemma fold_round:
  assumes "\<And>i. i \<in> set is \<Longrightarrow> rfc_aux i = f" and "\<And>i. i \<in> set is \<Longrightarrow> i < 64"
    and "\<And>k. k < 16 \<Longrightarrow> X ! k = Y k"
  shows "fold (md5_P f X) (map (\<lambda>i. (rfc_index i, rfc_shift i, rfc_T ! i)) is) st = fold (rfc_step Y) is st"
  using assms
proof (induction "is" arbitrary: st)
  case Nil
  then show ?case by simp
next
  case (Cons i "is")
  have "rfc_index i < 16" by (simp add: rfc_index_def)
  have "rfc_shift i < 32" by (rule rfc_shift_less) (use Cons.prems(2) [of i] in simp)
  then have "md5_P f X (rfc_index i, rfc_shift i, rfc_T ! i) st = rfc_step Y i st"
    using Cons.prems(1) [of i] Cons.prems(3) [OF \<open>rfc_index i < 16\<close>]
    by (cases st) (simp add: md5_P_def rfc_step_def md5_S_rotl ac_simps)
  with Cons show ?case by simp
qed

lemma md5_process_rfc:
  assumes "64 \<le> length data"
  shows "md5_process ctx data = ctx\<lparr>mc_state := rfc_compress data (mc_state ctx)\<rparr>"
proof -
  let ?X = "map (\<lambda>k. GET_UINT32 data (4 * k)) [0..<16]"
  let ?Y = "\<lambda>k. word_of_nat (le_value (take 4 (drop (4 * k) data))) :: 32 word"
  have X: "?X ! k = ?Y k" if "k < 16" for k using that assms by (simp add: GET_UINT32_le)
  have r: "fold (md5_P md5_F1 ?X) md5_round1 st = fold (rfc_step ?Y) [0..<16] st"
    "fold (md5_P md5_F2 ?X) md5_round2 st = fold (rfc_step ?Y) [16..<32] st"
    "fold (md5_P md5_F3 ?X) md5_round3 st = fold (rfc_step ?Y) [32..<48] st"
    "fold (md5_P md5_F4 ?X) md5_round4 st = fold (rfc_step ?Y) [48..<64] st" for st
    unfolding md5_rounds
    by (rule fold_round; use X in \<open>simp only: md5_F_rfc set_upt atLeastLessThan_iff\<close>;
        linarith)+
  have "[0..<64] = [0..<16] @ [16..<32] @ [32..<48] @ [48..<64]" by (simp add: upt_rec)
  then have "fold (rfc_step ?Y) [48..<64] (fold (rfc_step ?Y) [32..<48] (fold (rfc_step ?Y) [16..<32]
      (fold (rfc_step ?Y) [0..<16] st))) = fold (rfc_step ?Y) [0..<64] st" for st
    by (simp only: fold_append comp_apply)
  then show ?thesis
    by (cases "mc_state ctx") (simp add: md5_process_def r rfc_compress_def Let_def split: prod.splits)
qed

section \<open>Streaming\<close>

text \<open>The bytes after the last whole block.\<close>

definition tail64 :: "char list \<Rightarrow> char list" where
  "tail64 xs = drop (64 * (length xs div 64)) xs"

lemma length_tail64 [simp]: "length (tail64 xs) = length xs mod 64"
  by (simp add: tail64_def minus_mult_div_eq_mod)

lemma tail64_short [simp]: "length xs < 64 \<Longrightarrow> tail64 xs = xs"
  by (simp add: tail64_def)

lemma blocks64_short [simp]: "length xs < 64 \<Longrightarrow> blocks64 xs = []"
  by (simp add: blocks64.simps)

lemma blocks64_head: "64 \<le> length xs \<Longrightarrow> blocks64 xs = take 64 xs # blocks64 (drop 64 xs)"
  by (subst blocks64.simps) simp

lemma tail64_head: "64 \<le> length xs \<Longrightarrow> tail64 (drop 64 xs) = tail64 xs"
proof -
  assume "64 \<le> length xs"
  then have "length xs div 64 = Suc ((length xs - 64) div 64)" by (simp add: le_div_geq)
  then show ?thesis by (simp add: tail64_def add.commute)
qed

lemma blocks64_append:
  "length xs mod 64 = 0 \<Longrightarrow> blocks64 (xs @ ys) = blocks64 xs @ blocks64 ys \<and> tail64 (xs @ ys) = tail64 ys"
proof (induction xs rule: blocks64.induct)
  case (1 xs)
  show ?case
  proof (cases "64 \<le> length xs")
    case True
    then have "length (drop 64 xs) mod 64 = 0" using "1.prems" le_mod_geq [OF True] by simp
    with 1 True show ?thesis
      using blocks64_head [of "xs @ ys"] blocks64_head [of xs] tail64_head [of "xs @ ys"] by simp
  next
    case False
    with "1.prems" have "xs = []" by simp
    then show ?thesis by simp
  qed
qed

lemma split64: "\<exists>front. xs = front @ tail64 xs \<and> length front mod 64 = 0 \<and> blocks64 xs = blocks64 front"
proof -
  let ?f = "take (64 * (length xs div 64)) xs"
  have "xs = ?f @ tail64 xs" by (simp add: tail64_def)
  moreover have "length ?f mod 64 = 0" by (simp add: min_absorb2)
  ultimately show ?thesis using blocks64_append [of ?f "tail64 xs"] by (metis append_Nil2 blocks64_short length_tail64 mod_less_divisor zero_less_numeral)
qed

lemma md5_blocks_eq:
  "md5_blocks ctx input = (ctx\<lparr>mc_state := fold rfc_compress (blocks64 input) (mc_state ctx)\<rparr>, tail64 input)"
proof (induction ctx input rule: md5_blocks.induct)
  case (1 ctx input)
  show ?case
  proof (cases "64 \<le> length input")
    case True
    with 1 show ?thesis
      by (subst md5_blocks.simps) (simp add: md5_process_rfc blocks64_head [of input] tail64_head)
  next
    case False
    then show ?thesis by (subst md5_blocks.simps) simp
  qed
qed

text \<open>The context that \<open>md5_starts\<close> and updates by a message \<open>m\<close> in all lead to.\<close>

definition md5_rep :: "md5_context \<Rightarrow> char list \<Rightarrow> bool" where
  "md5_rep ctx m \<longleftrightarrow>
     2 ^ 32 * unat (mc_total1 ctx) + unat (mc_total0 ctx) = 8 * length m mod 2 ^ 64 \<and>
     mc_state ctx = fold rfc_compress (blocks64 m) (0x67452301, 0xEFCDAB89, 0x98BADCFE, 0x10325476) \<and>
     length (mc_buffer ctx) = 64 \<and> take (length m mod 64) (mc_buffer ctx) = tail64 m"

lemma md5_starts_rep: "length (mc_buffer ctx) = 64 \<Longrightarrow> md5_rep (md5_starts ctx) []"
  by (simp add: md5_rep_def md5_starts_def)

lemma unat32_less: "unat (w :: 32 word) < 2 ^ 32"
  using unsigned_less [of w] by simp

lemma low_word: "(2 :: nat) ^ 32 * a + b = n mod 2 ^ 64 \<Longrightarrow> b < 2 ^ 32 \<Longrightarrow> b = n mod 2 ^ 32"
proof -
  assume a: "2 ^ 32 * a + b = n mod 2 ^ 64" and b: "b < 2 ^ 32"
  have "b = (2 ^ 32 * a + b) mod 2 ^ 32" using b by (simp only: mod_mult_self4 mod_less)
  also have "\<dots> = n mod 2 ^ 64 mod 2 ^ 32" by (simp only: a)
  also have "\<dots> = n mod 2 ^ 32" by (rule mod_mod_cancel) (rule le_imp_power_dvd, simp)
  finally show ?thesis .
qed

lemma and_3F: "unat (w AND 0x3F) = unat (w :: 32 word) mod 64"
proof -
  have "w AND 0x3F = take_bit 6 w" by (simp add: take_bit_eq_mask mask_eq_exp_minus_1)
  then have "unat (w AND 0x3F) = take_bit 6 (unat w)" by (simp only: unsigned_take_bit_eq)
  then show ?thesis by (simp only: take_bit_eq_mod) simp
qed

lemma md5_rep_left:
  assumes "md5_rep ctx m"
  shows "unat (drop_bit 3 (mc_total0 ctx) AND 0x3F) = length m mod 64"
proof -
  have t: "unat (mc_total0 ctx) = 8 * length m mod 2 ^ 32"
    using assms low_word [OF _ unat32_less] unfolding md5_rep_def by blast
  have "8 * length m mod 2 ^ 32 = 8 * (length m mod 2 ^ 29)"
    using mult_mod_right [of 8 "length m" "2 ^ 29"] by simp
  then have "unat (drop_bit 3 (mc_total0 ctx)) = length m mod 2 ^ 29"
    by (simp only: unat_drop_bit_eq t) (simp add: drop_bit_eq_div)
  then have "unat (drop_bit 3 (mc_total0 ctx) AND 0x3F) = length m mod 2 ^ 29 mod 64"
    by (simp only: and_3F)
  also have "\<dots> = length m mod 64"
    using mod_mod_cancel [of 64 "2 ^ 29" "length m"] le_imp_power_dvd [of 6 29 "2 :: nat"] by simp
  finally show ?thesis .
qed

lemma word_carry: "unat ((a :: 32 word) + b) + 2 ^ 32 * (if a + b < b then 1 else 0) = unat a + unat b"
proof (cases "unat a + unat b < 2 ^ 32")
  case True
  then have u: "unat (a + b) = unat a + unat b" by (simp add: unat_word_ariths)
  then show ?thesis by (simp add: word_less_nat_alt)
next
  case False
  then have "unat (a + b) = unat a + unat b - 2 ^ 32"
    using unat32_less [of a] unat32_less [of b] by (simp add: unat_word_ariths mod_if)
  then show ?thesis using False unat32_less [of a] by (simp add: word_less_nat_alt)
qed

lemma md5_total:
  assumes "2 ^ 32 * unat t1 + unat t0 = 8 * n mod 2 ^ 64"
  shows "2 ^ 32 * unat (t1 + drop_bit 29 len + (if t0 + push_bit 3 len < push_bit 3 len then 1 else 0)) +
    unat (t0 + push_bit 3 len) = 8 * (n + unat (len :: 32 word)) mod 2 ^ 64"
proof -
  let ?p = "push_bit 3 len" let ?d = "drop_bit 29 len"
  let ?c = "if t0 + ?p < ?p then 1 else 0 :: nat"
  have p: "unat ?p = 8 * unat len mod 2 ^ 32"
    by (simp add: push_bit_eq_mult unat_word_ariths mult.commute)
  have d: "unat ?d = unat len div 2 ^ 29" by (simp only: unat_drop_bit_eq) (simp only: drop_bit_eq_div)
  have "8 * unat len mod 2 ^ 32 = 8 * (unat len mod 2 ^ 29)"
    using mult_mod_right [of 8 "unat len" "2 ^ 29"] by simp
  moreover have "2 ^ 32 * q + 8 * r = 8 * (2 ^ 29 * q + r)" for q r :: nat by simp
  ultimately have pd: "2 ^ 32 * unat ?d + unat ?p = 8 * unat len"
    unfolding p d by (simp only: mult_div_mod_eq)
  let ?x = "unat t1 + unat ?d + ?c" and ?y = "unat (t0 + ?p)"
  have u: "unat (t1 + ?d + (if t0 + ?p < ?p then 1 else 0)) = ?x mod 2 ^ 32"
    by (simp add: unat_word_ariths mod_simps)
  have "2 ^ 32 * ?x + ?y = 2 ^ 32 * unat t1 + unat t0 + 8 * unat len"
    using word_carry [of t0 ?p] pd by (simp only: distrib_left)
  then have "(2 ^ 32 * ?x + ?y) mod 2 ^ 64 = (2 ^ 32 * unat t1 + unat t0 + 8 * unat len) mod 2 ^ 64"
    by (rule arg_cong)
  also have "\<dots> = (8 * n mod 2 ^ 64 + 8 * unat len) mod 2 ^ 64" by (simp only: assms)
  also have "\<dots> = 8 * (n + unat len) mod 2 ^ 64" by (simp only: mod_add_left_eq distrib_left)
  finally have s: "(2 ^ 32 * ?x + ?y) mod 2 ^ 64 = 8 * (n + unat len) mod 2 ^ 64" .
  have "(2 ^ 32 * ?x + ?y) mod (2 ^ 32 * 2 ^ 32) =
      2 ^ 32 * ((2 ^ 32 * ?x + ?y) div 2 ^ 32 mod 2 ^ 32) + (2 ^ 32 * ?x + ?y) mod 2 ^ 32"
    by (rule mod_mult2_eq)
  also have "(2 ^ 32 * ?x + ?y) div 2 ^ 32 = ?x" using unat32_less [of "t0 + ?p"] by (simp only: div_mult_self4 div_less)
  also have "(2 ^ 32 * ?x + ?y) mod 2 ^ 32 = ?y" using unat32_less [of "t0 + ?p"] by (simp only: mod_mult_self4 mod_less)
  finally show ?thesis unfolding u s [symmetric] by (simp add: power_add [symmetric])
qed

text \<open>Storing the bytes left over, also when there are none.\<close>

lemma store_rest:
  assumes "left + length rest \<le> length (mc_buffer ctx)"
  shows "(if rest \<noteq> [] then bind_res (vec_write (mc_buffer ctx) left rest) (\<lambda>v. Inr (ctx\<lparr>mc_buffer := v\<rparr>)) else Inr ctx) =
    Inr (ctx\<lparr>mc_buffer := take left (mc_buffer ctx) @ rest @ drop (left + length rest) (mc_buffer ctx)\<rparr>)"
  using assms by (simp add: vec_write_def)

text \<open>Updating the context without its counters: \<open>pre\<close> is what the buffer holds.\<close>

definition md5_absorb :: "md5_context \<Rightarrow> nat \<Rightarrow> char list \<Rightarrow> md5_context res" where
  "md5_absorb ctx left inp =
     bind_res
      (if left \<noteq> 0 \<and> 64 - left \<le> length inp
       then bind_res (vec_write (mc_buffer ctx) left (take (64 - left) inp)) (\<lambda>v.
            Inr (md5_process (ctx\<lparr>mc_buffer := v\<rparr>) v, drop (64 - left) inp, 0))
       else Inr (ctx, inp, left))
      (\<lambda>(ctx2, inp2, left2). let (ctx3, rest) = md5_blocks ctx2 inp2
         in if rest \<noteq> [] then bind_res (vec_write (mc_buffer ctx3) left2 rest) (\<lambda>v. Inr (ctx3\<lparr>mc_buffer := v\<rparr>))
            else Inr ctx3)"

lemma md5_absorb_ok:
  assumes "length (mc_buffer ctx) = 64" and "length pre < 64" and "take (length pre) (mc_buffer ctx) = pre"
  shows "\<exists>v. md5_absorb ctx (length pre) inp =
      Inr (ctx\<lparr>mc_state := fold rfc_compress (blocks64 (pre @ inp)) (mc_state ctx), mc_buffer := v\<rparr>) \<and>
    length v = 64 \<and> take (length (pre @ inp) mod 64) v = tail64 (pre @ inp)"
proof (cases "length pre \<noteq> 0 \<and> 64 - length pre \<le> length inp")
  case True
  let ?fill = "64 - length pre" let ?v = "pre @ take ?fill inp" and ?rest = "tail64 (drop ?fill inp)"
  have lv: "length ?v = 64" using True assms(2) by simp
  have w: "vec_write (mc_buffer ctx) (length pre) (take ?fill inp) = Inr ?v"
    using True assms by (simp add: vec_write_def)
  have sp: "pre @ inp = ?v @ drop ?fill inp" by simp
  have b: "blocks64 (pre @ inp) = ?v # blocks64 (drop ?fill inp)" and t: "tail64 (pre @ inp) = ?rest"
    using blocks64_head [of "?v @ drop ?fill inp"] tail64_head [of "?v @ drop ?fill inp"] lv
    by (simp_all only: sp) simp_all
  have lr: "length (pre @ inp) mod 64 = length ?rest" by (simp only: t [symmetric] length_tail64)
  have "length ?rest \<le> 64" by (simp add: less_imp_le)
  then show ?thesis
    using True w lv unfolding b t lr
    by (intro exI [where x = "?rest @ drop (length ?rest) ?v"])
      (simp add: md5_absorb_def md5_blocks_eq md5_process_rfc store_rest del: length_tail64)
next
  case False
  then have "pre = [] \<or> length pre + length inp < 64" by (cases pre) auto
  then consider "pre = []" | "length pre + length inp < 64" by blast
  then show ?thesis
  proof cases
    case 1
    have "length (tail64 inp) \<le> 64" by (simp add: less_imp_le)
    with 1 show ?thesis using assms
      by (intro exI [where x = "tail64 inp @ drop (length inp mod 64) (mc_buffer ctx)"])
        (simp add: md5_absorb_def md5_blocks_eq store_rest min_absorb1)
  next
    case 2
    then have "\<not> 64 - length pre \<le> length inp" by linarith
    moreover have "pre @ drop (length pre) (mc_buffer ctx) = mc_buffer ctx"
      using assms(3) append_take_drop_id [of "length pre" "mc_buffer ctx"] by simp
    ultimately show ?thesis using 2 assms
      by (intro exI [where x = "pre @ inp @ drop (length pre + length inp) (mc_buffer ctx)"])
        (simp add: md5_absorb_def md5_blocks_eq vec_write_def)
  qed
qed

lemma md5_update_absorb:
  assumes "md5_rep ctx m" and "len \<noteq> 0" and "unat len \<le> length input"
  shows "md5_update ctx input len = md5_absorb
    (ctx\<lparr>mc_total0 := mc_total0 ctx + push_bit 3 len,
      mc_total1 := mc_total1 ctx + drop_bit 29 len +
        (if mc_total0 ctx + push_bit 3 len < push_bit 3 len then 1 else 0)\<rparr>)
    (length m mod 64) (take (unat len) input)"
  using assms(2,3)
  by (simp only: md5_update_def md5_rep_left [OF assms(1)] mask32 Let_def if_False linorder_not_less md5_absorb_def)
    simp

theorem md5_update_rep:
  assumes rep: "md5_rep ctx m" and len: "unat len \<le> length input"
  shows "\<exists>ctx'. md5_update ctx input len = Inr ctx' \<and> md5_rep ctx' (m @ take (unat len) input)"
proof (cases "len = 0")
  case True
  then show ?thesis using rep by (simp add: md5_update_def)
next
  case nz: False
  let ?inp = "take (unat len) input" and ?init = "(0x67452301, 0xEFCDAB89, 0x98BADCFE, 0x10325476)"
  define ctx1 where "ctx1 = ctx\<lparr>mc_total0 := mc_total0 ctx + push_bit 3 len,
    mc_total1 := mc_total1 ctx + drop_bit 29 len + (if mc_total0 ctx + push_bit 3 len < push_bit 3 len then 1 else 0)\<rparr>"
  have c1: "mc_buffer ctx1 = mc_buffer ctx" "mc_state ctx1 = mc_state ctx" by (simp_all add: ctx1_def)
  have total: "2 ^ 32 * unat (mc_total1 ctx1) + unat (mc_total0 ctx1) = 8 * (length m + unat len) mod 2 ^ 64"
    if "2 ^ 32 * unat (mc_total1 ctx) + unat (mc_total0 ctx) = 8 * length m mod 2 ^ 64"
    using md5_total [OF that, of len] by (simp add: ctx1_def)
  from rep have r: "2 ^ 32 * unat (mc_total1 ctx) + unat (mc_total0 ctx) = 8 * length m mod 2 ^ 64"
    "mc_state ctx = fold rfc_compress (blocks64 m) ?init"
    "length (mc_buffer ctx) = 64" "take (length m mod 64) (mc_buffer ctx) = tail64 m"
    unfolding md5_rep_def by blast+
  have linp: "length (m @ ?inp) = length m + unat len" using len by (simp add: min_absorb2)
  obtain front where f: "m = front @ tail64 m" "length front mod 64 = 0" "blocks64 m = blocks64 front"
    using split64 [of m] by (elim exE conjE) simp
  have app: "blocks64 (m @ ?inp) = blocks64 m @ blocks64 (tail64 m @ ?inp)" "tail64 (m @ ?inp) = tail64 (tail64 m @ ?inp)"
  proof -
    have "m @ ?inp = front @ tail64 m @ ?inp" using arg_cong [OF f(1), of "\<lambda>x. x @ ?inp"] by (simp only: append.assoc)
    then show "blocks64 (m @ ?inp) = blocks64 m @ blocks64 (tail64 m @ ?inp)" "tail64 (m @ ?inp) = tail64 (tail64 m @ ?inp)"
      by (simp_all only: blocks64_append [OF f(2)] f(3))
  qed
  have lt: "length (m @ ?inp) mod 64 = length (tail64 m @ ?inp) mod 64"
    by (simp only: length_append length_tail64 mod_add_left_eq)
  have "length (mc_buffer ctx1) = 64" "length (tail64 m) < 64" "take (length (tail64 m)) (mc_buffer ctx1) = tail64 m"
    using r(3,4) by (simp_all add: c1)
  from md5_absorb_ok [OF this, of ?inp, unfolded length_tail64 c1] obtain v where
    v: "md5_absorb ctx1 (length m mod 64) ?inp =
        Inr (ctx1\<lparr>mc_state := fold rfc_compress (blocks64 (tail64 m @ ?inp)) (mc_state ctx), mc_buffer := v\<rparr>)"
      "length v = 64" "take (length (tail64 m @ ?inp) mod 64) v = tail64 (tail64 m @ ?inp)" by blast
  let ?ctx' = "ctx1\<lparr>mc_state := fold rfc_compress (blocks64 (tail64 m @ ?inp)) (mc_state ctx), mc_buffer := v\<rparr>"
  have "2 ^ 32 * unat (mc_total1 ?ctx') + unat (mc_total0 ?ctx') = 8 * length (m @ ?inp) mod 2 ^ 64"
    using total [OF r(1)] by (simp only: linp) simp
  moreover have "mc_state ?ctx' = fold rfc_compress (blocks64 (m @ ?inp)) ?init"
    by (simp only: app fold_append comp_apply r(2)) simp
  ultimately have "md5_rep ?ctx' (m @ ?inp)"
    unfolding md5_rep_def app(2) lt using v(2,3) by simp
  moreover have "md5_update ctx input len = Inr ?ctx'"
    using md5_update_absorb [OF rep nz len] v(1) by (simp only: ctx1_def)
  ultimately show ?thesis by blast
qed

section \<open>The digest\<close>

lemma le_value_append: "le_value (xs @ ys) = le_value xs + 256 ^ length xs * le_value ys"
  by (induction xs) (simp_all add: algebra_simps)

lemma le_value_le_bytes4: "le_value (le_bytes 4 (w :: 32 word)) = unat w"
proof -
  have "le_value (le_bytes 4 w) = unat w mod 256 ^ 4" by (simp only: le_bytes_def le_value_digits)
  also have "\<dots> = unat w" by (rule mod_less) (use unat32_less [of w] in simp)
  finally show ?thesis .
qed

lemma msglen_bytes:
  assumes "2 ^ 32 * unat t1 + unat t0 = n mod 2 ^ 64"
  shows "le_bytes 4 (t0 :: 32 word) @ le_bytes 4 (t1 :: 32 word) = le_bytes 8 (word_of_nat n :: 64 word)"
proof -
  let ?cs = "le_bytes 4 t0 @ le_bytes 4 t1"
  have "le_value ?cs = 2 ^ 32 * unat t1 + unat t0"
    by (simp add: le_value_append le_value_le_bytes4)
  then have "(word_of_nat (le_value ?cs) :: 64 word) = word_of_nat (n mod 2 ^ 64)" by (simp only: assms)
  also have "\<dots> = word_of_nat n"
    by (simp add: word_of_nat_eq_iff take_bit_eq_mod)
  finally have "le_bytes 8 (word_of_nat (le_value ?cs) :: 64 word) = le_bytes 8 (word_of_nat n :: 64 word)" by (rule arg_cong)
  moreover have "le_bytes 8 (word_of_nat (le_value ?cs) :: 64 word) = ?cs" by (rule le_bytes_of_word) simp_all
  ultimately show ?thesis by simp
qed

lemma md5_padn:
  assumes "unat (l :: 32 word) = n" and "n < 64"
  shows "unat (if l < 56 then 56 - l else 120 - l) = Suc ((119 - n) mod 64)"
proof (cases "n < 56")
  case True
  then have "l < 56" using assms(1) by (simp add: word_less_nat_alt)
  moreover from this have "unat (56 - l) = 56 - n"
    using assms(1) by (subst unat_sub) (simp_all add: word_le_nat_alt word_less_nat_alt)
  moreover have "(119 - n) mod 64 = 55 - n" using True by (simp add: mod_if)
  ultimately show ?thesis using True by simp
next
  case False
  then have "\<not> l < 56" using assms(1) by (simp add: word_less_nat_alt)
  moreover have "unat (120 - l) = 120 - n"
    using assms by (subst unat_sub) (simp_all add: word_le_nat_alt)
  moreover have "(119 - n) mod 64 = 119 - n" using False by simp
  ultimately show ?thesis using assms(2) by simp
qed

lemma md5_finish_rep:
  assumes rep: "md5_rep ctx m"
  shows "\<exists>ctx'. md5_finish ctx = Inr (ctx', rfc_md5 m)"
proof -
  let ?last = "drop_bit 3 (mc_total0 ctx) AND 0x3F"
  let ?padn = "if ?last < 56 then 56 - ?last else 120 - ?last"
  let ?msglen = "le_bytes 4 (mc_total0 ctx) @ le_bytes 4 (mc_total1 ctx)"
  have padn: "unat ?padn = Suc ((119 - length m mod 64) mod 64)"
    by (rule md5_padn [OF md5_rep_left [OF rep]]) simp
  then have le: "unat ?padn \<le> length md5_padding" by (simp add: md5_padding_def)
  have z: "(119 - length m mod 64) mod 64 \<le> 63" by (rule less_Suc_eq_le [THEN iffD1]) simp
  have pad: "take (unat ?padn) md5_padding = CHR 0x80 # replicate ((119 - length m mod 64) mod 64) (CHR 0x00)"
    unfolding padn md5_padding_def using z by (simp only: take_Suc_Cons take_replicate min_absorb1)
  from md5_update_rep [OF rep le] obtain c1 where
    c1: "md5_update ctx md5_padding ?padn = Inr c1" "md5_rep c1 (m @ take (unat ?padn) md5_padding)" by blast
  have "unat (8 :: 32 word) \<le> length ?msglen" by simp
  from md5_update_rep [OF c1(2) this] obtain c2 where
    c2: "md5_update c1 ?msglen 8 = Inr c2" "md5_rep c2 ((m @ take (unat ?padn) md5_padding) @ take 8 ?msglen)" by auto
  have "2 ^ 32 * unat (mc_total1 ctx) + unat (mc_total0 ctx) = 8 * length m mod 2 ^ 64"
    using rep unfolding md5_rep_def by blast
  from msglen_bytes [OF this] have ml: "?msglen = le_bytes 8 (word_of_nat (8 * length m) :: 64 word)" .
  have "(m @ take (unat ?padn) md5_padding) @ take 8 ?msglen = rfc_pad m"
    by (simp only: pad ml rfc_pad_def) simp
  with c2(2) have "mc_state c2 = fold rfc_compress (blocks64 (rfc_pad m)) (0x67452301, 0xEFCDAB89, 0x98BADCFE, 0x10325476)"
    unfolding md5_rep_def by simp
  then show ?thesis using c1(1) c2(1)
    by (simp add: md5_finish_def PUT_UINT32_le Let_def rfc_md5_def split: prod.splits)
qed

section \<open>The object\<close>

text \<open>
  \<open>m_data\<close> is the memory of four \<open>unsigned long\<close>s of \<open>ul\<close> bytes each, on a
  little-endian host. Uninitialised memory is an argument: \<open>stack\<close> for the local
  context of \<open>GenerateMD5\<close>, \<open>junk\<close> for an object's own memory.
\<close>

type_synonym md5 = "char list"

definition MD5_new :: "nat \<Rightarrow> md5" where
  "MD5_new ul = replicate (4 * ul) (CHR 0x00)"

definition MD5_of_ulongs :: "md5 \<Rightarrow> char list \<Rightarrow> md5 res" where
  "MD5_of_ulongs junk md5src =
     (if length md5src < 16 then Inl OutOfBounds else vec_write junk 0 (take 16 md5src))"

definition MD5_GenerateMD5 :: "md5_context \<Rightarrow> md5 \<Rightarrow> char list \<Rightarrow> int \<Rightarrow> md5 res" where
  "MD5_GenerateMD5 stack m_data buffer bufferlen =
     bind_res (md5_update (md5_starts stack) buffer (word_of_int bufferlen)) (\<lambda>context.
     bind_res (md5_finish context) (\<lambda>(context', digest). vec_write m_data 0 digest))"

definition xor_byte :: "char \<Rightarrow> char \<Rightarrow> char" where
  "xor_byte a b = char_of (of_char a XOR of_char b :: nat)"

text \<open>The exclusive or of the words, which is that of their bytes; then the 16-byte constructor.\<close>

definition MD5_plus :: "md5 \<Rightarrow> md5 \<Rightarrow> md5 \<Rightarrow> md5 res" where
  "MD5_plus junk m_data adder = MD5_of_ulongs junk (map2 xor_byte m_data adder)"

definition MD5_equal :: "md5 \<Rightarrow> md5 \<Rightarrow> bool" where
  "MD5_equal m_data cmper \<longleftrightarrow> take 16 cmper = take 16 m_data"

definition hex_digit :: "nat \<Rightarrow> char" where
  "hex_digit n = ''0123456789abcdef'' ! n"

definition MD5_ToString :: "md5 \<Rightarrow> string" where
  "MD5_ToString m_data =
     concat (map (\<lambda>c. [hex_digit (of_char c div 16), hex_digit (of_char c mod 16)]) (take 16 m_data))"

definition HexMap :: "(char \<times> 32 word) list" where
  "HexMap = [(CHR ''0'', 0), (CHR ''1'', 1), (CHR ''2'', 2), (CHR ''3'', 3), (CHR ''4'', 4), (CHR ''5'', 5),
     (CHR ''6'', 6), (CHR ''7'', 7), (CHR ''8'', 8), (CHR ''9'', 9), (CHR ''a'', 10), (CHR ''b'', 11),
     (CHR ''c'', 12), (CHR ''d'', 13), (CHR ''e'', 14), (CHR ''f'', 15)]"

fun httoi_loop :: "string \<Rightarrow> bool \<Rightarrow> 32 word \<Rightarrow> 32 word" where
  "httoi_loop [] firsttime result = result"
| "httoi_loop (c # s) firsttime result =
     (case map_of HexMap c of
        None \<Rightarrow> result
      | Some v \<Rightarrow> httoi_loop s False ((if \<not> firsttime then push_bit 4 result else result) OR v))"

definition httoi :: "string \<Rightarrow> 32 word" where
  "httoi mstr = httoi_loop (if take 2 mstr = ''0X'' then drop 2 mstr else mstr) True 0"

text \<open>
  The constructor from text. \<open>strncpy\<close> copies two characters into \<open>buf[10]\<close> and adds no
  terminator, so \<open>strdup\<close> in \<open>_httoi\<close> reads on into what the stack held: \<open>stk j\<close> in
  round \<open>j\<close>. \<open>src\<close> is what is left of the string, \<open>None\<close> beyond its terminator.
\<close>

fun md5_read_bytes :: "(nat \<Rightarrow> char list) \<Rightarrow> nat \<Rightarrow> nat \<Rightarrow> string option \<Rightarrow> char list res" where
  "md5_read_bytes stk 0 j src = Inr []"
| "md5_read_bytes stk (Suc n) j None = Inl OutOfBounds"
| "md5_read_bytes stk (Suc n) j (Some src) =
     (let buf = take 2 (src @ [CHR 0x00, CHR 0x00]) @ drop 2 (stk j) in
      if CHR 0x00 \<notin> set buf then Inl OutOfBounds
      else bind_res (md5_read_bytes stk n (Suc j) (if 2 \<le> length src then Some (drop 2 src) else None)) (\<lambda>bs.
           Inr (char_of (unat (httoi (takeWhile (\<lambda>c. c \<noteq> CHR 0x00) buf))) # bs)))"

definition MD5_of_string :: "nat \<Rightarrow> (nat \<Rightarrow> char list) \<Rightarrow> md5 \<Rightarrow> string \<Rightarrow> md5 res" where
  "MD5_of_string ul stk junk md5src =
     (if md5src = [] then Inr (replicate (4 * ul) (CHR 0x00))
      else bind_res (md5_read_bytes stk 16 0 (Some md5src)) (\<lambda>bs. vec_write junk 0 bs))"

text \<open>The sum of the four words of \<open>m_data\<close>, in an \<open>unsigned long\<close> or in 64 bits.\<close>

definition md5_words :: "nat \<Rightarrow> md5 \<Rightarrow> nat list" where
  "md5_words ul m_data = map (\<lambda>i. le_value (take ul (drop (ul * i) m_data))) [0..<4]"

definition MD5_ToULong32 :: "nat \<Rightarrow> md5 \<Rightarrow> nat res" where
  "MD5_ToULong32 ul m_data =
     (if ul \<noteq> 4 then Inl AssertFailed else Inr (sum_list (md5_words ul m_data) mod 2 ^ (8 * ul)))"

definition MD5_ToULong64 :: "nat \<Rightarrow> md5 \<Rightarrow> nat" where
  "MD5_ToULong64 ul m_data = sum_list (md5_words ul m_data) mod 2 ^ 64"

lemma length_rfc_md5 [simp]: "length (rfc_md5 m) = 16"
  by (simp add: rfc_md5_def split: prod.splits)

lemma length_MD5_new [simp]: "length (MD5_new ul) = 4 * ul"
  by (simp add: MD5_new_def)

lemma GenerateMD5_ok:
  assumes "length (mc_buffer stack) = 64" and "length m < 2 ^ 31" and "16 \<le> length m_data"
  shows "MD5_GenerateMD5 stack m_data m (int (length m)) = Inr (rfc_md5 m @ drop 16 m_data)"
proof -
  have u: "unat (word_of_nat (length m) :: 32 word) = length m"
    using assms(2) by (simp add: unat_of_nat take_bit_nat_eq_self)
  from md5_update_rep [OF md5_starts_rep [OF assms(1)], of "word_of_nat (length m)" m] obtain c where
    c: "md5_update (md5_starts stack) m (word_of_int (int (length m))) = Inr c" "md5_rep c m"
    by (auto simp: u)
  from md5_finish_rep [OF c(2)] obtain c' where "md5_finish c = Inr (c', rfc_md5 m)" by blast
  with c(1) show ?thesis using assms(3) by (simp only: MD5_GenerateMD5_def bind_res_Inr prod.case) (simp add: vec_write_def)
qed

text \<open>Updates by several pieces.\<close>

fun md5_updates :: "md5_context \<Rightarrow> char list list \<Rightarrow> md5_context res" where
  "md5_updates ctx [] = Inr ctx"
| "md5_updates ctx (x # xs) = bind_res (md5_update ctx x (word_of_nat (length x))) (\<lambda>ctx'. md5_updates ctx' xs)"

lemma md5_updates_rep:
  assumes "md5_rep ctx m" and "\<forall>x \<in> set xs. length x < 2 ^ 32"
  shows "\<exists>ctx'. md5_updates ctx xs = Inr ctx' \<and> md5_rep ctx' (m @ concat xs)"
  using assms
proof (induction xs arbitrary: ctx m)
  case Nil
  then show ?case by simp
next
  case (Cons x xs)
  have u: "unat (word_of_nat (length x) :: 32 word) = length x"
    using Cons.prems(2) by (simp add: unat_of_nat take_bit_nat_eq_self)
  from md5_update_rep [OF Cons.prems(1), of "word_of_nat (length x)" x] obtain c where
    "md5_update ctx x (word_of_nat (length x)) = Inr c" "md5_rep c (m @ x)" by (auto simp: u)
  then show ?case using Cons.IH [of c "m @ x"] Cons.prems(2) by simp
qed

section \<open>The text form\<close>

lemma HexMap_digits: "\<forall>n \<in> {0..<16}. map_of HexMap (hex_digit n) = Some (word_of_nat n) \<and>
    hex_digit n \<noteq> CHR ''X'' \<and> hex_digit n \<noteq> CHR 0x00"
  by (simp add: hex_digit_def HexMap_def atLeastLessThan_nat_numeral)

lemma hex_digitD:
  assumes "n < 16"
  shows "map_of HexMap (hex_digit n) = Some (word_of_nat n)" "hex_digit n \<noteq> CHR ''X''" "hex_digit n \<noteq> CHR 0x00"
  using HexMap_digits assms by auto

lemma httoi_byte:
  assumes "h < 16" and "l < 16"
  shows "char_of (unat (httoi [hex_digit h, hex_digit l])) = (char_of (16 * h + l) :: char)"
proof -
  have low: "bit l n \<Longrightarrow> n < 4" for n
  proof (rule ccontr)
    assume b: "bit l n" and "\<not> n < 4"
    then have "16 \<le> (2 :: nat) ^ n" using power_increasing [of 4 n "2 :: nat"] by simp
    then have "l < 2 ^ n" using assms(2) by linarith
    with b show False by (simp add: bit_iff_odd)
  qed
  then have "push_bit 4 h + l = (push_bit 4 h OR l :: nat)"
    by (intro disjunctive_add) (auto simp: bit_simps dest: low)
  then have s: "push_bit 4 h OR l = 16 * h + l" by (simp add: push_bit_eq_mult)
  have "httoi [hex_digit h, hex_digit l] = word_of_nat (push_bit 4 h OR l)"
    using hex_digitD [OF assms(1)] hex_digitD [OF assms(2)]
    by (simp add: httoi_def of_nat_or_eq flip: push_bit_of_nat)
  moreover have "unat (word_of_nat n :: 32 word) = n" if "n < 256" for n
    using that by (simp add: unat_of_nat take_bit_nat_eq_self)
  from this [of "16 * h + l"] have "unat (word_of_nat (16 * h + l) :: 32 word) = 16 * h + l" using assms by linarith
  ultimately show ?thesis by (simp only: s)
qed

lemma md5_read_hex:
  assumes "\<And>j. length (stk j) = 10 \<and> stk j ! 2 = CHR 0x00" and "n \<le> length d"
  shows "md5_read_bytes stk n j (Some (concat (map (\<lambda>c. [hex_digit (of_char c div 16), hex_digit (of_char c mod 16)]) d))) =
    Inr (take n d)"
  using assms(2)
proof (induction n arbitrary: d j)
  case 0
  then show ?case by simp
next
  case (Suc n)
  then obtain c cs where d: "d = c # cs" by (cases d) auto
  let ?h = "of_char c div 16 :: nat" and ?l = "of_char c mod 16 :: nat"
  have hl: "?h < 16" "?l < 16" using nat_of_char_less_256 [of c] by (simp_all add: less_mult_imp_div_less)
  have v: "char_of (unat (httoi [hex_digit ?h, hex_digit ?l])) = c" unfolding httoi_byte [OF hl] by simp
  have dr: "drop 2 (stk j) = CHR 0x00 # drop 3 (stk j)"
    using assms(1) [of j] Cons_nth_drop_Suc [of 2 "stk j"] by simp
  show ?case
    using Suc.IH [of cs "Suc j"] Suc.prems hex_digitD(3) [OF hl(1)] hex_digitD(3) [OF hl(2)] v
    by (simp add: d dr)
qed



text \<open>
  A digest survives its text form: the string constructor reads back exactly the 16
  bytes that \<open>ToString\<close> printed, provided the stack holds a zero byte behind the two
  characters that it copies in each round (it terminates none of them itself).
\<close>
theorem md5_text_roundtrip:
  assumes "16 \<le> length d" and "16 \<le> length junk" and "\<And>j. length (stk j) = 10 \<and> stk j ! 2 = CHR 0x00"
  shows "\<exists>e. MD5_of_string ul stk junk (MD5_ToString d) = Inr e \<and> MD5_equal e d"
proof -
  have "MD5_ToString d \<noteq> []" using assms(1) by (cases d) (simp_all add: MD5_ToString_def)
  moreover have "md5_read_bytes stk 16 0 (Some (MD5_ToString d)) = Inr (take 16 d)"
    unfolding MD5_ToString_def using md5_read_hex [where stk = stk and n = 16 and d = "take 16 d" and j = 0] assms(1,3) by simp
  ultimately show ?thesis using assms(1,2) by (simp add: MD5_of_string_def vec_write_def MD5_equal_def)
qed

theorem md5_text_roundtrip_witness:
  "\<exists>e. MD5_of_string 8 (\<lambda>j. replicate 10 (CHR 0x00)) (MD5_new 8) (MD5_ToString (MD5_new 8)) = Inr e \<and>
     MD5_equal e (MD5_new 8)"
  by (rule md5_text_roundtrip) simp_all

end
