(* ===== verification/Number_Text.thy ===== *)
theory Number_Text
  imports FAS_Prelude
begin

text \<open>
  What the code uses of the C and C++ library to print and read decimal numbers:
  \<open>std::to_string\<close>, the conversions \<open>%d\<close> of \<open>snprintf\<close> with a width, and the digits that
  \<open>std::atoi\<close> reads. Lemmas: what was printed is read back, and how long a text is.
\<close>

section \<open>Reading\<close>

definition is_space :: "char \<Rightarrow> bool" where
  "is_space c \<longleftrightarrow> c \<in> {CHR '' '', CHR 0x09, CHR 0x0A, CHR 0x0B, CHR 0x0C, CHR 0x0D}"

definition is_digit :: "char \<Rightarrow> bool" where
  "is_digit c \<longleftrightarrow> (of_char c :: nat) \<in> {48..57}"

definition digits_value :: "string \<Rightarrow> int" where
  "digits_value s = foldl (\<lambda>n c. 10 * n + (of_char c - 48)) 0 (takeWhile is_digit s)"

section \<open>Printing\<close>

text \<open>\<open>std::to_string\<close> of an unsigned and of a signed number.\<close>

fun to_string :: "nat \<Rightarrow> string" where
  "to_string n = (if n < 10 then [char_of (48 + n)] else to_string (n div 10) @ [char_of (48 + n mod 10)])"

declare to_string.simps [simp del]

definition int_to_string :: "int \<Rightarrow> string" where
  "int_to_string n = (if n < 0 then CHR ''-'' # to_string (nat (- n)) else to_string (nat n))"

text \<open>The conversions with a width: \<open>%wd\<close> pads with blanks, \<open>%0wd\<close> with zeros after the sign.\<close>

definition pad_left :: "char \<Rightarrow> nat \<Rightarrow> string \<Rightarrow> string" where
  "pad_left c w s = replicate (w - length s) c @ s"

definition printf_d :: "nat \<Rightarrow> int \<Rightarrow> string" where
  "printf_d w n = pad_left CHR '' '' w (int_to_string n)"

definition printf_0d :: "nat \<Rightarrow> int \<Rightarrow> string" where
  "printf_0d w n = (if n < 0 then CHR ''-'' # pad_left CHR ''0'' (w - 1) (to_string (nat (- n)))
     else pad_left CHR ''0'' w (to_string (nat n)))"

text \<open>What \<open>snprintf\<close> leaves in a buffer of \<open>n\<close> bytes: one byte is for the end of the string.\<close>

definition snprintf :: "nat \<Rightarrow> string \<Rightarrow> string" where
  "snprintf n s = take (n - 1) s"

section \<open>What was printed is read\<close>

lemma of_char_digit:
  fixes d :: nat
  assumes "d < 10"
  shows "(of_char (char_of (48 + d) :: char) :: nat) = 48 + d" "(of_char (char_of (48 + d) :: char) :: int) = 48 + int d"
proof -
  show n: "(of_char (char_of (48 + d) :: char) :: nat) = 48 + d" using assms by simp
  have "(of_char (char_of (48 + d) :: char) :: int) = int (of_char (char_of (48 + d) :: char))" by (simp only: of_nat_of_char)
  then show "(of_char (char_of (48 + d) :: char) :: int) = 48 + int d" unfolding n by simp
qed

lemma is_digit_digit: "(d :: nat) < 10 \<Longrightarrow> is_digit (char_of (48 + d))"
  by (simp only: is_digit_def of_char_digit) simp

lemma to_string_digits: "\<forall>c \<in> set (to_string n). is_digit c"
proof (induction n rule: to_string.induct)
  case (1 n)
  then show ?case
    by (subst to_string.simps) (auto simp: is_digit_digit)
qed

lemma takeWhile_digits: "\<forall>c \<in> set s. is_digit c \<Longrightarrow> takeWhile is_digit s = s"
  by (simp add: takeWhile_eq_all_conv)

lemma digits_value_snoc:
  assumes "\<forall>c \<in> set s. is_digit c" and "d < 10"
  shows "digits_value (s @ [char_of (48 + d)]) = 10 * digits_value s + int d"
  using assms is_digit_digit [OF assms(2)] of_char_digit(2) [OF assms(2)]
  by (simp add: digits_value_def takeWhile_digits del: of_char_of)

lemma digits_value_to_string [simp]: "digits_value (to_string n) = int n"
proof (induction n rule: to_string.induct)
  case (1 n)
  show ?case
  proof (cases "n < 10")
    case True
    then show ?thesis using digits_value_snoc [of "[]" n] by (simp add: to_string.simps [of n] digits_value_def)
  next
    case False
    then have "digits_value (to_string n) = 10 * int (n div 10) + int (n mod 10)"
      using 1 digits_value_snoc [of "to_string (n div 10)" "n mod 10"] to_string_digits
      by (subst to_string.simps) simp
    then show ?thesis by presburger
  qed
qed

lemma length_to_string: "n < 10 ^ k \<Longrightarrow> 0 < k \<Longrightarrow> length (to_string n) \<le> k"
proof (induction n arbitrary: k rule: to_string.induct)
  case (1 n)
  show ?case
  proof (cases "n < 10")
    case True
    with 1(3) show ?thesis by (simp add: to_string.simps [of n])
  next
    case False
    then obtain k' where k: "k = Suc k'" "0 < k'" using 1(2,3) by (cases k; cases "k - 1") auto
    have "n div 10 < 10 ^ k'" using 1(2) k(1) by (simp add: less_mult_imp_div_less mult.commute)
    from 1(1) [OF False this k(2)] False k show ?thesis by (simp add: to_string.simps [of n])
  qed
qed

lemma to_string_Nil [simp]: "to_string n \<noteq> []"
  by (simp add: to_string.simps [of n])

lemma digits_value_pad [simp]: "digits_value (pad_left CHR ''0'' w s) = digits_value s"
proof -
  have zero: "takeWhile is_digit (replicate k CHR ''0'' @ s) = replicate k CHR ''0'' @ takeWhile is_digit s" for k
    by (induction k) (simp_all add: is_digit_def)
  have "foldl (\<lambda>n c. 10 * n + (of_char c - 48)) (0 :: int) (replicate k CHR ''0'' @ t) =
      foldl (\<lambda>n c. 10 * n + (of_char c - 48)) 0 t" for k t
    by (induction k) simp_all
  then show ?thesis by (simp add: digits_value_def pad_left_def zero)
qed

lemma digits_pad: "\<forall>c \<in> set s. is_digit c \<Longrightarrow> \<forall>c \<in> set (pad_left CHR ''0'' w s). is_digit c"
  by (auto simp: pad_left_def is_digit_def in_set_replicate)

lemma length_pad [simp]: "length (pad_left c w s) = max w (length s)"
  by (simp add: pad_left_def)

text \<open>A field of width \<open>w\<close> that holds a number of at most \<open>w\<close> digits.\<close>

lemma printf_0d_field:
  assumes "0 \<le> n" "n < 10 ^ w" "0 < w"
  shows "length (printf_0d w n) = w" "digits_value (printf_0d w n) = n" "\<forall>c \<in> set (printf_0d w n). is_digit c"
proof -
  have "nat n < 10 ^ w" using assms(1,2) by (simp add: nat_less_iff)
  from length_to_string [OF this assms(3)] show "length (printf_0d w n) = w" using assms(1) by (simp add: printf_0d_def)
qed (use assms digits_pad [OF to_string_digits] in \<open>simp_all add: printf_0d_def\<close>)

end
