(* ===== verification/Consistent_Hash.thy ===== *)
theory Consistent_Hash
  imports Md5 Std_Containers Number_Text "HOL-Library.List_Lexorder" "HOL-Library.Char_ord"
begin

text \<open>
  \<open>src/mdm/HashNode.h/.cpp\<close>, \<open>src/mdm/ConsistencyHash.h/.cpp\<close>: the ring that maps the
  keys of the memcache daemon to its servers. Nodes are shared by two maps, so they live
  in a store and a pointer is an index into it. Parameters: the digits that the C library's
  \<open>random\<close> gives for a seed, and \<open>boost::split\<close> and \<open>boost::trim\<close>. Lemmas: a lookup
  finds the successor on the ring, and adding or deleting a server moves no other key.
\<close>

section \<open>Nodes\<close>

record hash_node =
  hn_keys :: "nat list"
  hn_initName :: string
  hn_nameNum :: int
  hn_mappedCount :: "64 word"
  hn_ip :: string
  hn_port :: int

text \<open>
  \<open>he_suffix i\<close> is \<open>to_string(i * random()) + to_string(i * random() * random())\<close> after
  \<open>srandom(i * i)\<close>; \<open>he_ul\<close> is \<open>sizeof(unsigned long)\<close>; \<open>he_stack\<close> and \<open>he_port\<close> are
  uninitialised memory.
\<close>

record hash_env =
  he_ul :: nat
  he_stack :: md5_context
  he_port :: int
  he_suffix :: "nat \<Rightarrow> string"
  he_split :: "string \<Rightarrow> string list"
  he_trim :: "string \<Rightarrow> string"

text \<open>\<open>std::atoi\<close>: white space, a sign, digits; a value that does not fit is undefined behaviour.\<close>

definition atoi :: "string \<Rightarrow> int res" where
  "atoi s0 =
     (let s = dropWhile is_space s0;
          n = (case s of
                 CHR ''-'' # t \<Rightarrow> - digits_value t
               | CHR ''+'' # t \<Rightarrow> digits_value t
               | _ \<Rightarrow> digits_value s)
      in if - (2 ^ 31) \<le> n \<and> n < 2 ^ 31 then Inr n else Inl SignedOverflow)"

definition to_short :: "int \<Rightarrow> int" where
  "to_short n = signed_take_bit 15 n"

text \<open>The loop over the virtual nodes, from \<open>i\<close> on, with the shared \<open>MD5\<close> object.\<close>

fun node_keys :: "hash_env \<Rightarrow> string \<Rightarrow> nat \<Rightarrow> nat \<Rightarrow> md5 \<Rightarrow> (nat list \<times> md5) res" where
  "node_keys env initName 0 i md5 = Inr ([], md5)"
| "node_keys env initName (Suc n) i md5 =
     (let virName = initName @ he_suffix env i in
      bind_res (MD5_GenerateMD5 (he_stack env) md5 virName (int (length virName))) (\<lambda>md5'.
      bind_res (MD5_ToULong32 (he_ul env) md5') (\<lambda>k.
      bind_res (node_keys env initName n (Suc i) md5') (\<lambda>(ks, md5''). Inr (k # ks, md5'')))))"

definition HashNode_new :: "hash_env \<Rightarrow> md5 \<Rightarrow> string \<Rightarrow> int \<Rightarrow> (hash_node \<times> md5) res" where
  "HashNode_new env md5 initName nameNum =
     bind_res (node_keys env initName (nat nameNum) 0 md5) (\<lambda>(ks, md5').
     let node = \<lparr>hn_keys = ks, hn_initName = initName, hn_nameNum = nameNum, hn_mappedCount = 0,
                 hn_ip = [], hn_port = he_port env\<rparr>;
         strs = he_split env initName
     in if length strs \<noteq> 2 then Inr (node, md5')
        else bind_res (atoi (he_trim env (strs ! 1))) (\<lambda>p.
             Inr (node\<lparr>hn_ip := he_trim env (strs ! 0), hn_port := to_short p\<rparr>, md5')))"

definition HashNode_increaseMappedCount :: "hash_node \<Rightarrow> hash_node" where
  "HashNode_increaseMappedCount n = n\<lparr>hn_mappedCount := hn_mappedCount n + 1\<rparr>"

section \<open>The ring\<close>

record cons_hash =
  ch_virtualNodeNum :: int
  ch_md5 :: md5
  ch_nodes :: "(string, nat) smap"
  ch_hashMap :: "(nat, nat) smap"
  ch_store :: "hash_node list"

definition ConsistencyHash_new :: "hash_env \<Rightarrow> int \<Rightarrow> cons_hash" where
  "ConsistencyHash_new env virtualNodeNum =
     \<lparr>ch_virtualNodeNum = virtualNodeNum, ch_md5 = MD5_new (he_ul env), ch_nodes = [], ch_hashMap = [], ch_store = []\<rparr>"

definition ConsistencyHash_addHashNodesFromString :: "hash_env \<Rightarrow> cons_hash \<Rightarrow> string \<Rightarrow> (bool \<times> cons_hash) res" where
  "ConsistencyHash_addHashNodesFromString env ch nodeName =
     (if smap_find (ch_nodes ch) nodeName \<noteq> None then Inr (False, ch)
      else bind_res (HashNode_new env (ch_md5 ch) nodeName (ch_virtualNodeNum ch)) (\<lambda>(node, md5').
        let p = length (ch_store ch)
        in Inr (True, ch\<lparr>ch_md5 := md5', ch_store := ch_store ch @ [node],
                         ch_nodes := smap_set (ch_nodes ch) nodeName p,
                         ch_hashMap := fold (\<lambda>k m. smap_insert m k p) (hn_keys node) (ch_hashMap ch)\<rparr>)))"

definition ConsistencyHash_deleteHashNodesFromString :: "cons_hash \<Rightarrow> string \<Rightarrow> bool \<times> cons_hash" where
  "ConsistencyHash_deleteHashNodesFromString ch nodeName =
     (case smap_find (ch_nodes ch) nodeName of
        None \<Rightarrow> (True, ch)
      | Some p \<Rightarrow> (True, ch\<lparr>ch_hashMap :=
                     fold (\<lambda>k m. smap_erase m k) (hn_keys (ch_store ch ! p)) (ch_hashMap ch)\<rparr>))"

text \<open>The iterator (\<open>None\<close> is the end), whether it is valid, and the ring with the node counted.\<close>

definition ConsistencyHash_getMappingNodeFromKey :: "cons_hash \<Rightarrow> nat \<Rightarrow> ((nat \<times> nat) option \<times> bool) \<times> cons_hash" where
  "ConsistencyHash_getMappingNodeFromKey ch key =
     (let iter = (case smap_upper_bound (ch_hashMap ch) key of
                    Some e \<Rightarrow> Some e
                  | None \<Rightarrow> (case ch_hashMap ch of [] \<Rightarrow> None | e # m \<Rightarrow> Some e));
          ch' = (case iter of
                   None \<Rightarrow> ch
                 | Some (k, p) \<Rightarrow> ch\<lparr>ch_store := (ch_store ch)[p := HashNode_increaseMappedCount (ch_store ch ! p)]\<rparr>)
      in if length (ch_hashMap ch) = 0 then ((iter, False), ch') else ((iter, True), ch'))"

definition ConsistencyHash_getMappingNodeFromKeyString :: "hash_env \<Rightarrow> cons_hash \<Rightarrow> string \<Rightarrow> (nat option \<times> cons_hash) res" where
  "ConsistencyHash_getMappingNodeFromKeyString env ch key =
     bind_res (MD5_GenerateMD5 (he_stack env) (ch_md5 ch) key (int (length key))) (\<lambda>md5'.
     bind_res (MD5_ToULong32 (he_ul env) md5') (\<lambda>k.
     let ((iter, valid), ch') = ConsistencyHash_getMappingNodeFromKey (ch\<lparr>ch_md5 := md5'\<rparr>) k
     in Inr (if valid then map_option snd iter else None, ch')))"

section \<open>The successor on the ring\<close>

text \<open>The next key clockwise: the least larger one, or the least of all when none is larger.\<close>

definition ring_next :: "nat set \<Rightarrow> nat \<Rightarrow> nat \<Rightarrow> bool" where
  "ring_next K key k \<longleftrightarrow> k \<in> K \<and>
     (if \<exists>j \<in> K. key < j then key < k \<and> (\<forall>j \<in> K. key < j \<longrightarrow> k \<le> j) else \<forall>j \<in> K. k \<le> j)"

lemma ring_next_unique: "ring_next K key k \<Longrightarrow> ring_next K key k' \<Longrightarrow> k = k'"
  unfolding ring_next_def by (metis le_antisym)

text \<open>Taking other keys away does not change the successor.\<close>

lemma ring_next_subset: "ring_next K key k \<Longrightarrow> L \<subseteq> K \<Longrightarrow> k \<in> L \<Longrightarrow> ring_next L key k"
  unfolding ring_next_def by (metis subsetD)

definition ring_lookup :: "cons_hash \<Rightarrow> nat \<Rightarrow> (nat \<times> nat) option" where
  "ring_lookup ch key = fst (fst (ConsistencyHash_getMappingNodeFromKey ch key))"

definition ring_keys :: "cons_hash \<Rightarrow> nat set" where
  "ring_keys ch = fst ` set (ch_hashMap ch)"

definition ring_inv :: "cons_hash \<Rightarrow> bool" where
  "ring_inv ch \<longleftrightarrow> smap_ok (ch_nodes ch) \<and> smap_ok (ch_hashMap ch) \<and>
     (\<forall>(k, p) \<in> set (ch_hashMap ch). p < length (ch_store ch) \<and> k \<in> set (hn_keys (ch_store ch ! p))) \<and>
     (\<forall>(name, p) \<in> set (ch_nodes ch). p < length (ch_store ch) \<and> hn_initName (ch_store ch ! p) = name)"

lemma ring_lookup_None: "ring_lookup ch key = None \<longleftrightarrow> ch_hashMap ch = []"
  by (auto simp: ring_lookup_def ConsistencyHash_getMappingNodeFromKey_def Let_def split: option.splits list.splits)

lemma ring_lookup_next:
  assumes "smap_ok (ch_hashMap ch)" and "ring_lookup ch key = Some (k, p)"
  shows "ring_next (ring_keys ch) key k \<and> smap_find (ch_hashMap ch) k = Some p"
proof (cases "smap_upper_bound (ch_hashMap ch) key")
  case (Some e)
  with assms(2) have "smap_upper_bound (ch_hashMap ch) key = Some (k, p)"
    by (auto simp: ring_lookup_def ConsistencyHash_getMappingNodeFromKey_def Let_def split: if_splits)
  from smap_upper_bound_Some [OF assms(1) this] show ?thesis
    unfolding ring_next_def ring_keys_def using smap_find_in by force
next
  case None
  then obtain m where m: "ch_hashMap ch = (k, p) # m" using assms(2)
    by (auto simp: ring_lookup_def ConsistencyHash_getMappingNodeFromKey_def Let_def split: list.splits)
  from None have "\<forall>j \<in> ring_keys ch. j \<le> key" unfolding smap_upper_bound_None ring_keys_def .
  moreover have "\<forall>j \<in> ring_keys ch. k \<le> j" using assms(1) unfolding ring_keys_def m
    by (auto simp: smap_ok_Cons less_imp_le)
  ultimately show ?thesis unfolding ring_next_def by (auto simp: ring_keys_def m not_less)
qed

lemma ring_lookup_eqI:
  assumes "smap_ok (ch_hashMap ch)" and "ring_next (ring_keys ch) key k" and "smap_find (ch_hashMap ch) k = Some p"
  shows "ring_lookup ch key = Some (k, p)"
proof (cases "ring_lookup ch key")
  case None
  then show ?thesis using assms(3) by (simp add: ring_lookup_None)
next
  case (Some e)
  then obtain k' p' where e: "ring_lookup ch key = Some (k', p')" by (cases e) auto
  from ring_lookup_next [OF assms(1) e] assms(2) have "k' = k" using ring_next_unique by blast
  with ring_lookup_next [OF assms(1) e] assms(3) e show ?thesis by simp
qed

section \<open>Adding and deleting servers\<close>

lemma fold_insert_ok: "smap_ok m \<Longrightarrow> smap_ok (fold (\<lambda>k m. smap_insert m k p) ks m)"
  by (induction ks arbitrary: m) (simp_all add: smap_insert_ok)

lemma find_fold_insert:
  "smap_find (fold (\<lambda>k m. smap_insert m k p) ks m) j =
     (case smap_find m j of Some v \<Rightarrow> Some v | None \<Rightarrow> if j \<in> set ks then Some p else None)"
  by (induction ks arbitrary: m) (auto split: option.splits)

lemma fold_erase_ok: "smap_ok m \<Longrightarrow> smap_ok (fold (\<lambda>k m. smap_erase m k) ks m)"
  by (induction ks arbitrary: m) (simp_all add: smap_erase_ok)

lemma find_fold_erase:
  "smap_ok m \<Longrightarrow> smap_find (fold (\<lambda>k m. smap_erase m k) ks m) j = (if j \<in> set ks then None else smap_find m j)"
  by (induction ks arbitrary: m) (auto simp: smap_erase_ok)

lemma smap_entry_iff: "smap_ok m \<Longrightarrow> (k, v) \<in> set m \<longleftrightarrow> smap_find m k = Some v"
  by (auto intro: smap_find_in smap_find_of_in)

lemma smap_key_iff: "k \<in> fst ` set m \<longleftrightarrow> smap_find m k \<noteq> None"
  by (simp add: smap_find_None_notin)

lemma HashNode_new_initName: "HashNode_new env md5 name n = Inr (node, md5') \<Longrightarrow> hn_initName node = name"
  by (auto simp: HashNode_new_def Let_def res_simps split: if_splits)

lemma add_ring:
  assumes inv: "ring_inv ch" and add: "ConsistencyHash_addHashNodesFromString env ch name = Inr (True, ch')"
  obtains node md5' where "HashNode_new env (ch_md5 ch) name (ch_virtualNodeNum ch) = Inr (node, md5')"
    and "ch_store ch' = ch_store ch @ [node]" and "smap_ok (ch_hashMap ch')" and "smap_ok (ch_nodes ch')"
    and "\<And>j. smap_find (ch_nodes ch') j = (if j = name then Some (length (ch_store ch)) else smap_find (ch_nodes ch) j)"
    and "\<And>j. smap_find (ch_hashMap ch') j = (case smap_find (ch_hashMap ch) j of Some v \<Rightarrow> Some v
       | None \<Rightarrow> if j \<in> set (hn_keys node) then Some (length (ch_store ch)) else None)"
proof -
  from add obtain node md5' where n: "HashNode_new env (ch_md5 ch) name (ch_virtualNodeNum ch) = Inr (node, md5')"
    and ch': "ch' = ch\<lparr>ch_md5 := md5', ch_store := ch_store ch @ [node],
                         ch_nodes := smap_set (ch_nodes ch) name (length (ch_store ch)),
                         ch_hashMap := fold (\<lambda>k m. smap_insert m k (length (ch_store ch))) (hn_keys node) (ch_hashMap ch)\<rparr>"
    by (auto simp: ConsistencyHash_addHashNodesFromString_def Let_def res_simps split: if_splits)
  show thesis
    by (rule that [OF n]) (use inv in \<open>simp_all add: ch' ring_inv_def fold_insert_ok find_fold_insert smap_set_ok\<close>)
qed

lemma add_ring_inv:
  assumes inv: "ring_inv ch" and add: "ConsistencyHash_addHashNodesFromString env ch name = Inr (True, ch')"
  shows "ring_inv ch'"
proof -
  obtain node md5' where n: "HashNode_new env (ch_md5 ch) name (ch_virtualNodeNum ch) = Inr (node, md5')"
    "ch_store ch' = ch_store ch @ [node]" "smap_ok (ch_hashMap ch')" "smap_ok (ch_nodes ch')"
    "\<And>j. smap_find (ch_nodes ch') j = (if j = name then Some (length (ch_store ch)) else smap_find (ch_nodes ch) j)"
    "\<And>j. smap_find (ch_hashMap ch') j = (case smap_find (ch_hashMap ch) j of Some v \<Rightarrow> Some v
       | None \<Rightarrow> if j \<in> set (hn_keys node) then Some (length (ch_store ch)) else None)"
    by (rule add_ring [OF assms]) (rule that)
  note name = HashNode_new_initName [OF n(1)]
  have old: "smap_find (ch_hashMap ch) k = Some p \<Longrightarrow> p < length (ch_store ch) \<and> k \<in> set (hn_keys (ch_store ch ! p))"
    "smap_find (ch_nodes ch) s = Some p \<Longrightarrow> p < length (ch_store ch) \<and> hn_initName (ch_store ch ! p) = s" for k p s
    using inv unfolding ring_inv_def by (auto dest: smap_find_in)
  show ?thesis
    unfolding ring_inv_def using n(2-4) old name
    by (auto simp: smap_entry_iff n(5,6) nth_append split: option.splits if_splits dest: less_SucI)
qed

lemma ring_keys_iff: "k \<in> ring_keys ch \<longleftrightarrow> smap_find (ch_hashMap ch) k \<noteq> None"
  by (simp add: ring_keys_def smap_key_iff)

lemma add_ring_lookup:
  assumes inv: "ring_inv ch" and add: "ConsistencyHash_addHashNodesFromString env ch name = Inr (True, ch')"
    and l': "ring_lookup ch' key = Some (k, p)"
  shows "p = length (ch_store ch) \<or> ring_lookup ch key = Some (k, p)"
proof -
  obtain node md5' where "HashNode_new env (ch_md5 ch) name (ch_virtualNodeNum ch) = Inr (node, md5')"
    "ch_store ch' = ch_store ch @ [node]" and n: "smap_ok (ch_hashMap ch')" and "smap_ok (ch_nodes ch')"
    "\<And>j. smap_find (ch_nodes ch') j = (if j = name then Some (length (ch_store ch)) else smap_find (ch_nodes ch) j)"
    and f: "\<And>j. smap_find (ch_hashMap ch') j = (case smap_find (ch_hashMap ch) j of Some v \<Rightarrow> Some v
       | None \<Rightarrow> if j \<in> set (hn_keys node) then Some (length (ch_store ch)) else None)"
    by (rule add_ring [OF inv add]) (rule that)
  from ring_lookup_next [OF n l'] have k: "ring_next (ring_keys ch') key k" "smap_find (ch_hashMap ch') k = Some p" by auto
  show ?thesis
  proof (cases "smap_find (ch_hashMap ch) k")
    case None
    with k(2) f [of k] show ?thesis by (simp split: if_splits)
  next
    case (Some v)
    then have "v = p" using k(2) f [of k] by simp
    moreover have "ring_keys ch \<subseteq> ring_keys ch'" using f by (auto simp: ring_keys_iff)
    then have "ring_next (ring_keys ch) key k" using ring_next_subset [OF k(1)] Some by (simp add: ring_keys_iff)
    ultimately show ?thesis using ring_lookup_eqI [of ch key k p] Some inv by (simp add: ring_inv_def)
  qed
qed

lemma delete_ring:
  assumes inv: "ring_inv ch" and del: "ConsistencyHash_deleteHashNodesFromString ch name = (ok, ch')"
    and p: "smap_find (ch_nodes ch) name = Some p"
  shows "ok \<and> ring_inv ch' \<and> ch_nodes ch' = ch_nodes ch \<and> ch_store ch' = ch_store ch \<and>
    (\<forall>j. smap_find (ch_hashMap ch') j = (if j \<in> set (hn_keys (ch_store ch ! p)) then None else smap_find (ch_hashMap ch) j))"
proof -
  let ?m = "fold (\<lambda>k m. smap_erase m k) (hn_keys (ch_store ch ! p)) (ch_hashMap ch)"
  have ok: "smap_ok (ch_hashMap ch)" using inv by (simp add: ring_inv_def)
  have ch': "ok" "ch' = ch\<lparr>ch_hashMap := ?m\<rparr>"
    using del p by (auto simp: ConsistencyHash_deleteHashNodesFromString_def)
  have "ring_inv ch'" using inv unfolding ring_inv_def ch'(2)
    by (auto simp: fold_erase_ok smap_entry_iff find_fold_erase split: if_splits)
  with ch' show ?thesis by (simp add: find_fold_erase [OF ok])
qed

lemma delete_ring_lookup:
  assumes inv: "ring_inv ch" and del: "ConsistencyHash_deleteHashNodesFromString ch name = (ok, ch')"
    and p: "smap_find (ch_nodes ch) name = Some p"
  shows "\<forall>key k q. ring_lookup ch' key = Some (k, q) \<longrightarrow> q \<noteq> p"
    and "ring_lookup ch key = Some (k, q) \<Longrightarrow> k \<notin> set (hn_keys (ch_store ch ! p)) \<Longrightarrow> ring_lookup ch' key = Some (k, q)"
proof -
  note d = delete_ring [OF assms]
  from d have ok': "smap_ok (ch_hashMap ch')" by (simp add: ring_inv_def)
  have f: "smap_find (ch_hashMap ch') j = (if j \<in> set (hn_keys (ch_store ch ! p)) then None else smap_find (ch_hashMap ch) j)" for j
    using d by blast
  show "\<forall>key k q. ring_lookup ch' key = Some (k, q) \<longrightarrow> q \<noteq> p"
  proof (intro allI impI)
    fix key k q assume "ring_lookup ch' key = Some (k, q)"
    from ring_lookup_next [OF ok' this] f [of k] have "k \<notin> set (hn_keys (ch_store ch ! p))" "smap_find (ch_hashMap ch) k = Some q"
      by (auto split: if_splits)
    then show "q \<noteq> p" using inv unfolding ring_inv_def by (auto dest: smap_find_in)
  qed
  assume l: "ring_lookup ch key = Some (k, q)" and k: "k \<notin> set (hn_keys (ch_store ch ! p))"
  have "smap_ok (ch_hashMap ch)" using inv by (simp add: ring_inv_def)
  from ring_lookup_next [OF this l] have n: "ring_next (ring_keys ch) key k" "smap_find (ch_hashMap ch) k = Some q" by auto
  have "ring_keys ch' \<subseteq> ring_keys ch" by (auto simp: ring_keys_iff f split: if_splits)
  moreover have "k \<in> ring_keys ch'" using n(2) k by (simp add: ring_keys_iff f)
  ultimately have "ring_next (ring_keys ch') key k" using ring_next_subset [OF n(1)] by blast
  then show "ring_lookup ch' key = Some (k, q)" using ok' n(2) k by (intro ring_lookup_eqI) (simp_all add: f)
qed

section \<open>The keys\<close>

text \<open>What \<open>ToULong32\<close> makes of a string where \<open>unsigned long\<close> has four bytes.\<close>

definition ring_hash :: "string \<Rightarrow> nat" where
  "ring_hash s = sum_list (md5_words 4 (rfc_md5 s)) mod 2 ^ 32"

definition env_ok :: "hash_env \<Rightarrow> bool" where
  "env_ok env \<longleftrightarrow> he_ul env = 4 \<and> length (mc_buffer (he_stack env)) = 64"

lemma generate_key:
  assumes "env_ok env" and "length md5 = 16" and "length s < 2 ^ 31"
  shows "MD5_GenerateMD5 (he_stack env) md5 s (int (length s)) = Inr (rfc_md5 s)"
    and "MD5_ToULong32 (he_ul env) (rfc_md5 s) = Inr (ring_hash s)"
  using assms by (simp_all add: env_ok_def GenerateMD5_ok MD5_ToULong32_def ring_hash_def)

lemma node_keys_ok:
  assumes "env_ok env" and "\<And>i. length (name @ he_suffix env i) < 2 ^ 31" and "length md5 = 16"
  shows "\<exists>md5'. node_keys env name n i md5 = Inr (map (\<lambda>j. ring_hash (name @ he_suffix env j)) [i..<i + n], md5') \<and>
    length md5' = 16"
  using assms(3)
proof (induction n arbitrary: i md5)
  case 0
  then show ?case by simp
next
  case (Suc n)
  have l: "length (name @ he_suffix env i) < 2 ^ 31" by (rule assms(2))
  note g = generate_key [OF assms(1) Suc.prems l]
  have "length (rfc_md5 (name @ he_suffix env i)) = 16" by simp
  from Suc.IH [OF this, of "Suc i"] obtain md5' where
    r: "node_keys env name n (Suc i) (rfc_md5 (name @ he_suffix env i)) =
      Inr (map (\<lambda>j. ring_hash (name @ he_suffix env j)) [Suc i..<Suc i + n], md5')" "length md5' = 16" by blast
  show ?case
    by (rule exI [where x = md5'])
      (simp only: node_keys.simps Let_def g bind_res_Inr r prod.case, simp add: upt_conv_Cons del: upt_Suc)
qed

text \<open>
  C19: Looking up a key finds its successor on the ring: the owner of the least virtual
  node whose key is larger than the hash of the string, or of the least one of all
  beyond the largest (the hash is the sum of the four words of the MD5 digest). Only the
  counter of that node changes; an empty ring gives no node.
\<close>
theorem ring_lookup_successor:
  assumes "ring_inv ch" and "env_ok env" and "length (ch_md5 ch) = 16" and "length key < 2 ^ 31"
  shows "\<exists>r ch'. ConsistencyHash_getMappingNodeFromKeyString env ch key = Inr (r, ch') \<and>
    ch_hashMap ch' = ch_hashMap ch \<and> ch_nodes ch' = ch_nodes ch \<and>
    (case r of
       None \<Rightarrow> ch_hashMap ch = [] \<and> ch_store ch' = ch_store ch
     | Some p \<Rightarrow> (\<exists>k. ring_next (ring_keys ch) (ring_hash key) k \<and> smap_find (ch_hashMap ch) k = Some p) \<and>
         ch_store ch' = (ch_store ch)[p := HashNode_increaseMappedCount (ch_store ch ! p)])"
proof -
  let ?ch = "ch\<lparr>ch_md5 := rfc_md5 key\<rparr>"
  note g = generate_key [OF assms(2-4)]
  have e: "ConsistencyHash_getMappingNodeFromKeyString env ch key =
    (let ((iter, valid), ch') = ConsistencyHash_getMappingNodeFromKey ?ch (ring_hash key)
     in Inr (if valid then map_option snd iter else None, ch'))"
    by (simp only: ConsistencyHash_getMappingNodeFromKeyString_def g bind_res_Inr)
  show ?thesis
  proof (cases "ring_lookup ?ch (ring_hash key)")
    case None
    then have "ch_hashMap ch = []" by (simp add: ring_lookup_None)
    then show ?thesis by (simp add: e ConsistencyHash_getMappingNodeFromKey_def)
  next
    case (Some kp)
    then obtain k p where l: "ring_lookup ?ch (ring_hash key) = Some (k, p)" by (cases kp) auto
    have "smap_ok (ch_hashMap ?ch)" using assms(1) by (simp add: ring_inv_def)
    from ring_lookup_next [OF this l] have n: "ring_next (ring_keys ch) (ring_hash key) k" "smap_find (ch_hashMap ch) k = Some p"
      by (simp_all add: ring_keys_def)
    have "ch_hashMap ch \<noteq> []" using n(2) by auto
    then have "ConsistencyHash_getMappingNodeFromKey ?ch (ring_hash key) = ((Some (k, p), True),
        ?ch\<lparr>ch_store := (ch_store ch)[p := HashNode_increaseMappedCount (ch_store ch ! p)]\<rparr>)"
      using l by (auto simp: ring_lookup_def ConsistencyHash_getMappingNodeFromKey_def Let_def split: option.splits list.splits)
    then show ?thesis using n by (auto simp: e)
  qed
qed

definition demo_env :: hash_env where
  "demo_env = \<lparr>he_ul = 4, he_stack = \<lparr>mc_total0 = 0, mc_total1 = 0, mc_state = (0, 0, 0, 0), mc_buffer = replicate 64 CHR ''z''\<rparr>,
     he_port = 0, he_suffix = (\<lambda>i. ''00''), he_split = (\<lambda>s. [s]), he_trim = (\<lambda>s. s)\<rparr>"

definition demo_node :: "string \<Rightarrow> nat list \<Rightarrow> hash_node" where
  "demo_node s ks = \<lparr>hn_keys = ks, hn_initName = s, hn_nameNum = int (length ks), hn_mappedCount = 0, hn_ip = [], hn_port = 0\<rparr>"

definition demo_ring :: cons_hash where
  "demo_ring = \<lparr>ch_virtualNodeNum = 1, ch_md5 = MD5_new 4, ch_nodes = [(''a:1'', 0), (''b:2'', 1)],
     ch_hashMap = [(10, 0), (20, 1), (30, 0)], ch_store = [demo_node ''a:1'' [30, 10], demo_node ''b:2'' [20]]\<rparr>"

lemma demo_env_ok: "env_ok demo_env"
  by (simp add: env_ok_def demo_env_def)

lemma demo_ring_inv: "ring_inv demo_ring"
  by (simp add: ring_inv_def demo_ring_def demo_node_def smap_ok_Cons)

theorem ring_lookup_successor_witness:
  "\<exists>r ch'. ConsistencyHash_getMappingNodeFromKeyString demo_env demo_ring ''k'' = Inr (r, ch') \<and>
    ch_hashMap ch' = ch_hashMap demo_ring \<and> ch_nodes ch' = ch_nodes demo_ring \<and>
    (case r of
       None \<Rightarrow> ch_hashMap demo_ring = [] \<and> ch_store ch' = ch_store demo_ring
     | Some p \<Rightarrow> (\<exists>k. ring_next (ring_keys demo_ring) (ring_hash ''k'') k \<and> smap_find (ch_hashMap demo_ring) k = Some p) \<and>
         ch_store ch' = (ch_store demo_ring)[p := HashNode_increaseMappedCount (ch_store demo_ring ! p)])"
  by (rule ring_lookup_successor [OF demo_ring_inv demo_env_ok]) (simp_all add: demo_ring_def)

text \<open>
  C21: Consistency of the hashing: when a server joins, a key either keeps the virtual
  node and the server it had or moves to the new server (index \<open>length (ch_store ch)\<close>),
  never from one old server to another; the ring stays well formed.
\<close>
theorem ring_add_moves_to_new:
  assumes "ring_inv ch" and "ConsistencyHash_addHashNodesFromString env ch name = Inr (True, ch')"
  shows "ring_inv ch' \<and> (\<forall>key k p. ring_lookup ch' key = Some (k, p) \<longrightarrow>
    p = length (ch_store ch) \<or> ring_lookup ch key = Some (k, p))"
  using add_ring_inv [OF assms] add_ring_lookup [OF assms] by blast

lemma demo_add: "\<exists>ch'. ConsistencyHash_addHashNodesFromString demo_env demo_ring ''c:3'' = Inr (True, ch')"
proof -
  have "length (MD5_new 4) = 16" by simp
  moreover have "length (''c:3'' @ he_suffix demo_env i) < 2 ^ 31" for i by (simp add: demo_env_def)
  ultimately obtain md5' where "node_keys demo_env ''c:3'' 1 0 (MD5_new 4) =
      Inr (map (\<lambda>j. ring_hash (''c:3'' @ he_suffix demo_env j)) [0..<0 + 1], md5')"
    using node_keys_ok [OF demo_env_ok, of "''c:3''" "MD5_new 4" 1 0] by blast
  moreover have "length (he_split demo_env ''c:3'') \<noteq> 2" by (simp add: demo_env_def)
  moreover have "ch_md5 demo_ring = MD5_new 4" "nat (ch_virtualNodeNum demo_ring) = 1" "smap_find (ch_nodes demo_ring) ''c:3'' = None"
    by (simp_all add: demo_ring_def)
  ultimately show ?thesis
    by (simp add: ConsistencyHash_addHashNodesFromString_def HashNode_new_def Let_def del: node_keys.simps)
qed

theorem ring_add_moves_to_new_witness:
  "\<exists>ch'. ConsistencyHash_addHashNodesFromString demo_env demo_ring ''c:3'' = Inr (True, ch') \<and> ring_inv ch' \<and>
    (\<forall>key k p. ring_lookup ch' key = Some (k, p) \<longrightarrow> p = 2 \<or> ring_lookup demo_ring key = Some (k, p))"
proof -
  obtain ch' where a: "ConsistencyHash_addHashNodesFromString demo_env demo_ring ''c:3'' = Inr (True, ch')"
    using demo_add by (elim exE)
  have "length (ch_store demo_ring) = 2" by (simp add: demo_ring_def)
  with ring_add_moves_to_new [OF demo_ring_inv a] a show ?thesis by auto
qed

text \<open>
  When a server is deleted, no key maps to it any more, and a key that another virtual
  node owned stays where it was, unless that node's key collides with one of the server's.
\<close>
theorem ring_delete_keeps_others:
  assumes "ring_inv ch" and "smap_find (ch_nodes ch) name = Some p"
    and "ConsistencyHash_deleteHashNodesFromString ch name = (ok, ch')"
  shows "ok \<and> ring_inv ch' \<and> (\<forall>key k q. ring_lookup ch' key = Some (k, q) \<longrightarrow> q \<noteq> p) \<and>
    (\<forall>key k q. ring_lookup ch key = Some (k, q) \<longrightarrow> k \<notin> set (hn_keys (ch_store ch ! p)) \<longrightarrow>
       ring_lookup ch' key = Some (k, q))"
proof (intro conjI)
  show "ok" "ring_inv ch'" using delete_ring [OF assms(1,3,2)] by simp_all
  show "\<forall>key k q. ring_lookup ch' key = Some (k, q) \<longrightarrow> q \<noteq> p"
    by (rule delete_ring_lookup(1) [OF assms(1,3,2)])
  show "\<forall>key k q. ring_lookup ch key = Some (k, q) \<longrightarrow> k \<notin> set (hn_keys (ch_store ch ! p)) \<longrightarrow>
       ring_lookup ch' key = Some (k, q)"
    by (intro allI impI) (rule delete_ring_lookup(2) [OF assms(1,3,2)])
qed

theorem ring_delete_keeps_others_witness:
  "\<exists>ch'. ConsistencyHash_deleteHashNodesFromString demo_ring ''a:1'' = (True, ch') \<and>
    (\<forall>key k q. ring_lookup ch' key = Some (k, q) \<longrightarrow> q \<noteq> 0) \<and> ring_lookup ch' 15 = Some (20, 1)"
proof -
  obtain ok ch' where d: "ConsistencyHash_deleteHashNodesFromString demo_ring ''a:1'' = (ok, ch')" by (metis surj_pair)
  have n: "smap_find (ch_nodes demo_ring) ''a:1'' = Some 0" by (simp add: demo_ring_def)
  have l: "ring_lookup demo_ring 15 = Some (20, 1)" "20 \<notin> set (hn_keys (ch_store demo_ring ! 0))"
    by (simp_all add: ring_lookup_def ConsistencyHash_getMappingNodeFromKey_def demo_ring_def demo_node_def)
  from ring_delete_keeps_others [OF demo_ring_inv n d] l d show ?thesis by auto
qed

text \<open>
  A deleted server can never come back: \<open>deleteHashNodesFromString\<close> leaves the name in
  \<open>nodes_\<close>, so that a later \<open>addHashNodesFromString\<close> returns false and adds nothing.
\<close>
theorem ring_readd_fails:
  assumes "smap_find (ch_nodes ch) name = Some p"
  shows "ConsistencyHash_addHashNodesFromString env (snd (ConsistencyHash_deleteHashNodesFromString ch name)) name =
    Inr (False, snd (ConsistencyHash_deleteHashNodesFromString ch name))"
  using assms by (simp add: ConsistencyHash_addHashNodesFromString_def ConsistencyHash_deleteHashNodesFromString_def)

theorem ring_readd_fails_witness:
  "ConsistencyHash_addHashNodesFromString demo_env (snd (ConsistencyHash_deleteHashNodesFromString demo_ring ''a:1'')) ''a:1'' =
    Inr (False, snd (ConsistencyHash_deleteHashNodesFromString demo_ring ''a:1''))"
  by (rule ring_readd_fails [where p = 0]) (simp add: demo_ring_def)

text \<open>
  Where \<open>unsigned long\<close> has eight bytes (every 64-bit Linux) the ring cannot be used:
  adding a server with at least one virtual node ends in the failed assertion of
  \<open>ToULong32\<close>, and so does every lookup by string.
\<close>
theorem ring_aborts_on_LP64:
  assumes "he_ul env = 8" and "length (mc_buffer (he_stack env)) = 64" and "length (ch_md5 ch) = 32"
    and "0 < ch_virtualNodeNum ch" and "smap_find (ch_nodes ch) name = None"
    and "length (name @ he_suffix env 0) < 2 ^ 31" and "length key < 2 ^ 31"
  shows "ConsistencyHash_addHashNodesFromString env ch name = Inl AssertFailed \<and>
    ConsistencyHash_getMappingNodeFromKeyString env ch key = Inl AssertFailed"
proof
  from assms(4) obtain n where n: "nat (ch_virtualNodeNum ch) = Suc n" by (cases "nat (ch_virtualNodeNum ch)") auto
  have g: "MD5_GenerateMD5 (he_stack env) (ch_md5 ch) s (int (length s)) = Inr (rfc_md5 s @ drop 16 (ch_md5 ch))"
    if "length s < 2 ^ 31" for s using that assms(2,3) by (simp add: GenerateMD5_ok)
  have a: "MD5_ToULong32 (he_ul env) m = Inl AssertFailed" for m using assms(1) by (simp add: MD5_ToULong32_def)
  have "node_keys env name (Suc n) 0 (ch_md5 ch) = Inl AssertFailed"
    by (simp only: node_keys.simps Let_def g [OF assms(6)] a bind_res_Inr bind_res_Inl)
  then show "ConsistencyHash_addHashNodesFromString env ch name = Inl AssertFailed"
    using assms(5) by (simp add: ConsistencyHash_addHashNodesFromString_def HashNode_new_def n del: node_keys.simps)
  show "ConsistencyHash_getMappingNodeFromKeyString env ch key = Inl AssertFailed"
    by (simp only: ConsistencyHash_getMappingNodeFromKeyString_def g [OF assms(7)] a bind_res_Inr bind_res_Inl)
qed

theorem ring_aborts_on_LP64_witness:
  "ConsistencyHash_addHashNodesFromString (demo_env\<lparr>he_ul := 8\<rparr>) (ConsistencyHash_new (demo_env\<lparr>he_ul := 8\<rparr>) 3) ''a:1'' =
      Inl AssertFailed \<and>
    ConsistencyHash_getMappingNodeFromKeyString (demo_env\<lparr>he_ul := 8\<rparr>) (ConsistencyHash_new (demo_env\<lparr>he_ul := 8\<rparr>) 3) ''k'' =
      Inl AssertFailed"
  by (rule ring_aborts_on_LP64) (simp_all add: demo_env_def ConsistencyHash_new_def)

end
