(* ===== verification/Tcp_Connection.thy ===== *)
theory Tcp_Connection
  imports Buffer Event_Loop
begin

text \<open>
  \<open>src/base/TcpConnection.h\<close> and \<open>TcpConnection.cpp\<close>: a connected socket with its read and
  write buffers, registered with an event loop. An operation acts on the connection and
  its loop together; the callbacks of the user are functions on that pair. The bytes
  that \<open>write\<close> took are the field \<open>tc_sent\<close>, the socket's side of the connection. The
  results of \<open>write\<close> are arguments, in order, so that a retry after \<open>EINTR\<close> reads the
  next one. Lemmas: the bytes sent and buffered are those handed over, an orderly
  shutdown waits for them, and pending bytes are watched for.
\<close>

section \<open>State\<close>

record tcp_conn =
  tc_fd :: int
  tc_handle :: hid
  tc_readBuffer :: buffer
  tc_writeBuffer :: buffer
  tc_shouldBeClosed :: bool
  tc_closeing :: bool
  tc_acceptTime :: timestamp
  tc_sendAllDataOut :: bool
  tc_hasMoreData :: bool
  tc_sent :: "char list"

type_synonym ('p, 'u) tcp_world = "tcp_conn \<times> ('p, 'u) evloop"

definition upd_conn :: "(tcp_conn \<Rightarrow> tcp_conn) \<Rightarrow> ('p, 'u) tcp_world \<Rightarrow> ('p, 'u) tcp_world" where
  "upd_conn g w = (g (fst w), snd w)"

record 'w tcp_callbacks =
  cb_message :: "(timestamp \<Rightarrow> 'w \<Rightarrow> 'w res) option"
  cb_close :: "('w \<Rightarrow> 'w res) option"
  cb_moreData :: "('w \<Rightarrow> 'w res) option"

definition TcpConnection_setOnMessageCallBack :: "(timestamp \<Rightarrow> 'w \<Rightarrow> 'w res) option \<Rightarrow> 'w tcp_callbacks \<Rightarrow> 'w tcp_callbacks" where
  [simp]: "TcpConnection_setOnMessageCallBack cb cbs = cbs\<lparr>cb_message := cb\<rparr>"

definition TcpConnection_setOnCloseCallBack :: "('w \<Rightarrow> 'w res) option \<Rightarrow> 'w tcp_callbacks \<Rightarrow> 'w tcp_callbacks" where
  [simp]: "TcpConnection_setOnCloseCallBack cb cbs = cbs\<lparr>cb_close := cb\<rparr>"

definition TcpConnection_SetHasMoreDataCallback :: "('w \<Rightarrow> 'w res) option \<Rightarrow> 'w tcp_callbacks \<Rightarrow> 'w tcp_callbacks" where
  [simp]: "TcpConnection_SetHasMoreDataCallback cb cbs = cbs\<lparr>cb_moreData := cb\<rparr>"

definition TcpConnection_messageCallbackVaild :: "'w tcp_callbacks \<Rightarrow> bool" where
  "TcpConnection_messageCallbackVaild cbs \<longleftrightarrow> cb_message cbs \<noteq> None"

definition EAGAIN :: int where "EAGAIN = 11"
definition EWOULDBLOCK :: int where "EWOULDBLOCK = 11"

section \<open>Operations\<close>

text \<open>
  The constructor; \<open>h\<close> is the address of the new handle and \<open>junk\<close> the value of
  \<open>hasMoreData_\<close>, which the constructor leaves uninitialised.
\<close>

definition TcpConnection_new ::
    "'p poller_ops \<Rightarrow> bool \<Rightarrow> hid \<Rightarrow> bool \<Rightarrow> events \<Rightarrow> timestamp \<Rightarrow> ('p, 'u) evloop \<Rightarrow> ('p, 'u) tcp_world res" where
  "TcpConnection_new ops own h junk event now l =
     bind_res (Buffer_new 1024) (\<lambda>rb. bind_res (Buffer_new 1024) (\<lambda>wb.
     let c = \<lparr>tc_fd = Events_getFd event, tc_handle = h, tc_readBuffer = rb, tc_writeBuffer = wb,
              tc_shouldBeClosed = False, tc_closeing = False, tc_acceptTime = now,
              tc_sendAllDataOut = True, tc_hasMoreData = junk, tc_sent = []\<rparr>;
         l' = pin h (set_handle l h (Handle_new (Some (el_id l)) event))
     in bind_res (EventLoop_addHandle ops own h l') (\<lambda>(ok, l''). Inr (c, l''))))"

definition TcpConnection_setHasMoreData :: "tcp_conn \<Rightarrow> tcp_conn" where
  "TcpConnection_setHasMoreData c = c\<lparr>tc_hasMoreData := True\<rparr>"

definition TcpConnection_unsetHasMoreData :: "tcp_conn \<Rightarrow> tcp_conn" where
  "TcpConnection_unsetHasMoreData c = c\<lparr>tc_hasMoreData := False\<rparr>"

definition TcpConnection_putDataToWriteBuffer :: "tcp_conn \<Rightarrow> char list \<Rightarrow> tcp_conn res" where
  "TcpConnection_putDataToWriteBuffer c data =
     bind_res (Buffer_append (tc_writeBuffer c) data)
       (\<lambda>b. Inr (c\<lparr>tc_sendAllDataOut := False, tc_writeBuffer := b\<rparr>))"

definition TcpConnection_sendData ::
    "'p poller_ops \<Rightarrow> bool \<Rightarrow> char list \<Rightarrow> ('p, 'u) tcp_world \<Rightarrow> ('p, 'u) tcp_world res" where
  "TcpConnection_sendData ops own data w =
     (let (c, l) = w in
      bind_res (handle_at l (tc_handle c)) (\<lambda>x.
      bind_res (EventLoop_modHandle ops own (tc_handle c) (set_handle l (tc_handle c) (Handle_enableWrite x)))
        (\<lambda>(ok, l').
      bind_res (TcpConnection_putDataToWriteBuffer c data) (\<lambda>c'. Inr (c', l')))))"

text \<open>\<open>c_str()\<close> with \<open>size()\<close> passes every byte of the string.\<close>

definition TcpConnection_sendString ::
    "'p poller_ops \<Rightarrow> bool \<Rightarrow> char list \<Rightarrow> ('p, 'u) tcp_world \<Rightarrow> ('p, 'u) tcp_world res" where
  "TcpConnection_sendString ops own msg w = TcpConnection_sendData ops own msg w"

definition TcpConnection_shutdown ::
    "'p poller_ops \<Rightarrow> bool \<Rightarrow> ('p, 'u) tcp_world tcp_callbacks \<Rightarrow> ('p, 'u) tcp_world \<Rightarrow> ('p, 'u) tcp_world res" where
  "TcpConnection_shutdown ops own cbs w =
     (let (c, l) = w in
      if tc_closeing c then Inr w
      else if tc_sendAllDataOut c
      then bind_res (EventLoop_delHandle ops own (tc_handle c) l) (\<lambda>(ok, l').
           case cb_close cbs of
             None \<Rightarrow> Inr (c, l')
           | Some f \<Rightarrow> f (c\<lparr>tc_closeing := True\<rparr>, l'))
      else Inr (c\<lparr>tc_shouldBeClosed := True\<rparr>, l))"

definition TcpConnection_handleClose ::
    "'p poller_ops \<Rightarrow> bool \<Rightarrow> ('p, 'u) tcp_world tcp_callbacks \<Rightarrow> ('p, 'u) tcp_world \<Rightarrow> ('p, 'u) tcp_world res" where
  "TcpConnection_handleClose ops own cbs w =
     TcpConnection_shutdown ops own cbs ((fst w)\<lparr>tc_sendAllDataOut := True\<rparr>, snd w)"

definition TcpConnection_handleError :: "bool \<Rightarrow> ('p, 'u) tcp_world \<Rightarrow> ('p, 'u) tcp_world res" where
  "TcpConnection_handleError own w = (if \<not> own then Inl AssertFailed else Inr w)"

text \<open>\<open>got\<close> is what the \<open>readv\<close> of \<open>readFd\<close> returns.\<close>

definition TcpConnection_handleRead :: "'p poller_ops \<Rightarrow> bool \<Rightarrow> ('p, 'u) tcp_world tcp_callbacks \<Rightarrow>
    events \<Rightarrow> timestamp \<Rightarrow> io_result \<Rightarrow> ('p, 'u) tcp_world \<Rightarrow> ('p, 'u) tcp_world res" where
  "TcpConnection_handleRead ops own cbs revents time got w =
     (if \<not> own then Inl AssertFailed
      else bind_res (if Events_getFd revents \<noteq> tc_fd (fst w) \<and> \<not> tc_closeing (fst w)
                     then TcpConnection_handleClose ops own cbs w else Inr w) (\<lambda>w1.
        bind_res (Buffer_readFd (tc_readBuffer (fst w1)) got) (\<lambda>(ret, err, b).
        let w2 = ((fst w1)\<lparr>tc_readBuffer := b\<rparr>, snd w1) in
        if ret = 0 then (if \<not> tc_closeing (fst w2) then TcpConnection_handleClose ops own cbs w2 else Inr w2)
        else if ret < 0 then Inr w2
        else (case cb_message cbs of None \<Rightarrow> Inr w2 | Some f \<Rightarrow> f time w2))))"

datatype write_result = WriteError int | WriteBytes nat

text \<open>The label \<open>reWrite\<close>: \<open>None\<close> while every result so far was an interruption.\<close>

fun reWrite :: "write_result list \<Rightarrow> write_result option" where
  "reWrite [] = None"
| "reWrite (WriteError e # rs) = (if e = EAGAIN \<or> e = EWOULDBLOCK then Some (WriteError e)
     else if e = EINTR then reWrite rs else Some (WriteError e))"
| "reWrite (WriteBytes n # rs) = Some (WriteBytes n)"

text \<open>The rest of \<open>handleWrite\<close>, once \<open>write\<close> took \<open>n > 0\<close> bytes.\<close>

definition TcpConnection_written :: "'p poller_ops \<Rightarrow> bool \<Rightarrow> ('p, 'u) tcp_world tcp_callbacks \<Rightarrow> nat \<Rightarrow>
    ('p, 'u) tcp_world \<Rightarrow> ('p, 'u) tcp_world res" where
  "TcpConnection_written ops own cbs n w =
     (let c = fst w; readablesizes = sz_sub (Buffer_readableBytes (tc_writeBuffer c)) n;
          gone = take n (Buffer_content (tc_writeBuffer c))
      in bind_res (Buffer_retrieve (tc_writeBuffer c) n) (\<lambda>b.
      let w1 = (c\<lparr>tc_writeBuffer := b, tc_sent := tc_sent c @ gone\<rparr>, snd w) in
      bind_res (case (tc_hasMoreData c, cb_moreData cbs) of
          (True, Some f) \<Rightarrow> bind_res (f w1) (\<lambda>w2. Inr (w2, Buffer_readableBytes (tc_writeBuffer (fst w2))))
        | _ \<Rightarrow> Inr (w1, readablesizes)) (\<lambda>(w2, left).
      if left = 0
      then let w3 = ((fst w2)\<lparr>tc_sendAllDataOut := True\<rparr>, snd w2) in
           if tc_shouldBeClosed (fst w3) then TcpConnection_handleClose ops own cbs w3
           else bind_res (handle_at (snd w3) (tc_handle (fst w3))) (\<lambda>x.
                bind_res (EventLoop_modHandle ops own (tc_handle (fst w3))
                    (set_handle (snd w3) (tc_handle (fst w3)) (Handle_disableWrite x))) (\<lambda>(ok, l').
                Inr (fst w3, l')))
      else Inr w2)))"

definition TcpConnection_handleWrite :: "'p poller_ops \<Rightarrow> bool \<Rightarrow> ('p, 'u) tcp_world tcp_callbacks \<Rightarrow>
    write_result list \<Rightarrow> ('p, 'u) tcp_world \<Rightarrow> ('p, 'u) tcp_world res option" where
  "TcpConnection_handleWrite ops own cbs rs w =
     (if \<not> own then Some (Inl AssertFailed)
      else case reWrite rs of
        None \<Rightarrow> None
      | Some (WriteError e) \<Rightarrow> Some (Inr w)
      | Some (WriteBytes n) \<Rightarrow> Some
          (if n = 0
           then (if \<not> tc_closeing (fst w)
                 then TcpConnection_handleClose ops own cbs ((fst w)\<lparr>tc_sendAllDataOut := True\<rparr>, snd w)
                 else Inr w)
           else TcpConnection_written ops own cbs n w))"

definition TcpConnection_clearInLoop :: "bool \<Rightarrow> ('p, 'u) tcp_world \<Rightarrow> ('p, 'u) tcp_world res" where
  "TcpConnection_clearInLoop own w =
     (if \<not> own then Inl AssertFailed else if \<not> tc_closeing (fst w) then Inl AssertFailed else Inr w)"

definition TcpConnection_destroy :: "'p poller_ops \<Rightarrow> bool \<Rightarrow> ('p, 'u) tcp_world \<Rightarrow> ('p, 'u) evloop res" where
  "TcpConnection_destroy ops own w =
     (if \<not> tc_closeing (fst w)
      then bind_res (EventLoop_delHandle ops own (tc_handle (fst w)) (snd w)) (\<lambda>(ok, l'). Inr l')
      else Inr (snd w))"

lemmas tcp_defs =
  TcpConnection_putDataToWriteBuffer_def TcpConnection_sendData_def TcpConnection_shutdown_def
  TcpConnection_handleClose_def TcpConnection_handleWrite_def TcpConnection_written_def

section \<open>Connections that are open\<close>

text \<open>
  The connection is registered, and the kernel watches the events of its handle; while
  bytes wait in the write buffer these include writability, and the connection knows
  that not everything is out.
\<close>

definition conn_ok :: "('k \<Rightarrow> int \<Rightarrow> 32 word option) \<Rightarrow> (epoll \<times> 'k, 'u) tcp_world \<Rightarrow> bool" where
  "conn_ok registered w \<longleftrightarrow>
     (let (c, l) = w; pending = Buffer_content (tc_writeBuffer c) in
      epoll_loop_inv registered l \<and> el_updates l = [] \<and>
      smap_find (el_handles l) (tc_fd c) = Some (tc_handle c) \<and> Buffer_inv (tc_writeBuffer c) \<and>
      (pending \<noteq> [] \<longrightarrow> \<not> tc_sendAllDataOut c) \<and>
      (case el_store l (tc_handle c) of None \<Rightarrow> False
       | Some x \<Rightarrow> registered (snd (el_poll l)) (tc_fd c) = Some (ev_mask (h_events x)) \<and>
           (pending \<noteq> [] \<longrightarrow> Events_containsEvents (h_events x) kWriteEvent)))"

lemma conn_okD:
  assumes "conn_ok registered (c, l)"
  shows "epoll_loop_inv registered l" "el_updates l = []"
    "smap_find (el_handles l) (tc_fd c) = Some (tc_handle c)" "Buffer_inv (tc_writeBuffer c)"
    "Buffer_content (tc_writeBuffer c) \<noteq> [] \<longrightarrow> \<not> tc_sendAllDataOut c"
    "\<exists>x. el_store l (tc_handle c) = Some x \<and> registered (snd (el_poll l)) (tc_fd c) = Some (ev_mask (h_events x)) \<and>
       (Buffer_content (tc_writeBuffer c) \<noteq> [] \<longrightarrow> Events_containsEvents (h_events x) kWriteEvent)"
  using assms by (auto simp: conn_ok_def Let_def split: option.splits)

lemma conn_okI:
  assumes "epoll_loop_inv registered l" "el_updates l = []"
    "smap_find (el_handles l) (tc_fd c) = Some (tc_handle c)" "Buffer_inv (tc_writeBuffer c)"
    "Buffer_content (tc_writeBuffer c) \<noteq> [] \<Longrightarrow> \<not> tc_sendAllDataOut c"
    "el_store l (tc_handle c) = Some x" "registered (snd (el_poll l)) (tc_fd c) = Some (ev_mask (h_events x))"
    "Buffer_content (tc_writeBuffer c) \<noteq> [] \<Longrightarrow> Events_containsEvents (h_events x) kWriteEvent"
  shows "conn_ok registered (c, l)"
  using assms by (simp add: conn_ok_def)

lemma conn_ok_app [simp]: "conn_ok registered (c, l\<lparr>el_app := a\<rparr>) = conn_ok registered (c, l)"
  by (simp add: conn_ok_def epoll_loop_inv_def loop_inv_def registered_ok_def pending_ok_def good_handle_def Let_def split: option.split)

text \<open>Registering an event and sending leave the application's state alone.\<close>

lemma updateOne_app: "EventLoop_updateOne ops cur l = Inr l' \<Longrightarrow> el_app l' = el_app l"
  by (auto simp: EventLoop_updateOne_def Let_def res_simps set_handle_def split: handle_state.splits if_splits)
    (use handle_state.exhaust in blast)

lemma update_all_app: "update_all ops us l = Inr l' \<Longrightarrow> el_app l' = el_app l"
  by (induction us arbitrary: l) (auto simp: res_simps dest!: updateOne_app)

lemma modHandle_app: "EventLoop_modHandle ops own h l = Inr (r, l') \<Longrightarrow> el_app l' = el_app l"
  by (auto simp: EventLoop_modHandle_def EventLoop_changeHandle_def EventLoop_updateHandle_def EventLoop_updateHandlesUnlock_def
    Let_def res_simps set_handle_def drop_dead_def dest!: update_all_app split: option.splits if_splits)

lemma delHandle_app: "EventLoop_delHandle ops own h l = Inr (r, l') \<Longrightarrow> el_app l' = el_app l"
  by (auto simp: EventLoop_delHandle_def EventLoop_changeHandle_def EventLoop_updateHandle_def EventLoop_updateHandlesUnlock_def
    Let_def res_simps set_handle_def drop_dead_def dest!: update_all_app split: option.splits if_splits)

lemma sendData_frame:
  "TcpConnection_sendData ops own data (c, l) = Inr (c', l') \<Longrightarrow>
    el_app l' = el_app l \<and> tc_shouldBeClosed c' = tc_shouldBeClosed c \<and> tc_readBuffer c' = tc_readBuffer c \<and>
    \<not> tc_sendAllDataOut c'"
  by (auto simp: TcpConnection_sendData_def TcpConnection_putDataToWriteBuffer_def res_simps set_handle_def dest!: modHandle_app)

lemma conn_ok_readBuffer [simp]: "conn_ok registered (c\<lparr>tc_readBuffer := b\<rparr>, l) = conn_ok registered (c, l)"
  by (simp add: conn_ok_def Let_def cong: option.case_cong)

lemma conn_ok_shouldBeClosed [simp]: "conn_ok registered (c\<lparr>tc_shouldBeClosed := b\<rparr>, l) = conn_ok registered (c, l)"
  by (simp add: conn_ok_def Let_def cong: option.case_cong)

text \<open>What a close callback may do here: anything to the loop, nothing to the connection.\<close>

definition close_ok :: "('p, 'u) tcp_world tcp_callbacks \<Rightarrow> bool" where
  "close_ok cbs \<longleftrightarrow> (\<exists>f. cb_close cbs = Some f \<and> (\<forall>c l. \<exists>l'. f (c, l) = Inr (c, l')))"

context epoll_kernel begin

lemma epoll_inv_nil:
  "epoll_loop_inv registered l \<Longrightarrow> el_updates l = [] \<Longrightarrow>
   loop_inv (\<lambda>p. ep_fd (fst p) \<noteq> -1) (\<lambda>m. True) (\<lambda>p. registered (snd p)) [] l"
  by (simp add: epoll_loop_inv_def)

lemma rearm_ok:
  assumes inv: "epoll_loop_inv registered l" "el_updates l = []"
    and h: "smap_find (el_handles l) fd = Some h" and x: "el_store l h = Some x"
    and reg: "registered (snd (el_poll l)) fd \<noteq> None"
    and x': "h_state x' = h_state x" "h_loop x' = h_loop x" "Handle_fd x' = Handle_fd x"
  shows "\<exists>l'. EventLoop_modHandle (epoll_ops ctl) True h (set_handle l h x') = Inr (True, l') \<and>
    epoll_loop_inv registered l' \<and> el_updates l' = [] \<and> smap_find (el_handles l') fd = Some h \<and>
    el_store l' h = Some x' \<and> registered (snd (el_poll l')) fd = Some (ev_mask (h_events x'))"
proof -
  have "loop_inv (\<lambda>p. ep_fd (fst p) \<noteq> -1) (\<lambda>m. True) (\<lambda>p. registered (snd p)) [] (set_handle l h x')"
    by (rule loop_inv_store [OF epoll_inv_nil [OF inv]]) (simp add: x x')
  from modHandle_owner [OF this, of fd h x'] inv(2) h reg show ?thesis
    by (auto simp: epoll_loop_inv_def)
qed

lemma send_ok:
  assumes ok: "conn_ok registered (c, l)" and len: "length data \<le> vec_max"
  shows "case TcpConnection_sendData (epoll_ops ctl) True data (c, l) of
     Inl e \<Rightarrow> e = LengthError
   | Inr (c', l') \<Rightarrow> conn_ok registered (c', l') \<and>
       Buffer_content (tc_writeBuffer c') = Buffer_content (tc_writeBuffer c) @ data \<and>
       tc_sent c' = tc_sent c \<and> tc_closeing c' = tc_closeing c \<and> tc_hasMoreData c' = tc_hasMoreData c"
proof -
  note inv = conn_okD [OF ok]
  from inv(6) obtain x where x: "el_store l (tc_handle c) = Some x"
    "registered (snd (el_poll l)) (tc_fd c) = Some (ev_mask (h_events x))" by blast
  from rearm_ok [OF inv(1-3) x(1), of "Handle_enableWrite x"] x(2) obtain l' where
    l': "EventLoop_modHandle (epoll_ops ctl) True (tc_handle c) (set_handle l (tc_handle c) (Handle_enableWrite x)) = Inr (True, l')"
      "epoll_loop_inv registered l'" "el_updates l' = []" "smap_find (el_handles l') (tc_fd c) = Some (tc_handle c)"
      "el_store l' (tc_handle c) = Some (Handle_enableWrite x)"
      "registered (snd (el_poll l')) (tc_fd c) = Some (ev_mask (h_events (Handle_enableWrite x)))" by auto
  have watch: "Events_containsEvents (h_events (Handle_enableWrite x)) kWriteEvent"
    by (simp add: Handle_enableWrite_def Events_add_contains)
  show ?thesis
  proof (cases "Buffer_append (tc_writeBuffer c) data")
    case (Inl e)
    then have "e = LengthError"
      using Buffer_append_ok [OF inv(4) len] Buffer_append_too_long [OF inv(4) len]
      by (metis Inl_inject Inr_Inl_False linorder_not_le)
    with Inl x(1) l'(1) show ?thesis by (simp add: tcp_defs)
  next
    case (Inr b)
    note b = Buffer_appendD [OF inv(4) len Inr]
    have "conn_ok registered (c\<lparr>tc_sendAllDataOut := False, tc_writeBuffer := b\<rparr>, l')"
      by (rule conn_okI [where x = "Handle_enableWrite x"]) (use l' b watch in simp_all)
    with Inr x(1) l'(1) b show ?thesis by (simp add: tcp_defs)
  qed
qed

lemma close_closes_app:
  assumes ok: "conn_ok registered (c, l)" and nc: "\<not> tc_closeing c"
    and f: "cb_close cbs = Some f" "\<And>c l1. el_app l1 = el_app l \<Longrightarrow> \<exists>l'. f (c, l1) = Inr (c, l') \<and> K (el_app l')"
    and c': "tc_handle c' = tc_handle c" "\<not> tc_closeing c'"
  shows "\<exists>l'. TcpConnection_handleClose (epoll_ops ctl) True cbs (c', l) =
    Inr (c'\<lparr>tc_sendAllDataOut := True, tc_closeing := True\<rparr>, l') \<and> K (el_app l')"
proof -
  note inv = conn_okD [OF ok]
  from delHandle_owner [OF epoll_inv_nil [OF inv(1,2)] inv(2,3)] obtain l1 where
    l1: "EventLoop_delHandle (epoll_ops ctl) True (tc_handle c) l = Inr (True, l1)" by blast
  from f(2) [OF delHandle_app [OF l1]] obtain l2 where
    "f (c'\<lparr>tc_sendAllDataOut := True, tc_closeing := True\<rparr>, l1) =
      Inr (c'\<lparr>tc_sendAllDataOut := True, tc_closeing := True\<rparr>, l2) \<and> K (el_app l2)" by blast
  with l1 f(1) c' show ?thesis by (simp add: tcp_defs)
qed

lemma close_closes:
  assumes ok: "conn_ok registered (c, l)" and cb: "close_ok cbs" and nc: "\<not> tc_closeing c"
    and c': "tc_handle c' = tc_handle c" "\<not> tc_closeing c'"
  shows "\<exists>l'. TcpConnection_handleClose (epoll_ops ctl) True cbs (c', l) =
    Inr (c'\<lparr>tc_sendAllDataOut := True, tc_closeing := True\<rparr>, l')"
  using cb close_closes_app [OF ok nc _ _ c', of cbs _ "\<lambda>a. True"] by (auto simp: close_ok_def)

end

context epoll_kernel begin

text \<open>After \<open>write\<close> took \<open>n\<close> of the pending bytes: open still, or closed with nothing left.\<close>

lemma written_ok:
  assumes ok: "conn_ok registered (c, l)" and cb: "close_ok cbs" and nc: "\<not> tc_closeing c"
    and more: "\<not> tc_hasMoreData c" and n: "0 < n" "n \<le> length (Buffer_content (tc_writeBuffer c))"
  shows "\<exists>c' l'. TcpConnection_written (epoll_ops ctl) True cbs n (c, l) = Inr (c', l') \<and>
    tc_sent c' @ Buffer_content (tc_writeBuffer c') = tc_sent c @ Buffer_content (tc_writeBuffer c) \<and>
    tc_hasMoreData c' = tc_hasMoreData c \<and>
    (if tc_closeing c' then Buffer_content (tc_writeBuffer c') = [] else conn_ok registered (c', l'))"
proof -
  note inv = conn_okD [OF ok]
  let ?pending = "Buffer_content (tc_writeBuffer c)"
  from inv(6) obtain x where x: "el_store l (tc_handle c) = Some x"
    "registered (snd (el_poll l)) (tc_fd c) = Some (ev_mask (h_events x))"
    "?pending \<noteq> [] \<longrightarrow> Events_containsEvents (h_events x) kWriteEvent" by blast
  from Buffer_retrieve_ok [OF inv(4) n(2)] obtain b where
    b: "Buffer_retrieve (tc_writeBuffer c) n = Inr b" "Buffer_inv b" "Buffer_content b = drop n ?pending" by blast
  let ?c1 = "c\<lparr>tc_writeBuffer := b, tc_sent := tc_sent c @ take n ?pending\<rparr>"
  have left: "sz_sub (Buffer_readableBytes (tc_writeBuffer c)) n = length ?pending - n"
    using inv(4) n(2) by (simp add: buffer_simps size_simps)
  have step: "TcpConnection_written (epoll_ops ctl) True cbs n (c, l) =
      (if length ?pending = n
       then (if tc_shouldBeClosed c then TcpConnection_handleClose (epoll_ops ctl) True cbs (?c1\<lparr>tc_sendAllDataOut := True\<rparr>, l)
         else bind_res (EventLoop_modHandle (epoll_ops ctl) True (tc_handle c) (set_handle l (tc_handle c) (Handle_disableWrite x)))
           (\<lambda>(ok, l'). Inr (?c1\<lparr>tc_sendAllDataOut := True\<rparr>, l')))
       else Inr (?c1, l))"
    using b(1) n(2) more x(1) by (auto simp: TcpConnection_written_def left Let_def)
  show ?thesis
  proof (cases "length ?pending = n")
    case False
    have "conn_ok registered (?c1, l)"
      by (rule conn_okI [where x = x]) (use inv b x in auto)
    with step False b nc show ?thesis by simp
  next
    case True
    show ?thesis
    proof (cases "tc_shouldBeClosed c")
      case closed: True
      from close_closes [OF ok cb nc, of "?c1\<lparr>tc_sendAllDataOut := True\<rparr>"] nc obtain l' where
        "TcpConnection_handleClose (epoll_ops ctl) True cbs (?c1\<lparr>tc_sendAllDataOut := True\<rparr>, l) =
          Inr (?c1\<lparr>tc_sendAllDataOut := True, tc_closeing := True\<rparr>, l')" by auto
      with step True closed b show ?thesis by simp
    next
      case open_conn: False
      from rearm_ok [OF inv(1-3) x(1), of "Handle_disableWrite x"] x(2) obtain l' where
        l': "EventLoop_modHandle (epoll_ops ctl) True (tc_handle c) (set_handle l (tc_handle c) (Handle_disableWrite x)) = Inr (True, l')"
          "epoll_loop_inv registered l'" "el_updates l' = []" "smap_find (el_handles l') (tc_fd c) = Some (tc_handle c)"
          "el_store l' (tc_handle c) = Some (Handle_disableWrite x)"
          "registered (snd (el_poll l')) (tc_fd c) = Some (ev_mask (h_events (Handle_disableWrite x)))" by auto
      have "conn_ok registered (?c1\<lparr>tc_sendAllDataOut := True\<rparr>, l')"
        by (rule conn_okI [where x = "Handle_disableWrite x"]) (use l' b True in simp_all)
      with step True open_conn l'(1) b nc show ?thesis by simp
    qed
  qed
qed

end

section \<open>Runs of a connection\<close>

text \<open>The user sends data or asks for an orderly shutdown; the loop reports writability.\<close>

datatype tcp_op = Send "char list" | Writable "write_result list" | Shutdown

fun tcp_step :: "'p poller_ops \<Rightarrow> ('p, 'u) tcp_world tcp_callbacks \<Rightarrow> tcp_op \<Rightarrow> ('p, 'u) tcp_world \<Rightarrow>
    ('p, 'u) tcp_world res" where
  "tcp_step ops cbs (Send data) w = TcpConnection_sendData ops True data w"
| "tcp_step ops cbs (Writable rs) w =
     (case TcpConnection_handleWrite ops True cbs rs w of None \<Rightarrow> Inr w | Some r \<Rightarrow> r)"
| "tcp_step ops cbs Shutdown w = TcpConnection_shutdown ops True cbs w"

fun tcp_put :: "tcp_op \<Rightarrow> char list" where
  "tcp_put (Send data) = data"
| "tcp_put (Writable rs) = []"
| "tcp_put Shutdown = []"

text \<open>The run ends when the connection closes; it returns the data handed over so far.\<close>

fun tcp_run :: "'p poller_ops \<Rightarrow> ('p, 'u) tcp_world tcp_callbacks \<Rightarrow> tcp_op list \<Rightarrow> ('p, 'u) tcp_world \<Rightarrow>
    (char list \<times> ('p, 'u) tcp_world) res" where
  "tcp_run ops cbs [] w = Inr ([], w)"
| "tcp_run ops cbs (a # acts) w =
     (if tc_closeing (fst w) then Inr ([], w)
      else bind_res (tcp_step ops cbs a w) (\<lambda>w1.
           bind_res (tcp_run ops cbs acts w1) (\<lambda>(put, w2). Inr (tcp_put a @ put, w2))))"

text \<open>What \<open>write\<close> may return: no more than it was given, and nothing only for nothing.\<close>

definition write_documented :: "tcp_conn \<Rightarrow> write_result list \<Rightarrow> bool" where
  "write_documented c rs = (case reWrite rs of
      Some (WriteBytes n) \<Rightarrow> n \<le> length (Buffer_content (tc_writeBuffer c)) \<and>
        (n = 0 \<longrightarrow> Buffer_content (tc_writeBuffer c) = [])
    | _ \<Rightarrow> True)"

text \<open>How many bytes the socket took at a report of writability.\<close>

definition taken :: "write_result list \<Rightarrow> nat" where
  "taken rs = (case reWrite rs of Some (WriteBytes n) \<Rightarrow> n | _ \<Rightarrow> 0)"

fun op_documented :: "tcp_op \<Rightarrow> ('p, 'u) tcp_world \<Rightarrow> bool" where
  "op_documented (Send data) w = (length data \<le> vec_max)"
| "op_documented (Writable rs) w = write_documented (fst w) rs"
| "op_documented Shutdown w = True"

fun run_documented :: "'p poller_ops \<Rightarrow> ('p, 'u) tcp_world tcp_callbacks \<Rightarrow> tcp_op list \<Rightarrow> ('p, 'u) tcp_world \<Rightarrow> bool" where
  "run_documented ops cbs [] w = True"
| "run_documented ops cbs (a # acts) w = (tc_closeing (fst w) \<or> op_documented a w \<and>
     (case tcp_step ops cbs a w of Inl e \<Rightarrow> True | Inr w1 \<Rightarrow> run_documented ops cbs acts w1))"

text \<open>The state of a run: everything is out if the connection closed, it is well formed if not.\<close>

definition tcp_inv :: "('k \<Rightarrow> int \<Rightarrow> 32 word option) \<Rightarrow> (epoll \<times> 'k, 'u) tcp_world \<Rightarrow> bool" where
  "tcp_inv registered w \<longleftrightarrow> \<not> tc_hasMoreData (fst w) \<and>
     (if tc_closeing (fst w) then Buffer_content (tc_writeBuffer (fst w)) = [] else conn_ok registered w)"

definition tcp_bytes :: "('p, 'u) tcp_world \<Rightarrow> char list" where
  "tcp_bytes w = tc_sent (fst w) @ Buffer_content (tc_writeBuffer (fst w))"

context epoll_kernel begin

lemma handleWrite_ok:
  assumes inv: "tcp_inv registered w" and nc: "\<not> tc_closeing (fst w)" and cb: "close_ok cbs" and doc: "write_documented (fst w) rs"
  shows "case TcpConnection_handleWrite (epoll_ops ctl) True cbs rs w of
     None \<Rightarrow> True
   | Some r \<Rightarrow> \<exists>w'. r = Inr w' \<and> tcp_inv registered w' \<and> tcp_bytes w' = tcp_bytes w"
proof (cases "reWrite rs")
  case None
  then show ?thesis by (simp add: TcpConnection_handleWrite_def)
next
  case (Some r)
  obtain c l where w: "w = (c, l)" by (cases w)
  have ok: "conn_ok registered (c, l)" and more: "\<not> tc_hasMoreData c" and nc': "\<not> tc_closeing c"
    using inv nc by (simp_all add: tcp_inv_def w)
  show ?thesis
  proof (cases r)
    case (WriteError e)
    with Some inv show ?thesis by (simp add: TcpConnection_handleWrite_def)
  next
    case (WriteBytes n)
    with doc Some have n: "n \<le> length (Buffer_content (tc_writeBuffer c))"
      "n = 0 \<longrightarrow> Buffer_content (tc_writeBuffer c) = []" by (simp_all add: w write_documented_def)
    show ?thesis
    proof (cases "n = 0")
      case True
      from close_closes [OF ok cb nc', of "c\<lparr>tc_sendAllDataOut := True\<rparr>"] nc' obtain l' where
        "TcpConnection_handleClose (epoll_ops ctl) True cbs (c\<lparr>tc_sendAllDataOut := True\<rparr>, l) =
          Inr (c\<lparr>tc_sendAllDataOut := True, tc_closeing := True\<rparr>, l')" by auto
      with True Some WriteBytes n(2) nc' more show ?thesis
        by (simp add: w TcpConnection_handleWrite_def tcp_inv_def tcp_bytes_def)
    next
      case False
      with written_ok [OF ok cb nc' more _ n(1)] more obtain w' where
        "TcpConnection_written (epoll_ops ctl) True cbs n (c, l) = Inr w'" "tcp_bytes w' = tcp_bytes (c, l)" "tcp_inv registered w'"
        by (auto simp: tcp_inv_def tcp_bytes_def)
      with False Some WriteBytes show ?thesis by (simp add: w TcpConnection_handleWrite_def)
    qed
  qed
qed

lemma tcp_step_ok:
  assumes inv: "tcp_inv registered w" and nc: "\<not> tc_closeing (fst w)" and cb: "close_ok cbs"
    and doc: "op_documented a w"
  shows "case tcp_step (epoll_ops ctl) cbs a w of
     Inl e \<Rightarrow> e = LengthError
   | Inr w' \<Rightarrow> tcp_inv registered w' \<and> tcp_bytes w' = tcp_bytes w @ tcp_put a"
proof -
  obtain c l where w: "w = (c, l)" by (cases w)
  have ok: "conn_ok registered (c, l)" and more: "\<not> tc_hasMoreData c" and nc': "\<not> tc_closeing c"
    using inv nc by (simp_all add: tcp_inv_def w)
  show ?thesis
  proof (cases a)
    case (Send data)
    with doc have "length data \<le> vec_max" by simp
    from send_ok [OF ok this] Send show ?thesis
      using more nc' by (auto simp: w tcp_inv_def tcp_bytes_def split: sum.splits)
  next
    case Shutdown
    show ?thesis
    proof (cases "tc_sendAllDataOut c")
      case False
      have "conn_ok registered (c\<lparr>tc_shouldBeClosed := True\<rparr>, l)"
        using ok by (simp add: conn_ok_def Let_def split: option.splits)
      with False Shutdown more nc' show ?thesis
        by (simp add: w tcp_defs tcp_inv_def tcp_bytes_def)
    next
      case True
      then have "Buffer_content (tc_writeBuffer c) = []" using conn_okD(5) [OF ok] by blast
      moreover have eq: "c\<lparr>tc_sendAllDataOut := True\<rparr> = c" using True by simp
      moreover obtain l' where
        "TcpConnection_shutdown (epoll_ops ctl) True cbs (c, l) = Inr (c\<lparr>tc_closeing := True\<rparr>, l')"
        using close_closes [OF ok cb nc' refl nc'] unfolding TcpConnection_handleClose_def fst_conv snd_conv eq
        by blast
      ultimately show ?thesis using Shutdown more by (simp add: w tcp_inv_def tcp_bytes_def)
    qed
  next
    case (Writable rs)
    with doc handleWrite_ok [OF inv nc cb, of rs] inv show ?thesis by (auto split: option.splits)
  qed
qed

lemma tcp_run_ok:
  "tcp_inv registered w \<Longrightarrow> close_ok cbs \<Longrightarrow> run_documented (epoll_ops ctl) cbs acts w \<Longrightarrow>
   (case tcp_run (epoll_ops ctl) cbs acts w of
     Inl e \<Rightarrow> e = LengthError
   | Inr (put, w') \<Rightarrow> tcp_inv registered w' \<and> tcp_bytes w' = tcp_bytes w @ put)"
proof (induction acts arbitrary: w)
  case Nil
  then show ?case by simp
next
  case (Cons a acts)
  show ?case
  proof (cases "tc_closeing (fst w)")
    case True
    with Cons.prems show ?thesis by simp
  next
    case False
    with Cons.prems have "op_documented a w" by simp
    note step = tcp_step_ok [OF Cons.prems(1) False Cons.prems(2) this]
    show ?thesis
    proof (cases "tcp_step (epoll_ops ctl) cbs a w")
      case (Inl e)
      with step False show ?thesis by simp
    next
      case (Inr w1)
      with step have w1: "tcp_inv registered w1" "tcp_bytes w1 = tcp_bytes w @ tcp_put a" by simp_all
      from Cons.prems(3) False Inr have "run_documented (epoll_ops ctl) cbs acts w1" by simp
      from Cons.IH [OF w1(1) Cons.prems(2) this] w1(2) Inr False show ?thesis
        by (cases "tcp_run (epoll_ops ctl) cbs acts w1") auto
    qed
  qed
qed

end

section \<open>Properties\<close>

definition demo_conn :: tcp_conn where
  "demo_conn = \<lparr>tc_fd = 5, tc_handle = 0, tc_readBuffer = demo_buffer, tc_writeBuffer = demo_buffer,
     tc_shouldBeClosed = False, tc_closeing = False, tc_acceptTime = Timestamp 1,
     tc_sendAllDataOut = False, tc_hasMoreData = False, tc_sent = []\<rparr>"

definition demo_cbs :: "('p, 'u) tcp_world tcp_callbacks" where
  "demo_cbs = \<lparr>cb_message = None, cb_close = Some (\<lambda>w. Inr w), cb_moreData = None\<rparr>"

definition demo_handle :: handle where
  "demo_handle = \<lparr>h_loop = Some 1, h_events = Events_new 5 (kReadEvent OR kWriteEvent), h_state = STATE_LOOP\<rparr>"

definition demo_tcp_loop :: "((int, 32 word) smap, unit) epoll_loop" where
  "demo_tcp_loop = demo_loop\<lparr>el_poll := (Epoll_new 9, [(5, kReadEvent OR kWriteEvent)]), el_handles := [(5, 0)],
     el_store := (\<lambda>h. if h = 0 then Some demo_handle else None)\<rparr>"

lemma demo_conn_ok: "conn_ok smap_find (demo_conn, demo_tcp_loop)" "\<not> tc_closeing demo_conn"
  "\<not> tc_hasMoreData demo_conn" "close_ok demo_cbs"
proof -
  show "conn_ok smap_find (demo_conn, demo_tcp_loop)"
    by (rule conn_okI [where x = demo_handle])
      (simp_all add: demo_conn_def demo_tcp_loop_def demo_loop_def demo_handle_def demo_buffer_facts epoll_loop_inv_def
        loop_inv_def registered_ok_def pending_ok_def good_handle_def Epoll_new_def revents_resize_def
        smap_ok_Cons Handle_fd_def events_defs kWriteEvent_def kReadEvent_def POLLOUT_def POLLIN_def POLLPRI_def)
qed (simp_all add: demo_conn_def close_ok_def demo_cbs_def)

text \<open>The same loop with the state of an application.\<close>

definition demo_app_loop :: "'u \<Rightarrow> ((int, 32 word) smap, 'u) epoll_loop" where
  "demo_app_loop a = \<lparr>el_id = 1, el_poll = (Epoll_new 9, [(5, kReadEvent OR kWriteEvent)]), el_handles = [(5, 0)], el_updates = [],
     el_store = (\<lambda>h. if h = 0 then Some demo_handle else None), el_pins = [], el_functors = [], el_runningFunctors = False,
     el_wakeups = 0, el_quit = False, el_app = a\<rparr>"

lemma demo_app_conn: "conn_ok smap_find (demo_conn, demo_app_loop a)" "\<not> tc_closeing demo_conn" "\<not> tc_shouldBeClosed demo_conn"
proof -
  show "conn_ok smap_find (demo_conn, demo_app_loop a)"
    by (rule conn_okI [where x = demo_handle])
      (simp_all add: demo_conn_def demo_app_loop_def demo_handle_def demo_buffer_facts epoll_loop_inv_def
        loop_inv_def registered_ok_def pending_ok_def good_handle_def Epoll_new_def revents_resize_def
        smap_ok_Cons Handle_fd_def events_defs kWriteEvent_def kReadEvent_def POLLOUT_def POLLIN_def POLLPRI_def)
qed (simp_all add: demo_conn_def)

definition demo_ops :: "tcp_op list" where
  "demo_ops = [Writable [WriteError EINTR, WriteBytes 1], Shutdown, Writable [WriteError EAGAIN],
     Writable [WriteBytes 1]]"

lemma demo_run_documented: "run_documented (epoll_ops table_ctl) demo_cbs demo_ops (demo_conn, demo_tcp_loop)"
  by (simp add: demo_ops_def demo_conn_def demo_tcp_loop_def demo_loop_def demo_handle_def demo_cbs_def
      write_documented_def tcp_defs EINTR_def EAGAIN_def EWOULDBLOCK_def demo_buffer_facts Let_def
      demo_buffer_def buffer_exec_defs loop_exec_defs Epoll_new_def revents_resize_def)

text \<open>
  C3: A connection loses, repeats and reorders nothing: along any run of sends, orderly
  shutdown requests and writability reports (partial writes, \<open>EAGAIN\<close>, \<open>EINTR\<close> and
  errors included), the bytes the socket took followed by those in the write buffer are
  exactly the bytes handed over, in order; the run fails only when the buffer would
  exceed the maximal size of a vector; and when the connection closes, everything
  handed over has been sent.
\<close>
theorem tcp_conserves_bytes:
  assumes "epoll_kernel ctl registered" and "conn_ok registered (c, l)" and "\<not> tc_closeing c"
    and "\<not> tc_hasMoreData c" and "close_ok cbs" and "run_documented (epoll_ops ctl) cbs acts (c, l)"
  shows "case tcp_run (epoll_ops ctl) cbs acts (c, l) of
     Inl e \<Rightarrow> e = LengthError
   | Inr (put, (c', l')) \<Rightarrow>
       tc_sent c' @ Buffer_content (tc_writeBuffer c') = tc_sent c @ Buffer_content (tc_writeBuffer c) @ put \<and>
       (tc_closeing c' \<longrightarrow> tc_sent c' = tc_sent c @ Buffer_content (tc_writeBuffer c) @ put)"
proof -
  have "tcp_inv registered (c, l)" using assms(2-4) by (simp add: tcp_inv_def)
  from epoll_kernel.tcp_run_ok [OF assms(1) this assms(5,6)] show ?thesis
    by (auto simp: tcp_inv_def tcp_bytes_def split: sum.splits if_splits)
qed

theorem tcp_conserves_bytes_witness:
  "case tcp_run (epoll_ops table_ctl) demo_cbs demo_ops (demo_conn, demo_tcp_loop) of
     Inl e \<Rightarrow> e = LengthError
   | Inr (put, (c', l')) \<Rightarrow>
       tc_sent c' @ Buffer_content (tc_writeBuffer c') = tc_sent demo_conn @ Buffer_content (tc_writeBuffer demo_conn) @ put \<and>
       (tc_closeing c' \<longrightarrow> tc_sent c' = tc_sent demo_conn @ Buffer_content (tc_writeBuffer demo_conn) @ put)"
  by (rule tcp_conserves_bytes [OF table.epoll_kernel_axioms demo_conn_ok demo_run_documented])

text \<open>
  C32: After any such run, a connection that is open and has bytes waiting is registered
  with the kernel for writability, so that the loop will be told when it can send them.
\<close>
theorem tcp_pending_watched:
  assumes "epoll_kernel ctl registered" and "conn_ok registered w" and "\<not> tc_closeing (fst w)"
    and "\<not> tc_hasMoreData (fst w)" and "close_ok cbs" and "run_documented (epoll_ops ctl) cbs acts w"
    and "tcp_run (epoll_ops ctl) cbs acts w = Inr (put, (c', l'))" and "\<not> tc_closeing c'"
    and "Buffer_content (tc_writeBuffer c') \<noteq> []"
  shows "\<exists>m. registered (snd (el_poll l')) (tc_fd c') = Some m \<and> m AND kWriteEvent = kWriteEvent"
proof -
  have "tcp_inv registered w" using assms(2-4) by (simp add: tcp_inv_def)
  from epoll_kernel.tcp_run_ok [OF assms(1) this assms(5,6)] assms(7,8) have "conn_ok registered (c', l')"
    by (simp add: tcp_inv_def)
  from conn_okD(6) [OF this] assms(9) show ?thesis by (auto simp: Events_containsEvents_def)
qed

lemma demo_run_result:
  "\<exists>put c' l'. tcp_run (epoll_ops table_ctl) demo_cbs [Writable [WriteError EINTR, WriteBytes 1]] (demo_conn, demo_tcp_loop) =
     Inr (put, (c', l')) \<and> \<not> tc_closeing c' \<and> Buffer_content (tc_writeBuffer c') = ''b''"
  by (simp add: demo_conn_def demo_cbs_def tcp_defs EINTR_def EAGAIN_def EWOULDBLOCK_def Let_def
      demo_buffer_def buffer_exec_defs Buffer_content_alt)

theorem tcp_pending_watched_witness:
  "\<exists>put c' l' m. tcp_run (epoll_ops table_ctl) demo_cbs [Writable [WriteError EINTR, WriteBytes 1]]
       (demo_conn, demo_tcp_loop) = Inr (put, (c', l')) \<and>
     smap_find (snd (el_poll l')) (tc_fd c') = Some m \<and> m AND kWriteEvent = kWriteEvent"
proof -
  from demo_run_result obtain put c' l' where
    r: "tcp_run (epoll_ops table_ctl) demo_cbs [Writable [WriteError EINTR, WriteBytes 1]] (demo_conn, demo_tcp_loop) =
         Inr (put, (c', l'))" "\<not> tc_closeing c'" "Buffer_content (tc_writeBuffer c') = ''b''" by blast
  have "run_documented (epoll_ops table_ctl) demo_cbs [Writable [WriteError EINTR, WriteBytes 1]] (demo_conn, demo_tcp_loop)"
    by (simp add: write_documented_def demo_conn_def demo_buffer_facts EINTR_def EAGAIN_def EWOULDBLOCK_def
        split: sum.splits)
  from tcp_pending_watched [OF table.epoll_kernel_axioms demo_conn_ok(1) _ _ demo_conn_ok(4) this r(1,2)] r
    demo_conn_ok(2,3) show ?thesis by auto
qed

text \<open>
  Sending an empty string on an idle connection closes it: \<open>sendData\<close> enables the
  write event, the next \<open>write\<close> of zero bytes returns zero, and \<open>handleWrite\<close> takes that
  for the end of the connection.
\<close>
theorem tcp_send_empty_closes:
  assumes "epoll_kernel ctl registered" and "conn_ok registered (c, l)" and "\<not> tc_closeing c"
    and "close_ok cbs" and "Buffer_content (tc_writeBuffer c) = []"
  shows "case TcpConnection_sendData (epoll_ops ctl) True [] (c, l) of
     Inl e \<Rightarrow> e = LengthError
   | Inr w1 \<Rightarrow> \<exists>c' l'. TcpConnection_handleWrite (epoll_ops ctl) True cbs [WriteBytes 0] w1 = Some (Inr (c', l')) \<and>
       write_documented (fst w1) [WriteBytes 0] \<and> tc_closeing c'"
proof (cases "TcpConnection_sendData (epoll_ops ctl) True [] (c, l)")
  case (Inl e)
  with epoll_kernel.send_ok [OF assms(1,2), of "[]"] show ?thesis by simp
next
  case (Inr w1)
  obtain c1 l1 where w1: "w1 = (c1, l1)" by (cases w1)
  with epoll_kernel.send_ok [OF assms(1,2), of "[]"] Inr assms(3,5) have
    c1: "conn_ok registered (c1, l1)" "\<not> tc_closeing c1" "Buffer_content (tc_writeBuffer c1) = []" by simp_all
  from epoll_kernel.close_closes [OF assms(1) c1(1) assms(4) c1(2), of "c1\<lparr>tc_sendAllDataOut := True\<rparr>"] c1(2)
  show ?thesis using Inr c1(2,3)
    by (auto simp: w1 TcpConnection_handleWrite_def write_documented_def)
qed

definition demo_idle :: tcp_conn where
  "demo_idle = demo_conn\<lparr>tc_writeBuffer := demo_buffer\<lparr>writerIndex := 8\<rparr>, tc_sendAllDataOut := True\<rparr>"

theorem tcp_send_empty_closes_witness:
  "case TcpConnection_sendData (epoll_ops table_ctl) True [] (demo_idle, demo_tcp_loop) of
     Inl e \<Rightarrow> e = LengthError
   | Inr w1 \<Rightarrow> \<exists>c' l'. TcpConnection_handleWrite (epoll_ops table_ctl) True demo_cbs [WriteBytes 0] w1 = Some (Inr (c', l')) \<and>
       write_documented (fst w1) [WriteBytes 0] \<and> tc_closeing c'"
proof -
  have empty: "Buffer_content (tc_writeBuffer demo_idle) = []" "Buffer_inv (tc_writeBuffer demo_idle)"
    by (simp_all add: demo_idle_def demo_buffer_def Buffer_content_alt vec_slice_def Buffer_inv_def
        kCheapPrepend_def vec_max_def)
  from demo_conn_ok(1) empty have "conn_ok smap_find (demo_idle, demo_tcp_loop)"
    by (auto simp: conn_ok_def Let_def demo_idle_def split: option.splits)
  from tcp_send_empty_closes [OF table.epoll_kernel_axioms this _ demo_conn_ok(4) empty(1)] show ?thesis
    by (simp add: demo_idle_def demo_conn_def)
qed

end
