(* ===== verification/Tcp_Loop.thy ===== *)
theory Tcp_Loop
  imports Tcp_Connection
begin

text \<open>
  A connection in its event loop: the callbacks that the constructor of \<open>TcpConnection\<close>
  (\<open>src/base/TcpConnection.cpp\<close>) sets on its handle, run by the turns of \<open>EventLoop::loop\<close>.
  The loop's application state is the connection with the state of its user. Lemmas: one
  turn that reports the connection readable or writable is one call of \<open>handleRead\<close> or
  \<open>handleWrite\<close>, followed by \<open>clearInLoop\<close> if that closed the connection; what is left
  of the loop by each operation of a connection.
\<close>

section \<open>Callbacks in the loop\<close>

text \<open>The same loop with another application state.\<close>

definition with_app :: "'v \<Rightarrow> ('p, 'u) evloop \<Rightarrow> ('p, 'v) evloop" where
  "with_app a l = \<lparr>el_id = el_id l, el_poll = el_poll l, el_handles = el_handles l, el_updates = el_updates l,
     el_store = el_store l, el_pins = el_pins l, el_functors = el_functors l, el_runningFunctors = el_runningFunctors l,
     el_wakeups = el_wakeups l, el_quit = el_quit l, el_app = a\<rparr>"

lemma with_app_simps [simp]:
  "el_id (with_app a l) = el_id l" "el_poll (with_app a l) = el_poll l" "el_handles (with_app a l) = el_handles l"
  "el_updates (with_app a l) = el_updates l" "el_store (with_app a l) = el_store l" "el_pins (with_app a l) = el_pins l"
  "el_functors (with_app a l) = el_functors l" "el_runningFunctors (with_app a l) = el_runningFunctors l"
  "el_app (with_app a l) = a" "with_app b (with_app a l) = with_app b l"
  "unpin h (with_app a l) = with_app a (unpin h l)" "pin h (with_app a l) = with_app a (pin h l)"
  by (simp_all add: with_app_def unpin_def pin_def drop_dead_def live_handles_def cong: if_cong)

lemma with_app_update [simp]: "(with_app a l)\<lparr>el_app := b\<rparr> = with_app b l"
  by (simp add: with_app_def)

lemma with_app_functors:
  "(with_app a l)\<lparr>el_functors := fs, el_runningFunctors := b\<rparr> = with_app a (l\<lparr>el_functors := fs, el_runningFunctors := b\<rparr>)"
  by (simp add: with_app_def)

text \<open>A member function of the connection, as a callback of its loop.\<close>

definition in_loop :: "(('p, 'u) tcp_world \<Rightarrow> ('p, 'u) tcp_world res) \<Rightarrow> ('p, tcp_conn \<times> 'u) evloop \<Rightarrow> ('p, tcp_conn \<times> 'u) evloop res" where
  "in_loop f l = (let (c, a) = el_app l in
     bind_res (f (c, with_app a l)) (\<lambda>(c', l'). Inr (with_app (c', el_app l') l')))"

text \<open>\<open>got\<close> is what \<open>readv\<close> returns when it is called, \<open>rs\<close> what the calls of \<open>write\<close> return.\<close>

definition TcpConnection_handlers :: "'p poller_ops \<Rightarrow> bool \<Rightarrow> ('p, 'u) tcp_world tcp_callbacks \<Rightarrow> io_result \<Rightarrow> write_result list \<Rightarrow>
    ('p, tcp_conn \<times> 'u) evloop handlers" where
  "TcpConnection_handlers ops own cbs got rs =
     Handle_setHandleClose (Handle_setHandleError (Handle_setHandleWrite (Handle_setHandleRead Handle_new_handlers
       (\<lambda>ev t. in_loop (TcpConnection_handleRead ops own cbs ev t got)))
       (\<lambda>ev t. in_loop (\<lambda>w. case TcpConnection_handleWrite ops own cbs rs w of None \<Rightarrow> Inr w | Some r \<Rightarrow> r)))
       (\<lambda>ev t. in_loop (TcpConnection_handleError own)))
       (\<lambda>ev t. in_loop (TcpConnection_handleClose ops own cbs))"

text \<open>
  What the close callback of the bucket does to the loop of the connection: the functor \<open>f\<close>,
  which is \<open>clearInLoop\<close> of the connection, is queued.
\<close>

definition queue_clear :: "nat \<Rightarrow> ('p, 'u) tcp_world \<Rightarrow> ('p, 'u) tcp_world res" where
  "queue_clear f w = Inr (fst w, EventLoop_queueInLoop True f (snd w))"

definition run_clear :: "nat \<Rightarrow> ('p, tcp_conn \<times> 'u) evloop \<Rightarrow> ('p, tcp_conn \<times> 'u) evloop res" where
  "run_clear f = in_loop (TcpConnection_clearInLoop True)"

text \<open>What the loop meets in a turn.\<close>

datatype conn_event = Readable io_result | Sendable "write_result list"

fun conn_got :: "conn_event \<Rightarrow> io_result" where
  "conn_got (Readable got) = got"
| "conn_got (Sendable rs) = IoError EAGAIN"

fun conn_results :: "conn_event \<Rightarrow> write_result list" where
  "conn_results (Readable got) = []"
| "conn_results (Sendable rs) = rs"

fun conn_mask :: "conn_event \<Rightarrow> 32 word" where
  "conn_mask (Readable got) = POLLIN"
| "conn_mask (Sendable rs) = POLLOUT"

definition conn_turn :: "'p poller_ops \<Rightarrow> ('p, 'u) tcp_world tcp_callbacks \<Rightarrow> timestamp \<Rightarrow> conn_event \<Rightarrow>
    ('p, tcp_conn \<times> 'u) evloop \<Rightarrow> ('p, tcp_conn \<times> 'u) evloop res" where
  "conn_turn ops cbs t ev l =
     EventLoop_turn (\<lambda>h. TcpConnection_handlers ops True cbs (conn_got ev) (conn_results ev)) run_clear ops
       (\<lambda>p. Inr ([Events_new (tc_fd (fst (el_app l))) (conn_mask ev)], t, p)) l"

text \<open>The kernel has no more to report once the connection is closed.\<close>

fun conn_turns :: "'p poller_ops \<Rightarrow> ('p, 'u) tcp_world tcp_callbacks \<Rightarrow> timestamp \<Rightarrow> conn_event list \<Rightarrow>
    ('p, tcp_conn \<times> 'u) evloop \<Rightarrow> ('p, tcp_conn \<times> 'u) evloop res" where
  "conn_turns ops cbs t [] l = Inr l"
| "conn_turns ops cbs t (ev # evs) l =
     (if tc_closeing (fst (el_app l)) then Inr l
      else bind_res (conn_turn ops cbs t ev l) (conn_turns ops cbs t evs))"

section \<open>What the operations leave of the loop\<close>

text \<open>
  No update is left pending, the pointers of the loop stay, and a functor is queued only
  by closing.
\<close>

definition conn_frame :: "('p, 'u) tcp_world \<Rightarrow> ('p, 'u) tcp_world \<Rightarrow> bool" where
  "conn_frame w w' \<longleftrightarrow> (el_updates (snd w) = [] \<longrightarrow> el_updates (snd w') = []) \<and> el_pins (snd w') = el_pins (snd w) \<and>
     el_runningFunctors (snd w') = el_runningFunctors (snd w) \<and> tc_handle (fst w') = tc_handle (fst w) \<and> tc_fd (fst w') = tc_fd (fst w) \<and>
     (tc_closeing (fst w) \<longrightarrow> tc_closeing (fst w')) \<and>
     (\<exists>fs. el_functors (snd w') = el_functors (snd w) @ fs \<and> (fs \<noteq> [] \<longrightarrow> tc_closeing (fst w')))"

lemma conn_frame_trans:
  assumes "conn_frame w w'" and "conn_frame w' w''"
  shows "conn_frame w w''"
proof -
  note d = assms [unfolded conn_frame_def]
  obtain fs where fs: "el_functors (snd w') = el_functors (snd w) @ fs" "fs \<noteq> [] \<longrightarrow> tc_closeing (fst w')" using d(1) by blast
  obtain fs' where fs': "el_functors (snd w'') = el_functors (snd w') @ fs'" "fs' \<noteq> [] \<longrightarrow> tc_closeing (fst w'')" using d(2) by blast
  have "el_functors (snd w'') = el_functors (snd w) @ (fs @ fs')" using fs(1) fs'(1) by simp
  moreover have "fs @ fs' \<noteq> [] \<longrightarrow> tc_closeing (fst w'')" using d(2) fs(2) fs'(2) by auto
  ultimately have "\<exists>gs. el_functors (snd w'') = el_functors (snd w) @ gs \<and> (gs \<noteq> [] \<longrightarrow> tc_closeing (fst w''))" by blast
  with d show ?thesis unfolding conn_frame_def by simp
qed

lemma conn_frame_refl [simp]: "conn_frame w w"
  by (simp add: conn_frame_def)

text \<open>A change of the connection, or of the application state, that touches nothing of this.\<close>

lemma conn_frame_upd:
  assumes "tc_handle (g c) = tc_handle c" "tc_fd (g c) = tc_fd c" "tc_closeing (g c) = tc_closeing c"
  shows "conn_frame (c, l) (g c, l\<lparr>el_app := a\<rparr>)" "conn_frame (c, l) (g c, l)"
  using assms by (simp_all add: conn_frame_def)

lemma update_all_conn_frame:
  "update_all ops us l = Inr l' \<Longrightarrow> el_pins l' = el_pins l \<and> el_functors l' = el_functors l \<and> el_runningFunctors l' = el_runningFunctors l"
proof (induction us arbitrary: l)
  case (Cons u us)
  then obtain l1 where u: "EventLoop_updateOne ops u l = Inr l1" "update_all ops us l1 = Inr l'" by (auto simp: res_simps)
  have "el_pins l1 = el_pins l \<and> el_functors l1 = el_functors l \<and> el_runningFunctors l1 = el_runningFunctors l"
    using u(1) by (auto simp: EventLoop_updateOne_def Let_def res_simps set_handle_def split: handle_state.splits if_splits)
      (use handle_state.exhaust in blast)+
  with Cons.IH [OF u(2)] show ?case by simp
qed simp

lemma changeHandle_frame:
  assumes "EventLoop_changeHandle st ops True h l = Inr (r, l')"
  shows "conn_frame (c, l) (c, l')"
  using assms
  by (auto simp: EventLoop_changeHandle_def EventLoop_updateHandle_def EventLoop_updateHandlesUnlock_def conn_frame_def
      Let_def res_simps dest!: update_all_conn_frame split: option.splits if_splits)

lemma shutdown_frame:
  assumes "cb_close cbs = Some (queue_clear f)" and "TcpConnection_shutdown ops True cbs (c, l) = Inr w'"
  shows "conn_frame (c, l) w'"
proof (cases "\<not> tc_closeing c \<and> tc_sendAllDataOut c")
  case True
  with assms obtain r l1 where l1: "EventLoop_changeHandle STATE_DEL ops True (tc_handle c) l = Inr (r, l1)"
    "w' = (c\<lparr>tc_closeing := True\<rparr>, EventLoop_queueInLoop True f l1)"
    by (auto simp: TcpConnection_shutdown_def EventLoop_delHandle_def queue_clear_def res_simps)
  from changeHandle_frame [OF l1(1), of c] show ?thesis
    by (auto simp: conn_frame_def l1(2) EventLoop_queueInLoop_def EventLoop_wakeUp_def Let_def)
qed (use assms in \<open>auto simp: TcpConnection_shutdown_def conn_frame_def split: if_splits\<close>)

definition framed :: "(('p, 'u) tcp_world \<Rightarrow> ('p, 'u) tcp_world res) \<Rightarrow> bool" where
  "framed f \<longleftrightarrow> (\<forall>w w'. f w = Inr w' \<longrightarrow> conn_frame w w')"

lemma framedD: "framed f \<Longrightarrow> f w = Inr w' \<Longrightarrow> conn_frame w w'"
  unfolding framed_def by blast

text \<open>The user's callbacks do no more than the connection's own operations.\<close>

definition cbs_framed :: "nat \<Rightarrow> ('p, 'u) tcp_world tcp_callbacks \<Rightarrow> bool" where
  "cbs_framed f cbs \<longleftrightarrow> cb_close cbs = Some (queue_clear f) \<and>
     (\<forall>g. cb_moreData cbs = Some g \<longrightarrow> framed g) \<and> (\<forall>g t. cb_message cbs = Some g \<longrightarrow> framed (g t))"

lemma set_handle_frame: "conn_frame (c, set_handle l h x) w' \<Longrightarrow> conn_frame (c, l) w'"
  by (simp add: conn_frame_def)

lemma sendData_conn_frame:
  assumes "TcpConnection_sendData ops True data (c, l) = Inr w'"
  shows "conn_frame (c, l) w'"
proof -
  from assms obtain x r l1 b where s: "EventLoop_changeHandle STATE_MOD ops True (tc_handle c) (set_handle l (tc_handle c) (Handle_enableWrite x)) = Inr (r, l1)"
    "w' = (c\<lparr>tc_sendAllDataOut := False, tc_writeBuffer := b\<rparr>, l1)"
    by (auto simp: TcpConnection_sendData_def TcpConnection_putDataToWriteBuffer_def EventLoop_modHandle_def res_simps)
  from set_handle_frame [OF changeHandle_frame [OF s(1), of c]] show ?thesis
    unfolding s(2) by (rule conn_frame_trans) (simp add: conn_frame_def)
qed

lemma handleClose_frame:
  assumes "cb_close cbs = Some (queue_clear f)" and "TcpConnection_handleClose ops True cbs (c, l) = Inr w'"
  shows "conn_frame (c, l) w'"
proof -
  from assms(2) have "TcpConnection_shutdown ops True cbs (c\<lparr>tc_sendAllDataOut := True\<rparr>, l) = Inr w'"
    by (simp add: TcpConnection_handleClose_def)
  from shutdown_frame [OF assms(1) this] show ?thesis by (simp add: conn_frame_def)
qed

lemma written_frame:
  assumes "cbs_framed f cbs" and "TcpConnection_written ops True cbs n (c, l) = Inr w'"
  shows "conn_frame (c, l) w'"
proof -
  from assms(2) obtain b where b: "Buffer_retrieve (tc_writeBuffer c) n = Inr b"
    by (auto simp: TcpConnection_written_def Let_def res_simps)
  define c1 where "c1 = c\<lparr>tc_writeBuffer := b, tc_sent := tc_sent c @ take n (Buffer_content (tc_writeBuffer c))\<rparr>"
  define send where "send = (case (tc_hasMoreData c, cb_moreData cbs) of
      (True, Some g) \<Rightarrow> bind_res (g (c1, l)) (\<lambda>w2. Inr (w2, Buffer_readableBytes (tc_writeBuffer (fst w2))))
    | _ \<Rightarrow> Inr ((c1, l), sz_sub (Buffer_readableBytes (tc_writeBuffer c)) n))"
  have c1: "conn_frame (c, l) (c1, l)" by (simp add: c1_def conn_frame_def)
  have "TcpConnection_written ops True cbs n (c, l) = bind_res send (\<lambda>(w2, left).
      if left = 0
      then let w3 = ((fst w2)\<lparr>tc_sendAllDataOut := True\<rparr>, snd w2) in
           if tc_shouldBeClosed (fst w3) then TcpConnection_handleClose ops True cbs w3
           else bind_res (handle_at (snd w3) (tc_handle (fst w3))) (\<lambda>x.
                bind_res (EventLoop_modHandle ops True (tc_handle (fst w3))
                    (set_handle (snd w3) (tc_handle (fst w3)) (Handle_disableWrite x))) (\<lambda>(ok, l').
                Inr (fst w3, l')))
      else Inr w2)"
    by (simp only: TcpConnection_written_def Let_def b fst_conv snd_conv bind_res_Inr send_def c1_def)
  then obtain c2 l2 left where s: "send = Inr ((c2, l2), left)" and
    rest: "(if left = 0
      then if tc_shouldBeClosed c2 then TcpConnection_handleClose ops True cbs (c2\<lparr>tc_sendAllDataOut := True\<rparr>, l2)
        else bind_res (handle_at l2 (tc_handle c2)) (\<lambda>x.
          bind_res (EventLoop_modHandle ops True (tc_handle c2) (set_handle l2 (tc_handle c2) (Handle_disableWrite x))) (\<lambda>(ok, l').
          Inr (c2\<lparr>tc_sendAllDataOut := True\<rparr>, l')))
      else Inr (c2, l2)) = Inr w'"
    using assms(2) by (cases send) (auto simp: Let_def split: if_splits)
  have "conn_frame (c1, l) (c2, l2)"
    using s assms(1) by (auto simp: send_def cbs_framed_def framed_def res_simps split: bool.splits option.splits)
  with c1 have c2: "conn_frame (c, l) (c2, l2)" by (rule conn_frame_trans)
  have close: "cb_close cbs = Some (queue_clear f)" using assms(1) by (simp add: cbs_framed_def)
  have out: "conn_frame (c2, l2) (c2\<lparr>tc_sendAllDataOut := True\<rparr>, l2)" by (simp add: conn_frame_def)
  have "conn_frame (c2, l2) w'"
  proof (cases "left = 0 \<and> \<not> tc_shouldBeClosed c2")
    case True
    with rest obtain x r l' where m: "EventLoop_changeHandle STATE_MOD ops True (tc_handle c2) (set_handle l2 (tc_handle c2) (Handle_disableWrite x)) = Inr (r, l')"
      "w' = (c2\<lparr>tc_sendAllDataOut := True\<rparr>, l')" by (auto simp: EventLoop_modHandle_def res_simps)
    from set_handle_frame [OF changeHandle_frame [OF m(1), of "c2\<lparr>tc_sendAllDataOut := True\<rparr>"]] out show ?thesis
      unfolding m(2) by (rule conn_frame_trans [rotated])
  next
    case False
    with rest handleClose_frame [OF close, of ops "c2\<lparr>tc_sendAllDataOut := True\<rparr>" l2 w'] out show ?thesis
      by (auto split: if_splits intro: conn_frame_trans)
  qed
  with c2 show ?thesis by (rule conn_frame_trans)
qed

lemma handleWrite_frame:
  assumes "cbs_framed f cbs" and "TcpConnection_handleWrite ops True cbs rs (c, l) = Some (Inr w')"
  shows "conn_frame (c, l) w'"
proof -
  have close: "cb_close cbs = Some (queue_clear f)" using assms(1) by (simp add: cbs_framed_def)
  have out: "conn_frame (c, l) (c\<lparr>tc_sendAllDataOut := True\<rparr>, l)" by (simp add: conn_frame_def)
  show ?thesis
    using assms(2) written_frame [OF assms(1), of ops _ c l w']
      conn_frame_trans [OF out handleClose_frame [OF close, of ops "c\<lparr>tc_sendAllDataOut := True\<rparr>" l w']]
    by (auto simp: TcpConnection_handleWrite_def split: option.splits write_result.splits if_splits)
qed

lemma handleRead_frame:
  assumes "cbs_framed f cbs" and "Events_getFd ev = tc_fd c" and "TcpConnection_handleRead ops True cbs ev t got (c, l) = Inr w'"
  shows "conn_frame (c, l) w'"
proof -
  from assms(2,3) obtain ret err b where r: "Buffer_readFd (tc_readBuffer c) got = Inr (ret, err, b)" and
    rest: "(if ret = 0 then (if \<not> tc_closeing c then TcpConnection_handleClose ops True cbs (c\<lparr>tc_readBuffer := b\<rparr>, l)
        else Inr (c\<lparr>tc_readBuffer := b\<rparr>, l))
      else if ret < 0 then Inr (c\<lparr>tc_readBuffer := b\<rparr>, l)
      else case cb_message cbs of None \<Rightarrow> Inr (c\<lparr>tc_readBuffer := b\<rparr>, l) | Some g \<Rightarrow> g t (c\<lparr>tc_readBuffer := b\<rparr>, l)) = Inr w'"
    by (auto simp: TcpConnection_handleRead_def Let_def res_simps cong: if_cong option.case_cong)
  have close: "cb_close cbs = Some (queue_clear f)" using assms(1) by (simp add: cbs_framed_def)
  have c1: "conn_frame (c, l) (c\<lparr>tc_readBuffer := b\<rparr>, l)" by (simp add: conn_frame_def)
  have "conn_frame (c\<lparr>tc_readBuffer := b\<rparr>, l) w'"
    using rest handleClose_frame [OF close, of ops "c\<lparr>tc_readBuffer := b\<rparr>" l w'] assms(1)
    by (auto simp: cbs_framed_def intro: framedD split: if_splits option.splits)
  with c1 show ?thesis by (rule conn_frame_trans)
qed


section \<open>One turn\<close>

text \<open>What a connection does for an event.\<close>

fun conn_step :: "'p poller_ops \<Rightarrow> ('p, 'u) tcp_world tcp_callbacks \<Rightarrow> timestamp \<Rightarrow> conn_event \<Rightarrow> ('p, 'u) tcp_world \<Rightarrow>
    ('p, 'u) tcp_world res" where
  "conn_step ops cbs t (Readable got) w = TcpConnection_handleRead ops True cbs (Events_new (tc_fd (fst w)) POLLIN) t got w"
| "conn_step ops cbs t (Sendable rs) w = tcp_step ops cbs (Writable rs) w"

lemma conn_step_frame:
  assumes "cbs_framed f cbs" and "conn_step ops cbs t ev (c, l) = Inr w'"
  shows "conn_frame (c, l) w'"
proof (cases ev)
  case (Readable got)
  have "Events_getFd (Events_new (tc_fd c) POLLIN) = tc_fd c" by (simp add: Events_getFd_def Events_new_def)
  from handleRead_frame [OF assms(1) this] assms(2) Readable show ?thesis by simp
next
  case (Sendable rs)
  with assms(2) show ?thesis by (auto intro: handleWrite_frame [OF assms(1)] split: option.splits)
qed

lemma conn_handler:
  "Handle_handleEvent (TcpConnection_handlers ops True cbs (conn_got ev) (conn_results ev)) (Events_new fd (conn_mask ev)) t l =
     (case ev of
        Readable got \<Rightarrow> in_loop (TcpConnection_handleRead ops True cbs (Events_new fd POLLIN) t got) l
      | Sendable rs \<Rightarrow> in_loop (tcp_step ops cbs (Writable rs)) l)"
proof -
  have ev: "ev_mask (Events_new fd m) = m" for m by (simp add: Events_new_def)
  have bind: "bind_res m Inr = m" for m :: "'e res" by (cases m) simp_all
  have step: "tcp_step ops cbs (Writable rs) = (\<lambda>w. case TcpConnection_handleWrite ops True cbs rs w of None \<Rightarrow> Inr w | Some r \<Rightarrow> r)" for rs
    by (rule ext) simp
  show ?thesis
    by (cases ev)
      (simp_all add: Handle_handleEvent_def TcpConnection_handlers_def Handle_setHandleRead_def Handle_setHandleWrite_def
        Handle_setHandleError_def Handle_setHandleClose_def Handle_new_handlers_def fire_def Handle_defaultCheckRead_def
        Handle_defaultCheckWrite_def Handle_defaultCheckError_def Handle_defaultCheckClose_def
        Events_containsAtLeastOneEvents_def ev POLLIN_def POLLOUT_def POLLPRI_def POLLRDHUP_def POLLERR_def POLLNVAL_def POLLHUP_def
        bind step)
qed

lemma conn_handler_step:
  assumes "el_app l = (c, a)"
  shows "Handle_handleEvent (TcpConnection_handlers ops True cbs (conn_got ev) (conn_results ev)) (Events_new (tc_fd c) (conn_mask ev)) t (pin h l) =
     bind_res (conn_step ops cbs t ev (c, with_app a (pin h l))) (\<lambda>(c', l1). Inr (with_app (c', el_app l1) l1))"
  unfolding conn_handler by (cases ev) (simp_all add: in_loop_def assms pin_def)

text \<open>The functors that closing queued find the connection closed.\<close>

lemma run_clears:
  assumes "fs \<noteq> [] \<longrightarrow> tc_closeing (fst (el_app l))" and "el_updates l = []"
  shows "run_functors run_clear ops fs l = Inr l"
  using assms(1)
proof (induction fs)
  case (Cons f fs)
  obtain c a where l: "el_app l = (c, a)" by (cases "el_app l")
  have "with_app (el_app l) l = l" by (simp add: with_app_def)
  with l Cons.prems have "run_clear f l = Inr l" by (simp add: run_clear_def in_loop_def TcpConnection_clearInLoop_def)
  with Cons assms(2) show ?case by (simp add: flush_updates_def)
qed simp

lemma conn_turn_framed:
  fixes l :: "('k, tcp_conn \<times> 'u) epoll_loop"
  assumes "el_app l = (c, a)" and "conn_ok registered (c, with_app a l)" and "el_functors l = []" "\<not> el_runningFunctors l"
    and "\<And>w'. conn_step ops cbs t ev (c, with_app a (pin (tc_handle c) l)) = Inr w' \<Longrightarrow>
      conn_frame (c, with_app a (pin (tc_handle c) l)) w'"
  shows "case conn_step ops cbs t ev (c, with_app a (pin (tc_handle c) l)) of
     Inl e \<Rightarrow> conn_turn ops cbs t ev l = Inl e
   | Inr (c', l1) \<Rightarrow> conn_turn ops cbs t ev l =
       Inr (with_app (c', el_app l1) ((unpin (tc_handle c) l1)\<lparr>el_functors := [], el_runningFunctors := False\<rparr>))"
proof -
  let ?h = "tc_handle c" and ?ev = "Events_new (tc_fd c) (conn_mask ev)"
  have inv: "epoll_loop_inv registered (with_app a l)" "el_updates l = []" and h: "smap_find (el_handles l) (tc_fd c) = Some ?h"
    using conn_okD [OF assms(2)] by simp_all
  have "loop_inv (\<lambda>p. ep_fd (fst p) \<noteq> -1) (\<lambda>m. True) (\<lambda>p. registered (snd p)) [] (with_app a l)"
    using inv by (simp add: epoll_loop_inv_def)
  from loop_inv_same_handle [OF this] h obtain x where x: "el_store l ?h = Some x" "h_state x = STATE_LOOP" by auto
  define hnd where "hnd = (\<lambda>h :: hid. TcpConnection_handlers ops True cbs (conn_got ev) (conn_results ev))"
  define lp where "lp = (\<lambda>p :: epoll \<times> 'k. Inr ([?ev], t, p) :: (events list \<times> timestamp \<times> (epoll \<times> 'k)) res)"
  have turn: "conn_turn ops cbs t ev l = EventLoop_turn hnd run_clear ops lp l"
    by (simp add: conn_turn_def hnd_def lp_def assms(1))
  have find: "smap_find (el_handles l) (Events_getFd ?ev) = Some ?h" using h by (simp add: Events_getFd_def Events_new_def)
  have lpl: "lp (el_poll l) = Inr ([?ev], t, el_poll l)" by (simp add: lp_def)
  have run: "Handle_handleEvent (hnd ?h) ?ev t (pin ?h (l\<lparr>el_poll := el_poll l\<rparr>)) =
      bind_res (conn_step ops cbs t ev (c, with_app a (pin ?h l))) (\<lambda>(c', l1). Inr (with_app (c', el_app l1) l1))"
    using conn_handler_step [OF assms(1)] by (simp add: hnd_def)
  show ?thesis
  proof (cases "conn_step ops cbs t ev (c, with_app a (pin ?h l))")
    case (Inl e)
    with turn_handler(2) [where hnd = hnd and lp = lp, OF inv(2) lpl find x] run show ?thesis by (simp add: turn)
  next
    case (Inr w)
    obtain c' l1 where w: "w = (c', l1)" by (cases w)
    from assms(5) [OF Inr] obtain fs where fr: "el_updates l1 = []" "\<not> el_runningFunctors l1"
      "el_functors l1 = fs" "fs \<noteq> [] \<longrightarrow> tc_closeing c'"
      using inv(2) assms(3,4) by (auto simp: conn_frame_def w pin_def)
    let ?l1 = "with_app (c', el_app l1) l1"
    have "Handle_handleEvent (hnd ?h) ?ev t (pin ?h (l\<lparr>el_poll := el_poll l\<rparr>)) = Inr ?l1" using run Inr w by simp
    from turn_handler(1) [where hnd = hnd and lp = lp and exec = run_clear, OF inv(2) lpl find x this] fr
    have "conn_turn ops cbs t ev l = EventLoop_runFunctors run_clear ops (unpin ?h ?l1)" by (simp add: turn)
    also have "\<dots> = Inr ((unpin ?h ?l1)\<lparr>el_functors := [], el_runningFunctors := False\<rparr>)"
    proof -
      have L: "el_updates (unpin ?h ?l1) = []" "el_functors (unpin ?h ?l1) = fs" "el_app (unpin ?h ?l1) = (c', el_app l1)"
        using fr by (simp_all add: unpin_def drop_dead_def)
      then show ?thesis
        using run_clears [of fs "(unpin ?h ?l1)\<lparr>el_runningFunctors := True, el_functors := []\<rparr>" ops] fr(4)
        by (simp add: EventLoop_runFunctors_def del: with_app_simps)
    qed
    also have "(unpin ?h ?l1)\<lparr>el_functors := [], el_runningFunctors := False\<rparr> =
        with_app (c', el_app l1) ((unpin ?h l1)\<lparr>el_functors := [], el_runningFunctors := False\<rparr>)"
      by (simp add: with_app_functors)
    finally show ?thesis by (simp add: Inr w)
  qed
qed


lemmas conn_turn_step = conn_turn_framed [OF _ _ _ _ conn_step_frame]

text \<open>The connection after a turn is the connection after the step.\<close>

lemma conn_ok_cong:
  assumes "el_poll l' = el_poll l" "el_handles l' = el_handles l" "el_updates l' = el_updates l" "el_id l' = el_id l"
    "\<And>h. h \<in> set (map snd (el_handles l)) \<Longrightarrow> el_store l' h = el_store l h"
    and "conn_ok registered (c, l)"
  shows "conn_ok registered (c, l')"
proof -
  note inv = conn_okD [OF assms(6)]
  have reg: "loop_inv (\<lambda>p. ep_fd (fst p) \<noteq> -1) (\<lambda>m. True) (\<lambda>p. registered (snd p)) [] l"
    using inv(1,2) by (simp add: epoll_loop_inv_def)
  have store: "el_store l' h = el_store l h" if "smap_find (el_handles l) fd = Some h" for fd h
    using assms(5) that by (force dest!: smap_find_in)
  have "loop_inv (\<lambda>p. ep_fd (fst p) \<noteq> -1) (\<lambda>m. True) (\<lambda>p. registered (snd p)) [] l'"
    using reg store by (simp add: loop_inv_def registered_ok_def pending_ok_def good_handle_def assms(1-4))
  then have e: "epoll_loop_inv registered l'" using inv(2) assms(3) by (simp add: epoll_loop_inv_def)
  from inv(6) obtain x where x: "el_store l (tc_handle c) = Some x" "registered (snd (el_poll l)) (tc_fd c) = Some (ev_mask (h_events x))"
    "Buffer_content (tc_writeBuffer c) \<noteq> [] \<longrightarrow> Events_containsEvents (h_events x) kWriteEvent" by blast
  show ?thesis
    by (rule conn_okI [where x = x]) (use e inv x store assms(1-3) in simp_all)
qed

lemma conn_ok_pin [simp]: "conn_ok registered (c, l) \<Longrightarrow> conn_ok registered (c, pin h l)"
  by (rule conn_ok_cong [of _ l]) (simp_all add: pin_def)

lemma conn_ok_after_turn:
  assumes "conn_ok registered (c, l)"
  shows "conn_ok registered (c, (unpin h l)\<lparr>el_functors := [], el_runningFunctors := False\<rparr>)"
  by (rule conn_ok_cong [OF _ _ _ _ _ assms]) (auto simp: unpin_def live_handles_def)


section \<open>What the kernel may report\<close>

text \<open>\<open>readv\<close> delivers something and no more than it was given room for; \<open>write\<close> as before.\<close>

fun event_documented :: "conn_event \<Rightarrow> tcp_conn \<Rightarrow> bool" where
  "event_documented (Readable got) c = (readv_fits (tc_readBuffer c) got \<and> got \<noteq> IoBytes [])"
| "event_documented (Sendable rs) c = write_documented c rs"

text \<open>A condition on every event of a run, and on the loop that it meets.\<close>

fun turns_all :: "(conn_event \<Rightarrow> ('p, tcp_conn \<times> 'u) evloop \<Rightarrow> bool) \<Rightarrow> 'p poller_ops \<Rightarrow> ('p, 'u) tcp_world tcp_callbacks \<Rightarrow>
    timestamp \<Rightarrow> conn_event list \<Rightarrow> ('p, tcp_conn \<times> 'u) evloop \<Rightarrow> bool" where
  "turns_all P ops cbs t [] l = True"
| "turns_all P ops cbs t (ev # evs) l = (tc_closeing (fst (el_app l)) \<or> P ev l \<and>
     (case conn_turn ops cbs t ev l of Inl e \<Rightarrow> True | Inr l1 \<Rightarrow> turns_all P ops cbs t evs l1))"

abbreviation turns_documented :: "'p poller_ops \<Rightarrow> ('p, 'u) tcp_world tcp_callbacks \<Rightarrow> timestamp \<Rightarrow> conn_event list \<Rightarrow>
    ('p, tcp_conn \<times> 'u) evloop \<Rightarrow> bool" where
  "turns_documented \<equiv> turns_all (\<lambda>ev l. event_documented ev (fst (el_app l)))"

text \<open>The kernel reports that a socket can be written only while the loop asks for it.\<close>

abbreviation turns_watched :: "('k \<Rightarrow> int \<Rightarrow> 32 word option) \<Rightarrow> (epoll \<times> 'k) poller_ops \<Rightarrow>
    (epoll \<times> 'k, 'u) tcp_world tcp_callbacks \<Rightarrow> timestamp \<Rightarrow> conn_event list \<Rightarrow> ('k, tcp_conn \<times> 'u) epoll_loop \<Rightarrow> bool" where
  "turns_watched registered \<equiv> turns_all (\<lambda>ev l.
     \<forall>rs. ev = Sendable rs \<longrightarrow>
       (\<exists>m. registered (snd (el_poll l)) (tc_fd (fst (el_app l))) = Some m \<and> m AND kWriteEvent \<noteq> 0))"

lemma turns_always:
  "(\<And>ev c. ev \<in> set evs \<Longrightarrow> event_documented ev c) \<Longrightarrow> turns_documented ops cbs t evs l"
  by (induction evs arbitrary: l) (auto split: sum.split)

text \<open>Data that arrives on an open connection goes to the message callback behind what is there.\<close>

lemma readable_step:
  assumes "Buffer_inv (tc_readBuffer c)" and "event_documented (Readable (IoBytes data)) c"
    and "cb_message cbs = Some g"
  shows "conn_step ops cbs t (Readable (IoBytes data)) (c, l) = Inl LengthError \<or>
    (\<exists>b. Buffer_inv b \<and> Buffer_content b = Buffer_content (tc_readBuffer c) @ data \<and>
       conn_step ops cbs t (Readable (IoBytes data)) (c, l) = g t (c\<lparr>tc_readBuffer := b\<rparr>, l))"
proof -
  have fits: "readv_fits (tc_readBuffer c) (IoBytes data)" "data \<noteq> []" using assms(2) by simp_all
  have fd: "Events_getFd (Events_new (tc_fd c) POLLIN) = tc_fd c" by (simp add: Events_getFd_def Events_new_def)
  show ?thesis
  proof (cases "Buffer_readFd (tc_readBuffer c) (IoBytes data)")
    case (Inl e)
    with Buffer_readFd_or_full [OF assms(1) fits(1)] fd show ?thesis by (simp add: TcpConnection_handleRead_def)
  next
    case (Inr r)
    with Buffer_readFd_or_full [OF assms(1) fits(1)] obtain b where
      b: "Buffer_readFd (tc_readBuffer c) (IoBytes data) = Inr (int (length data), None, b)" "Buffer_inv b"
        "Buffer_content b = Buffer_content (tc_readBuffer c) @ data" by (cases r) auto
    with fits(2) fd assms(3) have "conn_step ops cbs t (Readable (IoBytes data)) (c, l) = g t (c\<lparr>tc_readBuffer := b\<rparr>, l)"
      by (simp add: TcpConnection_handleRead_def Let_def)
    with b show ?thesis by blast
  qed
qed

section \<open>Properties of the state between two turns\<close>

text \<open>
  A property of a connection in its loop that only looks at the connection, the user's
  state and the kernel's table, as far as the loop is well formed.
\<close>

definition loop_stable :: "('k \<Rightarrow> int \<Rightarrow> 32 word option) \<Rightarrow> ((epoll \<times> 'k, 'u) tcp_world \<Rightarrow> bool) \<Rightarrow> bool" where
  "loop_stable registered P \<longleftrightarrow> (\<forall>c l l'. P (c, l) \<longrightarrow> el_app l' = el_app l \<longrightarrow> el_poll l' = el_poll l \<longrightarrow>
     (conn_ok registered (c, l) \<longrightarrow> conn_ok registered (c, l')) \<longrightarrow> P (c, l'))"

lemma loop_stableD:
  "loop_stable registered P \<Longrightarrow> P (c, l) \<Longrightarrow> el_app l' = el_app l \<Longrightarrow> el_poll l' = el_poll l \<Longrightarrow>
   (conn_ok registered (c, l) \<Longrightarrow> conn_ok registered (c, l')) \<Longrightarrow> P (c, l')"
  unfolding loop_stable_def by blast

lemma loop_stable_conj:
  "loop_stable registered P \<Longrightarrow> loop_stable registered (\<lambda>w. P w \<and> R (fst w) (el_app (snd w)))"
  unfolding loop_stable_def by (metis fst_conv snd_conv)

definition between_turns :: "((epoll \<times> 'k, 'u) tcp_world \<Rightarrow> bool) \<Rightarrow> ('k, tcp_conn \<times> 'u) epoll_loop \<Rightarrow> bool" where
  "between_turns P l \<longleftrightarrow> P (fst (el_app l), with_app (snd (el_app l)) l) \<and> el_functors l = [] \<and> \<not> el_runningFunctors l"

text \<open>A turn does to the loop what the step of the connection does.\<close>

lemma turn_lift:
  fixes l :: "('k, tcp_conn \<times> 'u) epoll_loop"
  assumes "between_turns P l" and "loop_stable registered P" "loop_stable registered Q"
    and "conn_ok registered (fst (el_app l), with_app (snd (el_app l)) l)"
    and "\<And>w w'. P w \<Longrightarrow> fst w = fst (el_app l) \<Longrightarrow> el_app (snd w) = snd (el_app l) \<Longrightarrow>
      conn_step ops cbs t ev w = Inr w' \<Longrightarrow> conn_frame w w'"
    and "\<And>w. P w \<Longrightarrow> fst w = fst (el_app l) \<Longrightarrow> el_app (snd w) = snd (el_app l) \<Longrightarrow> conn_ok registered w \<Longrightarrow>
      case conn_step ops cbs t ev w of Inl e \<Rightarrow> E e | Inr w' \<Rightarrow> Q w'"
  shows "case conn_turn ops cbs t ev l of Inl e \<Rightarrow> E e | Inr l' \<Rightarrow> between_turns Q l'"
proof -
  obtain c a where l: "el_app l = (c, a)" by (cases "el_app l")
  let ?w = "(c, with_app a (pin (tc_handle c) l))"
  have P: "P (c, with_app a l)" and idle: "el_functors l = []" "\<not> el_runningFunctors l" and ok: "conn_ok registered (c, with_app a l)"
    using assms(1,4) by (simp_all add: between_turns_def l)
  have okw: "conn_ok registered ?w" using conn_ok_pin [OF ok, of "tc_handle c"] by simp
  have Pw: "P ?w" by (rule loop_stableD [OF assms(2) P]) (use okw in \<open>simp_all add: pin_def\<close>)
  have step: "case conn_step ops cbs t ev ?w of Inl e \<Rightarrow> E e | Inr w' \<Rightarrow> Q w'"
    using assms(6) [of ?w] Pw okw l by simp
  have frame: "conn_frame ?w w'" if "conn_step ops cbs t ev ?w = Inr w'" for w'
    by (rule assms(5)) (use Pw that l in simp_all)
  note turn = conn_turn_framed [where ops = ops and cbs = cbs and t = t and ev = ev, OF l ok idle frame]
  show ?thesis
  proof (cases "conn_step ops cbs t ev ?w")
    case (Inl e)
    with turn step show ?thesis by simp
  next
    case (Inr w')
    obtain c' l1 where w': "w' = (c', l1)" by (cases w')
    let ?l = "(unpin (tc_handle c) l1)\<lparr>el_functors := [], el_runningFunctors := False\<rparr>"
    have app: "el_app ?l = el_app l1" "el_poll ?l = el_poll l1" by (simp_all add: unpin_def drop_dead_def)
    have "with_app (el_app ?l) ?l = ?l" by (simp add: with_app_def)
    then have eq: "with_app (el_app l1) ?l = ?l" by (simp only: app)
    have "Q (c', l1)" using step Inr w' by simp
    then have "Q (c', ?l)" by (rule loop_stableD [OF assms(3)]) (use app conn_ok_after_turn in simp_all)
    then have "between_turns Q (with_app (c', el_app l1) ?l)" by (simp add: between_turns_def eq del: with_app_functors)
    with turn Inr w' show ?thesis by simp
  qed
qed

text \<open>The same with what is said of the connection and its application state alone.\<close>

lemma turn_lift_facts:
  fixes l :: "('k, tcp_conn \<times> 'u) epoll_loop"
  assumes "between_turns P l" and "loop_stable registered P" "loop_stable registered Q"
    and "conn_ok registered (fst (el_app l), with_app (snd (el_app l)) l)"
    and "\<And>w w'. P w \<Longrightarrow> fst w = fst (el_app l) \<Longrightarrow> el_app (snd w) = snd (el_app l) \<Longrightarrow>
      conn_step ops cbs t ev w = Inr w' \<Longrightarrow> conn_frame w w'"
    and "\<And>w. P w \<Longrightarrow> fst w = fst (el_app l) \<Longrightarrow> el_app (snd w) = snd (el_app l) \<Longrightarrow> conn_ok registered w \<Longrightarrow>
      case conn_step ops cbs t ev w of Inl e \<Rightarrow> E e | Inr w' \<Rightarrow> Q w' \<and> R (fst w') (el_app (snd w'))"
  shows "case conn_turn ops cbs t ev l of
      Inl e \<Rightarrow> E e | Inr l' \<Rightarrow> between_turns Q l' \<and> R (fst (el_app l')) (snd (el_app l'))"
proof -
  have "case conn_turn ops cbs t ev l of Inl e \<Rightarrow> E e | Inr l' \<Rightarrow> between_turns (\<lambda>w. Q w \<and> R (fst w) (el_app (snd w))) l'"
    by (rule turn_lift [OF assms(1,2) loop_stable_conj [OF assms(3)] assms(4-6)])
  then show ?thesis by (cases "conn_turn ops cbs t ev l") (simp_all add: between_turns_def)
qed

lemma conn_turns_closed: "tc_closeing (fst (el_app l)) \<Longrightarrow> conn_turns ops cbs t evs l = Inr l"
  by (cases evs) simp_all

lemma conn_turns_append:
  "conn_turns ops cbs t (as @ bs) l = bind_res (conn_turns ops cbs t as l) (conn_turns ops cbs t bs)"
proof (induction as arbitrary: l)
  case (Cons ev as)
  then show ?case by (cases "conn_turn ops cbs t ev l") (simp_all add: conn_turns_closed)
qed simp

lemma turns_all_append:
  "turns_all P ops cbs t (as @ bs) l \<longleftrightarrow> turns_all P ops cbs t as l \<and>
     (case conn_turns ops cbs t as l of Inl e \<Rightarrow> True | Inr l' \<Rightarrow> turns_all P ops cbs t bs l')"
proof (induction as arbitrary: l)
  case (Cons ev as)
  have "tc_closeing (fst (el_app l)) \<Longrightarrow> turns_all P ops cbs t bs l" by (cases bs) simp_all
  with Cons show ?case by (cases "conn_turn ops cbs t ev l") auto
qed simp

section \<open>A connection that only sends\<close>

text \<open>
  The connection stays open and \<open>bytes\<close> are all that was handed to it; once nothing is
  left the loop does not watch for writability any more.
\<close>

definition sending :: "('k \<Rightarrow> int \<Rightarrow> 32 word option) \<Rightarrow> string \<Rightarrow> (epoll \<times> 'k, 'u) tcp_world \<Rightarrow> bool" where
  "sending registered bytes w \<longleftrightarrow> conn_ok registered w \<and> tcp_bytes w = bytes \<and>
     \<not> tc_closeing (fst w) \<and> \<not> tc_shouldBeClosed (fst w) \<and> \<not> tc_hasMoreData (fst w) \<and>
     (Buffer_content (tc_writeBuffer (fst w)) = [] \<longrightarrow>
       (\<exists>m. registered (snd (el_poll (snd w))) (tc_fd (fst w)) = Some m \<and> m AND kWriteEvent = 0))"

lemma sending_stable: "loop_stable registered (sending registered bytes)"
  by (simp add: loop_stable_def sending_def tcp_bytes_def)

lemma disableWrite_mask: "ev_mask (h_events (Handle_disableWrite x)) AND kWriteEvent = 0"
  by (simp add: Handle_disableWrite_def events_defs bit_eq_iff bit_simps)

context epoll_kernel begin

lemma written_sending:
  assumes ok: "conn_ok registered (c, l)" and nc: "\<not> tc_closeing c" "\<not> tc_shouldBeClosed c" "\<not> tc_hasMoreData c"
    and n: "0 < n" "n \<le> length (Buffer_content (tc_writeBuffer c))" and bytes: "tcp_bytes (c, l) = bytes"
  shows "\<exists>c' l'. TcpConnection_written (epoll_ops ctl) True cbs n (c, l) = Inr (c', l') \<and> sending registered bytes (c', l') \<and>
    length (tc_sent c') = length (tc_sent c) + n \<and> tc_readBuffer c' = tc_readBuffer c \<and> el_app l' = el_app l"
proof -
  note inv = conn_okD [OF ok]
  let ?pending = "Buffer_content (tc_writeBuffer c)"
  from inv(6) obtain x where x: "el_store l (tc_handle c) = Some x"
    "registered (snd (el_poll l)) (tc_fd c) = Some (ev_mask (h_events x))"
    "?pending \<noteq> [] \<longrightarrow> Events_containsEvents (h_events x) kWriteEvent" by blast
  from Buffer_retrieve_ok [OF inv(4) n(2)] obtain b where
    b: "Buffer_retrieve (tc_writeBuffer c) n = Inr b" "Buffer_inv b" "Buffer_content b = drop n ?pending" by blast
  let ?c1 = "c\<lparr>tc_writeBuffer := b, tc_sent := tc_sent c @ take n ?pending\<rparr>"
  have left: "sz_sub (Buffer_readableBytes (tc_writeBuffer c)) n = length ?pending - n"
    using inv(4) n(2) by (simp add: buffer_simps size_simps)
  have step: "TcpConnection_written (epoll_ops ctl) True cbs n (c, l) =
      (if length ?pending = n
       then bind_res (EventLoop_modHandle (epoll_ops ctl) True (tc_handle c) (set_handle l (tc_handle c) (Handle_disableWrite x)))
         (\<lambda>(ok, l'). Inr (?c1\<lparr>tc_sendAllDataOut := True\<rparr>, l'))
       else Inr (?c1, l))"
    using b(1) n(2) nc x(1) by (auto simp: TcpConnection_written_def left Let_def)
  have by1: "tc_sent c @ take n ?pending @ drop n ?pending = bytes" using bytes by (simp add: tcp_bytes_def)
  show ?thesis
  proof (cases "length ?pending = n")
    case False
    have "conn_ok registered (?c1, l)" by (rule conn_okI [where x = x]) (use inv b x in auto)
    with step False b nc n by1 show ?thesis by (simp add: sending_def tcp_bytes_def)
  next
    case True
    from rearm_ok [OF inv(1-3) x(1), of "Handle_disableWrite x"] x(2) obtain l' where
      l': "EventLoop_modHandle (epoll_ops ctl) True (tc_handle c) (set_handle l (tc_handle c) (Handle_disableWrite x)) = Inr (True, l')"
        "epoll_loop_inv registered l'" "el_updates l' = []" "smap_find (el_handles l') (tc_fd c) = Some (tc_handle c)"
        "el_store l' (tc_handle c) = Some (Handle_disableWrite x)"
        "registered (snd (el_poll l')) (tc_fd c) = Some (ev_mask (h_events (Handle_disableWrite x)))" by auto
    have "conn_ok registered (?c1\<lparr>tc_sendAllDataOut := True\<rparr>, l')"
      by (rule conn_okI [where x = "Handle_disableWrite x"]) (use l' b True in simp_all)
    moreover have "length bytes = length (tc_sent c) + n" using True by (simp flip: by1)
    ultimately show ?thesis using step True l'(1,6) b nc n by1 modHandle_app [OF l'(1)]
      by (simp add: sending_def tcp_bytes_def disableWrite_mask set_handle_def)
  qed
qed

lemma sending_step:
  assumes "sending registered bytes w" and "Buffer_content (tc_writeBuffer (fst w)) \<noteq> []" and "write_documented (fst w) rs"
  shows "\<exists>w'. conn_step (epoll_ops ctl) cbs t (Sendable rs) w = Inr w' \<and> sending registered bytes w' \<and>
    length (tc_sent (fst w')) = length (tc_sent (fst w)) + taken rs \<and> tc_readBuffer (fst w') = tc_readBuffer (fst w) \<and>
    el_app (snd w') = el_app (snd w)"
proof -
  obtain c l where w: "w = (c, l)" by (cases w)
  show ?thesis
  proof (cases "\<exists>n. reWrite rs = Some (WriteBytes n)")
    case True
    then obtain n where n: "reWrite rs = Some (WriteBytes n)" by blast
    with assms(2,3) have "0 < n" "n \<le> length (Buffer_content (tc_writeBuffer c))" by (auto simp: w write_documented_def)
    with written_sending [of c l n bytes cbs] assms(1) n show ?thesis
      by (fastforce simp: w sending_def TcpConnection_handleWrite_def taken_def)
  next
    case False
    then have "conn_step (epoll_ops ctl) cbs t (Sendable rs) w = Inr w" "taken rs = 0"
      by (auto simp: w TcpConnection_handleWrite_def taken_def split: option.split write_result.split)
    with assms(1) show ?thesis by simp
  qed
qed

end

lemma pending_watched:
  assumes "conn_ok registered (c, l)" and "Buffer_content (tc_writeBuffer c) \<noteq> []"
  shows "\<exists>m. registered (snd (el_poll l)) (tc_fd c) = Some m \<and> m AND kWriteEvent \<noteq> 0"
  using conn_okD(6) [OF assms(1)] assms(2)
  by (auto simp: Events_containsEvents_def kWriteEvent_def POLLOUT_def)

text \<open>
  Turns of writability for a connection that stays open: each step keeps \<open>P\<close> and sends what the
  socket took; once nothing is pending the kernel, which reports only what is asked for, is silent.
\<close>

lemma write_turns:
  fixes P :: "(epoll \<times> 'k, 'u) tcp_world \<Rightarrow> bool"
  assumes stable: "loop_stable registered P"
    and facts: "\<And>w. P w \<Longrightarrow> conn_ok registered w \<and> \<not> tc_closeing (fst w) \<and> (Buffer_content (tc_writeBuffer (fst w)) = [] \<longrightarrow>
      (\<exists>m. registered (snd (el_poll (snd w))) (tc_fd (fst w)) = Some m \<and> m AND kWriteEvent = 0))"
    and step: "\<And>w rs. P w \<Longrightarrow> Buffer_content (tc_writeBuffer (fst w)) \<noteq> [] \<Longrightarrow> write_documented (fst w) rs \<Longrightarrow>
      \<exists>w'. conn_step ops cbs t (Sendable rs) w = Inr w' \<and> conn_frame w w' \<and> P w' \<and>
        length (tc_sent (fst w')) = length (tc_sent (fst w)) + taken rs"
  shows "between_turns P l \<Longrightarrow> turns_documented ops cbs t (map Sendable rss) l \<Longrightarrow>
    turns_watched registered ops cbs t (map Sendable rss) l \<Longrightarrow>
    \<exists>l'. conn_turns ops cbs t (map Sendable rss) l = Inr l' \<and> between_turns P l' \<and>
      length (tc_sent (fst (el_app l'))) = length (tc_sent (fst (el_app l))) + sum_list (map taken rss)"
proof (induction rss arbitrary: l)
  case (Cons rs rss)
  let ?n = "length (tc_sent (fst (el_app l))) + taken rs"
  from facts Cons.prems(1) have f: "conn_ok registered (fst (el_app l), with_app (snd (el_app l)) l)" "\<not> tc_closeing (fst (el_app l))"
    "Buffer_content (tc_writeBuffer (fst (el_app l))) = [] \<longrightarrow>
      (\<exists>m. registered (snd (el_poll l)) (tc_fd (fst (el_app l))) = Some m \<and> m AND kWriteEvent = 0)"
    by (fastforce simp: between_turns_def)+
  have pending: "Buffer_content (tc_writeBuffer (fst (el_app l))) \<noteq> []" using f Cons.prems(3) by auto
  have doc: "write_documented (fst (el_app l)) rs" using Cons.prems(2) f(2) by simp
  have "case conn_turn ops cbs t (Sendable rs) l of
      Inl e \<Rightarrow> False | Inr l' \<Rightarrow> between_turns P l' \<and> length (tc_sent (fst (el_app l'))) = ?n"
  proof (rule turn_lift_facts [OF Cons.prems(1) stable stable f(1), where R = "\<lambda>c a. length (tc_sent c) = ?n"])
    fix w :: "(epoll \<times> 'k, 'u) tcp_world" assume w: "P w" "fst w = fst (el_app l)"
    from step [OF w(1)] w(2) pending doc obtain w1 where
      w1: "conn_step ops cbs t (Sendable rs) w = Inr w1" "conn_frame w w1" "P w1" "length (tc_sent (fst w1)) = ?n" by metis
    then show "case conn_step ops cbs t (Sendable rs) w of Inl e \<Rightarrow> False | Inr w' \<Rightarrow> P w' \<and> length (tc_sent (fst w')) = ?n"
      by (simp del: conn_step.simps)
    show "conn_frame w w'" if "conn_step ops cbs t (Sendable rs) w = Inr w'" for w'
      using w1(1,2) that by (simp del: conn_step.simps)
  qed
  then obtain l1 where l1: "conn_turn ops cbs t (Sendable rs) l = Inr l1" "between_turns P l1" "length (tc_sent (fst (el_app l1))) = ?n"
    by (auto split: sum.splits)
  from Cons.IH [OF l1(2)] Cons.prems(2,3) f(2) l1(1,3) show ?case by auto
qed simp

end
