(* ===== verification/Util_String.thy ===== *)
theory Util_String
  imports FAS_Prelude
begin

text \<open>
  \<open>src/utils/utilstring.h\<close> and \<open>utilstring.cpp\<close>: splitting and trimming, over the
  searches and \<open>substr\<close> of \<open>std::string\<close>. A position is an option, \<open>None\<close> for
  \<open>npos\<close>; \<open>substr\<close> at a position past the end throws, the fault \<open>OutOfRange\<close>. Lemmas:
  each function against its specification on lists, with exactly the inputs on which
  it throws.
\<close>

section \<open>Searches of std::string\<close>

definition find_pos :: "('a \<Rightarrow> bool) \<Rightarrow> 'a list \<Rightarrow> nat \<Rightarrow> nat option" where
  "find_pos P s pos =
     (let i = pos + length (takeWhile (\<lambda>c. \<not> P c) (drop pos s)) in if i < length s then Some i else None)"

definition find_first_of :: "string \<Rightarrow> char \<Rightarrow> nat \<Rightarrow> nat option" where
  "find_first_of s c = find_pos (\<lambda>x. x = c) s"

definition find_first_not_of :: "string \<Rightarrow> char \<Rightarrow> nat \<Rightarrow> nat option" where
  "find_first_not_of s c = find_pos (\<lambda>x. x \<noteq> c) s"

text \<open>The last position with the property.\<close>

definition find_last :: "('a \<Rightarrow> bool) \<Rightarrow> 'a list \<Rightarrow> nat option" where
  "find_last P s =
     (let n = length (takeWhile (\<lambda>c. \<not> P c) (rev s)) in if n < length s then Some (length s - 1 - n) else None)"

text \<open>\<open>npos + 1\<close> is zero.\<close>

fun pos_succ :: "nat option \<Rightarrow> nat" where
  "pos_succ None = 0"
| "pos_succ (Some i) = Suc i"

definition str_substr :: "string \<Rightarrow> nat option \<Rightarrow> nat \<Rightarrow> string res" where
  "str_substr s pos n = (case pos of None \<Rightarrow> Inl OutOfRange
     | Some i \<Rightarrow> if length s < i then Inl OutOfRange else Inr (take n (drop i s)))"

text \<open>The string that a C function sees at an address: up to the first zero byte.\<close>

definition c_str :: "char list \<Rightarrow> string" where
  "c_str buf = takeWhile (\<lambda>c. c \<noteq> CHR 0x00) buf"

lemma c_str_append_zero: "CHR 0x00 \<notin> set xs \<Longrightarrow> c_str (xs @ CHR 0x00 # ys) = xs"
  by (simp add: c_str_def takeWhile_append)

section \<open>The functions\<close>

lemma find_pos_bounds: "find_pos P s pos = Some i \<Longrightarrow> pos \<le> i \<and> i < length s \<and> P (s ! i)"
proof -
  assume f: "find_pos P s pos = Some i"
  let ?n = "length (takeWhile (\<lambda>c. \<not> P c) (drop pos s))"
  have i: "i = pos + ?n" "i < length s" using f by (auto simp: find_pos_def Let_def split: if_splits)
  then have "?n < length (drop pos s)" by simp
  from nth_length_takeWhile [OF this] have "P (drop pos s ! ?n)" by simp
  with i show ?thesis by simp
qed

text \<open>
  \<open>StringSplitBychar\<close> appends the pieces to \<open>ret\<close>; the recursion goes on at the
  delimiter that ends a piece.
\<close>

function StringSplitBychar :: "string \<Rightarrow> char \<Rightarrow> string list \<Rightarrow> nat option \<Rightarrow> string list res" where
  "StringSplitBychar src d ret None = Inr ret"
| "StringSplitBychar src d ret (Some startpos) =
     (case find_first_not_of src d startpos of
        None \<Rightarrow> bind_res (str_substr src None 0) (\<lambda>s. Inr ret)
      | Some a \<Rightarrow>
          (case find_first_of src d a of
             None \<Rightarrow> bind_res (str_substr src (Some a) (length src - a))
               (\<lambda>s. StringSplitBychar src d (ret @ [s]) None)
           | Some e \<Rightarrow> bind_res (str_substr src (Some a) (e - a))
               (\<lambda>s. StringSplitBychar src d (ret @ [s]) (Some e))))"
  by pat_completeness auto

termination
proof (relation "measure (\<lambda>(src, d, ret, p). case p of None \<Rightarrow> 0 | Some i \<Rightarrow> Suc (length src - i))", goal_cases)
  case 1
  then show ?case by simp
next
  case (2 src d ret p a s)
  then show ?case by simp
next
  case (3 src d ret p a e s)
  have a: "p \<le> a" "a < length src" "src ! a \<noteq> d"
    using find_pos_bounds [OF 3(1) [unfolded find_first_not_of_def]] by auto
  have e: "a \<le> e" "e < length src" "src ! e = d"
    using find_pos_bounds [OF 3(2) [unfolded find_first_of_def]] by auto
  then have "a \<noteq> e" using a(3) by auto
  with a e show ?case by simp
qed

definition StringTrimLeft :: "string \<Rightarrow> string res" where
  "StringTrimLeft src =
     (let startTrimPos = find_first_not_of src CHR '' '' 0
      in str_substr src startTrimPos (case startTrimPos of None \<Rightarrow> 0 | Some a \<Rightarrow> length src - a))"

definition StringTrimRight :: "string \<Rightarrow> string res" where
  "StringTrimRight src = str_substr src (Some 0) (pos_succ (find_last (\<lambda>c. c \<noteq> CHR '' '') src))"

definition StringTrim :: "string \<Rightarrow> string res" where
  "StringTrim src =
     (let startTrimPos = find_first_not_of src CHR '' '' 0;
          endTrimPos = pos_succ (find_last (\<lambda>c. c \<noteq> CHR '' '') src)
      in str_substr src startTrimPos (case startTrimPos of None \<Rightarrow> 0 | Some a \<Rightarrow> endTrimPos - a))"

text \<open>\<open>regex src pattern replacement\<close> is the \<open>regex_replace\<close> of Boost.\<close>

definition StringRemoveRepeatChar :: "(string \<Rightarrow> string \<Rightarrow> string \<Rightarrow> string) \<Rightarrow> string \<Rightarrow> string \<Rightarrow> string" where
  "StringRemoveRepeatChar regex src opr = regex src (''('' @ opr @ ''){2,}'') opr"

definition StringGetSuffix :: "string \<Rightarrow> string res" where
  "StringGetSuffix src =
     (case find_last (\<lambda>c. c = CHR ''.'') src of
        None \<Rightarrow> Inr []
      | Some pos \<Rightarrow> str_substr src (Some pos) (length src - pos))"

section \<open>Specifications\<close>

text \<open>The pieces between delimiters that are not empty.\<close>

fun words_by :: "char \<Rightarrow> string \<Rightarrow> string \<Rightarrow> string list" where
  "words_by d acc [] = (if acc = [] then [] else [acc])"
| "words_by d acc (c # s) =
     (if c = d then (if acc = [] then words_by d [] s else acc # words_by d [] s)
      else words_by d (acc @ [c]) s)"

definition trim_spec :: "string \<Rightarrow> string" where
  "trim_spec s = rev (dropWhile (\<lambda>c. c = CHR '' '') (rev (dropWhile (\<lambda>c. c = CHR '' '') s)))"

lemma find_pos_None: "find_pos P s pos = None \<longleftrightarrow> length s \<le> pos \<or> (\<forall>c \<in> set (drop pos s). \<not> P c)"
proof (cases "length s \<le> pos")
  case True
  then show ?thesis by (simp add: find_pos_def)
next
  case False
  have "length (takeWhile (\<lambda>c. \<not> P c) (drop pos s)) \<le> length (drop pos s)" by (rule length_takeWhile_le)
  with False have "find_pos P s pos = None \<longleftrightarrow>
      length (takeWhile (\<lambda>c. \<not> P c) (drop pos s)) = length (drop pos s)"
    by (auto simp: find_pos_def Let_def)
  also have "\<dots> \<longleftrightarrow> takeWhile (\<lambda>c. \<not> P c) (drop pos s) = drop pos s"
    by (metis takeWhile_eq_take take_all order_refl)
  also have "\<dots> \<longleftrightarrow> (\<forall>c \<in> set (drop pos s). \<not> P c)" by (rule takeWhile_eq_all_conv)
  finally show ?thesis using False by simp
qed

lemma find_pos_Some:
  assumes "find_pos P s pos = Some i"
  shows "drop pos s = take (i - pos) (drop pos s) @ s ! i # drop (Suc i) s"
    "\<forall>c \<in> set (take (i - pos) (drop pos s)). \<not> P c" "P (s ! i)" "pos \<le> i" "i < length s"
proof -
  note b = find_pos_bounds [OF assms]
  show "P (s ! i)" "pos \<le> i" "i < length s" using b by auto
  have n: "i - pos = length (takeWhile (\<lambda>c. \<not> P c) (drop pos s))"
    using assms by (auto simp: find_pos_def Let_def split: if_splits)
  show "\<forall>c \<in> set (take (i - pos) (drop pos s)). \<not> P c"
    unfolding n takeWhile_eq_take [symmetric] by (auto dest: set_takeWhileD)
  have "drop pos s = take (i - pos) (drop pos s) @ drop (i - pos) (drop pos s)"
    by (rule append_take_drop_id [symmetric])
  also have "drop (i - pos) (drop pos s) = s ! i # drop (Suc i) s" using b by (simp add: Cons_nth_drop_Suc)
  finally show "drop pos s = take (i - pos) (drop pos s) @ s ! i # drop (Suc i) s" .
qed

lemma words_by_skip: "\<forall>c \<in> set xs. c = d \<Longrightarrow> words_by d [] (xs @ ys) = words_by d [] ys"
  by (induction xs) auto

lemma words_by_piece: "\<forall>c \<in> set xs. c \<noteq> d \<Longrightarrow> words_by d acc (xs @ ys) = words_by d (acc @ xs) ys"
  by (induction xs arbitrary: acc) auto

lemma split_spec_aux:
  "p \<le> length src \<Longrightarrow>
   StringSplitBychar src d ret (Some p) =
     (if drop p src = [] \<or> last (drop p src) = d then Inl OutOfRange else Inr (ret @ words_by d [] (drop p src)))"
proof (induction "length src - p" arbitrary: p ret rule: less_induct)
  case less
  show ?case
  proof (cases "find_first_not_of src d p")
    case None
    then have "length src \<le> p \<or> (\<forall>c \<in> set (drop p src). c = d)"
      by (simp add: find_first_not_of_def find_pos_None)
    then have "drop p src = [] \<or> last (drop p src) = d"
      using last_in_set [of "drop p src"] by (cases "drop p src = []") auto
    with None show ?thesis by (simp add: str_substr_def)
  next
    case (Some a)
    note a = find_pos_Some [OF Some [unfolded find_first_not_of_def]]
    have pre: "\<forall>c \<in> set (take (a - p) (drop p src)). c = d" using a(2) by simp
    have rest: "drop p src = take (a - p) (drop p src) @ drop a src"
      using a(1) unfolding Cons_nth_drop_Suc [OF a(5)] .
    have words_a: "words_by d [] (drop p src) = words_by d [] (drop a src)"
      by (subst rest) (rule words_by_skip [OF pre])
    have last_a: "last (drop p src) = last (drop a src)" using a(4,5) by simp
    show ?thesis
    proof (cases "find_first_of src d a")
      case None
      then have tail: "\<forall>c \<in> set (drop a src). c \<noteq> d" using a(5) by (simp add: find_first_of_def find_pos_None)
      have ne: "drop a src \<noteq> []" using a(5) by simp
      then have "last (drop a src) \<noteq> d" using tail last_in_set by blast
      moreover have "words_by d [] (drop a src) = [drop a src]"
        using words_by_piece [OF tail, of "[]" "[]"] ne by simp
      ultimately show ?thesis using None Some a(4,5) words_a last_a by (simp add: str_substr_def)
    next
      case e: (Some e)
      note e = this find_pos_Some [OF e [unfolded find_first_of_def]]
      have lt: "a < e" using a(3) e(4,5) by (cases "a = e") auto
      have IH: "StringSplitBychar src d (ret @ [take (e - a) (drop a src)]) (Some e) =
          (if drop e src = [] \<or> last (drop e src) = d then Inl OutOfRange
           else Inr ((ret @ [take (e - a) (drop a src)]) @ words_by d [] (drop e src)))"
        using less(1) [of e] lt a(4,5) e(6) by simp
      have rest_e: "drop a src = take (e - a) (drop a src) @ drop e src"
        using e(2) unfolding Cons_nth_drop_Suc [OF e(6)] .
      have hd_e: "drop e src = d # drop (Suc e) src" using Cons_nth_drop_Suc [OF e(6)] e(4) by simp
      have piece: "\<forall>c \<in> set (take (e - a) (drop a src)). c \<noteq> d" "take (e - a) (drop a src) \<noteq> []"
        using e(3) lt a(5) by auto
      have "words_by d [] (drop a src) = words_by d (take (e - a) (drop a src)) (drop e src)"
        by (subst rest_e) (simp add: words_by_piece [OF piece(1)])
      also have "\<dots> = take (e - a) (drop a src) # words_by d [] (drop e src)"
        using piece(2) by (simp add: hd_e)
      finally have "words_by d [] (drop a src) = take (e - a) (drop a src) # words_by d [] (drop e src)" .
      moreover have "last (drop a src) = last (drop e src)" using lt e(6) by simp
      ultimately show ?thesis using IH Some e(1) a(4,5) e(6) words_a last_a by (simp add: str_substr_def)
    qed
  qed
qed

lemma trim_spec_alt:
  assumes "\<exists>c \<in> set s. c \<noteq> CHR '' ''"
  defines "a \<equiv> length (takeWhile (\<lambda>c. c = CHR '' '') s)"
    and "n \<equiv> length (takeWhile (\<lambda>c. c = CHR '' '') (rev s))"
  shows "trim_spec s = take (length s - n - a) (drop a s)" "a < length s" "n < length s"
proof -
  let ?sp = "\<lambda>c. c = CHR '' ''"
  have tl: "length (takeWhile ?sp t) < length t" if "\<exists>c \<in> set t. c \<noteq> CHR '' ''" for t
  proof -
    have "0 < length (dropWhile ?sp t)" using that by simp
    moreover have "length (takeWhile ?sp t) + length (dropWhile ?sp t) = length t"
      by (simp flip: length_append)
    ultimately show ?thesis by linarith
  qed
  show a: "a < length s" unfolding a_def by (rule tl [OF assms(1)])
  show n: "n < length s" unfolding n_def using tl [of "rev s"] assms(1) by simp
  have d: "dropWhile ?sp s = drop a s" unfolding a_def by (rule dropWhile_eq_drop)
  have ne: "drop a s \<noteq> []" using a by simp
  have hd: "hd (drop a s) \<noteq> CHR '' ''" using hd_dropWhile [of ?sp s] d ne by simp
  have split: "rev s = rev (drop a s) @ rev (take a s)" by (simp flip: rev_append)
  have "takeWhile ?sp (rev s) = takeWhile ?sp (rev (drop a s))"
    unfolding split by (rule takeWhile_append1 [of "hd (drop a s)"]) (use ne hd in simp_all)
  then have "dropWhile ?sp (rev (drop a s)) = drop n (rev (drop a s))"
    unfolding n_def by (simp add: dropWhile_eq_drop)
  then have "trim_spec s = rev (drop n (rev (drop a s)))" by (simp only: trim_spec_def d)
  also have "\<dots> = take (length s - n - a) (drop a s)" by (subst rev_drop) (simp add: add.commute)
  finally show "trim_spec s = take (length s - n - a) (drop a s)" .
qed

lemma trim_positions:
  assumes "\<exists>c \<in> set s. c \<noteq> CHR '' ''"
  shows "find_first_not_of s CHR '' '' 0 = Some (length (takeWhile (\<lambda>c. c = CHR '' '') s))"
    and "pos_succ (find_last (\<lambda>c. c \<noteq> CHR '' '') s) = length s - length (takeWhile (\<lambda>c. c = CHR '' '') (rev s))"
  using trim_spec_alt(2,3) [OF assms] by (auto simp: find_first_not_of_def find_pos_def find_last_def Let_def)

lemma StringTrim_eq:
  "StringTrim s = (if \<forall>c \<in> set s. c = CHR '' '' then Inl OutOfRange else Inr (trim_spec s))"
proof (cases "\<forall>c \<in> set s. c = CHR '' ''")
  case True
  then have "find_first_not_of s CHR '' '' 0 = None"
    by (simp add: find_first_not_of_def find_pos_None)
  with True show ?thesis by (simp add: StringTrim_def str_substr_def)
next
  case False
  then have ex: "\<exists>c \<in> set s. c \<noteq> CHR '' ''" by simp
  from trim_positions [OF ex] trim_spec_alt [OF ex] False show ?thesis
    by (auto simp: StringTrim_def str_substr_def Let_def diff_commute)
qed

lemma StringTrimLeft_eq:
  "StringTrimLeft s = (if \<forall>c \<in> set s. c = CHR '' '' then Inl OutOfRange
     else Inr (dropWhile (\<lambda>c. c = CHR '' '') s))"
proof (cases "\<forall>c \<in> set s. c = CHR '' ''")
  case True
  then have "find_first_not_of s CHR '' '' 0 = None"
    by (simp add: find_first_not_of_def find_pos_None)
  with True show ?thesis by (simp add: StringTrimLeft_def str_substr_def)
next
  case False
  then have ex: "\<exists>c \<in> set s. c \<noteq> CHR '' ''" by simp
  from trim_positions(1) [OF ex] trim_spec_alt(2) [OF ex] False show ?thesis
    by (auto simp: StringTrimLeft_def str_substr_def Let_def dropWhile_eq_drop)
qed

lemma StringTrimRight_eq:
  "StringTrimRight s = Inr (rev (dropWhile (\<lambda>c. c = CHR '' '') (rev s)))"
proof (cases "\<forall>c \<in> set s. c = CHR '' ''")
  case True
  then have "takeWhile (\<lambda>c. c = CHR '' '') (rev s) = rev s" by (simp add: takeWhile_eq_all_conv)
  then have "length (takeWhile (\<lambda>c. c = CHR '' '') (rev s)) = length s" by (metis length_rev)
  moreover have "dropWhile (\<lambda>c. c = CHR '' '') (rev s) = []" using True by simp
  ultimately show ?thesis by (simp add: StringTrimRight_def str_substr_def find_last_def Let_def)
next
  case False
  then have ex: "\<exists>c \<in> set s. c \<noteq> CHR '' ''" by simp
  from trim_positions(2) [OF ex] show ?thesis
    by (simp add: StringTrimRight_def str_substr_def dropWhile_eq_drop rev_drop)
qed

lemma trim_spec_id:
  assumes "s \<noteq> []" and "hd s \<noteq> CHR '' ''" and "last s \<noteq> CHR '' ''"
  shows "trim_spec s = s"
proof -
  have "dropWhile (\<lambda>c. c = CHR '' '') s = s" using assms(1,2) by (cases s) auto
  moreover have "dropWhile (\<lambda>c. c = CHR '' '') (rev s) = rev s"
    using assms(1,3) by (cases s rule: rev_cases) auto
  ultimately show ?thesis by (simp add: trim_spec_def)
qed

text \<open>
  \<open>StringSplitBychar\<close> from the start yields exactly the non-empty pieces between the
  delimiters, in order; it throws \<open>out_of_range\<close> exactly on the empty string and on a
  string that ends in the delimiter.
\<close>
theorem string_split_words:
  "StringSplitBychar src d [] (Some 0) =
     (if src = [] \<or> last src = d then Inl OutOfRange else Inr (words_by d [] src))"
  using split_spec_aux [of 0 src d "[]"] by simp

text \<open>
  \<open>StringTrim\<close> removes the spaces at both ends and nothing else; it throws
  \<open>out_of_range\<close> exactly on strings of spaces only, the empty one included, on which
  \<open>StringTrimLeft\<close> throws too and \<open>StringTrimRight\<close> returns the empty string.
\<close>
theorem string_trim_spec:
  "StringTrim s = (if set s \<subseteq> {CHR '' ''} then Inl OutOfRange else Inr (trim_spec s)) \<and>
   StringTrimLeft s = (if set s \<subseteq> {CHR '' ''} then Inl OutOfRange else Inr (dropWhile (\<lambda>c. c = CHR '' '') s)) \<and>
   StringTrimRight s = Inr (rev (dropWhile (\<lambda>c. c = CHR '' '') (rev s)))"
  using StringTrim_eq [of s] StringTrimLeft_eq [of s] StringTrimRight_eq [of s] by auto

end
