(* ===== verification/Http_Request.thy ===== *)
theory Http_Request
  imports Buffer Std_Containers Util_String "HOL-Library.List_Lexorder" "HOL-Library.Char_ord"
begin

text \<open>
  \<open>src/http/HttpRequest.h\<close> and \<open>HttpRequest.cpp\<close>: the parser of a request header, over
  the read buffer of a connection. The loop over the lines is bounded by the number of
  readable bytes, and \<open>http_header_terminates\<close> shows that the bound is never reached.
  Exceptions of the string functions end the operation. Lemmas: parsing a rendered
  request gives the request back, and what happens to requests that are not complete
  or not well formed.
\<close>

section \<open>The request\<close>

datatype req_state = BAD | GOOD | INCOMPLETE

record http_request =
  rq_state :: req_state
  rq_method :: string
  rq_path :: string
  rq_version :: string
  rq_headers :: "(string, string) smap"

definition HttpRequest_new :: http_request where
  "HttpRequest_new = \<lparr>rq_state = INCOMPLETE, rq_method = [], rq_path = [], rq_version = [], rq_headers = []\<rparr>"

definition HttpRequest_setReqestState :: "http_request \<Rightarrow> req_state \<Rightarrow> http_request" where
  "HttpRequest_setReqestState r s = r\<lparr>rq_state := s\<rparr>"

definition kCRLFCRLF :: string where
  "kCRLFCRLF = [CHR 0x0D, CHR 0x0A, CHR 0x0D, CHR 0x0A]"

text \<open>The first line; \<open>False\<close> for a line that does not have three words.\<close>

definition HttpRequest_requestLine ::
    "(string \<Rightarrow> string \<Rightarrow> string \<Rightarrow> string) \<Rightarrow> http_request \<Rightarrow> string \<Rightarrow> (bool \<times> http_request) res" where
  "HttpRequest_requestLine regex r line =
     bind_res (StringSplitBychar line CHR '' '' [] (Some 0)) (\<lambda>ret.
     if length ret \<noteq> 3 then Inr (False, HttpRequest_setReqestState r BAD)
     else bind_res (StringTrim (ret ! 0)) (\<lambda>m. bind_res (StringTrim (ret ! 1)) (\<lambda>p.
          bind_res (StringTrim (ret ! 2)) (\<lambda>v.
          Inr (True, r\<lparr>rq_method := m, rq_version := v,
                 rq_path := StringRemoveRepeatChar regex p ''/''\<rparr>)))))"

definition HttpRequest_headerLine :: "http_request \<Rightarrow> string \<Rightarrow> (bool \<times> http_request) res" where
  "HttpRequest_headerLine r line =
     (let splitPos = find_first_of line CHR '':'' 0;
          keyLen = (case splitPos of None \<Rightarrow> length line | Some i \<Rightarrow> i);
          valueLen = (case splitPos of None \<Rightarrow> length line | Some i \<Rightarrow> length line - i - 1)
      in bind_res (str_substr line (Some 0) keyLen) (\<lambda>k0. bind_res (StringTrim k0) (\<lambda>k.
         bind_res (str_substr line (Some (pos_succ splitPos)) valueLen) (\<lambda>v0. bind_res (StringTrim v0) (\<lambda>v.
         Inr (True, r\<lparr>rq_headers := smap_insert (rq_headers r) k v\<rparr>))))))"

text \<open>
  The \<open>while\<close> loop: \<open>pos\<close> points at the end of the last line. \<open>None\<close> is a loop that used
  up its fuel; a missing line break would subtract from a null pointer.
\<close>

fun analyse_lines :: "nat \<Rightarrow> (string \<Rightarrow> string \<Rightarrow> string \<Rightarrow> string) \<Rightarrow> nat \<Rightarrow> bool \<Rightarrow> http_request \<Rightarrow> buffer \<Rightarrow>
    (bool \<times> http_request \<times> buffer) res option" where
  "analyse_lines 0 regex pos firstLine r b = None"
| "analyse_lines (Suc fuel) regex pos firstLine r b =
     (case Buffer_findCRLF b of
        None \<Rightarrow> Some (Inl NullDeref)
      | Some crlf \<Rightarrow>
     (case Buffer_retrieveAsString b (crlf - Buffer_peek b) of
        Inl e \<Rightarrow> Some (Inl e)
      | Inr (line, b1) \<Rightarrow>
     (case (if firstLine then HttpRequest_requestLine regex r line else HttpRequest_headerLine r line) of
        Inl e \<Rightarrow> Some (Inl e)
      | Inr (ok, r1) \<Rightarrow>
          if \<not> ok then Some (Inr (False, r1, b1))
          else if Buffer_peek b1 = pos
          then Some (bind_res (Buffer_retrieve b1 4) (\<lambda>b2. Inr (True, HttpRequest_setReqestState r1 GOOD, b2)))
          else (case Buffer_retrieve b1 2 of
                  Inl e \<Rightarrow> Some (Inl e)
                | Inr b2 \<Rightarrow> analyse_lines fuel regex pos False r1 b2))))"

definition HttpRequest_analyseHttpRequestHeader :: "(string \<Rightarrow> string \<Rightarrow> string \<Rightarrow> string) \<Rightarrow> http_request \<Rightarrow> buffer \<Rightarrow>
    (bool \<times> http_request \<times> buffer) res option" where
  "HttpRequest_analyseHttpRequestHeader regex r b =
     (case Buffer_findChars b kCRLFCRLF of
        None \<Rightarrow> Some (Inr (False, HttpRequest_setReqestState r INCOMPLETE, b))
      | Some pos \<Rightarrow> analyse_lines (Suc (Buffer_readableBytes b)) regex pos True r b)"

definition HttpRequest_analyseHttpRequestBody :: "http_request \<Rightarrow> buffer \<Rightarrow> bool \<times> http_request" where
  "HttpRequest_analyseHttpRequestBody r b = (True, r)"

section \<open>The buffer during the loop\<close>

text \<open>One line is taken off the buffer.\<close>

lemma analyse_line:
  assumes "Buffer_inv b" and "Buffer_content b = line @ kCRLF @ rest" and "CHR 0x0D \<notin> set line"
  obtains b1 where "Buffer_inv b1" "Buffer_content b1 = kCRLF @ rest" "readerIndex b1 = readerIndex b + length line"
    "analyse_lines (Suc fuel) regex pos firstLine r b =
      (case (if firstLine then HttpRequest_requestLine regex r line else HttpRequest_headerLine r line) of
         Inl e \<Rightarrow> Some (Inl e)
       | Inr (ok, r1) \<Rightarrow>
           if \<not> ok then Some (Inr (False, r1, b1))
           else if Buffer_peek b1 = pos
           then Some (bind_res (Buffer_retrieve b1 4) (\<lambda>b2. Inr (True, HttpRequest_setReqestState r1 GOOD, b2)))
           else (case Buffer_retrieve b1 2 of
                   Inl e \<Rightarrow> Some (Inl e)
                 | Inr b2 \<Rightarrow> analyse_lines fuel regex pos False r1 b2))"
proof -
  have "length line < length (Buffer_content b)" using assms(2) by (simp add: kCRLF_def)
  from retrieveAsString_reader [OF assms(1) this] assms(2) obtain b1 where
    b1: "Buffer_retrieveAsString b (length line) = Inr (line, b1)" "Buffer_inv b1"
      "Buffer_content b1 = kCRLF @ rest" "readerIndex b1 = readerIndex b + length line" by auto
  then show ?thesis
    by (intro that [OF b1(2-4)]) (simp add: findCRLF_line [OF assms] Buffer_peek_def [of b])
qed

section \<open>Termination\<close>

lemma analyse_lines_terminates:
  "Buffer_inv b \<Longrightarrow> length (Buffer_content b) < fuel \<Longrightarrow> analyse_lines fuel regex pos firstLine r b \<noteq> None"
proof (induction fuel arbitrary: firstLine r b)
  case 0
  then show ?case by simp
next
  case (Suc fuel)
  show ?case
  proof (cases "Buffer_findCRLF b")
    case None
    then show ?thesis by simp
  next
    case (Some crlf)
    show ?thesis
    proof (cases "Buffer_retrieveAsString b (crlf - Buffer_peek b)")
      case (Inl e)
      with Some show ?thesis by simp
    next
      case (Inr lb)
      obtain line b1 where lb: "lb = (line, b1)" by (cases lb)
      note b1 = Buffer_retrieveAsStringD [OF Suc.prems(1) Inr [unfolded lb]]
      have next_line: "analyse_lines fuel regex pos False r1 b2 \<noteq> None" if b2: "Buffer_retrieve b1 2 = Inr b2" for r1 b2
      proof -
        note d = Buffer_retrieveD [OF b1(2) b2]
        from d(1,3) b1(4) Suc.prems(2) have "length (Buffer_content b2) < fuel" by simp
        from Suc.IH [OF d(2) this] show ?thesis .
      qed
      then show ?thesis using Some Inr
        by (auto simp: lb simp del: not_None_eq split: sum.splits prod.splits)
    qed
  qed
qed

section \<open>Parsing a rendered request\<close>

definition token :: "string \<Rightarrow> bool" where
  "token s \<longleftrightarrow> s \<noteq> [] \<and> set s \<inter> {CHR '' '', CHR 0x0D} = {}"

definition trimmed :: "string \<Rightarrow> bool" where
  "trimmed s \<longleftrightarrow> s \<noteq> [] \<and> hd s \<noteq> CHR '' '' \<and> last s \<noteq> CHR '' '' \<and> CHR 0x0D \<notin> set s"

definition header_field :: "string \<times> string \<Rightarrow> bool" where
  "header_field kv \<longleftrightarrow> trimmed (fst kv) \<and> CHR '':'' \<notin> set (fst kv) \<and> trimmed (snd kv)"

definition render_requestLine :: "string \<Rightarrow> string \<Rightarrow> string \<Rightarrow> string" where
  "render_requestLine m p v = m @ '' '' @ p @ '' '' @ v"

definition render_header :: "string \<times> string \<Rightarrow> string" where
  "render_header kv = fst kv @ '': '' @ snd kv"

text \<open>Lines separated by CR LF.\<close>

fun join_lines :: "string \<Rightarrow> string list \<Rightarrow> string" where
  "join_lines l [] = l"
| "join_lines l (k # ks) = l @ kCRLF @ join_lines k ks"

definition render_request :: "string \<Rightarrow> string \<Rightarrow> string \<Rightarrow> (string \<times> string) list \<Rightarrow> string" where
  "render_request m p v hs = join_lines (render_requestLine m p v) (map render_header hs) @ kCRLFCRLF"

lemma trimmed_trim:
  assumes "trimmed s" shows "StringTrim s = Inr s"
proof -
  have "\<exists>c \<in> set s. c \<noteq> CHR '' ''" using assms by (auto simp: trimmed_def intro!: bexI [of _ "hd s"])
  with assms trim_spec_id [of s] show ?thesis by (simp add: StringTrim_eq trimmed_def)
qed

lemma token_trimmed: "token s \<Longrightarrow> trimmed s"
  by (auto simp: token_def trimmed_def) (metis hd_in_set, metis last_in_set)

lemma requestLine_render:
  assumes "token m" and "token p" and "token v"
  shows "HttpRequest_requestLine regex r (render_requestLine m p v) =
    Inr (True, r\<lparr>rq_method := m, rq_version := v, rq_path := StringRemoveRepeatChar regex p ''/''\<rparr>)"
proof -
  have ns: "\<forall>c \<in> set x. c \<noteq> CHR '' ''" if "token x" for x using that by (auto simp: token_def)
  have ne: "m \<noteq> []" "p \<noteq> []" "v \<noteq> []" using assms by (simp_all add: token_def)
  have "words_by CHR '' '' [] (m @ '' '' @ p @ '' '' @ v @ []) = [m, p, v]"
    using words_by_piece [OF ns [OF assms(1)], of "[]"] words_by_piece [OF ns [OF assms(2)], of "[]"]
      words_by_piece [OF ns [OF assms(3)], of "[]" "[]"] ne by simp
  moreover have "last v \<noteq> CHR '' ''" using ns [OF assms(3)] ne(3) by simp
  ultimately have "StringSplitBychar (render_requestLine m p v) CHR '' '' [] (Some 0) = Inr [m, p, v]"
    using ne split_spec_aux [of 0 "render_requestLine m p v" "CHR '' ''" "[]"]
    by (simp add: render_requestLine_def)
  then show ?thesis
    using assms [THEN token_trimmed, THEN trimmed_trim] by (simp add: HttpRequest_requestLine_def)
qed

lemma find_colon: "CHR '':'' \<notin> set k \<Longrightarrow> find_first_of (k @ '':'' @ s) CHR '':'' 0 = Some (length k)"
proof -
  assume "CHR '':'' \<notin> set k"
  then have "takeWhile (\<lambda>c. c \<noteq> CHR '':'') (k @ '':'' @ s) = k"
    by (subst takeWhile_append2) auto
  then show ?thesis by (simp add: find_first_of_def find_pos_def)
qed

lemma headerLine_render:
  assumes "header_field kv"
  shows "HttpRequest_headerLine r (render_header kv) =
    Inr (True, r\<lparr>rq_headers := smap_insert (rq_headers r) (fst kv) (snd kv)\<rparr>)"
proof -
  have f: "trimmed (fst kv)" "CHR '':'' \<notin> set (fst kv)" "trimmed (snd kv)"
    using assms by (simp_all add: header_field_def)
  have pos: "find_first_of (render_header kv) CHR '':'' 0 = Some (length (fst kv))"
    using find_colon [OF f(2), of "'' '' @ snd kv"] by (simp add: render_header_def)
  have "\<exists>c \<in> set (snd kv). c \<noteq> CHR '' ''"
    using f(3) by (auto simp: trimmed_def intro!: bexI [of _ "hd (snd kv)"])
  moreover have "trim_spec ('' '' @ snd kv) = snd kv"
    using trim_spec_id [of "snd kv"] f(3) by (simp add: trim_spec_def trimmed_def)
  ultimately have vtrim: "StringTrim (CHR '' '' # snd kv) = Inr (snd kv)" by (simp add: StringTrim_eq)
  have key: "str_substr (render_header kv) (Some 0) (length (fst kv)) = Inr (fst kv)"
    by (simp add: str_substr_def render_header_def)
  have val: "str_substr (render_header kv) (Some (Suc (length (fst kv))))
      (length (render_header kv) - length (fst kv) - 1) = Inr (CHR '' '' # snd kv)"
    by (simp add: str_substr_def render_header_def)
  show ?thesis
    by (simp only: HttpRequest_headerLine_def pos Let_def option.case pos_succ.simps key val
        trimmed_trim [OF f(1)] vtrim bind_res_Inr)
qed

text \<open>What the lines of a request make of it, if every one is accepted.\<close>

fun parse_lines :: "(string \<Rightarrow> string \<Rightarrow> string \<Rightarrow> string) \<Rightarrow> bool \<Rightarrow> http_request \<Rightarrow> string list \<Rightarrow> http_request res" where
  "parse_lines regex firstLine r [] = Inr r"
| "parse_lines regex firstLine r (l # ls) =
     bind_res (if firstLine then HttpRequest_requestLine regex r l else HttpRequest_headerLine r l)
       (\<lambda>(ok, r1). if ok then parse_lines regex False r1 ls else Inl AssertFailed)"

definition line_ok :: "string \<Rightarrow> bool" where
  "line_ok l \<longleftrightarrow> l \<noteq> [] \<and> CHR 0x0D \<notin> set l"

lemma analyse_joined:
  "Buffer_inv b \<Longrightarrow> Buffer_content b = join_lines l ks @ kCRLFCRLF @ rest \<Longrightarrow>
   \<forall>k \<in> set (l # ks). line_ok k \<Longrightarrow> length ks < fuel \<Longrightarrow>
   pos = readerIndex b + length (join_lines l ks) \<Longrightarrow>
   parse_lines regex firstLine r (l # ks) = Inr r' \<Longrightarrow>
   \<exists>b'. analyse_lines fuel regex pos firstLine r b = Some (Inr (True, HttpRequest_setReqestState r' GOOD, b')) \<and>
     Buffer_inv b' \<and> Buffer_content b' = rest"
proof (induction ks arbitrary: l fuel b firstLine r)
  case Nil
  then obtain f where fuel: "fuel = Suc f" by (cases fuel) auto
  have c: "Buffer_content b = l @ kCRLF @ (kCRLF @ rest)" using Nil.prems(2) by (simp add: kCRLF_def kCRLFCRLF_def)
  from Nil.prems(3) have l: "CHR 0x0D \<notin> set l" by (simp add: line_ok_def)
  obtain b1 where b1: "Buffer_inv b1" "Buffer_content b1 = kCRLF @ kCRLF @ rest" "readerIndex b1 = pos"
    "analyse_lines (Suc f) regex pos firstLine r b =
      (case (if firstLine then HttpRequest_requestLine regex r l else HttpRequest_headerLine r l) of
         Inl e \<Rightarrow> Some (Inl e)
       | Inr (ok, r1) \<Rightarrow>
           if \<not> ok then Some (Inr (False, r1, b1))
           else if Buffer_peek b1 = pos
           then Some (bind_res (Buffer_retrieve b1 4) (\<lambda>b2. Inr (True, HttpRequest_setReqestState r1 GOOD, b2)))
           else (case Buffer_retrieve b1 2 of
                   Inl e \<Rightarrow> Some (Inl e)
                 | Inr b2 \<Rightarrow> analyse_lines f regex pos False r1 b2))"
    by (rule analyse_line [OF Nil.prems(1) c l, of f regex pos firstLine r]) (use Nil.prems(5) in simp)
  from Nil.prems(6) have step: "(if firstLine then HttpRequest_requestLine regex r l else HttpRequest_headerLine r l) = Inr (True, r')"
    by (auto simp: res_simps split: if_splits)
  have "4 \<le> length (Buffer_content b1)" using b1(2) by (simp add: kCRLF_def)
  from Buffer_retrieve_ok [OF b1(1) this] b1(2) obtain b2 where
    "Buffer_retrieve b1 4 = Inr b2" "Buffer_inv b2" "Buffer_content b2 = rest" by (auto simp: kCRLF_def)
  then show ?case unfolding fuel b1(4) step using b1(3) by (simp add: Buffer_peek_def)
next
  case (Cons k ks)
  then obtain f where fuel: "fuel = Suc f" by (cases fuel) auto
  let ?tail = "join_lines k ks @ kCRLFCRLF @ rest"
  have c: "Buffer_content b = l @ kCRLF @ ?tail" using Cons.prems(2) by simp
  from Cons.prems(3) have l: "CHR 0x0D \<notin> set l" by (simp add: line_ok_def)
  obtain b1 where b1: "Buffer_inv b1" "Buffer_content b1 = kCRLF @ ?tail" "readerIndex b1 = readerIndex b + length l"
    "analyse_lines (Suc f) regex pos firstLine r b =
      (case (if firstLine then HttpRequest_requestLine regex r l else HttpRequest_headerLine r l) of
         Inl e \<Rightarrow> Some (Inl e)
       | Inr (ok, r1) \<Rightarrow>
           if \<not> ok then Some (Inr (False, r1, b1))
           else if Buffer_peek b1 = pos
           then Some (bind_res (Buffer_retrieve b1 4) (\<lambda>b2. Inr (True, HttpRequest_setReqestState r1 GOOD, b2)))
           else (case Buffer_retrieve b1 2 of
                   Inl e \<Rightarrow> Some (Inl e)
                 | Inr b2 \<Rightarrow> analyse_lines f regex pos False r1 b2))"
    by (rule analyse_line [OF Cons.prems(1) c l, of f regex pos firstLine r]) simp
  from Cons.prems(6) obtain r1 where
    step: "(if firstLine then HttpRequest_requestLine regex r l else HttpRequest_headerLine r l) = Inr (True, r1)"
    and rest: "parse_lines regex False r1 (k # ks) = Inr r'"
    by (auto simp: res_simps split: if_splits)
  have lt: "2 < length (Buffer_content b1)" using b1(2) by (simp add: kCRLF_def kCRLFCRLF_def)
  from Buffer_retrieve_ok [OF b1(1), of 2] lt b1(2) obtain b2 where
    b2: "Buffer_retrieve b1 2 = Inr b2" "Buffer_inv b2" "Buffer_content b2 = ?tail" by (auto simp: kCRLF_def)
  have reader: "readerIndex b2 = readerIndex b + length l + 2"
    using Buffer_retrieve_reader [OF b1(1) lt b2(1)] b1(3) by simp
  then have pos: "pos = readerIndex b2 + length (join_lines k ks)" "readerIndex b1 \<noteq> pos"
    using Cons.prems(5) b1(3) by (simp_all add: kCRLF_def)
  from Cons.IH [OF b2(2,3) _ _ pos(1) rest, of f] Cons.prems(3,4) fuel obtain b' where
    "analyse_lines f regex pos False r1 b2 = Some (Inr (True, HttpRequest_setReqestState r' GOOD, b'))"
    "Buffer_inv b'" "Buffer_content b' = rest" by auto
  then show ?case unfolding fuel b1(4) step using b2(1) pos(2) by (simp add: Buffer_peek_def)
qed

lemma no_end_inside:
  assumes "j < length l" and "CHR 0x0D \<notin> set l"
  shows "\<not> prefix kCRLFCRLF (drop j (l @ s))"
proof -
  from assms(1) obtain c t where ct: "drop j l = c # t" by (cases "drop j l") auto
  then have "c \<in> set l" using set_drop_subset [of j l] by auto
  with assms(2) have "c \<noteq> CHR 0x0D" by auto
  then show ?thesis using ct assms(1) by (auto simp: kCRLFCRLF_def)
qed

lemma no_early_end:
  "\<forall>k \<in> set (l # ks). line_ok k \<Longrightarrow> j < length (join_lines l ks) \<Longrightarrow>
   \<not> prefix kCRLFCRLF (drop j (join_lines l ks @ kCRLFCRLF @ rest))"
proof (induction ks arbitrary: l j)
  case Nil
  then show ?case using no_end_inside [of j l "kCRLFCRLF @ rest"] by (simp add: line_ok_def)
next
  case (Cons k ks)
  let ?tail = "join_lines k ks @ kCRLFCRLF @ rest"
  have l: "CHR 0x0D \<notin> set l" and k: "line_ok k" using Cons.prems(1) by (simp_all add: line_ok_def)
  have hd_k: "\<exists>c t. ?tail = c # t \<and> c \<noteq> CHR 0x0D"
    using k by (cases k; cases ks) (auto simp: line_ok_def)
  have "j < length l + 2 + length (join_lines k ks)" using Cons.prems(2) by (simp add: kCRLF_def)
  then consider (inl) "j < length l" | (cr) "j = length l" | (lf) "j = Suc (length l)"
    | (rest) i where "j = length l + 2 + i" "i < length (join_lines k ks)"
    by (cases "j < length l + 2") (fastforce, metis add_less_cancel_left le_Suc_ex linorder_not_le)
  then show ?case
  proof cases
    case inl
    from no_end_inside [OF this l, of "kCRLF @ ?tail"] show ?thesis by simp
  next
    case cr
    with hd_k show ?thesis by (auto simp: kCRLF_def kCRLFCRLF_def)
  next
    case lf
    then show ?thesis by (simp add: kCRLF_def kCRLFCRLF_def)
  next
    case (rest i)
    with Cons.IH [of k i] Cons.prems(1) show ?thesis by (simp add: kCRLF_def)
  qed
qed

lemma parse_headers:
  "\<forall>kv \<in> set hs. header_field kv \<Longrightarrow>
   parse_lines regex False r (map render_header hs) =
     Inr (r\<lparr>rq_headers := fold (\<lambda>kv m. smap_insert m (fst kv) (snd kv)) hs (rq_headers r)\<rparr>)"
  by (induction hs arbitrary: r) (simp_all add: headerLine_render)

lemma render_lines_ok:
  assumes "token m" "token p" "token v" "\<forall>kv \<in> set hs. header_field kv"
  shows "\<forall>k \<in> set (render_requestLine m p v # map render_header hs). line_ok k"
  using assms by (auto simp: line_ok_def render_requestLine_def render_header_def token_def header_field_def
      trimmed_def)

lemma analyse_found:
  assumes "Buffer_inv b" and "Buffer_content b = join_lines l ks @ kCRLFCRLF @ rest"
    and "\<forall>k \<in> set (l # ks). line_ok k"
  shows "HttpRequest_analyseHttpRequestHeader regex r b =
    analyse_lines (Suc (Buffer_readableBytes b)) regex (readerIndex b + length (join_lines l ks)) True r b"
proof -
  have "Buffer_findChars b kCRLFCRLF = Some (readerIndex b + length (join_lines l ks))"
    by (rule Buffer_findChars_eqI [OF assms(1)])
      (use no_early_end [OF assms(3), of _ rest] in \<open>simp_all add: assms(2) kCRLFCRLF_def\<close>)
  then show ?thesis by (simp add: HttpRequest_analyseHttpRequestHeader_def)
qed

lemma join_lines_length: "length ks \<le> length (join_lines l ks)"
  by (induction ks arbitrary: l) (simp_all add: kCRLF_def le_SucI trans_le_add2)

section \<open>Rendered requests\<close>

lemma parse_rendered:
  assumes "Buffer_inv b" and "Buffer_content b = render_request m p v hs @ rest"
    and "token m" "token p" "token v" and "\<forall>kv \<in> set hs. header_field kv"
  shows "\<exists>b'. HttpRequest_analyseHttpRequestHeader regex r b = Some (Inr (True,
      r\<lparr>rq_state := GOOD, rq_method := m, rq_version := v, rq_path := StringRemoveRepeatChar regex p ''/'',
        rq_headers := fold (\<lambda>kv mp. smap_insert mp (fst kv) (snd kv)) hs (rq_headers r)\<rparr>, b')) \<and>
    Buffer_inv b' \<and> Buffer_content b' = rest"
proof -
  let ?l = "render_requestLine m p v" and ?ks = "map render_header hs"
  let ?r = "r\<lparr>rq_method := m, rq_version := v, rq_path := StringRemoveRepeatChar regex p ''/'',
        rq_headers := fold (\<lambda>kv mp. smap_insert mp (fst kv) (snd kv)) hs (rq_headers r)\<rparr>"
  have c: "Buffer_content b = join_lines ?l ?ks @ kCRLFCRLF @ rest"
    using assms(2) by (simp add: render_request_def)
  have lines: "\<forall>k \<in> set (?l # ?ks). line_ok k" by (rule render_lines_ok [OF assms(3-6)])
  have parse: "parse_lines regex True r (?l # ?ks) = Inr ?r"
    using parse_headers [OF assms(6)] by (simp add: requestLine_render [OF assms(3-5)])
  have fuel: "length ?ks < Suc (Buffer_readableBytes b)"
    using join_lines_length [of ?ks ?l] assms(1) c by (simp add: buffer_simps)
  from analyse_joined [OF assms(1) c lines fuel refl parse] analyse_found [OF assms(1) c lines]
  show ?thesis by (auto simp: HttpRequest_setReqestState_def)
qed

text \<open>
  A complete request whose first header field has an empty value makes the parser throw
  \<open>out_of_range\<close>, which nothing catches: \<open>StringTrim\<close> throws on the empty string.
\<close>
lemma empty_value_throws:
  assumes "Buffer_inv b"
    and "Buffer_content b = render_requestLine m p v @ kCRLF @ k @ '':'' @ kCRLFCRLF @ rest"
    and "token m" "token p" "token v" and "trimmed k" and "CHR '':'' \<notin> set k"
  shows "HttpRequest_analyseHttpRequestHeader regex r b = Some (Inl OutOfRange)"
proof -
  let ?l = "render_requestLine m p v" and ?h = "k @ '':''"
  have c: "Buffer_content b = join_lines ?l [?h] @ kCRLFCRLF @ rest" using assms(2) by simp
  have lines: "\<forall>k \<in> set [?l, ?h]. line_ok k"
    using render_lines_ok [OF assms(3-5), of "[]"] assms(6) by (auto simp: line_ok_def trimmed_def)
  have hdr: "HttpRequest_headerLine r1 ?h = Inl OutOfRange" for r1
  proof -
    have pos: "find_first_of ?h CHR '':'' 0 = Some (length k)" using find_colon [OF assms(7), of "[]"] by simp
    have empty: "StringTrim [] = Inl OutOfRange" by (simp add: StringTrim_eq)
    show ?thesis
      by (simp only: HttpRequest_headerLine_def pos Let_def option.case pos_succ.simps)
        (simp add: str_substr_def trimmed_trim [OF assms(6)] empty)
  qed
  have l: "CHR 0x0D \<notin> set ?l" "CHR 0x0D \<notin> set ?h" using lines by (simp_all add: line_ok_def)
  have c1: "Buffer_content b = ?l @ kCRLF @ (?h @ kCRLFCRLF @ rest)" using assms(2) by simp
  obtain n where n: "Buffer_readableBytes b = Suc n"
    using assms(1) c by (cases "Buffer_readableBytes b") (auto simp: buffer_simps kCRLFCRLF_def)
  let ?pos = "readerIndex b + length (join_lines ?l [?h])"
  let ?r = "r\<lparr>rq_method := m, rq_version := v, rq_path := StringRemoveRepeatChar regex p ''/''\<rparr>"
  obtain b1 where b1: "Buffer_inv b1" "Buffer_content b1 = kCRLF @ ?h @ kCRLFCRLF @ rest"
    "readerIndex b1 = readerIndex b + length ?l"
    "analyse_lines (Suc (Suc n)) regex ?pos True r b = (case Buffer_retrieve b1 2 of
        Inl e \<Rightarrow> Some (Inl e) | Inr b2 \<Rightarrow> analyse_lines (Suc n) regex ?pos False ?r b2)"
    by (rule analyse_line [OF assms(1) c1 l(1), of "Suc n" regex ?pos True r])
      (simp add: requestLine_render [OF assms(3-5)] Buffer_peek_def kCRLF_def)
  have "2 \<le> length (Buffer_content b1)" using b1(2) by (simp add: kCRLF_def)
  from Buffer_retrieve_ok [OF b1(1) this] b1(2) obtain b2 where
    b2: "Buffer_retrieve b1 2 = Inr b2" "Buffer_inv b2" "Buffer_content b2 = ?h @ kCRLF @ (kCRLF @ rest)"
    by (auto simp: kCRLF_def kCRLFCRLF_def)
  have "analyse_lines (Suc n) regex ?pos False ?r b2 = Some (Inl OutOfRange)"
    by (rule analyse_line [OF b2(2,3) l(2), of n regex ?pos False ?r]) (simp add: hdr)
  then show ?thesis using analyse_found [OF assms(1) c lines] n b1(4) b2(1) by simp
qed

section \<open>Properties\<close>

text \<open>
  C6: Parsing inverts printing: when the read buffer holds a rendered request (a request
  line of three words and header fields with trimmed names and values), followed by
  anything, the parser accepts it, stores the method, the version, the path with its
  repeated slashes removed and every header field (an earlier value of a name wins),
  and leaves exactly what followed in the buffer.
\<close>
theorem http_parse_render:
  assumes "Buffer_inv b" and "Buffer_content b = render_request m p v hs @ rest"
    and "token m" "token p" "token v" and "\<forall>kv \<in> set hs. header_field kv"
  shows "\<exists>b'. HttpRequest_analyseHttpRequestHeader regex r b = Some (Inr (True,
      r\<lparr>rq_state := GOOD, rq_method := m, rq_version := v, rq_path := StringRemoveRepeatChar regex p ''/'',
        rq_headers := fold (\<lambda>kv mp. smap_insert mp (fst kv) (snd kv)) hs (rq_headers r)\<rparr>, b')) \<and>
    Buffer_inv b' \<and> Buffer_content b' = rest"
  by (rule parse_rendered [OF assms])

definition demo_get :: string where
  "demo_get = render_request ''GET'' ''/a'' ''H/1'' [(''Host'', ''x y'')] @ ''rest''"

definition demo_get_buffer :: buffer where
  "demo_get_buffer = \<lparr>initialSize = 0, storage = replicate 8 CHR ''.'' @ demo_get,
     readerIndex = 8, writerIndex = 8 + length demo_get\<rparr>"

lemma demo_get_buffer_ok: "Buffer_inv demo_get_buffer" "Buffer_content demo_get_buffer = demo_get"
  by (simp_all add: demo_get_buffer_def Buffer_inv_def Buffer_content_alt vec_slice_def kCheapPrepend_def
      vec_max_def demo_get_def render_request_def render_requestLine_def render_header_def kCRLF_def kCRLFCRLF_def)

theorem http_parse_render_witness:
  "\<exists>b'. HttpRequest_analyseHttpRequestHeader (\<lambda>src pat rep. src) HttpRequest_new demo_get_buffer =
      Some (Inr (True, \<lparr>rq_state = GOOD, rq_method = ''GET'', rq_path = ''/a'', rq_version = ''H/1'',
        rq_headers = [(''Host'', ''x y'')]\<rparr>, b')) \<and> Buffer_content b' = ''rest''"
  using http_parse_render [OF demo_get_buffer_ok(1), of "''GET''" "''/a''" "''H/1''" "[(''Host'', ''x y'')]" "''rest''"
      "\<lambda>src pat rep. src" HttpRequest_new] demo_get_buffer_ok(2)
  by (simp add: demo_get_def token_def header_field_def trimmed_def HttpRequest_new_def
      StringRemoveRepeatChar_def smap_insert_def) blast

text \<open>
  C38: The parser always returns, whatever bytes the peer sent: on a well-formed buffer
  its loop over the lines ends (accepting, rejecting or throwing) within as many
  rounds as there are readable bytes.
\<close>
theorem http_header_terminates:
  assumes "Buffer_inv b"
  shows "\<exists>out. HttpRequest_analyseHttpRequestHeader regex r b = Some out"
proof (cases "Buffer_findChars b kCRLFCRLF")
  case None
  then show ?thesis by (simp add: HttpRequest_analyseHttpRequestHeader_def)
next
  case (Some pos)
  have "length (Buffer_content b) < Suc (Buffer_readableBytes b)" using assms by (simp add: buffer_simps)
  from analyse_lines_terminates [OF assms this, of regex pos True r] Some show ?thesis
    by (simp add: HttpRequest_analyseHttpRequestHeader_def)
qed

theorem http_header_terminates_witness:
  "\<exists>out. HttpRequest_analyseHttpRequestHeader (\<lambda>src pat rep. src) HttpRequest_new demo_get_buffer = Some out"
  by (rule http_header_terminates [OF demo_get_buffer_ok(1)])

text \<open>
  A header that is not complete is left alone: exactly when the buffer does not hold
  an empty line yet, the parser reports \<open>INCOMPLETE\<close> without consuming a byte or
  changing anything else of the request.
\<close>
theorem http_incomplete_waits:
  assumes "Buffer_inv b" and "\<not> sublist kCRLFCRLF (Buffer_content b)"
  shows "HttpRequest_analyseHttpRequestHeader regex r b = Some (Inr (False, r\<lparr>rq_state := INCOMPLETE\<rparr>, b))"
proof -
  have "Buffer_findChars b kCRLFCRLF = None"
    using Buffer_findChars_None_iff [OF assms(1), of kCRLFCRLF] assms(2) by (simp add: kCRLFCRLF_def)
  then show ?thesis by (simp add: HttpRequest_analyseHttpRequestHeader_def HttpRequest_setReqestState_def)
qed

theorem http_incomplete_waits_witness:
  "HttpRequest_analyseHttpRequestHeader (\<lambda>src pat rep. src) HttpRequest_new demo_buffer =
     Some (Inr (False, HttpRequest_new\<lparr>rq_state := INCOMPLETE\<rparr>, demo_buffer))"
  by (rule http_incomplete_waits) (simp_all add: demo_buffer_facts kCRLFCRLF_def sublist_def append_eq_Cons_conv)

definition demo_bad :: string where
  "demo_bad = render_requestLine ''GET'' ''/'' ''H'' @ kCRLF @ ''Host'' @ '':'' @ kCRLFCRLF @ []"

definition demo_bad_buffer :: buffer where
  "demo_bad_buffer = \<lparr>initialSize = 0, storage = replicate 8 CHR ''.'' @ demo_bad,
     readerIndex = 8, writerIndex = 8 + length demo_bad\<rparr>"

lemma demo_bad_ok: "Buffer_inv demo_bad_buffer" "Buffer_content demo_bad_buffer = demo_bad"
  by (simp_all add: demo_bad_buffer_def Buffer_inv_def Buffer_content_alt vec_slice_def kCheapPrepend_def
      vec_max_def demo_bad_def render_requestLine_def kCRLF_def kCRLFCRLF_def)

end
