(* ===== verification/Files.thy ===== *)
theory Files
  imports Util_String
begin

text \<open>
  \<open>src/utils/utilfile.h/.cpp\<close>: what the code asks of the \<open>struct stat\<close> of a file. The
  system call \<open>lstat\<close> is a parameter: it gives \<open>None\<close> when it fails.
\<close>

unbundle bit_operations_syntax

record file_stat =
  st_mode :: "32 word"
  st_size :: int
  st_mtime :: int

definition S_IFMT :: "32 word" where "S_IFMT = 0xF000"
definition S_IFREG :: "32 word" where "S_IFREG = 0x8000"
definition S_IFDIR :: "32 word" where "S_IFDIR = 0x4000"

lemmas stat_defs = S_IFMT_def S_IFREG_def S_IFDIR_def

definition GetFileStat :: "(string \<Rightarrow> file_stat option) \<Rightarrow> string \<Rightarrow> file_stat option" where
  "GetFileStat lstat filename = lstat (c_str filename)"

definition IsRegularFile :: "file_stat \<Rightarrow> bool" where
  "IsRegularFile st \<longleftrightarrow> st_mode st AND S_IFMT = S_IFREG"

definition IsDirectory :: "file_stat \<Rightarrow> bool" where
  "IsDirectory st \<longleftrightarrow> st_mode st AND S_IFMT = S_IFDIR"

definition FileSizeInBytes :: "file_stat \<Rightarrow> int" where
  "FileSizeInBytes st = st_size st"

lemma regular_no_directory: "IsDirectory st \<Longrightarrow> \<not> IsRegularFile st"
  by (simp add: IsDirectory_def IsRegularFile_def stat_defs)

end
