(* ===== verification/Http_Handler.thy ===== *)
theory Http_Handler
  imports Tcp_Connection Http_Request Files Number_Text
begin

text \<open>
  \<open>src/http/HttpReqHandle.h/.cpp\<close> and \<open>HttpCommon.h/.cpp\<close>: the handler that answers the
  requests of an HTTP connection from the files of a directory. The handler's state (the
  request, the context of the file being sent, and the files themselves) is the
  application state of the connection's loop, so that the handler's member functions are
  callbacks of \<open>TcpConnection\<close>. Parameters: the system calls on files. Lemmas: what a
  GET does on every branch, and a file reaches the client complete and in order.
\<close>

section \<open>Methods, options and content types\<close>

definition ServerOptions_serverPath :: string where
  "ServerOptions_serverPath = ''/home/fas/code/C++/''"

definition ContentTypes_suffixTypes :: "(string \<times> string) list" where
  "ContentTypes_suffixTypes = [
    (''.doc'', ''application/msword''),
    (''.gif'', ''image/gif''),
    (''.java'', ''java/*''),
    (''.jpe'', ''image/jpeg''),
    (''.jpeg'', ''image/jpeg''),
    (''.jpg'', ''application/x-jpg''),
    (''.jsp'', ''text/html''),
    (''.mp4'', ''video/mpeg4''),
    (''.mpeg'', ''video/mpg''),
    (''.mpv'', ''video/mpg''),
    (''.ppt'', ''application/x-ppt''),
    (''.wmv'', ''video/x-ms-wmv''),
    (''.xhtml'', ''text/html''),
    (''.xls'', ''application/x-xls''),
    (''.xml'', ''text/xml''),
    (''.apk'', ''application/vnd.android.package-archive''),
    (''.png'', ''image/png''),
    (''.mp3'', ''audio/mp3''),
    (''.midi'', ''audio/mid''),
    (''.jpg'', ''image/jpeg''),
    (''.ico'', ''application/x-ico''),
    (''.htm'', ''text/html''),
    (''.html'', ''text/html''),
    (''.exe'', ''pplication/x-msdownload''),
    (''.dot'', ''application/msword''),
    (''.css'', ''text/css''),
    (''.class'', ''java/*''),
    (''.avi'', ''video/avi'')]"

text \<open>The constructor inserts the pairs in order, and \<open>insert\<close> keeps the first value of a key.\<close>

definition ContentTypes_new :: "(string, string) smap" where
  "ContentTypes_new = fold (\<lambda>(k, v) m. smap_insert m k v) ContentTypes_suffixTypes []"

definition ContentTypes_getType :: "(string, string) smap \<Rightarrow> string \<Rightarrow> string" where
  "ContentTypes_getType suffixTypes sfx =
     (case smap_find suffixTypes sfx of None \<Rightarrow> ''text/plain'' | Some t \<Rightarrow> t)"

section \<open>Responses\<close>

text \<open>The class \<open>HttpResponse\<close>; the handlers do not use it yet.\<close>

record http_response =
  rp_version :: string
  rp_stateCode :: string
  rp_reason :: string
  rp_headers :: "(string, string) smap"

definition HttpResponse_setVersion :: "http_response \<Rightarrow> string \<Rightarrow> http_response" where
  "HttpResponse_setVersion r version = r\<lparr>rp_version := version\<rparr>"

definition HttpResponse_setStateCode :: "http_response \<Rightarrow> string \<Rightarrow> http_response" where
  "HttpResponse_setStateCode r stateCode = r\<lparr>rp_stateCode := stateCode\<rparr>"

definition HttpResponse_setReason :: "http_response \<Rightarrow> string \<Rightarrow> http_response" where
  "HttpResponse_setReason r reason = r\<lparr>rp_reason := reason\<rparr>"

definition HttpResponse_updateHeadItem :: "http_response \<Rightarrow> string \<Rightarrow> string \<Rightarrow> http_response" where
  "HttpResponse_updateHeadItem r field value = r\<lparr>rp_headers := smap_set (rp_headers r) field value\<rparr>"

section \<open>The context of a file being sent\<close>

record mass_context =
  sm_fd :: int
  sm_length :: nat
  sm_rdstart :: nat
  sm_remaind :: nat

definition SendMassDataContext_readEveryTime :: nat where
  "SendMassDataContext_readEveryTime = 1024"

definition SendMassDataContext_new :: "int \<Rightarrow> nat \<Rightarrow> nat \<Rightarrow> mass_context" where
  "SendMassDataContext_new fd len rdstart =
     \<lparr>sm_fd = fd, sm_length = len, sm_rdstart = rdstart, sm_remaind = sz_sub len rdstart\<rparr>"

definition SendMassDataContext_ContextReset :: "mass_context \<Rightarrow> int \<Rightarrow> nat \<Rightarrow> nat \<Rightarrow> mass_context" where
  "SendMassDataContext_ContextReset x fd len rdstart =
     x\<lparr>sm_fd := fd, sm_length := len, sm_rdstart := rdstart, sm_remaind := sz_sub len rdstart\<rparr>"

definition SendMassDataContext_addSizeToRdstartAndUpdateRemind :: "mass_context \<Rightarrow> nat \<Rightarrow> mass_context" where
  "SendMassDataContext_addSizeToRdstartAndUpdateRemind x sz =
     x\<lparr>sm_rdstart := sz_add (sm_rdstart x) sz, sm_remaind := sz_sub (sm_remaind x) sz\<rparr>"

definition SendMassDataContext_ContextClear :: "mass_context \<Rightarrow> mass_context" where
  "SendMassDataContext_ContextClear x = x\<lparr>sm_fd := 0, sm_length := 0, sm_rdstart := 0, sm_remaind := 0\<rparr>"

section \<open>Files\<close>

text \<open>
  The system calls on the state of the file system: \<open>lstat\<close> gives nothing when it fails,
  a failed \<open>open\<close> a negative descriptor, \<open>lseek\<close> whether it succeeded.
\<close>

record 'f files =
  fs_lstat :: "string \<Rightarrow> 'f \<Rightarrow> file_stat option"
  fs_open :: "string \<Rightarrow> 'f \<Rightarrow> int \<times> 'f"
  fs_lseek :: "int \<Rightarrow> nat \<Rightarrow> 'f \<Rightarrow> bool \<times> 'f"
  fs_read :: "int \<Rightarrow> nat \<Rightarrow> 'f \<Rightarrow> io_result \<times> 'f"
  fs_close :: "int \<Rightarrow> 'f \<Rightarrow> 'f"

section \<open>The handler\<close>

record 'f http_app =
  ha_request :: http_request
  ha_serverPath :: string
  ha_ctx :: mass_context
  ha_files :: 'f

type_synonym ('p, 'f) http_world = "('p, 'f http_app) tcp_world"

text \<open>A new handler; the context is not initialised (\<open>junk\<close>).\<close>

text \<open>The path of the options of a handler; nothing in the repository sets it.\<close>

definition ServerOptions_getServerPath :: "'f http_app \<Rightarrow> string" where
  "ServerOptions_getServerPath a = ha_serverPath a"

definition ServerOptions_setServerPath :: "string \<Rightarrow> 'f http_app \<Rightarrow> 'f http_app" where
  "ServerOptions_setServerPath path a = a\<lparr>ha_serverPath := path\<rparr>"

definition HttpReqHandle_new :: "mass_context \<Rightarrow> 'f \<Rightarrow> 'f http_app" where
  "HttpReqHandle_new junk f =
     \<lparr>ha_request = HttpRequest_new, ha_serverPath = ServerOptions_serverPath, ha_ctx = junk, ha_files = f\<rparr>"

definition http_app :: "('p, 'f) http_world \<Rightarrow> 'f http_app" where
  "http_app w = el_app (snd w)"

definition upd_app :: "('f http_app \<Rightarrow> 'f http_app) \<Rightarrow> ('p, 'f) http_world \<Rightarrow> ('p, 'f) http_world" where
  "upd_app g w = (fst w, (snd w)\<lparr>el_app := g (el_app (snd w))\<rparr>)"

text \<open>The closing of the file: \<open>closeFd(); ContextClear()\<close>.\<close>

definition close_file :: "'f files \<Rightarrow> ('p, 'f) http_world \<Rightarrow> ('p, 'f) http_world" where
  "close_file fs w = upd_app (\<lambda>a. a\<lparr>ha_files := fs_close fs (sm_fd (ha_ctx a)) (ha_files a),
     ha_ctx := SendMassDataContext_ContextClear (ha_ctx a)\<rparr>) w"

text \<open>
  \<open>sendMassData\<close>. A failed \<open>lseek\<close> does not return: the function goes on and reads from
  descriptor 0, to which the context was cleared.
\<close>

definition HttpReqHandle_sendMassData :: "'f files \<Rightarrow> 'p poller_ops \<Rightarrow> bool \<Rightarrow> ('p, 'f) http_world tcp_callbacks \<Rightarrow>
    ('p, 'f) http_world \<Rightarrow> ('p, 'f) http_world res" where
  "HttpReqHandle_sendMassData fs ops own cbs w =
     (if \<not> 0 < sm_fd (ha_ctx (http_app w)) then Inl AssertFailed
      else let (ok, f1) = fs_lseek fs (sm_fd (ha_ctx (http_app w))) (sm_rdstart (ha_ctx (http_app w))) (ha_files (http_app w));
               w1 = upd_app (\<lambda>a. a\<lparr>ha_files := f1\<rparr>) w in
        bind_res (if \<not> ok then TcpConnection_shutdown ops own cbs (close_file fs w1) else Inr w1) (\<lambda>w2.
        let (r, f2) = fs_read fs (sm_fd (ha_ctx (http_app w2))) SendMassDataContext_readEveryTime (ha_files (http_app w2));
            w3 = upd_app (\<lambda>a. a\<lparr>ha_files := f2\<rparr>) w2 in
        case r of
          IoError e \<Rightarrow>
            if e = EAGAIN \<or> e = EWOULDBLOCK \<or> e = EINTR then Inr w3
            else TcpConnection_shutdown ops own cbs (upd_conn TcpConnection_unsetHasMoreData (close_file fs w3))
        | IoBytes data \<Rightarrow>
            if data = [] then Inr (close_file fs (upd_conn TcpConnection_unsetHasMoreData w3))
            else if SendMassDataContext_readEveryTime < length data then Inl OutOfBounds
            else bind_res (TcpConnection_putDataToWriteBuffer (fst w3) data) (\<lambda>c.
              let w4 = upd_app (\<lambda>a. a\<lparr>ha_ctx := SendMassDataContext_addSizeToRdstartAndUpdateRemind (ha_ctx a) (length data)\<rparr>) (c, snd w3);
                  x = ha_ctx (http_app w4) in
              if sm_length x \<noteq> sz_add (sm_rdstart x) (sm_remaind x) then Inl AssertFailed
              else if sm_remaind x = 0
              then TcpConnection_shutdown ops own cbs (close_file fs (upd_conn TcpConnection_unsetHasMoreData w4))
              else Inr w4)))"

definition HttpReqHandle_HandleError :: "'p poller_ops \<Rightarrow> bool \<Rightarrow> ('p, 'f) http_world tcp_callbacks \<Rightarrow>
    ('p, 'f) http_world \<Rightarrow> (bool \<times> ('p, 'f) http_world) res" where
  "HttpReqHandle_HandleError ops own cbs w =
     bind_res (TcpConnection_shutdown ops own cbs w) (\<lambda>w'. Inr (False, w'))"

definition http_crlf :: string where
  "http_crlf = [CHR 0x0D, CHR 0x0A]"

text \<open>The header of the answer, one string per \<open>sendString\<close>.\<close>

definition response_lines :: "string \<Rightarrow> int \<Rightarrow> string \<Rightarrow> string list" where
  "response_lines version len sfx =
     [version @ '' 200 OK'' @ http_crlf,
      ''Content-Length : '' @ int_to_string len @ http_crlf,
      ''Content-Type : '' @ ContentTypes_getType ContentTypes_new sfx @ http_crlf,
      ''Connection : '' @ ''close'' @ http_crlf,
      http_crlf]"

fun send_strings :: "'p poller_ops \<Rightarrow> bool \<Rightarrow> string list \<Rightarrow> ('p, 'u) tcp_world \<Rightarrow> ('p, 'u) tcp_world res" where
  "send_strings ops own [] w = Inr w"
| "send_strings ops own (s # ss) w = bind_res (TcpConnection_sendString ops own s w) (send_strings ops own ss)"

definition HttpReqHandle_HandleGet :: "'f files \<Rightarrow> 'p poller_ops \<Rightarrow> bool \<Rightarrow> ('p, 'f) http_world tcp_callbacks \<Rightarrow>
    ('p, 'f) http_world \<Rightarrow> (bool \<times> ('p, 'f) http_world) res" where
  "HttpReqHandle_HandleGet fs ops own cbs w =
     (let a = http_app w; req = ha_request a in
      if std_search (rq_path req) ''../'' \<noteq> length (rq_path req) then HttpReqHandle_HandleError ops own cbs w
      else let getpath = (if rq_path req = '''' \<or> rq_path req = ''/'' then ''index.html'' else rq_path req);
               file = ha_serverPath a @ getpath in
        case GetFileStat (\<lambda>name. fs_lstat fs name (ha_files a)) file of
          None \<Rightarrow> HttpReqHandle_HandleError ops own cbs w
        | Some st \<Rightarrow>
            if IsRegularFile st
            then let (fdret, f1) = fs_open fs (c_str file) (ha_files a); w1 = upd_app (\<lambda>a. a\<lparr>ha_files := f1\<rparr>) w in
              if fdret < 0 then HttpReqHandle_HandleError ops own cbs w1
              else let w2 = upd_app (\<lambda>a. a\<lparr>ha_ctx := SendMassDataContext_ContextReset (ha_ctx a) fdret (size_of_int (FileSizeInBytes st)) 0\<rparr>) w1 in
                bind_res (StringGetSuffix file) (\<lambda>sfx.
                bind_res (send_strings ops own (response_lines (rq_version req) (FileSizeInBytes st) sfx) w2) (\<lambda>w3.
                Inr (True, upd_conn TcpConnection_setHasMoreData w3)))
            else Inr (True, w))"

text \<open>The other methods do nothing, and say that all is well.\<close>

definition HttpReqHandle_HandlePut :: "('p, 'f) http_world \<Rightarrow> (bool \<times> ('p, 'f) http_world) res" where
  [simp]: "HttpReqHandle_HandlePut w = Inr (True, w)"

definition HttpReqHandle_HandlePost :: "('p, 'f) http_world \<Rightarrow> (bool \<times> ('p, 'f) http_world) res" where
  [simp]: "HttpReqHandle_HandlePost w = Inr (True, w)"

definition HttpReqHandle_HandleTrace :: "('p, 'f) http_world \<Rightarrow> (bool \<times> ('p, 'f) http_world) res" where
  [simp]: "HttpReqHandle_HandleTrace w = Inr (True, w)"

definition HttpReqHandle_HandleHead :: "('p, 'f) http_world \<Rightarrow> (bool \<times> ('p, 'f) http_world) res" where
  [simp]: "HttpReqHandle_HandleHead w = Inr (True, w)"

definition HttpReqHandle_HandleDelete :: "('p, 'f) http_world \<Rightarrow> (bool \<times> ('p, 'f) http_world) res" where
  [simp]: "HttpReqHandle_HandleDelete w = Inr (True, w)"

definition HttpReqHandle_HandleOptions :: "('p, 'f) http_world \<Rightarrow> (bool \<times> ('p, 'f) http_world) res" where
  [simp]: "HttpReqHandle_HandleOptions w = Inr (True, w)"

definition HttpReqHandle_handleMethod :: "'f files \<Rightarrow> 'p poller_ops \<Rightarrow> bool \<Rightarrow> ('p, 'f) http_world tcp_callbacks \<Rightarrow>
    ('p, 'f) http_world \<Rightarrow> (bool \<times> ('p, 'f) http_world) res" where
  "HttpReqHandle_handleMethod fs ops own cbs w =
     (let m = rq_method (ha_request (http_app w)) in
      if m = ''GET'' then HttpReqHandle_HandleGet fs ops own cbs w
      else if m = ''PUT'' then HttpReqHandle_HandlePut w
      else if m = ''HEAD'' then HttpReqHandle_HandleHead w
      else if m = ''DELETE'' then HttpReqHandle_HandleDelete w
      else if m = ''POST'' then HttpReqHandle_HandlePost w
      else if m = ''OPTIONS'' then HttpReqHandle_HandleOptions w
      else if m = ''TRACE'' then HttpReqHandle_HandleTrace w
      else Inr (False, w))"

text \<open>\<open>None\<close> is a parser that ran out of fuel, which does not happen (\<open>http_header_terminates\<close>).\<close>

definition HttpReqHandle_OnMessageCallback :: "(string \<Rightarrow> string \<Rightarrow> string \<Rightarrow> string) \<Rightarrow> 'f files \<Rightarrow> 'p poller_ops \<Rightarrow> bool \<Rightarrow>
    ('p, 'f) http_world tcp_callbacks \<Rightarrow> ('p, 'f) http_world \<Rightarrow> ('p, 'f) http_world res option" where
  "HttpReqHandle_OnMessageCallback regex fs ops own cbs w =
     map_option (\<lambda>res. bind_res res (\<lambda>(ok, req, b).
       let w1 = upd_conn (\<lambda>c. c\<lparr>tc_readBuffer := b\<rparr>) (upd_app (\<lambda>a. a\<lparr>ha_request := req\<rparr>) w) in
       if \<not> ok then Inr w1
       else if rq_state (ha_request (http_app w1)) \<noteq> GOOD then Inl AssertFailed
       else bind_res (HttpReqHandle_handleMethod fs ops own cbs w1) (\<lambda>(ret, w2). Inr w2)))
     (HttpRequest_analyseHttpRequestHeader regex (ha_request (http_app w)) (tc_readBuffer (fst w)))"

section \<open>Sending a file\<close>

lemmas http_defs = http_app_def upd_app_def upd_conn_def close_file_def

text \<open>
  The documented behaviour of an open regular file that nobody changes: \<open>lseek\<close> succeeds
  up to its end, and \<open>read\<close> gives a part of what follows, nothing only at the end.
\<close>

definition serves_file :: "'f files \<Rightarrow> int \<Rightarrow> string \<Rightarrow> ('f \<Rightarrow> bool) \<Rightarrow> bool" where
  "serves_file fs fd file good \<longleftrightarrow> (\<forall>f pos. good f \<longrightarrow> pos \<le> length file \<longrightarrow>
     (\<exists>f1 data f2. fs_lseek fs fd pos f = (True, f1) \<and> fs_read fs fd SendMassDataContext_readEveryTime f1 = (IoBytes data, f2) \<and>
        good f2 \<and> length data \<le> SendMassDataContext_readEveryTime \<and> prefix data (drop pos file) \<and>
        (data = [] \<longrightarrow> pos = length file)))"

text \<open>The context after \<open>r\<close> bytes of the file.\<close>

definition mass_at :: "int \<Rightarrow> string \<Rightarrow> nat \<Rightarrow> mass_context" where
  "mass_at fd file r = \<lparr>sm_fd = fd, sm_length = length file, sm_rdstart = r, sm_remaind = length file - r\<rparr>"

lemma sendMassData_part:
  assumes "serves_file fs fd file good" and "0 < fd" and "length file < 2 ^ 63" and "r < length file"
    and "ha_ctx (el_app l) = mass_at fd file r" and "good (ha_files (el_app l))"
    and "Buffer_inv (tc_writeBuffer c)" and "\<not> tc_closeing c" and "\<forall>f. good f \<longrightarrow> shut (fs_close fs fd f)"
  shows "case HttpReqHandle_sendMassData fs ops own cbs (c, l) of
     Inl e \<Rightarrow> e = LengthError
   | Inr (c', l') \<Rightarrow> \<exists>data b a. data \<noteq> [] \<and> data = take (length data) (drop r file) \<and>
       Buffer_inv b \<and> Buffer_content b = Buffer_content (tc_writeBuffer c) @ data \<and> l' = l\<lparr>el_app := a\<rparr> \<and>
       (if r + length data = length file
        then c' = c\<lparr>tc_sendAllDataOut := False, tc_writeBuffer := b, tc_hasMoreData := False, tc_shouldBeClosed := True\<rparr> \<and>
          shut (ha_files a)
        else c' = c\<lparr>tc_sendAllDataOut := False, tc_writeBuffer := b\<rparr> \<and>
          ha_ctx a = mass_at fd file (r + length data) \<and> good (ha_files a) \<and> r + length data < length file)"
proof -
  from assms(1,4,6) obtain f1 data f2 where f: "fs_lseek fs fd r (ha_files (el_app l)) = (True, f1)"
    "fs_read fs fd SendMassDataContext_readEveryTime f1 = (IoBytes data, f2)" "good f2"
    "length data \<le> SendMassDataContext_readEveryTime" "prefix data (drop r file)" "data \<noteq> []"
    using assms(1) [unfolded serves_file_def, rule_format, of "ha_files (el_app l)" r] by auto
  from f(5) have d: "data = take (length data) (drop r file)" by (auto simp: prefix_def)
  have le: "r + length data \<le> length file" using prefix_length_le [OF f(5)] assms(4) by simp
  have ctx: "sm_fd (ha_ctx (el_app l)) = fd" "sm_rdstart (ha_ctx (el_app l)) = r" "sm_remaind (ha_ctx (el_app l)) = length file - r"
    "sm_length (ha_ctx (el_app l)) = length file" by (simp_all add: assms(5) mass_at_def)
  have add: "sz_add r (length data) = r + length data" "sz_sub (length file - r) (length data) = length file - (r + length data)"
    "sz_add (r + length data) (length file - (r + length data)) = length file"
    using le assms(3) by (simp_all add: size_simps)
  have len: "length data \<le> vec_max" using f(4) by (simp add: SendMassDataContext_readEveryTime_def vec_max_def)
  show ?thesis
  proof (cases "Buffer_append (tc_writeBuffer c) data")
    case (Inl e)
    then have "e = LengthError"
      using Buffer_append_ok [OF assms(7) len] Buffer_append_too_long [OF assms(7) len]
      by (metis Inl_inject Inr_Inl_False linorder_not_le)
    with Inl show ?thesis using f ctx assms(2)
      by (simp add: HttpReqHandle_sendMassData_def http_defs TcpConnection_putDataToWriteBuffer_def)
  next
    case (Inr b)
    note b = Buffer_appendD [OF assms(7) len Inr]
    let ?c = "c\<lparr>tc_sendAllDataOut := False, tc_writeBuffer := b\<rparr>"
    let ?x = "mass_at fd file (r + length data)"
    have x: "SendMassDataContext_addSizeToRdstartAndUpdateRemind (mass_at fd file r) (length data) = ?x"
      by (simp add: SendMassDataContext_addSizeToRdstartAndUpdateRemind_def mass_at_def add)
    have step: "HttpReqHandle_sendMassData fs ops own cbs (c, l) =
        (let w4 = (?c, l\<lparr>el_app := (el_app l)\<lparr>ha_files := f2, ha_ctx := ?x\<rparr>\<rparr>) in
         if length file - (r + length data) = 0
         then TcpConnection_shutdown ops own cbs (close_file fs (upd_conn TcpConnection_unsetHasMoreData w4)) else Inr w4)"
      using Inr f(1,2,4,6) ctx assms(2) add x
      by (simp add: HttpReqHandle_sendMassData_def http_app_def upd_app_def TcpConnection_putDataToWriteBuffer_def assms(5)
        mass_at_def Let_def)
    show ?thesis
    proof (cases "r + length data = length file")
      case True
      then have e: "HttpReqHandle_sendMassData fs ops own cbs (c, l) =
          Inr (?c\<lparr>tc_hasMoreData := False, tc_shouldBeClosed := True\<rparr>,
            l\<lparr>el_app := (el_app l)\<lparr>ha_files := fs_close fs fd f2, ha_ctx := SendMassDataContext_ContextClear ?x\<rparr>\<rparr>)"
        using assms(8) by (simp add: step http_defs TcpConnection_shutdown_def TcpConnection_unsetHasMoreData_def mass_at_def Let_def)
      show ?thesis unfolding e sum.case prod.case
        by (rule exI [of _ data], rule exI [of _ b], rule exI [of _ "(el_app l)\<lparr>ha_files := fs_close fs fd f2,
          ha_ctx := SendMassDataContext_ContextClear ?x\<rparr>"]) (use True f(3,6) d b(1,2) assms(9) in simp)
    next
      case False
      then have e: "HttpReqHandle_sendMassData fs ops own cbs (c, l) =
          Inr (?c, l\<lparr>el_app := (el_app l)\<lparr>ha_files := f2, ha_ctx := ?x\<rparr>\<rparr>)" using le by (simp add: step)
      show ?thesis unfolding e sum.case prod.case
        by (rule exI [of _ data], rule exI [of _ b], rule exI [of _ "(el_app l)\<lparr>ha_files := f2, ha_ctx := ?x\<rparr>"])
          (use False f(3,6) d b(1,2) le in simp)
    qed
  qed
qed

text \<open>The callbacks that \<open>HttpServer::OnNewConnection\<close> gives a connection; \<open>close\<close> is the bucket's.\<close>

definition HttpServer_OnNewConnection :: "(string \<Rightarrow> string \<Rightarrow> string \<Rightarrow> string) \<Rightarrow> 'f files \<Rightarrow> 'p poller_ops \<Rightarrow> bool \<Rightarrow>
    (('p, 'f) http_world \<Rightarrow> ('p, 'f) http_world res) option \<Rightarrow> ('p, 'f) http_world tcp_callbacks" where
  "HttpServer_OnNewConnection regex fs ops own close =
     (let conn = TcpConnection_setOnCloseCallBack close \<lparr>cb_message = None, cb_close = None, cb_moreData = None\<rparr>;
          conn1 = TcpConnection_setOnMessageCallBack
            (Some (\<lambda>time w. case HttpReqHandle_OnMessageCallback regex fs ops own conn w of None \<Rightarrow> Inr w | Some r \<Rightarrow> r)) conn
      in TcpConnection_SetHasMoreDataCallback (Some (HttpReqHandle_sendMassData fs ops own conn)) conn1)"

lemma OnNewConnection_simps [simp]:
  "cb_close (HttpServer_OnNewConnection regex fs ops own close) = close"
  "cb_moreData (HttpServer_OnNewConnection regex fs ops own close) =
     Some (HttpReqHandle_sendMassData fs ops own \<lparr>cb_message = None, cb_close = close, cb_moreData = None\<rparr>)"
  by (simp_all add: HttpServer_OnNewConnection_def Let_def)

text \<open>
  The state while a non-empty file is sent: \<open>r\<close> bytes of it were handed over behind
  \<open>base\<close>; or all of them were, and the connection is to be shut.
\<close>

definition stream_inv :: "('k \<Rightarrow> int \<Rightarrow> 32 word option) \<Rightarrow> int \<Rightarrow> string \<Rightarrow> ('f \<Rightarrow> bool) \<Rightarrow> ('f \<Rightarrow> bool) \<Rightarrow>
    string \<Rightarrow> (epoll \<times> 'k, 'f) http_world \<Rightarrow> bool" where
  "stream_inv registered fd file good shut base w \<longleftrightarrow>
     (if tc_closeing (fst w) then Buffer_content (tc_writeBuffer (fst w)) = [] \<and> tc_sent (fst w) = base @ file \<and> shut (ha_files (http_app w))
      else conn_ok registered w \<and> Buffer_content (tc_writeBuffer (fst w)) \<noteq> [] \<and>
        (if tc_hasMoreData (fst w)
         then \<not> tc_shouldBeClosed (fst w) \<and>
           (\<exists>r < length file. ha_ctx (http_app w) = mass_at fd file r \<and> good (ha_files (http_app w)) \<and> tcp_bytes w = base @ take r file)
         else tc_shouldBeClosed (fst w) \<and> tcp_bytes w = base @ file \<and> shut (ha_files (http_app w))))"

text \<open>What a connection with a file to send does when the socket took \<open>n\<close> bytes.\<close>

lemma written_more:
  assumes ok: "conn_ok registered (c, l)" and nc: "\<not> tc_closeing c" "\<not> tc_shouldBeClosed c" and more: "tc_hasMoreData c"
    and fs: "serves_file fs fd file good" "0 < fd" "length file < 2 ^ 63"
    and r: "r < length file" "ha_ctx (el_app l) = mass_at fd file r" "good (ha_files (el_app l))"
    and bytes: "tcp_bytes (c, l) = base @ take r file"
    and n: "0 < n" "n \<le> length (Buffer_content (tc_writeBuffer c))" and shut: "\<forall>f. good f \<longrightarrow> shut (fs_close fs fd f)"
  shows "case TcpConnection_written ops True (HttpServer_OnNewConnection regex fs ops True close) n (c, l) of
     Inl e \<Rightarrow> e = LengthError
   | Inr w' \<Rightarrow> stream_inv registered fd file good shut base w' \<and> length (tc_sent (fst w')) = length (tc_sent c) + n"
proof -
  let ?cbs = "\<lparr>cb_message = None, cb_close = close, cb_moreData = None\<rparr>"
  let ?pending = "Buffer_content (tc_writeBuffer c)"
  from conn_okD(6) [OF ok] obtain x where x: "el_store l (tc_handle c) = Some x"
    "registered (snd (el_poll l)) (tc_fd c) = Some (ev_mask (h_events x))"
    "?pending \<noteq> [] \<longrightarrow> Events_containsEvents (h_events x) kWriteEvent" by blast
  from Buffer_retrieve_ok [OF conn_okD(4) [OF ok] n(2)] obtain b where
    b: "Buffer_retrieve (tc_writeBuffer c) n = Inr b" "Buffer_inv b" "Buffer_content b = drop n ?pending" by blast
  let ?c1 = "c\<lparr>tc_writeBuffer := b, tc_sent := tc_sent c @ take n ?pending\<rparr>"
  note part = sendMassData_part [OF fs r _ _ shut, of ?c1 ops True ?cbs]
  show ?thesis
  proof (cases "HttpReqHandle_sendMassData fs ops True ?cbs (?c1, l)")
    case (Inl e)
    with part b nc more show ?thesis by (simp add: TcpConnection_written_def Let_def)
  next
    case (Inr w2)
    obtain c2 l2 where w2: "w2 = (c2, l2)" by (cases w2)
    from part Inr w2 b nc obtain data b2 a where p: "data \<noteq> []" "data = take (length data) (drop r file)" "Buffer_inv b2"
      "Buffer_content b2 = drop n ?pending @ data" "l2 = l\<lparr>el_app := a\<rparr>"
      "if r + length data = length file
        then c2 = ?c1\<lparr>tc_sendAllDataOut := False, tc_writeBuffer := b2, tc_hasMoreData := False, tc_shouldBeClosed := True\<rparr> \<and> shut (ha_files a)
        else c2 = ?c1\<lparr>tc_sendAllDataOut := False, tc_writeBuffer := b2\<rparr> \<and>
          ha_ctx a = mass_at fd file (r + length data) \<and> good (ha_files a) \<and> r + length data < length file"
      by auto
    have c2: "tc_writeBuffer c2 = b2" "tc_sent c2 = tc_sent c @ take n ?pending" "tc_closeing c2 = tc_closeing c"
      "\<not> tc_sendAllDataOut c2" "tc_fd c2 = tc_fd c" "tc_handle c2 = tc_handle c"
      using p(6) by (auto split: if_splits)
    have written: "TcpConnection_written ops True (HttpServer_OnNewConnection regex fs ops True close) n (c, l) = Inr (c2, l2)"
      using Inr w2 b(1) more p(1,3,4) c2(1)
      by (simp add: TcpConnection_written_def Let_def buffer_simps Buffer_length_content)
    have ok2: "conn_ok registered (c2, l2)" unfolding p(5) conn_ok_app
      by (rule conn_okI [where x = x]) (use conn_okD [OF ok] x n c2 p(3) in auto)
    have "tcp_bytes (c2, l2) = tcp_bytes (c, l) @ data" using p(4) c2 by (simp add: tcp_bytes_def)
    also have "\<dots> = base @ take (r + length data) file" using bytes p(2) by (simp add: take_add)
    finally have by2: "tcp_bytes (c2, l2) = base @ take (r + length data) file" .
    have "stream_inv registered fd file good shut base (c2, l2)"
    proof (cases "r + length data = length file")
      case True
      with p(1,4,5,6) by2 ok2 nc(1) c2 show ?thesis by (simp add: stream_inv_def http_app_def)
    next
      case False
      with p(6) have e: "tc_hasMoreData c2" "\<not> tc_shouldBeClosed c2" "ha_ctx a = mass_at fd file (r + length data)"
        "good (ha_files a)" "r + length data < length file" using more nc by simp_all
      with by2 ok2 nc(1) c2 p(1,4,5) show ?thesis
        by (auto simp: stream_inv_def http_app_def intro!: exI [of _ "r + length data"])
    qed
    then show ?thesis using c2(2) n(2) by (simp add: written)
  qed
qed

context epoll_kernel begin

text \<open>What a connection that is only to be closed does.\<close>

lemma written_last:
  assumes ok: "conn_ok registered (c, l)" and nc: "\<not> tc_closeing c" and cl: "tc_shouldBeClosed c" and more: "\<not> tc_hasMoreData c"
    and cb: "cb_close cbs = Some f" "\<forall>c l. shut (ha_files (el_app l)) \<longrightarrow> (\<exists>l'. f (c, l) = Inr (c, l') \<and> shut (ha_files (el_app l')))"
    and n: "0 < n" "n \<le> length (Buffer_content (tc_writeBuffer c))"
    and bytes: "tcp_bytes (c, l) = base @ file" "shut (ha_files (el_app l))"
  shows "\<exists>w'. TcpConnection_written (epoll_ops ctl) True cbs n (c, l) = Inr w' \<and>
    stream_inv registered fd file good shut base w' \<and> length (tc_sent (fst w')) = length (tc_sent c) + n"
proof -
  let ?pending = "Buffer_content (tc_writeBuffer c)"
  from conn_okD(6) [OF ok] obtain x where x: "el_store l (tc_handle c) = Some x"
    "registered (snd (el_poll l)) (tc_fd c) = Some (ev_mask (h_events x))"
    "?pending \<noteq> [] \<longrightarrow> Events_containsEvents (h_events x) kWriteEvent" by blast
  from Buffer_retrieve_ok [OF conn_okD(4) [OF ok] n(2)] obtain b where
    b: "Buffer_retrieve (tc_writeBuffer c) n = Inr b" "Buffer_inv b" "Buffer_content b = drop n ?pending" by blast
  let ?c1 = "c\<lparr>tc_writeBuffer := b, tc_sent := tc_sent c @ take n ?pending\<rparr>"
  have left: "sz_sub (Buffer_readableBytes (tc_writeBuffer c)) n = length ?pending - n"
    using conn_okD(4) [OF ok] n(2) by (simp add: buffer_simps size_simps)
  have sent: "tc_sent c @ ?pending = base @ file" using bytes(1) by (simp add: tcp_bytes_def)
  have step: "TcpConnection_written (epoll_ops ctl) True cbs n (c, l) =
      (if length ?pending = n
       then TcpConnection_handleClose (epoll_ops ctl) True cbs (?c1\<lparr>tc_sendAllDataOut := True\<rparr>, l) else Inr (?c1, l))"
    using b(1) n(2) more cl by (auto simp: TcpConnection_written_def left Let_def)
  show ?thesis
  proof (cases "length ?pending = n")
    case True
    have f: "\<exists>l'. f (c, l1) = Inr (c, l') \<and> shut (ha_files (el_app l'))" if "el_app l1 = el_app l" for c l1
      using cb(2) bytes(2) that by simp
    from close_closes_app [where cbs = cbs and K = "\<lambda>a. shut (ha_files a)" and c' = "?c1\<lparr>tc_sendAllDataOut := True\<rparr>", OF ok nc cb(1) f] nc
    obtain l' where
      "TcpConnection_handleClose (epoll_ops ctl) True cbs (?c1\<lparr>tc_sendAllDataOut := True\<rparr>, l) =
        Inr (?c1\<lparr>tc_sendAllDataOut := True, tc_closeing := True\<rparr>, l')" "shut (ha_files (el_app l'))" by auto
    moreover have "length (tc_sent c) + length ?pending = length base + length file" using arg_cong [OF sent, of length] by simp
    ultimately show ?thesis using step True b sent n by (auto simp: stream_inv_def http_app_def)
  next
    case False
    have "conn_ok registered (?c1, l)" by (rule conn_okI [where x = x]) (use conn_okD [OF ok] b x in auto)
    with step False b nc cl more sent n bytes(2) show ?thesis by (auto simp: stream_inv_def tcp_bytes_def http_app_def)
  qed
qed

lemma stream_step:
  assumes inv: "stream_inv registered fd file good shut base w" and nc: "\<not> tc_closeing (fst w)"
    and fs: "serves_file fs fd file good" "0 < fd" "length file < 2 ^ 63" and shut: "\<forall>f. good f \<longrightarrow> shut (fs_close fs fd f)"
    and cb: "\<forall>c l. shut (ha_files (el_app l)) \<longrightarrow> (\<exists>l'. close (c, l) = Inr (c, l') \<and> shut (ha_files (el_app l')))"
    and doc: "write_documented (fst w) rs"
  shows "case tcp_step (epoll_ops ctl) (HttpServer_OnNewConnection regex fs (epoll_ops ctl) True (Some close)) (Writable rs) w of
     Inl e \<Rightarrow> e = LengthError
   | Inr w' \<Rightarrow> stream_inv registered fd file good shut base w' \<and> length (tc_sent (fst w')) = length (tc_sent (fst w)) + taken rs"
proof -
  let ?cbs = "HttpServer_OnNewConnection regex fs (epoll_ops ctl) True (Some close)"
  obtain c l where w: "w = (c, l)" by (cases w)
  have close: "cb_close ?cbs = Some close" by simp
  have ok: "conn_ok registered (c, l)" "Buffer_content (tc_writeBuffer c) \<noteq> []" using inv nc by (simp_all add: stream_inv_def w)
  consider (none) "reWrite rs = None" | (err) e where "reWrite rs = Some (WriteError e)"
    | (took) n where "reWrite rs = Some (WriteBytes n)" by (metis option.exhaust write_result.exhaust)
  then show ?thesis
  proof cases
    case none
    with inv show ?thesis by (simp add: w TcpConnection_handleWrite_def taken_def)
  next
    case err
    with inv show ?thesis by (simp add: w TcpConnection_handleWrite_def taken_def)
  next
    case took
    with doc ok(2) have n: "0 < n" "n \<le> length (Buffer_content (tc_writeBuffer c))"
      by (auto simp: w write_documented_def)
    then have step: "tcp_step (epoll_ops ctl) ?cbs (Writable rs) w = TcpConnection_written (epoll_ops ctl) True ?cbs n (c, l)"
      using took by (simp add: w TcpConnection_handleWrite_def)
    show ?thesis
    proof (cases "tc_hasMoreData c")
      case True
      with inv nc obtain r where r: "r < length file" "ha_ctx (el_app l) = mass_at fd file r" "good (ha_files (el_app l))"
        "tcp_bytes (c, l) = base @ take r file" "\<not> tc_shouldBeClosed c" by (auto simp: stream_inv_def w http_app_def)
      from written_more [OF ok(1) _ r(5) True fs r(1-4) n shut, of "epoll_ops ctl" regex "Some close"] nc took show ?thesis
        unfolding step by (auto simp: w taken_def split: sum.splits)
    next
      case False
      with inv nc have s: "tc_shouldBeClosed c" "tcp_bytes (c, l) = base @ file" "shut (ha_files (el_app l))"
        by (simp_all add: stream_inv_def w http_app_def)
      from written_last [OF ok(1) _ s(1) False close cb n s(2,3), where good = good and fd = fd] nc took show ?thesis
        unfolding step by (auto simp: w taken_def)
    qed
  qed
qed

lemma stream_run:
  assumes fs: "serves_file fs fd file good" "0 < fd" "length file < 2 ^ 63" and shut: "\<forall>f. good f \<longrightarrow> shut (fs_close fs fd f)"
    and cb: "\<forall>c l. shut (ha_files (el_app l)) \<longrightarrow> (\<exists>l'. close (c, l) = Inr (c, l') \<and> shut (ha_files (el_app l')))"
  shows "stream_inv registered fd file good shut base w \<Longrightarrow>
    run_documented (epoll_ops ctl) (HttpServer_OnNewConnection regex fs (epoll_ops ctl) True (Some close)) (map Writable rss) w \<Longrightarrow>
    (case tcp_run (epoll_ops ctl) (HttpServer_OnNewConnection regex fs (epoll_ops ctl) True (Some close)) (map Writable rss) w of
       Inl e \<Rightarrow> e = LengthError
     | Inr (put, w') \<Rightarrow> stream_inv registered fd file good shut base w' \<and>
         (tc_closeing (fst w') \<or> length (tc_sent (fst w')) = length (tc_sent (fst w)) + sum_list (map taken rss)))"
proof (induction rss arbitrary: w)
  case Nil
  then show ?case by simp
next
  case (Cons rs rss)
  let ?cbs = "HttpServer_OnNewConnection regex fs (epoll_ops ctl) True (Some close)"
  show ?case
  proof (cases "tc_closeing (fst w)")
    case True
    with Cons.prems show ?thesis by simp
  next
    case False
    with Cons.prems(2) have "write_documented (fst w) rs" by simp
    note step = stream_step [OF Cons.prems(1) False fs shut cb this, of regex]
    show ?thesis
    proof (cases "tcp_step (epoll_ops ctl) ?cbs (Writable rs) w")
      case (Inl e)
      with step False show ?thesis by simp
    next
      case (Inr w1)
      with step have w1: "stream_inv registered fd file good shut base w1"
        "length (tc_sent (fst w1)) = length (tc_sent (fst w)) + taken rs" by simp_all
      from Cons.prems(2) False Inr have "run_documented (epoll_ops ctl) ?cbs (map Writable rss) w1" by simp
      from Cons.IH [OF w1(1) this] w1(2) Inr False show ?thesis
        by (cases "tcp_run (epoll_ops ctl) ?cbs (map Writable rss) w1") auto
    qed
  qed
qed

end

section \<open>Answering a GET\<close>

context epoll_kernel begin

lemma send_strings_ok:
  "conn_ok registered (c, l) \<Longrightarrow> \<forall>s \<in> set ss. length s \<le> vec_max \<Longrightarrow>
    (case send_strings (epoll_ops ctl) True ss (c, l) of
       Inl e \<Rightarrow> e = LengthError
     | Inr (c', l') \<Rightarrow> conn_ok registered (c', l') \<and> tc_sent c' = tc_sent c \<and>
         Buffer_content (tc_writeBuffer c') = Buffer_content (tc_writeBuffer c) @ concat ss \<and>
         tc_closeing c' = tc_closeing c \<and> tc_shouldBeClosed c' = tc_shouldBeClosed c \<and> el_app l' = el_app l)"
proof (induction ss arbitrary: c l)
  case Nil
  then show ?case by simp
next
  case (Cons s ss)
  show ?case
  proof (cases "TcpConnection_sendData (epoll_ops ctl) True s (c, l)")
    case (Inl e)
    with send_ok [OF Cons.prems(1), of s] Cons.prems(2) show ?thesis by (simp add: TcpConnection_sendString_def)
  next
    case (Inr w1)
    obtain c1 l1 where w1: "w1 = (c1, l1)" by (cases w1)
    from send_ok [OF Cons.prems(1), of s] Cons.prems(2) Inr w1 have s: "conn_ok registered (c1, l1)"
      "Buffer_content (tc_writeBuffer c1) = Buffer_content (tc_writeBuffer c) @ s" "tc_sent c1 = tc_sent c"
      "tc_closeing c1 = tc_closeing c" by simp_all
    from Inr w1 have "el_app l1 = el_app l" "tc_shouldBeClosed c1 = tc_shouldBeClosed c" by (auto dest: sendData_frame)
    moreover have "\<forall>s \<in> set ss. length s \<le> vec_max" using Cons.prems(2) by simp
    ultimately show ?thesis using Cons.IH [OF s(1)] Inr w1 s
      by (auto simp: TcpConnection_sendString_def tcp_bytes_def split: sum.splits)
  qed
qed

end

text \<open>The file that a request names, and the header of the answer.\<close>

definition requested_file :: "'f http_app \<Rightarrow> string" where
  "requested_file a = ha_serverPath a @
     (if rq_path (ha_request a) = [] \<or> rq_path (ha_request a) = ''/'' then ''index.html'' else rq_path (ha_request a))"

definition response_header :: "'f http_app \<Rightarrow> nat \<Rightarrow> string list" where
  "response_header a len = response_lines (rq_version (ha_request a)) (int len)
     (case StringGetSuffix (requested_file a) of Inl e \<Rightarrow> [] | Inr sfx \<Rightarrow> sfx)"

lemma StringGetSuffix_total: "\<exists>sfx. StringGetSuffix file = Inr sfx"
proof (cases "find_last (\<lambda>c. c = CHR ''.'') file")
  case (Some i)
  then have "i \<le> length file" by (auto simp: find_last_def Let_def split: if_splits)
  with Some show ?thesis by (simp add: StringGetSuffix_def str_substr_def)
qed (simp add: StringGetSuffix_def)

text \<open>The state when the answer to a GET was begun: nothing of the file was handed over.\<close>

definition serving :: "('k \<Rightarrow> int \<Rightarrow> 32 word option) \<Rightarrow> int \<Rightarrow> string \<Rightarrow> ('f \<Rightarrow> bool) \<Rightarrow> string \<Rightarrow>
    (epoll \<times> 'k, 'f) http_world \<Rightarrow> bool" where
  "serving registered fd file good bytes w \<longleftrightarrow>
     conn_ok registered w \<and> Buffer_content (tc_writeBuffer (fst w)) \<noteq> [] \<and> tcp_bytes w = bytes \<and>
     \<not> tc_closeing (fst w) \<and> \<not> tc_shouldBeClosed (fst w) \<and> tc_hasMoreData (fst w) \<and>
     ha_ctx (http_app w) = mass_at fd file 0 \<and> good (ha_files (http_app w))"

lemma serving_stream:
  "serving registered fd file good base w \<Longrightarrow> file \<noteq> [] \<Longrightarrow> stream_inv registered fd file good shut base w"
  by (auto simp: serving_def stream_inv_def intro!: exI [of _ 0])

lemma HandleGet_serves:
  assumes "epoll_kernel ctl registered" and "conn_ok registered (c, l)" and "\<not> tc_closeing c" "\<not> tc_shouldBeClosed c"
    and "\<not> sublist ''../'' (rq_path (ha_request (el_app l)))"
    and "GetFileStat (\<lambda>name. fs_lstat fs name (ha_files (el_app l))) (requested_file (el_app l)) = Some st"
    and "IsRegularFile st" "FileSizeInBytes st = int (length file)"
    and "fs_open fs (c_str (requested_file (el_app l))) (ha_files (el_app l)) = (fd, f1)" and "good f1"
    and "0 < fd" and "\<forall>s \<in> set (response_header (el_app l) (length file)). length s \<le> vec_max"
    and "length file < 2 ^ 63"
  shows "case HttpReqHandle_HandleGet fs (epoll_ops ctl) True cbs (c, l) of
     Inl e \<Rightarrow> e = LengthError
   | Inr (ok, w) \<Rightarrow> ok \<and> serving registered fd file good (tcp_bytes (c, l) @ concat (response_header (el_app l) (length file))) w \<and>
       tc_sent (fst w) = tc_sent c"
proof -
  let ?a = "el_app l" and ?n = "length file"
  obtain sfx where sfx: "StringGetSuffix (requested_file ?a) = Inr sfx" using StringGetSuffix_total by blast
  have h: "response_header ?a ?n = response_lines (rq_version (ha_request ?a)) (int ?n) sfx" by (simp add: response_header_def sfx)
  let ?l = "l\<lparr>el_app := ?a\<lparr>ha_files := f1, ha_ctx := mass_at fd file 0\<rparr>\<rparr>"
  have ctx: "SendMassDataContext_ContextReset x fd ?n 0 = mass_at fd file 0" for x
    using assms(13) by (simp add: SendMassDataContext_ContextReset_def mass_at_def size_simps)
  have sz: "size_of_int (int ?n) = ?n" using assms(13) by (simp add: size_simps)
  have up: "std_search (rq_path (ha_request ?a)) ''../'' = length (rq_path (ha_request ?a))"
    using std_search_end_iff [of "''../''" "rq_path (ha_request ?a)"] assms(5) by simp
  have step: "HttpReqHandle_HandleGet fs (epoll_ops ctl) True cbs (c, l) =
      bind_res (send_strings (epoll_ops ctl) True (response_header ?a ?n) (c, ?l))
        (\<lambda>w3. Inr (True, upd_conn TcpConnection_setHasMoreData w3))"
    using assms(6-9,11) sfx up by (simp add: HttpReqHandle_HandleGet_def http_app_def upd_app_def requested_file_def Let_def ctx h sz)
  have "conn_ok registered (c, ?l)" using assms(2) by simp
  note s = epoll_kernel.send_strings_ok [OF assms(1) this assms(12)]
  show ?thesis
  proof (cases "send_strings (epoll_ops ctl) True (response_header ?a ?n) (c, ?l)")
    case (Inl e)
    with s step show ?thesis by simp
  next
    case (Inr w)
    obtain c2 l2 where w: "w = (c2, l2)" by (cases w)
    from s Inr w have r: "conn_ok registered (c2, l2)" "tc_sent c2 = tc_sent c"
      "Buffer_content (tc_writeBuffer c2) = Buffer_content (tc_writeBuffer c) @ concat (response_header ?a ?n)"
      "\<not> tc_closeing c2" "\<not> tc_shouldBeClosed c2" "el_app l2 = ?a\<lparr>ha_files := f1, ha_ctx := mass_at fd file 0\<rparr>"
      using assms(3,4) by simp_all
    have ok: "conn_ok registered (c2\<lparr>tc_hasMoreData := True\<rparr>, l2)" using r(1) by (simp add: conn_ok_def Let_def split: option.splits)
    have "concat (response_header ?a ?n) \<noteq> []" by (simp add: h response_lines_def http_crlf_def)
    with r ok assms(10) show ?thesis
      by (auto simp: step Inr w upd_conn_def TcpConnection_setHasMoreData_def serving_def http_app_def tcp_bytes_def)
  qed
qed

lemma stream_shut: "stream_inv registered fd file good shut base w \<Longrightarrow> tc_closeing (fst w) \<Longrightarrow> shut (ha_files (http_app w))"
  by (simp add: stream_inv_def)

lemma stream_bounds:
  assumes "stream_inv registered fd file good shut base w"
  shows "prefix (tc_sent (fst w)) (base @ file) \<and> (tc_closeing (fst w) \<longrightarrow> tc_sent (fst w) = base @ file) \<and>
    (length (base @ file) \<le> length (tc_sent (fst w)) \<longrightarrow> tc_closeing (fst w))"
proof (cases "tc_closeing (fst w)")
  case False
  with assms obtain r where r: "tc_sent (fst w) @ Buffer_content (tc_writeBuffer (fst w)) = base @ take r file"
    "Buffer_content (tc_writeBuffer (fst w)) \<noteq> []"
    using that [of "length file"] by (auto simp: stream_inv_def tcp_bytes_def split: if_splits)
  then have "prefix (tc_sent (fst w)) (base @ take r file)" by (metis prefixI)
  moreover have "prefix (base @ take r file) (base @ file)" by (simp add: take_is_prefix)
  moreover have "length (tc_sent (fst w)) < length (base @ take r file)" using r by (metis length_append length_greater_0_conv less_add_same_cancel1)
  ultimately show ?thesis using False by (auto intro: prefix_order.trans)
qed (use assms in \<open>simp add: stream_inv_def\<close>)

text \<open>
  A GET of a non-empty regular file reaches the client complete and in order. The handler
  answers with the header and opens the file; then, however the kernel splits the writes
  and the reads of the file, what the socket took is at every moment a prefix of what
  was pending, the header and the content of the file. The connection closes exactly
  when all of it was taken, which happens as soon as the writes add up to that length; the
  only failure is a write buffer beyond the maximal size of a vector.
\<close>
theorem http_get_served:
  assumes "epoll_kernel ctl registered" and "conn_ok registered (c, l)" and "\<not> tc_closeing c" "\<not> tc_shouldBeClosed c"
    and "\<not> sublist ''../'' (rq_path (ha_request (el_app l)))"
    and "GetFileStat (\<lambda>name. fs_lstat fs name (ha_files (el_app l))) (requested_file (el_app l)) = Some st"
    and "IsRegularFile st" "FileSizeInBytes st = int (length file)"
    and "fs_open fs (c_str (requested_file (el_app l))) (ha_files (el_app l)) = (fd, f1)" and "good f1"
    and "0 < fd" and "file \<noteq> []" and "\<forall>s \<in> set (response_header (el_app l) (length file)). length s \<le> vec_max"
    and "length file < 2 ^ 63" and "serves_file fs fd file good" and "\<forall>c l. \<exists>l'. close (c, l) = Inr (c, l')"
  shows "case HttpReqHandle_HandleGet fs (epoll_ops ctl) True cbs (c, l) of
     Inl e \<Rightarrow> e = LengthError
   | Inr (ok, w) \<Rightarrow> ok \<and> (\<forall>rss bytes.
       bytes = tcp_bytes (c, l) @ concat (response_header (el_app l) (length file)) @ file \<longrightarrow>
       run_documented (epoll_ops ctl) (HttpServer_OnNewConnection regex fs (epoll_ops ctl) True (Some close)) (map Writable rss) w \<longrightarrow>
       (case tcp_run (epoll_ops ctl) (HttpServer_OnNewConnection regex fs (epoll_ops ctl) True (Some close)) (map Writable rss) w of
          Inl e \<Rightarrow> e = LengthError
        | Inr (put, (c', l')) \<Rightarrow> prefix (tc_sent c') bytes \<and> (tc_closeing c' \<longrightarrow> tc_sent c' = bytes) \<and>
            (length bytes \<le> length (tc_sent c) + sum_list (map taken rss) \<longrightarrow> tc_closeing c')))"
proof (cases "HttpReqHandle_HandleGet fs (epoll_ops ctl) True cbs (c, l)")
  case (Inl e)
  with HandleGet_serves [where good = good and cbs = cbs, OF assms(1-11,13,14)] show ?thesis by simp
next
  case (Inr r)
  obtain ok w where r: "r = (ok, w)" by (cases r)
  let ?base = "tcp_bytes (c, l) @ concat (response_header (el_app l) (length file))"
  from HandleGet_serves [where good = good and cbs = cbs, OF assms(1-11,13,14)] Inr r assms(12) have w: "ok"
    "stream_inv registered fd file good (\<lambda>f. True) ?base w" "tc_sent (fst w) = tc_sent c" by (simp_all add: serving_stream)
  have close: "\<forall>c l. True \<longrightarrow> (\<exists>l'. close (c, l) = Inr (c, l') \<and> True)" using assms(16) by simp
  let ?bytes = "tcp_bytes (c, l) @ concat (response_header (el_app l) (length file)) @ file"
  have run: "case tcp_run (epoll_ops ctl) (HttpServer_OnNewConnection regex fs (epoll_ops ctl) True (Some close)) (map Writable rss) w of
      Inl e \<Rightarrow> e = LengthError
    | Inr (put, (c', l')) \<Rightarrow> prefix (tc_sent c') ?bytes \<and> (tc_closeing c' \<longrightarrow> tc_sent c' = ?bytes) \<and>
        (length ?bytes \<le> length (tc_sent c) + sum_list (map taken rss) \<longrightarrow> tc_closeing c')"
    if doc: "run_documented (epoll_ops ctl) (HttpServer_OnNewConnection regex fs (epoll_ops ctl) True (Some close)) (map Writable rss) w"
    for rss
  proof (cases "tcp_run (epoll_ops ctl) (HttpServer_OnNewConnection regex fs (epoll_ops ctl) True (Some close)) (map Writable rss) w")
    case (Inl e)
    with epoll_kernel.stream_run [OF assms(1,15,11,14) _ close w(2) doc] show ?thesis by simp
  next
    case (Inr pw)
    obtain put c' l' where pw: "pw = (put, (c', l'))" by (metis surj_pair)
    from epoll_kernel.stream_run [OF assms(1,15,11,14) _ close w(2) doc] Inr pw w(3)
    have inv: "stream_inv registered fd file good (\<lambda>f. True) ?base (c', l')"
      and len: "tc_closeing c' \<or> length (tc_sent c') = length (tc_sent c) + sum_list (map taken rss)" by simp_all
    from stream_bounds [OF inv, unfolded append_assoc] len show ?thesis by (auto simp: Inr pw)
  qed
  show ?thesis unfolding Inr r sum.case prod.case
    by (intro conjI allI impI w(1)) (simp only: run)
qed

text \<open>A directory with one file; the state is the position in it.\<close>

definition demo_files :: "string \<Rightarrow> nat files" where
  "demo_files file = \<lparr>fs_lstat = (\<lambda>name f. Some \<lparr>st_mode = 0x81a4, st_size = int (length file), st_mtime = 0\<rparr>), fs_open = (\<lambda>name f. (9, 0)), fs_lseek = (\<lambda>fd pos f. (True, pos)),
     fs_read = (\<lambda>fd n f. (IoBytes (take n (drop f file)), f + n)), fs_close = (\<lambda>fd f. f)\<rparr>"

lemma demo_files_serve: "serves_file (demo_files file) fd file (\<lambda>f. True)"
  by (simp add: serves_file_def demo_files_def take_is_prefix SendMassDataContext_readEveryTime_def)

definition demo_request :: http_request where
  "demo_request = \<lparr>rq_state = GOOD, rq_method = ''GET'', rq_path = ''/a'', rq_version = ''HTTP/1.1'', rq_headers = []\<rparr>"

definition demo_http_loop :: "(epoll \<times> (int, 32 word) smap, nat http_app) evloop" where
  "demo_http_loop = demo_app_loop
     \<lparr>ha_request = demo_request, ha_serverPath = ''/srv'', ha_ctx = SendMassDataContext_new 0 0 0, ha_files = 0\<rparr>"

lemma demo_http_conn: "conn_ok smap_find (demo_conn, demo_http_loop)" "\<not> tc_closeing demo_conn" "\<not> tc_shouldBeClosed demo_conn"
  by (simp_all add: demo_app_conn demo_http_loop_def)

lemma demo_header: "\<forall>s \<in> set (response_header (el_app demo_http_loop) 3). length s \<le> vec_max"
proof -
  have "getType_len \<le> vec_max" if "getType_len \<le> (30 :: nat)" for getType_len using that by (simp add: vec_max_def)
  moreover have "smap_find ContentTypes_new [] = None" by code_simp
  moreover have "StringGetSuffix ''/srv/a'' = Inr []" by code_simp
  ultimately show ?thesis
    by (simp add: response_header_def response_lines_def requested_file_def demo_http_loop_def demo_app_loop_def demo_request_def http_crlf_def
      int_to_string_def to_string.simps [of 3] ContentTypes_getType_def)
qed

theorem http_get_served_witness:
  "case HttpReqHandle_HandleGet (demo_files ''xyz'') (epoll_ops table_ctl) True demo_cbs (demo_conn, demo_http_loop) of
     Inl e \<Rightarrow> e = LengthError
   | Inr (ok, w) \<Rightarrow> ok \<and> (\<forall>rss bytes.
       bytes = tcp_bytes (demo_conn, demo_http_loop) @ concat (response_header (el_app demo_http_loop) 3) @ ''xyz'' \<longrightarrow>
       run_documented (epoll_ops table_ctl) (HttpServer_OnNewConnection (\<lambda>a b c. a) (demo_files ''xyz'') (epoll_ops table_ctl) True (Some Inr))
         (map Writable rss) w \<longrightarrow>
       (case tcp_run (epoll_ops table_ctl) (HttpServer_OnNewConnection (\<lambda>a b c. a) (demo_files ''xyz'') (epoll_ops table_ctl) True (Some Inr))
           (map Writable rss) w of
          Inl e \<Rightarrow> e = LengthError
        | Inr (put, (c', l')) \<Rightarrow> prefix (tc_sent c') bytes \<and> (tc_closeing c' \<longrightarrow> tc_sent c' = bytes) \<and>
            (length bytes \<le> length (tc_sent demo_conn) + sum_list (map taken rss) \<longrightarrow> tc_closeing c')))"
proof -
  have n: "length ''xyz'' = 3" by simp
  have "\<not> sublist ''../'' ''/a''" by code_simp
  then show ?thesis
    by (intro http_get_served [where ?file = "''xyz''" and fd = 9 and ?f1.0 = "0" and st = "\<lparr>st_mode = 0x81a4, st_size = 3, st_mtime = 0\<rparr>" and good = "\<lambda>f. True", unfolded n,
        OF table.epoll_kernel_axioms demo_http_conn _ _ _ _ _ _ _ _ demo_header _ demo_files_serve])
      (simp_all add: demo_http_loop_def demo_app_loop_def demo_request_def demo_files_def GetFileStat_def IsRegularFile_def FileSizeInBytes_def stat_defs)
qed

end
