(* ===== verification/Http_Paths.thy ===== *)
theory Http_Paths
  imports Http_Handler
begin

text \<open>
  Which files the HTTP handler of \<open>src/http/HttpReqHandle.cpp\<close> opens. A name is resolved
  component by component, the way the kernel walks it when it meets no symbolic link; the
  file system is traced, so that every name given to \<open>open\<close> is known afterwards. Lemmas: the
  test for \<open>../\<close> in \<open>HandleGet\<close> keeps every file that is opened below the server's directory.
\<close>

section \<open>Paths\<close>

text \<open>The components of a name, between its slashes.\<close>

fun path_parts :: "string \<Rightarrow> string list" where
  "path_parts [] = [[]]"
| "path_parts (c # s) = (if c = CHR ''/'' then [] # path_parts s
     else (case path_parts s of [] \<Rightarrow> [[c]] | w # ws \<Rightarrow> (c # w) # ws))"

text \<open>One step of the walk; a directory is the list of its components, innermost first.\<close>

definition enter :: "string list \<Rightarrow> string \<Rightarrow> string list" where
  "enter dir x = (if x = [] \<or> x = ''.'' then dir else if x = ''..'' then tl dir else x # dir)"

definition resolve :: "string \<Rightarrow> string list" where
  "resolve name = rev (foldl enter [] (path_parts name))"

lemma path_parts_Nil [simp]: "path_parts s \<noteq> []"
  by (cases s) (simp_all split: list.split)

lemma path_parts_slash: "path_parts (r @ CHR ''/'' # p) = path_parts r @ path_parts p"
  by (induction r) (auto split: list.split)

lemma first_part: "path_parts s = w # ws \<Longrightarrow> ws \<noteq> [] \<Longrightarrow> prefix (w @ ''/'') s"
proof (induction s arbitrary: w)
  case (Cons c s)
  obtain v vs where v: "path_parts s = v # vs" using path_parts_Nil [of s] by (meson list.exhaust)
  with Cons show ?case by (cases "c = CHR ''/''") auto
qed simp

lemma inner_part: "x \<in> set (butlast (path_parts s)) \<Longrightarrow> sublist (x @ ''/'') s"
proof (induction s)
  case (Cons c s)
  obtain v vs where v: "path_parts s = v # vs" using path_parts_Nil [of s] by (meson list.exhaust)
  show ?case
  proof (cases "c = CHR ''/''")
    case True
    with Cons v show ?thesis by (auto simp: sublist_Cons_right split: if_splits)
  next
    case False
    show ?thesis
    proof (cases "x = c # v \<and> vs \<noteq> []")
      case True
      with first_part [OF v] show ?thesis by (auto simp: sublist_Cons_right)
    next
      case no: False
      with Cons.prems False v have "x \<in> set (butlast (path_parts s))" by (auto split: if_splits)
      with Cons.IH show ?thesis by (simp add: sublist_Cons_right)
    qed
  qed
qed simp

text \<open>A walk without \<open>..\<close> only goes down.\<close>

lemma walk_down: "''..'' \<notin> set xs \<Longrightarrow> \<exists>zs. foldl enter d xs = zs @ d"
proof (induction xs arbitrary: d)
  case (Cons x xs)
  then have "\<exists>zs. foldl enter (enter d x) xs = zs @ enter d x" by simp
  moreover have "\<exists>zs. enter d x = zs @ d" using Cons.prems by (auto simp: enter_def)
  ultimately show ?case by (metis append.assoc foldl_Cons)
qed simp

lemma resolve_below:
  assumes "\<not> sublist ''../'' p" and "last (path_parts p) \<noteq> ''..''"
  shows "prefix (resolve (r @ ''/'')) (resolve (r @ ''/'' @ p))"
proof -
  have "''..'' \<notin> set (butlast (path_parts p))" using inner_part [of "''..''" p] assms(1) by auto
  with assms(2) have "''..'' \<notin> set (path_parts p)"
    by (metis path_parts_Nil append_butlast_last_id in_set_conv_decomp_last last_snoc butlast_snoc rotate1.simps(2) set_ConsD set_rotate1)
  from walk_down [OF this, of "foldl enter [] (path_parts r)"] show ?thesis
    by (auto simp: resolve_def path_parts_slash [of r "[]", simplified] path_parts_slash enter_def)
qed

lemma c_str_append: "CHR 0x00 \<notin> set r \<Longrightarrow> c_str (r @ p) = r @ c_str p"
  by (induction r) (auto simp: c_str_def)

lemma c_str_no_parent: "\<not> sublist ''../'' p \<Longrightarrow> \<not> sublist ''../'' (c_str p)"
  by (metis c_str_def sublist_order.order_trans sublist_takeWhile)

lemma last_part: "last (path_parts (r @ CHR ''/'' # p)) = last (path_parts p)"
  by (simp add: path_parts_slash)


section \<open>The names that are opened\<close>

text \<open>The file system \<open>fs\<close>, with the names given to \<open>open\<close> beside its state.\<close>

definition traced :: "'f files \<Rightarrow> ('f \<times> string list) files" where
  "traced fs = \<lparr>fs_lstat = (\<lambda>name (f, names). fs_lstat fs name f),
     fs_open = (\<lambda>name (f, names). let (fd, f') = fs_open fs name f in (fd, f', names @ [name])),
     fs_lseek = (\<lambda>fd pos (f, names). let (ok, f') = fs_lseek fs fd pos f in (ok, f', names)),
     fs_read = (\<lambda>fd n (f, names). let (r, f') = fs_read fs fd n f in (r, f', names)),
     fs_close = (\<lambda>fd (f, names). (fs_close fs fd f, names))\<rparr>"

definition opened_names :: "('p, 'f \<times> string list) http_world \<Rightarrow> string list" where
  "opened_names w = snd (ha_files (http_app w))"

text \<open>A close callback that leaves the handler's state alone.\<close>

definition keeps_app :: "('p, 'u) tcp_world tcp_callbacks \<Rightarrow> bool" where
  "keeps_app cbs \<longleftrightarrow> (\<forall>f w w'. cb_close cbs = Some f \<longrightarrow> f w = Inr w' \<longrightarrow> el_app (snd w') = el_app (snd w))"

lemma shutdown_app:
  assumes "keeps_app cbs" and "TcpConnection_shutdown ops own cbs w = Inr w'"
  shows "el_app (snd w') = el_app (snd w)"
proof (cases w)
  case (Pair c l)
  show ?thesis
    using assms(2)
    by (auto simp: TcpConnection_shutdown_def Pair res_simps split: if_splits option.splits
        dest!: delHandle_app)
      (metis assms(1) keeps_app_def snd_conv)
qed

lemma send_strings_app: "send_strings ops own ss w = Inr w' \<Longrightarrow> el_app (snd w') = el_app (snd w)"
proof (induction ss arbitrary: w)
  case (Cons s ss)
  obtain c l where w: "w = (c, l)" by (cases w)
  from Cons.prems obtain c1 l1 where s: "TcpConnection_sendData ops own s (c, l) = Inr (c1, l1)"
    "send_strings ops own ss (c1, l1) = Inr w'"
    by (auto simp: w TcpConnection_sendString_def res_simps)
  with Cons.IH [OF s(2)] sendData_frame [OF s(1)] show ?case by (simp add: w)
qed simp

text \<open>The one place that opens a file.\<close>

lemma HandleGet_opens:
  assumes "keeps_app cbs" and "HttpReqHandle_HandleGet (traced fs) ops own cbs (c, l) = Inr (ok, w')"
  shows "opened_names w' = opened_names (c, l) \<or>
    (\<exists>st. \<not> sublist ''../'' (rq_path (ha_request (el_app l))) \<and>
       opened_names w' = opened_names (c, l) @ [c_str (requested_file (el_app l))] \<and>
       fs_lstat fs (c_str (requested_file (el_app l))) (fst (ha_files (el_app l))) = Some st \<and> IsRegularFile st)"
proof -
  have up: "std_search p ''../'' = length p \<longleftrightarrow> \<not> sublist ''../'' p" for p
    using std_search_end_iff [of "''../''" p] by simp
  let ?name = "c_str (requested_file (el_app l))"
  have get: "HttpReqHandle_HandleGet (traced fs) ops own cbs (c, l) =
     (if sublist ''../'' (rq_path (ha_request (el_app l))) then HttpReqHandle_HandleError ops own cbs (c, l)
      else case fs_lstat fs ?name (fst (ha_files (el_app l))) of
        None \<Rightarrow> HttpReqHandle_HandleError ops own cbs (c, l)
      | Some st \<Rightarrow> if \<not> IsRegularFile st then Inr (True, (c, l))
        else let (fd, f1) = fs_open fs ?name (fst (ha_files (el_app l)));
                 w1 = (c, l\<lparr>el_app := (el_app l)\<lparr>ha_files := (f1, snd (ha_files (el_app l)) @ [?name])\<rparr>\<rparr>) in
          if fd < 0 then HttpReqHandle_HandleError ops own cbs w1
          else bind_res (StringGetSuffix (requested_file (el_app l))) (\<lambda>sfx.
            bind_res (send_strings ops own (response_lines (rq_version (ha_request (el_app l))) (FileSizeInBytes st) sfx)
              (upd_app (\<lambda>a. a\<lparr>ha_ctx := SendMassDataContext_ContextReset (ha_ctx a) fd (size_of_int (FileSizeInBytes st)) 0\<rparr>) w1))
            (\<lambda>w3. Inr (True, upd_conn TcpConnection_setHasMoreData w3))))"
    by (simp add: HttpReqHandle_HandleGet_def http_app_def upd_app_def up traced_def GetFileStat_def Let_def
        requested_file_def case_prod_beta split: option.split)
  show ?thesis
    using assms(2)
    by (auto simp: get Let_def HttpReqHandle_HandleError_def opened_names_def res_simps upd_app_def http_app_def upd_conn_def
        split: if_splits option.splits prod.splits dest!: shutdown_app [OF assms(1)] send_strings_app)
qed


text \<open>
  C7: No client reads outside the server's directory. Whatever bytes arrive on a connection,
  handling them opens at most one file; that file is regular, and when the configured
  path ends in a slash its name resolves to a place below it. Assumed of the kernel: a
  name whose last component is \<open>..\<close> is not a regular file.
\<close>
theorem http_files_confined:
  assumes "ha_serverPath (el_app l) = dir @ ''/''" and "CHR 0x00 \<notin> set dir" and "keeps_app cbs"
    and "\<And>name st f. last (path_parts name) = ''..'' \<Longrightarrow> fs_lstat fs name f = Some st \<Longrightarrow> \<not> IsRegularFile st"
    and "HttpReqHandle_OnMessageCallback regex (traced fs) ops own cbs (c, l) = Some (Inr w)"
  shows "\<exists>names. opened_names w = opened_names (c, l) @ names \<and> length names \<le> 1 \<and>
    (\<forall>name \<in> set names. prefix (resolve (ha_serverPath (el_app l))) (resolve name) \<and>
       (\<exists>st. fs_lstat fs name (fst (ha_files (el_app l))) = Some st \<and> IsRegularFile st))"
proof -
  from assms(5) obtain ok req b where
    run: "if \<not> ok then w = (c\<lparr>tc_readBuffer := b\<rparr>, l\<lparr>el_app := (el_app l)\<lparr>ha_request := req\<rparr>\<rparr>)
      else \<exists>ret. HttpReqHandle_handleMethod (traced fs) ops own cbs (c\<lparr>tc_readBuffer := b\<rparr>, l\<lparr>el_app := (el_app l)\<lparr>ha_request := req\<rparr>\<rparr>) = Inr (ret, w)"
    by (fastforce simp: HttpReqHandle_OnMessageCallback_def Let_def res_simps upd_conn_def upd_app_def http_app_def split: if_splits)
  let ?l = "l\<lparr>el_app := (el_app l)\<lparr>ha_request := req\<rparr>\<rparr>" and ?name = "c_str (requested_file ((el_app l)\<lparr>ha_request := req\<rparr>))"
  have opened: "opened_names w = opened_names (c, l) \<or>
    (\<exists>st. \<not> sublist ''../'' (rq_path req) \<and> opened_names w = opened_names (c, l) @ [?name] \<and>
       fs_lstat fs ?name (fst (ha_files (el_app l))) = Some st \<and> IsRegularFile st)"
    using run HandleGet_opens [OF assms(3), of fs ops own "c\<lparr>tc_readBuffer := b\<rparr>" ?l _ w]
    by (auto simp: HttpReqHandle_handleMethod_def Let_def opened_names_def http_app_def split: if_splits)
  have below: "prefix (resolve (dir @ ''/'')) (resolve ?name)"
    if "\<not> sublist ''../'' (rq_path req)" "fs_lstat fs ?name f = Some st" "IsRegularFile st" for f st
  proof -
    define p where "p = c_str (if rq_path req = [] \<or> rq_path req = ''/'' then ''index.html'' else rq_path req)"
    have "\<not> sublist ''../'' ''index.html''" by code_simp
    with that(1) have p: "\<not> sublist ''../'' p" by (simp add: p_def c_str_no_parent)
    have name: "?name = dir @ ''/'' @ p"
      using assms(1,2) by (simp add: requested_file_def p_def c_str_append [of "dir @ ''/''", simplified])
    have "last (path_parts p) \<noteq> ''..''" using assms(4) that(2,3) name last_part [of dir p] by auto
    from resolve_below [OF p this] show ?thesis by (simp add: name)
  qed
  show ?thesis
  proof (cases "opened_names w = opened_names (c, l)")
    case False
    with opened below assms(1) show ?thesis by (intro exI [of _ "[?name]"]) auto
  qed auto
qed

text \<open>Without the slash the test is not enough: the name of a sibling is accepted.\<close>

lemma no_slash_escapes:
  "\<not> prefix (resolve ''/srv'') (resolve (requested_file
     \<lparr>ha_request = HttpRequest_new\<lparr>rq_path := ''-backup/key''\<rparr>, ha_serverPath = ''/srv'', ha_ctx = SendMassDataContext_new 0 0 0, ha_files = ()\<rparr>))"
  by code_simp


section \<open>Example\<close>

text \<open>A file system with one file, which may not be opened; the request of \<open>demo_get\<close> asks for it.\<close>

definition demo_tree :: "unit files" where
  "demo_tree = \<lparr>fs_lstat = (\<lambda>name f. if name = ''/srv//a'' then Some \<lparr>st_mode = 0x81a4, st_size = 3, st_mtime = 0\<rparr> else None),
     fs_open = (\<lambda>name f. (-1, f)), fs_lseek = (\<lambda>fd pos f. (False, f)), fs_read = (\<lambda>fd n f. (IoError 9, f)), fs_close = (\<lambda>fd f. f)\<rparr>"

definition demo_path_loop :: "(epoll \<times> (int, 32 word) smap, (unit \<times> string list) http_app) evloop" where
  "demo_path_loop = demo_app_loop
     \<lparr>ha_request = HttpRequest_new, ha_serverPath = ''/srv/'', ha_ctx = SendMassDataContext_new 0 0 0, ha_files = ((), [])\<rparr>"

definition demo_get_conn :: tcp_conn where
  "demo_get_conn = demo_conn\<lparr>tc_readBuffer := demo_get_buffer\<rparr>"

lemma demo_get_run:
  "\<exists>w. HttpReqHandle_OnMessageCallback (\<lambda>a b c. a) (traced demo_tree) (epoll_ops table_ctl) True demo_cbs
     (demo_get_conn, demo_path_loop) = Some (Inr w) \<and> opened_names w = [''/srv//a'']"
proof -
  from parse_rendered [OF demo_get_buffer_ok(1), of "''GET''" "''/a''" "''H/1''" "[(''Host'', ''x y'')]" "''rest''"
      "\<lambda>src pat rep. src" HttpRequest_new] demo_get_buffer_ok(2)
  obtain b' where parse: "HttpRequest_analyseHttpRequestHeader (\<lambda>src pat rep. src) HttpRequest_new demo_get_buffer =
      Some (Inr (True, \<lparr>rq_state = GOOD, rq_method = ''GET'', rq_path = ''/a'', rq_version = ''H/1'', rq_headers = [(''Host'', ''x y'')]\<rparr>, b'))"
    by (simp add: demo_get_def token_def header_field_def trimmed_def HttpRequest_new_def StringRemoveRepeatChar_def smap_insert_def) blast
  have up: "std_search ''/a'' ''../'' = 2" by code_simp
  show ?thesis
    by (simp add: HttpReqHandle_OnMessageCallback_def demo_get_conn_def demo_path_loop_def demo_app_loop_def http_app_def parse
        upd_conn_def upd_app_def HttpReqHandle_handleMethod_def HttpReqHandle_HandleGet_def up traced_def demo_tree_def GetFileStat_def
        c_str_def IsRegularFile_def stat_defs HttpReqHandle_HandleError_def TcpConnection_shutdown_def demo_conn_def opened_names_def Let_def)
qed

theorem http_files_confined_witness:
  "\<exists>w. HttpReqHandle_OnMessageCallback (\<lambda>a b c. a) (traced demo_tree) (epoll_ops table_ctl) True demo_cbs
      (demo_get_conn, demo_path_loop) = Some (Inr w) \<and> opened_names w = [''/srv//a''] \<and>
    prefix (resolve ''/srv/'') (resolve ''/srv//a'')"
proof -
  obtain w where w: "HttpReqHandle_OnMessageCallback (\<lambda>a b c. a) (traced demo_tree) (epoll_ops table_ctl) True demo_cbs
     (demo_get_conn, demo_path_loop) = Some (Inr w)" "opened_names w = [''/srv//a'']" using demo_get_run by blast
  have path: "ha_serverPath (el_app demo_path_loop) = ''/srv'' @ ''/''" "opened_names (demo_get_conn, demo_path_loop) = []"
    by (simp_all add: demo_path_loop_def demo_app_loop_def opened_names_def http_app_def)
  have cbs: "keeps_app demo_cbs" by (simp add: keeps_app_def demo_cbs_def)
  have "last (path_parts ''/srv//a'') \<noteq> ''..''" by code_simp
  then have dots: "\<not> IsRegularFile st" if "last (path_parts name) = ''..''" "fs_lstat demo_tree name f = Some st" for name f st
    using that by (auto simp: demo_tree_def split: if_splits)
  have "CHR 0x00 \<notin> set ''/srv''" by simp
  from http_files_confined [OF path(1) this cbs dots w(1)] w path show ?thesis by simp
qed

end
