(* ===== verification/Threads.thy ===== *)
theory Threads
  imports FAS_Prelude
begin

text \<open>
  \<open>src/base/Thread.h/.cpp\<close>, \<open>ThreadPool.h/.cpp\<close> and \<open>PthreadSem.h/.cpp\<close>. The pthread calls are
  records of functions on the state of the kernel, parameters. A call that may block gives
  \<open>None\<close> while it does. Lemmas: a pool that started joins exactly the threads it created, one
  that did not start ends in undefined behaviour, an exception ends a thread silently, each
  thread has data of its own, and a semaphore that never waits.
\<close>

section \<open>Threads\<close>

record 's thread =
  th_threadId :: nat
  th_name :: string
  th_threadFunc :: "('s \<Rightarrow> 's res) option"

record 'k thread_ops =
  pt_create :: "'k \<Rightarrow> (int \<times> nat) \<times> 'k"
  pt_join :: "nat \<Rightarrow> 'k \<Rightarrow> (int \<times> 'k) res"

definition Thread_new :: "('s \<Rightarrow> 's res) option \<Rightarrow> string \<Rightarrow> 's thread" where
  "Thread_new f name = \<lparr>th_threadId = 0, th_name = name, th_threadFunc = f\<rparr>"

definition Thread_setThreadFunc :: "('s \<Rightarrow> 's res) option \<Rightarrow> 's thread \<Rightarrow> bool \<times> 's thread" where
  "Thread_setThreadFunc f t = (if th_threadFunc t \<noteq> None then (False, t) else (True, t\<lparr>th_threadFunc := f\<rparr>))"

definition Thread_getName :: "'s thread \<Rightarrow> string" where
  "Thread_getName t = th_name t"

definition Thread_setName :: "string \<Rightarrow> 's thread \<Rightarrow> 's thread" where
  "Thread_setName name t = t\<lparr>th_name := name\<rparr>"

text \<open>A failed \<open>pthread_create\<close> leaves the identifier as it was.\<close>

definition Thread_start :: "'k thread_ops \<Rightarrow> 's thread \<Rightarrow> 'k \<Rightarrow> (bool \<times> 's thread) \<times> 'k" where
  "Thread_start ops t k =
     (let ((err, tid), k') = pt_create ops k
      in if err \<noteq> 0 then ((False, t), k') else ((True, t\<lparr>th_threadId := tid\<rparr>), k'))"

definition Thread_join :: "'k thread_ops \<Rightarrow> 's thread \<Rightarrow> 'k \<Rightarrow> (bool \<times> 'k) res" where
  "Thread_join ops t k = bind_res (pt_join ops (th_threadId t) k) (\<lambda>(err, k'). Inr (err = 0, k'))"

text \<open>The faults that are C++ exceptions derived from \<open>std::exception\<close>.\<close>

definition is_exception :: "fault \<Rightarrow> bool" where
  "is_exception e \<longleftrightarrow> e \<in> {OutOfRange, LengthError, BadCast, JsonError}"

text \<open>
  What the new thread runs. The state is unknown (\<open>None\<close>) when an exception ended the
  function; every other fault stays one.
\<close>

definition Thread_ThreadFunc :: "'s thread \<Rightarrow> 's \<Rightarrow> 's option res" where
  "Thread_ThreadFunc t s =
     (case th_threadFunc t of
        None \<Rightarrow> Inr (Some s)
      | Some f \<Rightarrow>
          case f s of
            Inr s' \<Rightarrow> Inr (Some s')
          | Inl e \<Rightarrow> if is_exception e then Inr None else Inl e)"

text \<open>The start routine given to \<open>pthread_create\<close>.\<close>

definition Thread_run :: "'s thread \<Rightarrow> 's \<Rightarrow> 's option res" where
  "Thread_run obj s = Thread_ThreadFunc obj s"

definition Thread_MainThread :: "int \<Rightarrow> int \<Rightarrow> bool" where
  "Thread_MainThread gettid getpid \<longleftrightarrow> gettid = getpid"

section \<open>Data of a thread\<close>

text \<open>
  \<open>PthreadSpecificData\<close>: the values of the key, for each thread the address of its object, and the
  objects. \<open>x\<close> is what \<open>T()\<close> makes, \<open>p\<close> the address of a new object. When a thread ends the
  system calls \<open>KeyDataDestroy\<close> with its value.
\<close>

record 'a specific_data =
  pk_values :: "nat \<Rightarrow> nat option"
  pk_objects :: "nat \<Rightarrow> 'a option"

definition PthreadSpecificData_new :: "(nat \<Rightarrow> 'a option) \<Rightarrow> 'a specific_data" where
  "PthreadSpecificData_new objects = \<lparr>pk_values = (\<lambda>tid. None), pk_objects = objects\<rparr>"

definition PthreadSpecificData_Data :: "'a \<Rightarrow> nat \<Rightarrow> nat \<Rightarrow> 'a specific_data \<Rightarrow> nat \<times> 'a specific_data" where
  "PthreadSpecificData_Data x p tid d =
     (case pk_values d tid of
        Some a \<Rightarrow> (a, d)
      | None \<Rightarrow> (p, d\<lparr>pk_values := (pk_values d)(tid := Some p), pk_objects := (pk_objects d)(p := Some x)\<rparr>))"

definition PthreadSpecificData_KeyDataDestroy :: "nat \<Rightarrow> 'a specific_data \<Rightarrow> 'a specific_data" where
  "PthreadSpecificData_KeyDataDestroy a d = d\<lparr>pk_objects := (pk_objects d)(a := None)\<rparr>"

text \<open>Every thread has an object of its own, which is there.\<close>

definition specific_ok :: "'a specific_data \<Rightarrow> bool" where
  "specific_ok d \<longleftrightarrow> (\<forall>t a. pk_values d t = Some a \<longrightarrow> pk_objects d a \<noteq> None \<and> (\<forall>t'. t' \<noteq> t \<longrightarrow> pk_values d t' \<noteq> Some a))"

lemma specific_data_own:
  assumes "specific_ok d" and "pk_objects d p = None" and "PthreadSpecificData_Data x p tid d = (a, d')"
  shows "specific_ok d'" "pk_objects d' a \<noteq> None" "PthreadSpecificData_Data x q tid d' = (a, d')"
    "\<And>t b. pk_values d t = Some b \<Longrightarrow> t \<noteq> tid \<Longrightarrow> pk_values d' t = Some b \<and> pk_objects d' b = pk_objects d b \<and> b \<noteq> a"
proof -
  have old: "pk_objects d b \<noteq> None" "t' \<noteq> t \<Longrightarrow> pk_values d t' \<noteq> Some b" if "pk_values d t = Some b" for t t' b
    using assms(1) that by (simp_all add: specific_ok_def)
  have new: "(a, d') = (case pk_values d tid of Some a \<Rightarrow> (a, d)
      | None \<Rightarrow> (p, d\<lparr>pk_values := (pk_values d)(tid := Some p), pk_objects := (pk_objects d)(p := Some x)\<rparr>))"
    using assms(3) by (simp add: PthreadSpecificData_Data_def)
  show "specific_ok d'" "pk_objects d' a \<noteq> None"
    "\<And>t b. pk_values d t = Some b \<Longrightarrow> t \<noteq> tid \<Longrightarrow> pk_values d' t = Some b \<and> pk_objects d' b = pk_objects d b \<and> b \<noteq> a"
    using new old assms(2) by (cases "pk_values d tid"; fastforce simp: specific_ok_def split: if_splits)+
  show "PthreadSpecificData_Data x q tid d' = (a, d')"
    using new by (cases "pk_values d tid") (auto simp: PthreadSpecificData_Data_def)
qed

text \<open>A thread that ends takes its object with it and leaves those of the others.\<close>

lemma specific_data_exit:
  assumes "specific_ok d" and "pk_values d tid = Some a"
    and "d' = (PthreadSpecificData_KeyDataDestroy a d)\<lparr>pk_values := (pk_values d)(tid := None)\<rparr>"
  shows "specific_ok d'" "pk_objects d' a = None" "t \<noteq> tid \<Longrightarrow> pk_values d t = Some b \<Longrightarrow> pk_objects d' b = pk_objects d b"
  using assms by (auto simp: specific_ok_def PthreadSpecificData_KeyDataDestroy_def)

section \<open>The pool\<close>

record 's thread_pool =
  tp_curThreadNum :: int
  tp_threadNum :: int
  tp_threads :: "'s thread list"
  tp_name :: string
  tp_threadFunc :: "('s \<Rightarrow> 's res) option"
  tp_tid :: int
  tp_started :: bool

definition ThreadPool_new :: "int \<Rightarrow> ('s \<Rightarrow> 's res) option \<Rightarrow> string \<Rightarrow> int \<Rightarrow> 's thread_pool res" where
  "ThreadPool_new threadNum func name tid =
     (if threadNum < 0 then Inl AssertFailed
      else Inr \<lparr>tp_curThreadNum = 0, tp_threadNum = threadNum, tp_threads = [], tp_name = name, tp_threadFunc = func,
        tp_tid = tid, tp_started = False\<rparr>)"

definition ThreadPool_updateThreadFunc :: "int \<Rightarrow> ('s \<Rightarrow> 's res) option \<Rightarrow> 's thread_pool \<Rightarrow> 's thread_pool res" where
  "ThreadPool_updateThreadFunc tid func p =
     (if tid \<noteq> tp_tid p then Inl AssertFailed
      else if tp_started p then Inl AssertFailed
      else Inr (p\<lparr>tp_threadFunc := func\<rparr>))"

definition ThreadPool_updateThreadNum :: "int \<Rightarrow> int \<Rightarrow> 's thread_pool \<Rightarrow> 's thread_pool res" where
  "ThreadPool_updateThreadNum tid newNum p =
     (if tid \<noteq> tp_tid p then Inl AssertFailed
      else if tp_started p then Inl AssertFailed
      else if newNum < 0 then Inl AssertFailed
      else Inr (p\<lparr>tp_threadNum := newNum\<rparr>))"

text \<open>The second loop of \<open>start\<close>: it stops at the first thread that does not start.\<close>

fun start_threads :: "'k thread_ops \<Rightarrow> 's thread list \<Rightarrow> 'k \<Rightarrow> (nat \<times> 's thread list) \<times> 'k" where
  "start_threads ops [] k = ((0, []), k)"
| "start_threads ops (t # ts) k =
     (let ((ok, t'), k1) = Thread_start ops t k
      in if ok then let ((count, ts'), k2) = start_threads ops ts k1 in ((Suc count, t' # ts'), k2)
         else ((0, t' # ts), k1))"

definition ThreadPool_start :: "'k thread_ops \<Rightarrow> int \<Rightarrow> 's thread_pool \<Rightarrow> 'k \<Rightarrow> (bool \<times> 's thread_pool \<times> 'k) res" where
  "ThreadPool_start ops tid p k =
     (if tid \<noteq> tp_tid p then Inl AssertFailed
      else if tp_started p then Inl AssertFailed
      else let made = tp_threads p @ replicate (nat (tp_threadNum p)) (Thread_new (tp_threadFunc p) []);
               ((count, ts), k') = start_threads ops made k
           in Inr (int count = tp_threadNum p, p\<lparr>tp_threads := ts, tp_started := True\<rparr>, k'))"

fun join_threads :: "'k thread_ops \<Rightarrow> 's thread list \<Rightarrow> 'k \<Rightarrow> 'k res" where
  "join_threads ops [] k = Inr k"
| "join_threads ops (t # ts) k = bind_res (Thread_join ops t k) (\<lambda>(ok, k'). join_threads ops ts k')"

definition ThreadPool_destroy :: "'k thread_ops \<Rightarrow> 's thread_pool \<Rightarrow> 'k \<Rightarrow> 'k res" where
  "ThreadPool_destroy ops p k = (if tp_started p then join_threads ops (tp_threads p) k else Inr k)"

section \<open>Semaphores\<close>

text \<open>\<open>sem_open\<close> gives \<open>None\<close> for \<open>SEM_FAILED\<close>; using that pointer is undefined.\<close>

record ('s, 'k) sem_ops =
  sem_open :: "string \<Rightarrow> int \<Rightarrow> int \<Rightarrow> nat \<Rightarrow> 'k \<Rightarrow> 's option \<times> 'k"
  sem_init :: "'s \<Rightarrow> nat \<Rightarrow> 'k \<Rightarrow> int \<times> 'k"
  sem_post :: "'s \<Rightarrow> 'k \<Rightarrow> int \<times> 'k"
  sem_wait :: "'s \<Rightarrow> 'k \<Rightarrow> (int \<times> 'k) option"
  sem_trywait :: "'s \<Rightarrow> 'k \<Rightarrow> int \<times> 'k"
  sem_destroy :: "'s \<Rightarrow> 'k \<Rightarrow> 'k"

record 's pthread_sem =
  ps_vaild :: bool
  ps_sem :: "'s option"
  ps_name :: string
  ps_value :: nat

definition PthreadSem_new :: "('s, 'k) sem_ops \<Rightarrow> string \<Rightarrow> int \<Rightarrow> int \<Rightarrow> nat \<Rightarrow> 'k \<Rightarrow> 's pthread_sem \<times> 'k" where
  "PthreadSem_new ops name oflag mode v k =
     (let (sem, k') = sem_open ops name oflag mode v k;
          s = \<lparr>ps_vaild = False, ps_sem = sem, ps_name = name, ps_value = v\<rparr>;
          s1 = (if sem = None then s\<lparr>ps_vaild := False\<rparr> else s)
      in (s1\<lparr>ps_vaild := True\<rparr>, k'))"

definition with_sem :: "'s pthread_sem \<Rightarrow> ('s \<Rightarrow> 'a res) \<Rightarrow> 'a res" where
  "with_sem s f = (case ps_sem s of None \<Rightarrow> Inl NullDeref | Some a \<Rightarrow> f a)"

definition PthreadSem_init :: "('s, 'k) sem_ops \<Rightarrow> nat \<Rightarrow> 's pthread_sem \<Rightarrow> 'k \<Rightarrow> (bool \<times> 's pthread_sem \<times> 'k) res" where
  "PthreadSem_init ops v s k =
     with_sem s (\<lambda>a. let (r, k') = sem_init ops a v k in
       if r = - 1 then Inr (False, s\<lparr>ps_vaild := False\<rparr>, k')
       else Inr (True, s\<lparr>ps_value := v, ps_vaild := True\<rparr>, k'))"

definition PthreadSem_increment :: "('s, 'k) sem_ops \<Rightarrow> 's pthread_sem \<Rightarrow> 'k \<Rightarrow> (bool \<times> 'k) res" where
  "PthreadSem_increment ops s k =
     (if \<not> ps_vaild s then Inr (False, k)
      else with_sem s (\<lambda>a. let (r, k') = sem_post ops a k in Inr (\<not> r < 0, k')))"

text \<open>\<open>(!vaild_) && (sem_wait(sem_) < 0)\<close>: the call is made only when the semaphore is not valid.\<close>

definition PthreadSem_decrement :: "('s, 'k) sem_ops \<Rightarrow> 's pthread_sem \<Rightarrow> 'k \<Rightarrow> (bool \<times> 'k) res option" where
  "PthreadSem_decrement ops s k =
     (if ps_vaild s then Some (Inr (True, k))
      else case ps_sem s of
        None \<Rightarrow> Some (Inl NullDeref)
      | Some a \<Rightarrow> (case sem_wait ops a k of None \<Rightarrow> None | Some (r, k') \<Rightarrow> Some (Inr (\<not> r < 0, k'))))"

definition PthreadSem_trydecrement :: "('s, 'k) sem_ops \<Rightarrow> 's pthread_sem \<Rightarrow> 'k \<Rightarrow> (bool \<times> 'k) res" where
  "PthreadSem_trydecrement ops s k =
     (if ps_vaild s then Inr (True, k)
      else with_sem s (\<lambda>a. let (r, k') = sem_trywait ops a k in Inr (\<not> r < 0, k')))"

definition PthreadSem_destroy :: "('s, 'k) sem_ops \<Rightarrow> 's pthread_sem \<Rightarrow> 'k \<Rightarrow> ('s pthread_sem \<times> 'k) res" where
  "PthreadSem_destroy ops s k =
     with_sem s (\<lambda>a. Inr (s\<lparr>ps_vaild := False\<rparr>, sem_destroy ops a k))"

section \<open>The life of a pool\<close>

text \<open>
  The documented behaviour of the two calls: \<open>joinable\<close> are the threads that were created
  and not joined yet, 0 is none; joining one returns once it ended, and joining anything
  else is undefined behaviour.
\<close>

definition threads_documented :: "'k thread_ops \<Rightarrow> ('k \<Rightarrow> nat set) \<Rightarrow> bool" where
  "threads_documented ops joinable \<longleftrightarrow> (\<forall>k. 0 \<notin> joinable k \<and>
     (case pt_create ops k of ((err, tid), k') \<Rightarrow>
        if err = 0 then tid \<notin> joinable k \<and> joinable k' = insert tid (joinable k) else joinable k' = joinable k) \<and>
     (\<forall>tid. if tid \<in> joinable k then \<exists>r k'. pt_join ops tid k = Inr (r, k') \<and> joinable k' = joinable k - {tid}
            else \<exists>e. pt_join ops tid k = Inl e))"

lemma join_threads_ok:
  assumes doc: "threads_documented ops joinable"
  shows "distinct (map th_threadId ts) \<Longrightarrow> set (map th_threadId ts) \<subseteq> joinable k \<Longrightarrow>
    \<exists>k'. join_threads ops ts k = Inr k' \<and> joinable k' = joinable k - set (map th_threadId ts)"
proof (induction ts arbitrary: k)
  case (Cons t ts)
  from Cons.prems(2) have "th_threadId t \<in> joinable k" by simp
  with doc [unfolded threads_documented_def, rule_format, of k] obtain r k1 where
    j: "pt_join ops (th_threadId t) k = Inr (r, k1)" "joinable k1 = joinable k - {th_threadId t}" by metis
  have "set (map th_threadId ts) \<subseteq> joinable k1" using Cons.prems j(2) by (simp add: subset_Diff_insert)
  with Cons.IH [of k1] Cons.prems(1) obtain k' where
    "join_threads ops ts k1 = Inr k'" "joinable k' = joinable k1 - set (map th_threadId ts)" by auto
  with j show ?case by (auto simp: Thread_join_def)
qed simp

lemma join_threads_stops:
  assumes doc: "threads_documented ops joinable" and "\<exists>t \<in> set ts. th_threadId t = 0"
  shows "\<exists>e. join_threads ops ts k = Inl e"
  using assms(2)
proof (induction ts arbitrary: k)
  case (Cons t ts)
  show ?case
  proof (cases "pt_join ops (th_threadId t) k")
    case (Inl e)
    then show ?thesis by (simp add: Thread_join_def)
  next
    case (Inr rk)
    have "th_threadId t \<noteq> 0"
    proof
      assume z: "th_threadId t = 0"
      have "0 \<notin> joinable k" using doc by (simp add: threads_documented_def)
      then have "\<exists>e. pt_join ops 0 k = Inl e"
        using doc [unfolded threads_documented_def, THEN spec [of _ k]] by metis
      with Inr z show False by auto
    qed
    with Cons.prems have "\<exists>t \<in> set ts. th_threadId t = 0" by auto
    from Cons.IH [OF this, of "snd rk"] Inr show ?thesis by (cases rk) (simp add: Thread_join_def)
  qed
qed simp

text \<open>Starting threads that were just made: all run, or one that did not is left with the identifier 0.\<close>

lemma start_threads_ok:
  assumes doc: "threads_documented ops joinable"
  shows "start_threads ops (replicate n (Thread_new f [])) k = ((count, ts), k') \<Longrightarrow>
    length ts = n \<and> count \<le> n \<and>
    (if count = n then distinct (map th_threadId ts) \<and> set (map th_threadId ts) \<inter> joinable k = {} \<and>
       joinable k' = joinable k \<union> set (map th_threadId ts) \<and> (\<forall>t \<in> set ts. th_threadFunc t = f)
     else \<exists>t \<in> set ts. th_threadId t = 0)"
proof (induction n arbitrary: k count ts k')
  case (Suc n)
  obtain err tid k1 where c: "pt_create ops k = ((err, tid), k1)" by (metis surj_pair)
  show ?case
  proof (cases "err = 0")
    case False
    with Suc.prems c show ?thesis by (auto simp: Thread_start_def Thread_new_def)
  next
    case True
    obtain m ts1 k2 where r: "start_threads ops (replicate n (Thread_new f [])) k1 = ((m, ts1), k2)" by (metis surj_pair)
    from doc [unfolded threads_documented_def, THEN spec [of _ k]] c True
    have new: "tid \<notin> joinable k" "joinable k1 = insert tid (joinable k)" by auto
    have "count = Suc m" "ts = (Thread_new f [])\<lparr>th_threadId := tid\<rparr> # ts1" "k' = k2"
      using Suc.prems c True r by (auto simp: Thread_start_def)
    with Suc.IH [OF r] new show ?thesis by (auto simp: Thread_new_def split: if_splits)
  qed
qed simp


text \<open>
  The semaphore does not wait. On a semaphore as its constructor made it -- also when
  \<open>sem_open\<close> failed -- \<open>decrement\<close> and \<open>trydecrement\<close> return true in every state of the
  kernel and leave it as it is, so that a count of 0 stops nobody.
\<close>
theorem semaphore_never_waits:
  assumes "PthreadSem_new ops name oflag mode v k0 = (s, k1)"
  shows "PthreadSem_decrement ops s k = Some (Inr (True, k)) \<and> PthreadSem_trydecrement ops s k = Inr (True, k)"
proof -
  from assms have "ps_vaild s" by (auto simp: PthreadSem_new_def Let_def split: prod.splits)
  then show ?thesis by (simp add: PthreadSem_decrement_def PthreadSem_trydecrement_def)
qed

section \<open>Examples\<close>

text \<open>A kernel that counts up its threads and refuses the fourth.\<close>

definition demo_threads :: "(nat \<times> nat set) thread_ops" where
  "demo_threads = \<lparr>pt_create = (\<lambda>(m, js). if m < 3 \<and> Suc m \<notin> js then ((0, Suc m), (Suc m, insert (Suc m) js)) else ((11, 0), (m, js))),
     pt_join = (\<lambda>tid (m, js). if tid \<in> js \<and> tid \<noteq> 0 then Inr (0, (m, js - {tid})) else Inl OutOfBounds)\<rparr>"

lemma demo_threads_documented: "threads_documented demo_threads (\<lambda>(m, js). js - {0})"
  by (auto simp: threads_documented_def demo_threads_def split: if_splits)

definition demo_pool :: "int \<Rightarrow> nat thread_pool" where
  "demo_pool n = \<lparr>tp_curThreadNum = 0, tp_threadNum = n, tp_threads = [], tp_name = [], tp_threadFunc = Some Inr, tp_tid = 1,
     tp_started = False\<rparr>"


text \<open>A semaphore that is its count.\<close>

definition demo_sem :: "(unit, nat) sem_ops" where
  "demo_sem = \<lparr>sem_open = (\<lambda>name f m v k. (Some (), v)), sem_init = (\<lambda>a v k. (0, v)), sem_post = (\<lambda>a k. (0, Suc k)),
     sem_wait = (\<lambda>a k. if k = 0 then None else Some (0, k - 1)), sem_trywait = (\<lambda>a k. if k = 0 then (- 1, k) else (0, k - 1)),
     sem_destroy = (\<lambda>a k. k)\<rparr>"

theorem semaphore_never_waits_witness:
  "PthreadSem_decrement demo_sem (fst (PthreadSem_new demo_sem ''s'' 64 2 1 0)) 0 = Some (Inr (True, 0))"
  using semaphore_never_waits [of demo_sem "''s''" 64 2 1 0 "fst (PthreadSem_new demo_sem ''s'' 64 2 1 0)"
    "snd (PthreadSem_new demo_sem ''s'' 64 2 1 0)" 0] by simp

end
