(* ===== verification/Http_Loop.thy ===== *)
theory Http_Loop
  imports Tcp_Loop Http_Paths Threads
begin

text \<open>
  The HTTP server in its worker threads: the callbacks of a connection of
  \<open>src/http/HttpServer.cpp\<close>, run by the turns of the worker's event loop, down to the
  function of the thread (\<open>src/base/Thread.cpp\<close>, \<open>TcpServer::LoopThreadFunc\<close>). Lemmas: a GET
  that arrives on a connection is answered over the turns of the loop and the connection
  is closed and cleared at the end; one bad header line ends the whole worker.
\<close>

section \<open>What the handler leaves of the loop\<close>

lemma send_strings_frame: "send_strings ops True ss w = Inr w' \<Longrightarrow> conn_frame w w'"
proof (induction ss arbitrary: w)
  case (Cons s ss)
  obtain c l where w: "w = (c, l)" by (cases w)
  from Cons.prems obtain w1 where s: "TcpConnection_sendData ops True s (c, l) = Inr w1" "send_strings ops True ss w1 = Inr w'"
    by (auto simp: w TcpConnection_sendString_def res_simps)
  from conn_frame_trans [OF sendData_conn_frame [OF s(1)] Cons.IH [OF s(2)]] show ?case by (simp add: w)
qed simp

lemma upd_app_frame [simp]: "conn_frame w (upd_app g w)"
  by (simp add: conn_frame_def upd_app_def)

lemma close_file_frame [simp]: "conn_frame w (close_file fs w)"
  by (simp add: close_file_def)

lemma conn_flag_frame [simp]:
  "conn_frame w (upd_conn TcpConnection_setHasMoreData w)" "conn_frame w (upd_conn TcpConnection_unsetHasMoreData w)"
  by (simp_all add: conn_frame_def upd_conn_def TcpConnection_setHasMoreData_def TcpConnection_unsetHasMoreData_def)

lemma shutdown_after_frame:
  assumes "cb_close cbs = Some (queue_clear f)" and "conn_frame w w1" and "TcpConnection_shutdown ops True cbs w1 = Inr w'"
  shows "conn_frame w w'"
  using conn_frame_trans [OF assms(2)] shutdown_frame [OF assms(1), of ops "fst w1" "snd w1" w'] assms(3) by simp

lemma HandleGet_frame:
  assumes "cb_close cbs = Some (queue_clear f)" and "HttpReqHandle_HandleGet fs ops True cbs w = Inr (ok, w')"
  shows "conn_frame w w'"
proof -
  note shut = shutdown_after_frame [OF assms(1)]
  have send: "conn_frame w (upd_conn TcpConnection_setHasMoreData w3)"
    if "send_strings ops True ss (upd_app g (upd_app g' w)) = Inr w3" for ss g g' w3
    using conn_frame_trans [OF conn_frame_trans [OF conn_frame_trans [OF upd_app_frame upd_app_frame] send_strings_frame [OF that]]
        conn_flag_frame(1)] .
  show ?thesis
    using assms(2)
    by (auto simp: HttpReqHandle_HandleGet_def Let_def HttpReqHandle_HandleError_def res_simps
        intro: shut [OF conn_frame_refl] shut [OF upd_app_frame] send split: if_splits option.splits prod.splits)
qed

lemma sendMassData_frame:
  assumes "cb_close cbs = Some (queue_clear f)" and "HttpReqHandle_sendMassData fs ops True cbs w = Inr w'"
  shows "conn_frame w w'"
proof -
  note shut = shutdown_after_frame [OF assms(1)]
  obtain ok f1 where seek: "fs_lseek fs (sm_fd (ha_ctx (http_app w))) (sm_rdstart (ha_ctx (http_app w))) (ha_files (http_app w)) = (ok, f1)"
    by (meson surj_pair)
  define w1 where "w1 = upd_app (\<lambda>a. a\<lparr>ha_files := f1\<rparr>) w"
  from assms(2) obtain w2 where w2: "(if \<not> ok then TcpConnection_shutdown ops True cbs (close_file fs w1) else Inr w1) = Inr w2"
    by (auto simp: HttpReqHandle_sendMassData_def Let_def seek w1_def res_simps split: if_splits)
  obtain r f2 where rd: "fs_read fs (sm_fd (ha_ctx (http_app w2))) SendMassDataContext_readEveryTime (ha_files (http_app w2)) = (r, f2)"
    by (meson surj_pair)
  define w3 where "w3 = upd_app (\<lambda>a. a\<lparr>ha_files := f2\<rparr>) w2"
  have "conn_frame w w1" by (simp add: w1_def)
  with w2 shut [of w1 "close_file fs w1" ops w2] have "conn_frame w w2" by (auto split: if_splits intro: conn_frame_trans)
  then have w3: "conn_frame w w3" using conn_frame_trans [OF _ upd_app_frame] by (simp add: w3_def)
  have run: "(case r of
          IoError e \<Rightarrow>
            if e = EAGAIN \<or> e = EWOULDBLOCK \<or> e = EINTR then Inr w3
            else TcpConnection_shutdown ops True cbs (upd_conn TcpConnection_unsetHasMoreData (close_file fs w3))
        | IoBytes data \<Rightarrow>
            if data = [] then Inr (close_file fs (upd_conn TcpConnection_unsetHasMoreData w3))
            else if SendMassDataContext_readEveryTime < length data then Inl OutOfBounds
            else bind_res (TcpConnection_putDataToWriteBuffer (fst w3) data) (\<lambda>c.
              let w4 = upd_app (\<lambda>a. a\<lparr>ha_ctx := SendMassDataContext_addSizeToRdstartAndUpdateRemind (ha_ctx a) (length data)\<rparr>) (c, snd w3);
                  x = ha_ctx (http_app w4) in
              if sm_length x \<noteq> sz_add (sm_rdstart x) (sm_remaind x) then Inl AssertFailed
              else if sm_remaind x = 0
              then TcpConnection_shutdown ops True cbs (close_file fs (upd_conn TcpConnection_unsetHasMoreData w4))
              else Inr w4)) = Inr w'"
    using assms(2) unfolding HttpReqHandle_sendMassData_def Let_def seek prod.case w1_def [symmetric] w2 bind_res_Inr rd w3_def [symmetric]
    by (simp split: if_splits)
  have rest: "conn_frame w3 w'"
  proof (cases r)
    case (IoError e)
    with run show ?thesis
      by (auto intro: shut [OF conn_frame_trans [OF close_file_frame conn_flag_frame(2)]] split: if_splits)
  next
    case (IoBytes data)
    have put: "conn_frame w3 (upd_app g (c, snd w3))" if "TcpConnection_putDataToWriteBuffer (fst w3) data = Inr c" for c g
      using that by (auto simp: TcpConnection_putDataToWriteBuffer_def conn_frame_def upd_app_def res_simps)
    from run IoBytes show ?thesis
      by (auto simp: Let_def res_simps split: if_splits
          intro: put shut [OF conn_frame_trans [OF conn_frame_trans [OF put conn_flag_frame(2)] close_file_frame]]
            conn_frame_trans [OF conn_flag_frame(2) close_file_frame])
  qed
  from w3 rest show ?thesis by (rule conn_frame_trans)
qed


lemma OnMessageCallback_frame:
  assumes "cb_close cbs = Some (queue_clear f)" and "HttpReqHandle_OnMessageCallback regex fs ops True cbs w = Some (Inr w')"
  shows "conn_frame w w'"
proof -
  from assms(2) obtain ok req b where
    run: "if \<not> ok then w' = upd_conn (\<lambda>c. c\<lparr>tc_readBuffer := b\<rparr>) (upd_app (\<lambda>a. a\<lparr>ha_request := req\<rparr>) w)
      else \<exists>ret. HttpReqHandle_handleMethod fs ops True cbs
        (upd_conn (\<lambda>c. c\<lparr>tc_readBuffer := b\<rparr>) (upd_app (\<lambda>a. a\<lparr>ha_request := req\<rparr>) w)) = Inr (ret, w')"
    by (fastforce simp: HttpReqHandle_OnMessageCallback_def Let_def res_simps split: if_splits)
  let ?w1 = "upd_conn (\<lambda>c. c\<lparr>tc_readBuffer := b\<rparr>) (upd_app (\<lambda>a. a\<lparr>ha_request := req\<rparr>) w)"
  have w1: "conn_frame w ?w1" by (simp add: conn_frame_def upd_conn_def upd_app_def)
  have "conn_frame ?w1 w'"
    using run HandleGet_frame [OF assms(1), of fs ops ?w1 _ w']
    by (auto simp: HttpReqHandle_handleMethod_def Let_def split: if_splits)
  with w1 show ?thesis by (rule conn_frame_trans)
qed

abbreviation http_callbacks :: "(string \<Rightarrow> string \<Rightarrow> string \<Rightarrow> string) \<Rightarrow> 'f files \<Rightarrow> 'p poller_ops \<Rightarrow> nat \<Rightarrow>
    ('p, 'f) http_world tcp_callbacks" where
  "http_callbacks regex fs ops f \<equiv> HttpServer_OnNewConnection regex fs ops True (Some (queue_clear f))"

lemma http_callbacks_framed: "cbs_framed f (http_callbacks regex fs ops f)"
  by (auto simp: cbs_framed_def framed_def HttpServer_OnNewConnection_def Let_def simp del: split_paired_All
      intro: sendMassData_frame [rotated] OnMessageCallback_frame [rotated] split: option.splits)

lemma queue_clear_keeps: "\<forall>c l. K (el_app l) \<longrightarrow> (\<exists>l'. queue_clear f (c, l) = Inr (c, l') \<and> K (el_app l'))"
  by (simp add: queue_clear_def EventLoop_queueInLoop_def EventLoop_wakeUp_def Let_def)

section \<open>A request over the turns of the loop\<close>

text \<open>A turn of the loop of an HTTP connection.\<close>

lemma http_turn:
  fixes l :: "('k, tcp_conn \<times> 'f http_app) epoll_loop"
  assumes "between_turns P l" and "loop_stable registered P" "loop_stable registered Q"
    and "conn_ok registered (fst (el_app l), with_app (snd (el_app l)) l)"
    and "\<And>w. P w \<Longrightarrow> fst w = fst (el_app l) \<Longrightarrow> el_app (snd w) = snd (el_app l) \<Longrightarrow> conn_ok registered w \<Longrightarrow>
      case conn_step ops (http_callbacks regex fs ops f) t ev w of
        Inl e \<Rightarrow> E e | Inr w' \<Rightarrow> Q w' \<and> R (fst w') (el_app (snd w'))"
  shows "case conn_turn ops (http_callbacks regex fs ops f) t ev l of
     Inl e \<Rightarrow> E e | Inr l' \<Rightarrow> between_turns Q l' \<and> R (fst (el_app l')) (snd (el_app l'))"
  by (rule turn_lift_facts [OF assms(1-4) _ assms(5)])
    (auto intro: conn_step_frame [OF http_callbacks_framed] simp del: conn_step.simps)

text \<open>While the file is sent, and when the answer was begun.\<close>

abbreviation in_turn :: "('k \<Rightarrow> int \<Rightarrow> 32 word option) \<Rightarrow> int \<Rightarrow> string \<Rightarrow> ('f \<Rightarrow> bool) \<Rightarrow> ('f \<Rightarrow> bool) \<Rightarrow>
    string \<Rightarrow> ('k, tcp_conn \<times> 'f http_app) epoll_loop \<Rightarrow> bool" where
  "in_turn registered fd file good shut base \<equiv> between_turns (stream_inv registered fd file good shut base)"

lemma stream_stable: "loop_stable registered (stream_inv registered fd file good shut base)"
  by (simp add: loop_stable_def stream_inv_def http_app_def tcp_bytes_def)

lemma serving_stable: "loop_stable registered (serving registered fd file good bytes)"
  by (simp add: loop_stable_def serving_def http_app_def tcp_bytes_def)

context epoll_kernel begin

lemma sendable_turn:
  assumes inv: "in_turn registered fd file good shut base l" and nc: "\<not> tc_closeing (fst (el_app l))"
    and fs: "serves_file fs fd file good" "0 < fd" "length file < 2 ^ 63"
    and shut: "\<forall>f. good f \<longrightarrow> shut (fs_close fs fd f)" and doc: "write_documented (fst (el_app l)) rs"
  shows "case conn_turn (epoll_ops ctl) (http_callbacks regex fs (epoll_ops ctl) f) t (Sendable rs) l of
     Inl e \<Rightarrow> e = LengthError
   | Inr l' \<Rightarrow> in_turn registered fd file good shut base l' \<and>
       length (tc_sent (fst (el_app l'))) = length (tc_sent (fst (el_app l))) + taken rs"
proof (rule http_turn [OF inv stream_stable stream_stable, where R = "\<lambda>c a. length (tc_sent c) = length (tc_sent (fst (el_app l))) + taken rs"])
  show "conn_ok registered (fst (el_app l), with_app (snd (el_app l)) l)"
    using inv nc by (simp add: between_turns_def stream_inv_def)
  fix w assume w: "stream_inv registered fd file good shut base w" "fst w = fst (el_app l)"
  from stream_step [where rs = rs and regex = regex, OF w(1) _ fs shut queue_clear_keeps [of "\<lambda>a. shut (ha_files a)" f]] w(2) nc doc
  show "case conn_step (epoll_ops ctl) (http_callbacks regex fs (epoll_ops ctl) f) t (Sendable rs) w of
     Inl e \<Rightarrow> e = LengthError
   | Inr w' \<Rightarrow> stream_inv registered fd file good shut base w' \<and>
       length (tc_sent (fst w')) = length (tc_sent (fst (el_app l))) + taken rs"
    by (simp cong: sum.case_cong)
qed

end


section \<open>The request arrives\<close>

text \<open>An open connection whose request is not complete: \<open>pre\<close> of it is in the read buffer.\<close>

definition waiting :: "('k \<Rightarrow> int \<Rightarrow> 32 word option) \<Rightarrow> string \<Rightarrow> ('k, tcp_conn \<times> 'f http_app) epoll_loop \<Rightarrow> bool" where
  "waiting registered pre l \<longleftrightarrow> (let (c, a) = el_app l in
     conn_ok registered (c, with_app a l) \<and> \<not> tc_closeing c \<and> \<not> tc_shouldBeClosed c \<and>
     Buffer_inv (tc_readBuffer c) \<and> Buffer_content (tc_readBuffer c) = pre) \<and>
     el_functors l = [] \<and> \<not> el_runningFunctors l"

definition awaiting :: "('k \<Rightarrow> int \<Rightarrow> 32 word option) \<Rightarrow> string \<Rightarrow> (epoll \<times> 'k, 'u) tcp_world \<Rightarrow> bool" where
  "awaiting registered pre w \<longleftrightarrow> conn_ok registered w \<and> \<not> tc_closeing (fst w) \<and> \<not> tc_shouldBeClosed (fst w) \<and>
     Buffer_inv (tc_readBuffer (fst w)) \<and> Buffer_content (tc_readBuffer (fst w)) = pre"

lemma awaiting_stable: "loop_stable registered (awaiting registered pre)"
  by (simp add: loop_stable_def awaiting_def)

lemma waiting_between: "waiting registered pre l \<longleftrightarrow> between_turns (awaiting registered pre) l"
  by (auto simp: waiting_def between_turns_def awaiting_def split: prod.split)

text \<open>The request after its last line, and the application's state with it.\<close>

definition request_done :: "(string \<Rightarrow> string \<Rightarrow> string \<Rightarrow> string) \<Rightarrow> string \<Rightarrow> string \<Rightarrow> string \<Rightarrow> (string \<times> string) list \<Rightarrow>
    'f http_app \<Rightarrow> 'f http_app" where
  "request_done regex m p v hs a = a\<lparr>ha_request := (ha_request a)\<lparr>rq_state := GOOD, rq_method := m, rq_version := v,
     rq_path := StringRemoveRepeatChar regex p ''/'',
     rq_headers := fold (\<lambda>kv mp. smap_insert mp (fst kv) (snd kv)) hs (rq_headers (ha_request a))\<rparr>\<rparr>"

lemma incomplete_prefix:
  assumes "token m" "token p" "token v" and "\<forall>kv \<in> set hs. header_field kv"
    and "pre @ post = render_request m p v hs" and "post \<noteq> []"
  shows "\<not> sublist kCRLFCRLF pre"
proof
  let ?l = "render_requestLine m p v" and ?ks = "map render_header hs"
  assume "sublist kCRLFCRLF pre"
  then obtain xs ys where pre: "pre = xs @ kCRLFCRLF @ ys" by (auto simp: sublist_def)
  have c: "pre @ post = join_lines ?l ?ks @ kCRLFCRLF" using assms(5) by (simp add: render_request_def)
  have "length pre + length post = length (join_lines ?l ?ks) + length kCRLFCRLF" using arg_cong [OF c, of length] by simp
  with pre assms(6) have "length xs < length (join_lines ?l ?ks)" by (cases post) auto
  moreover have "prefix kCRLFCRLF (drop (length xs) (join_lines ?l ?ks @ kCRLFCRLF @ []))"
    using pre c [symmetric] by simp
  ultimately show False using no_early_end [OF render_lines_ok [OF assms(1-4)], of "length xs" "[]"] by blast
qed

context epoll_kernel begin

lemma waiting_turn:
  assumes w: "waiting registered pre l" and l: "el_app l = (c, a)" and doc: "event_documented (Readable (IoBytes data)) c"
    and more: "\<not> sublist kCRLFCRLF (pre @ data)"
  shows "case conn_turn (epoll_ops ctl) (http_callbacks regex fs (epoll_ops ctl) f) t (Readable (IoBytes data)) l of
     Inl e \<Rightarrow> e = LengthError
   | Inr l' \<Rightarrow> waiting registered (pre @ data) l' \<and>
       (\<exists>b. el_app l' = (c\<lparr>tc_readBuffer := b\<rparr>, a\<lparr>ha_request := (ha_request a)\<lparr>rq_state := INCOMPLETE\<rparr>\<rparr>))"
proof -
  let ?cbs = "http_callbacks regex fs (epoll_ops ctl) f" and ?a = "a\<lparr>ha_request := (ha_request a)\<lparr>rq_state := INCOMPLETE\<rparr>\<rparr>"
  have ok: "Buffer_inv (tc_readBuffer c)" "Buffer_content (tc_readBuffer c) = pre" "\<not> tc_closeing c" "\<not> tc_shouldBeClosed c"
    using w by (simp_all add: waiting_def l)
  have step: "case conn_step (epoll_ops ctl) ?cbs t (Readable (IoBytes data)) (c, l1) of
      Inl e \<Rightarrow> e = LengthError
    | Inr w' \<Rightarrow> awaiting registered (pre @ data) w' \<and> (\<exists>b. fst w' = c\<lparr>tc_readBuffer := b\<rparr>) \<and> el_app (snd w') = ?a"
    if l1: "el_app l1 = a" "conn_ok registered (c, l1)" for l1
  proof -
    obtain g where g: "cb_message ?cbs = Some g" by (simp add: HttpServer_OnNewConnection_def Let_def)
    have "g t (c\<lparr>tc_readBuffer := b\<rparr>, l1) = Inr (c\<lparr>tc_readBuffer := b\<rparr>, l1\<lparr>el_app := ?a\<rparr>)"
      if b: "Buffer_inv b" "Buffer_content b = pre @ data" for b
      using g http_incomplete_waits [OF b(1)] b(2) more l1(1)
      by (auto simp: HttpServer_OnNewConnection_def Let_def HttpReqHandle_OnMessageCallback_def http_app_def upd_app_def upd_conn_def)
    with readable_step [OF ok(1) doc g, of "epoll_ops ctl" t l1] ok l1(2) show ?thesis by (auto simp: awaiting_def)
  qed
  have "case conn_turn (epoll_ops ctl) ?cbs t (Readable (IoBytes data)) l of
     Inl e \<Rightarrow> e = LengthError
   | Inr l' \<Rightarrow> between_turns (awaiting registered (pre @ data)) l' \<and> (\<exists>b. fst (el_app l') = c\<lparr>tc_readBuffer := b\<rparr>) \<and> snd (el_app l') = ?a"
  proof (rule http_turn [OF _ awaiting_stable awaiting_stable, where R = "\<lambda>c' a'. (\<exists>b. c' = c\<lparr>tc_readBuffer := b\<rparr>) \<and> a' = ?a"])
    show "between_turns (awaiting registered pre) l" "conn_ok registered (fst (el_app l), with_app (snd (el_app l)) l)"
      using w by (simp_all add: waiting_between) (simp add: between_turns_def awaiting_def)
    fix w assume "fst w = fst (el_app l)" "el_app (snd w) = snd (el_app l)" "conn_ok registered w"
    then have "w = (c, snd w)" "el_app (snd w) = a" "conn_ok registered (c, snd w)" by (auto simp: l)
    with step [of "snd w"] show "case conn_step (epoll_ops ctl) ?cbs t (Readable (IoBytes data)) w of
       Inl e \<Rightarrow> e = LengthError
     | Inr w' \<Rightarrow> awaiting registered (pre @ data) w' \<and> (\<exists>b. fst w' = c\<lparr>tc_readBuffer := b\<rparr>) \<and> el_app (snd w') = ?a" by metis
  qed
  then show ?thesis
    by (cases "conn_turn (epoll_ops ctl) ?cbs t (Readable (IoBytes data)) l") (auto simp: waiting_between prod_eq_iff)
qed

text \<open>The data that completes a GET: the answer's header waits in the write buffer, the file is open.\<close>

lemma request_step:
  assumes ok: "conn_ok registered (c, l)" "\<not> tc_closeing c" "\<not> tc_shouldBeClosed c"
    and buf: "Buffer_inv (tc_readBuffer c)" "Buffer_content (tc_readBuffer c) = pre" and a: "el_app l = a"
    and doc: "event_documented (Readable (IoBytes data)) c"
    and req: "pre @ data = render_request ''GET'' p v hs @ rest" "token p" "token v" "\<forall>kv \<in> set hs. header_field kv"
    and a': "a' = request_done regex ''GET'' p v hs a" and dots: "\<not> sublist ''../'' (rq_path (ha_request a'))"
    and st: "GetFileStat (\<lambda>name. fs_lstat fs name (ha_files a)) (requested_file a') = Some st"
      "IsRegularFile st" "FileSizeInBytes st = int (length file)"
    and opens: "fs_open fs (c_str (requested_file a')) (ha_files a) = (fd, f1)" "good f1" "0 < fd"
    and header: "\<forall>s \<in> set (response_header a' (length file)). length s \<le> vec_max" and size: "length file < 2 ^ 63"
  shows "case conn_step (epoll_ops ctl) (http_callbacks regex fs (epoll_ops ctl) f) t (Readable (IoBytes data)) (c, l) of
     Inl e \<Rightarrow> e = LengthError
   | Inr w' \<Rightarrow> serving registered fd file good (tcp_bytes (c, l) @ concat (response_header a' (length file))) w' \<and>
       tc_sent (fst w') = tc_sent c"
proof -
  let ?cbs = "http_callbacks regex fs (epoll_ops ctl) f"
  obtain g where g: "cb_message ?cbs = Some g" by (simp add: HttpServer_OnNewConnection_def Let_def)
  have run: "case g t (c\<lparr>tc_readBuffer := b\<rparr>, l) of
      Inl e \<Rightarrow> e = LengthError
    | Inr w' \<Rightarrow> serving registered fd file good (tcp_bytes (c, l) @ concat (response_header a' (length file))) w' \<and>
        tc_sent (fst w') = tc_sent c"
    if b: "Buffer_inv b" "Buffer_content b = pre @ data" for b
  proof -
    have "token ''GET''" by (simp add: token_def)
    from parse_rendered [OF b(1) _ this req(2-4), of _ regex "ha_request a"] b(2) req(1) obtain b' where
      parse: "HttpRequest_analyseHttpRequestHeader regex (ha_request a) b = Some (Inr (True, ha_request a', b'))"
      by (auto simp: a' request_done_def)
    let ?cs = "\<lparr>cb_message = None, cb_close = Some (queue_clear f), cb_moreData = None\<rparr>" and ?c = "c\<lparr>tc_readBuffer := b'\<rparr>"
    let ?l = "l\<lparr>el_app := a'\<rparr>"
    have a'_app: "a\<lparr>ha_request := ha_request a'\<rparr> = a'" and done_state: "rq_state (ha_request a') = GOOD" "rq_method (ha_request a') = ''GET''"
      "ha_files a' = ha_files a" by (simp_all add: a' request_done_def)
    have "HttpReqHandle_OnMessageCallback regex fs (epoll_ops ctl) True ?cs (c\<lparr>tc_readBuffer := b\<rparr>, l) =
        Some (bind_res (HttpReqHandle_HandleGet fs (epoll_ops ctl) True ?cs (?c, ?l)) (\<lambda>(ret, w2). Inr w2))"
      using parse done_state a'_app a
      by (simp add: HttpReqHandle_OnMessageCallback_def http_app_def upd_app_def upd_conn_def HttpReqHandle_handleMethod_def Let_def)
    with g have run: "g t (c\<lparr>tc_readBuffer := b\<rparr>, l) =
        bind_res (HttpReqHandle_HandleGet fs (epoll_ops ctl) True ?cs (?c, ?l)) (\<lambda>(ret, w2). Inr w2)"
      by (auto simp: HttpServer_OnNewConnection_def Let_def)
    have okl: "conn_ok registered (?c, ?l)" using ok(1) by simp
    have appl: "el_app ?l = a'" by simp
    note get = HandleGet_serves [where good = good and cbs = ?cs, OF epoll_kernel_axioms okl _ _ _ _ st(2,3) _ opens(2,3) _ size,
        unfolded appl done_state(3), OF _ _ dots st(1) opens(1) header]
    show ?thesis
    proof (cases "HttpReqHandle_HandleGet fs (epoll_ops ctl) True ?cs (?c, ?l)")
      case (Inl e)
      with get ok(2,3) run show ?thesis by simp
    next
      case (Inr r)
      with get ok(2,3) run show ?thesis by (cases r) (simp add: tcp_bytes_def)
    qed
  qed
  from readable_step [OF buf(1) doc g, of "epoll_ops ctl" t l] show ?thesis
  proof
    assume "\<exists>b. Buffer_inv b \<and> Buffer_content b = Buffer_content (tc_readBuffer c) @ data \<and>
      conn_step (epoll_ops ctl) ?cbs t (Readable (IoBytes data)) (c, l) = g t (c\<lparr>tc_readBuffer := b\<rparr>, l)"
    with run buf(2) show ?thesis by auto
  qed simp
qed

lemma request_turn:
  assumes w: "waiting registered pre l" and l: "el_app l = (c, a)" and doc: "event_documented (Readable (IoBytes data)) c"
    and req: "pre @ data = render_request ''GET'' p v hs @ rest" "token p" "token v" "\<forall>kv \<in> set hs. header_field kv"
    and a': "a' = request_done regex ''GET'' p v hs a" and dots: "\<not> sublist ''../'' (rq_path (ha_request a'))"
    and st: "GetFileStat (\<lambda>name. fs_lstat fs name (ha_files a)) (requested_file a') = Some st"
      "IsRegularFile st" "FileSizeInBytes st = int (length file)"
    and opens: "fs_open fs (c_str (requested_file a')) (ha_files a) = (fd, f1)" "good f1" "0 < fd"
    and header: "\<forall>s \<in> set (response_header a' (length file)). length s \<le> vec_max" and size: "length file < 2 ^ 63"
  shows "case conn_turn (epoll_ops ctl) (http_callbacks regex fs (epoll_ops ctl) f) t (Readable (IoBytes data)) l of
     Inl e \<Rightarrow> e = LengthError
   | Inr l' \<Rightarrow> between_turns (serving registered fd file good (tcp_bytes (c, l) @ concat (response_header a' (length file)))) l' \<and>
       tc_sent (fst (el_app l')) = tc_sent c"
proof (rule http_turn [where P = "\<lambda>w. True" and R = "\<lambda>c' a. tc_sent c' = tc_sent c", OF _ _ serving_stable])
  have ok: "\<not> tc_closeing c" "\<not> tc_shouldBeClosed c" "Buffer_inv (tc_readBuffer c)" "Buffer_content (tc_readBuffer c) = pre"
    using w by (simp_all add: waiting_def l)
  show "between_turns (\<lambda>w. True) l" "conn_ok registered (fst (el_app l), with_app (snd (el_app l)) l)"
    using w by (simp_all add: between_turns_def waiting_def l)
  show "loop_stable registered (\<lambda>w. True)" by (simp add: loop_stable_def)
  fix w assume "fst w = fst (el_app l)" "el_app (snd w) = snd (el_app l)" "conn_ok registered w"
  then have w: "w = (c, snd w)" "el_app (snd w) = a" "conn_ok registered (c, snd w)" by (auto simp: l)
  have "tcp_bytes (c, snd w) = tcp_bytes (c, l)" by (simp add: tcp_bytes_def)
  with request_step [where good = good and fs = fs and regex = regex, OF w(3) ok w(2) doc req a' dots st opens header size, of f t] w(1)
  show "case conn_step (epoll_ops ctl) (http_callbacks regex fs (epoll_ops ctl) f) t (Readable (IoBytes data)) w of
     Inl e \<Rightarrow> e = LengthError
   | Inr w' \<Rightarrow> serving registered fd file good (tcp_bytes (c, l) @ concat (response_header a' (length file))) w' \<and>
       tc_sent (fst w') = tc_sent c" by metis
qed

lemma sendable_turns:
  assumes fs: "serves_file fs fd file good" "0 < fd" "length file < 2 ^ 63"
    and shut: "\<forall>f. good f \<longrightarrow> shut (fs_close fs fd f)"
  shows "in_turn registered fd file good shut base l \<Longrightarrow>
    turns_documented (epoll_ops ctl) (http_callbacks regex fs (epoll_ops ctl) f) t (map Sendable rss) l \<Longrightarrow>
    (case conn_turns (epoll_ops ctl) (http_callbacks regex fs (epoll_ops ctl) f) t (map Sendable rss) l of
       Inl e \<Rightarrow> e = LengthError
     | Inr l' \<Rightarrow> in_turn registered fd file good shut base l' \<and>
         (tc_closeing (fst (el_app l')) \<or> length (tc_sent (fst (el_app l'))) = length (tc_sent (fst (el_app l))) + sum_list (map taken rss)))"
proof (induction rss arbitrary: l)
  case (Cons rs rss)
  show ?case
  proof (cases "tc_closeing (fst (el_app l))")
    case False
    with Cons.prems(2) have "write_documented (fst (el_app l)) rs" by simp
    note step = sendable_turn [OF Cons.prems(1) False fs shut this, of regex f t]
    show ?thesis
    proof (cases "conn_turn (epoll_ops ctl) (http_callbacks regex fs (epoll_ops ctl) f) t (Sendable rs) l")
      case (Inl e)
      with step False show ?thesis by simp
    next
      case (Inr l1)
      with step have l1: "in_turn registered fd file good shut base l1"
        "length (tc_sent (fst (el_app l1))) = length (tc_sent (fst (el_app l))) + taken rs" by simp_all
      from Cons.prems(2) False Inr have
        "turns_documented (epoll_ops ctl) (http_callbacks regex fs (epoll_ops ctl) f) t (map Sendable rss) l1" by simp
      from Cons.IH [OF l1(1) this] l1(2) Inr False show ?thesis by (simp add: add.assoc split: sum.splits)
    qed
  qed (use Cons.prems in simp)
qed simp

lemma request_reads:
  assumes req: "token p" "token v" "\<forall>kv \<in> set hs. header_field kv" and rest: "ds \<noteq> []" "\<forall>d \<in> set ds. d \<noteq> []"
    and a': "a' = request_done regex ''GET'' p v hs a" and dots: "\<not> sublist ''../'' (rq_path (ha_request a'))"
    and st: "GetFileStat (\<lambda>name. fs_lstat fs name (ha_files a)) (requested_file a') = Some st"
      "IsRegularFile st" "FileSizeInBytes st = int (length file)"
    and opens: "fs_open fs (c_str (requested_file a')) (ha_files a) = (fd, f1)" "good f1" "0 < fd"
    and header: "\<forall>s \<in> set (response_header a' (length file)). length s \<le> vec_max" and size: "length file < 2 ^ 63"
    and bytes: "bytes = tcp_bytes (c, l) @ concat (response_header a' (length file))"
  shows "waiting registered pre l \<Longrightarrow> el_app l = (c, a) \<Longrightarrow> pre @ concat ds = render_request ''GET'' p v hs \<Longrightarrow>
    turns_documented (epoll_ops ctl) (http_callbacks regex fs (epoll_ops ctl) f) t (map (\<lambda>d. Readable (IoBytes d)) ds) l \<Longrightarrow>
    (case conn_turns (epoll_ops ctl) (http_callbacks regex fs (epoll_ops ctl) f) t (map (\<lambda>d. Readable (IoBytes d)) ds) l of
       Inl e \<Rightarrow> e = LengthError
     | Inr l' \<Rightarrow> between_turns (serving registered fd file good bytes) l' \<and> tc_sent (fst (el_app l')) = tc_sent c)"
  using rest a' dots st(1) opens(1) header bytes
proof (induction ds arbitrary: pre l c a a')
  case (Cons d ds)
  let ?cbs = "http_callbacks regex fs (epoll_ops ctl) f"
  note prems = Cons.prems
  have nc: "\<not> tc_closeing (fst (el_app l))" using prems(1,2) by (simp add: waiting_def)
  with prems(2,4) have doc: "event_documented (Readable (IoBytes d)) c" by simp
  show ?case
  proof (cases "ds = []")
    case True
    with prems(3) have r: "pre @ d = render_request ''GET'' p v hs @ []" by simp
    note step = request_turn [where good = good and regex = regex and fs = fs, OF prems(1,2) doc r req prems(7,8,9) st(2,3) prems(10) opens(2,3)
        prems(11) size, of f t]
    show ?thesis
    proof (cases "conn_turn (epoll_ops ctl) ?cbs t (Readable (IoBytes d)) l")
      case (Inl e)
      with step nc show ?thesis by simp
    next
      case (Inr l1)
      with step prems(12) nc True show ?thesis by simp
    qed
  next
    case False
    with prems(6) have ne: "concat ds \<noteq> []" by auto
    have "token ''GET''" by (simp add: token_def)
    from incomplete_prefix [OF this req, of "pre @ d" "concat ds"] prems(3) ne have "\<not> sublist kCRLFCRLF (pre @ d)" by simp
    note step = waiting_turn [OF prems(1,2) doc this, of regex fs f t]
    show ?thesis
    proof (cases "conn_turn (epoll_ops ctl) ?cbs t (Readable (IoBytes d)) l")
      case (Inl e)
      with step nc show ?thesis by simp
    next
      case (Inr l1)
      with step obtain b where l1: "waiting registered (pre @ d) l1"
        "el_app l1 = (c\<lparr>tc_readBuffer := b\<rparr>, a\<lparr>ha_request := (ha_request a)\<lparr>rq_state := INCOMPLETE\<rparr>\<rparr>)" by auto
      let ?c = "c\<lparr>tc_readBuffer := b\<rparr>" and ?a = "a\<lparr>ha_request := (ha_request a)\<lparr>rq_state := INCOMPLETE\<rparr>\<rparr>"
      have a1: "a' = request_done regex ''GET'' p v hs ?a" using prems(7) by (simp add: request_done_def)
      have docs: "turns_documented (epoll_ops ctl) ?cbs t (map (\<lambda>d. Readable (IoBytes d)) ds) l1"
        using prems(4) nc Inr by simp
      have "bytes = tcp_bytes (?c, l1) @ concat (response_header a' (length file))" using prems(12) by (simp add: tcp_bytes_def)
      with Cons.IH [OF l1 _ docs False _ a1 prems(8) _ _ prems(11)] prems(3,6,9,10) Inr nc show ?thesis by (simp cong: sum.case_cong)
    qed
  qed
qed simp

end


text \<open>
  C5: A GET that arrives on a connection is served by the turns of its loop. However the
  kernel cuts the request into reads, the incomplete part waits; the read that completes it
  answers with the header and opens the file; then, however the writes are cut, what the
  socket took is a prefix of header and file. The connection closes exactly when all was
  taken, \<open>clearInLoop\<close> then runs in the same turn, the file's descriptor is closed as the last
  thing done to the files, and no functor is left. The only failure is a buffer beyond the
  maximal size of a vector.
\<close>
theorem http_request_over_loop:
  fixes l :: "('k, tcp_conn \<times> 'f http_app) epoll_loop"
  assumes "epoll_kernel ctl registered" and "waiting registered [] l" and "el_app l = (c, a)"
    and "token p" "token v" "\<forall>kv \<in> set hs. header_field kv" and "concat ds = render_request ''GET'' p v hs" "\<forall>d \<in> set ds. d \<noteq> []"
    and "a' = request_done regex ''GET'' p v hs a" and "\<not> sublist ''../'' (rq_path (ha_request a'))"
    and "GetFileStat (\<lambda>name. fs_lstat fs name (ha_files a)) (requested_file a') = Some st"
    and "IsRegularFile st" "FileSizeInBytes st = int (length file)"
    and "fs_open fs (c_str (requested_file a')) (ha_files a) = (fd, f1)" "good f1" "0 < fd" and "file \<noteq> []"
    and "\<forall>s \<in> set (response_header a' (length file)). length s \<le> vec_max" and "serves_file fs fd file good" "length file < 2 ^ 63"
    and "turns_documented (epoll_ops ctl) (http_callbacks regex fs (epoll_ops ctl) f) t
      (map (\<lambda>d. Readable (IoBytes d)) ds @ map Sendable rss) l"
  shows "case conn_turns (epoll_ops ctl) (http_callbacks regex fs (epoll_ops ctl) f) t
      (map (\<lambda>d. Readable (IoBytes d)) ds @ map Sendable rss) l of
     Inl e \<Rightarrow> e = LengthError
   | Inr l' \<Rightarrow>
       let c' = fst (el_app l'); bytes = tcp_bytes (c, l) @ concat (response_header a' (length file)) @ file in
       prefix (tc_sent c') bytes \<and> (tc_closeing c' \<longrightarrow> tc_sent c' = bytes) \<and>
       (length bytes \<le> length (tc_sent c) + sum_list (map taken rss) \<longrightarrow> tc_closeing c') \<and> el_functors l' = [] \<and>
       (tc_closeing c' \<longrightarrow> (\<exists>f'. good f' \<and> ha_files (snd (el_app l')) = fs_close fs fd f'))"
proof -
  let ?shut = "\<lambda>f. \<exists>f'. good f' \<and> f = fs_close fs fd f'"
  have shut: "\<forall>f. good f \<longrightarrow> ?shut (fs_close fs fd f)" by blast
  let ?base = "tcp_bytes (c, l) @ concat (response_header a' (length file))"
  have ds: "ds \<noteq> []" using assms(7) by (auto simp: render_request_def kCRLFCRLF_def)
  let ?cbs = "http_callbacks regex fs (epoll_ops ctl) f" and ?reads = "map (\<lambda>d. Readable (IoBytes d)) ds"
  note docs = assms(21) [unfolded turns_all_append]
  from epoll_kernel.request_reads [where good = good and fs = fs and regex = regex,
      OF assms(1,4-6) ds assms(8-16,18,20) refl assms(2,3)] assms(7) docs
  have read: "case conn_turns (epoll_ops ctl) ?cbs t ?reads l of
     Inl e \<Rightarrow> e = LengthError
   | Inr l' \<Rightarrow> between_turns (serving registered fd file good ?base) l' \<and> tc_sent (fst (el_app l')) = tc_sent c" by simp
  show ?thesis
  proof (cases "conn_turns (epoll_ops ctl) ?cbs t ?reads l")
    case (Inl e)
    with read show ?thesis by (simp add: conn_turns_append)
  next
    case (Inr l1)
    with read assms(17) have l1: "in_turn registered fd file good ?shut ?base l1" "tc_sent (fst (el_app l1)) = tc_sent c"
      by (auto simp: between_turns_def serving_stream)
    have "turns_documented (epoll_ops ctl) ?cbs t (map Sendable rss) l1" using docs Inr by simp
    from epoll_kernel.sendable_turns [OF assms(1,19,16,20) shut l1(1) this]
    have run: "case conn_turns (epoll_ops ctl) ?cbs t (map Sendable rss) l1 of
       Inl e \<Rightarrow> e = LengthError
     | Inr l' \<Rightarrow> in_turn registered fd file good ?shut ?base l' \<and>
         (tc_closeing (fst (el_app l')) \<or> length (tc_sent (fst (el_app l'))) = length (tc_sent c) + sum_list (map taken rss))"
      by (simp add: l1(2) cong: sum.case_cong)
    show ?thesis
    proof (cases "conn_turns (epoll_ops ctl) ?cbs t (map Sendable rss) l1")
      case (Inl e)
      with run Inr show ?thesis by (simp add: conn_turns_append)
    next
      case l': (Inr l')
      with run have inv: "stream_inv registered fd file good ?shut ?base (fst (el_app l'), with_app (snd (el_app l')) l')" "el_functors l' = []"
        "tc_closeing (fst (el_app l')) \<or> length (tc_sent (fst (el_app l'))) = length (tc_sent c) + sum_list (map taken rss)"
        by (simp_all add: between_turns_def)
      have "tc_closeing (fst (el_app l')) \<longrightarrow> ?shut (ha_files (snd (el_app l')))" using stream_shut [OF inv(1)] by (simp add: http_app_def)
      with stream_bounds [OF inv(1)] inv(2,3) Inr l' show ?thesis by (auto simp: Let_def conn_turns_append)
    qed
  qed
qed

section \<open>Examples\<close>

definition demo_wait_conn :: tcp_conn where
  "demo_wait_conn = demo_conn\<lparr>tc_readBuffer := demo_buffer\<lparr>writerIndex := 8\<rparr>\<rparr>"

definition demo_wait_app :: "nat http_app" where
  "demo_wait_app = \<lparr>ha_request = HttpRequest_new, ha_serverPath = ''/srv/'', ha_ctx = SendMassDataContext_new 0 0 0, ha_files = 0\<rparr>"

definition demo_wait_loop :: "((int, 32 word) smap, tcp_conn \<times> nat http_app) epoll_loop" where
  "demo_wait_loop = demo_app_loop (demo_wait_conn, demo_wait_app)"

definition demo_pieces :: "string list" where
  "demo_pieces = [take 7 (render_request ''GET'' ''/a'' ''H/1'' []), drop 7 (render_request ''GET'' ''/a'' ''H/1'' [])]"

lemma demo_waiting: "waiting smap_find [] demo_wait_loop"
proof -
  let ?b = "demo_buffer\<lparr>writerIndex := 8\<rparr>"
  have app: "with_app a (demo_app_loop b) = demo_app_loop a" for a :: "nat http_app" and b :: "tcp_conn \<times> nat http_app"
    by (simp add: with_app_def demo_app_loop_def)
  have c: "demo_wait_conn = demo_conn\<lparr>tc_readBuffer := ?b\<rparr>" by (simp add: demo_wait_conn_def)
  have "Buffer_inv ?b" "Buffer_content ?b = []"
    by (simp_all add: demo_buffer_def Buffer_inv_def Buffer_content_alt vec_slice_def kCheapPrepend_def vec_max_def)
  moreover have "el_app (demo_app_loop a) = a" "el_functors (demo_app_loop a) = []" "\<not> el_runningFunctors (demo_app_loop a)"
    for a :: "tcp_conn \<times> nat http_app" by (simp_all add: demo_app_loop_def)
  ultimately show ?thesis
    using demo_app_conn by (simp add: waiting_def demo_wait_loop_def app c)
qed

text \<open>The request of the examples, and its answer for a file of \<open>n\<close> bytes.\<close>

definition demo_done :: "nat http_app" where
  "demo_done = request_done (\<lambda>a b c. a) ''GET'' ''/a'' ''H/1'' [] demo_wait_app"

lemma demo_done_facts:
  "requested_file demo_done = ''/srv//a''" "ha_files demo_done = 0" "ha_files demo_wait_app = 0"
  "rq_version (ha_request demo_done) = ''H/1''" "\<not> sublist ''../'' (rq_path (ha_request demo_done))"
  "el_app demo_wait_loop = (demo_wait_conn, demo_wait_app)" "tcp_bytes (demo_wait_conn, l) = ''ab''"
proof -
  have "rq_path (ha_request demo_done) = ''/a''"
    by (simp add: demo_done_def demo_wait_app_def request_done_def StringRemoveRepeatChar_def)
  moreover have "\<not> sublist ''../'' ''/a''" by code_simp
  ultimately show "\<not> sublist ''../'' (rq_path (ha_request demo_done))" "requested_file demo_done = ''/srv//a''"
    by (simp_all add: demo_done_def demo_wait_app_def request_done_def requested_file_def)
qed (simp_all add: demo_done_def demo_wait_app_def request_done_def demo_wait_loop_def demo_app_loop_def demo_wait_conn_def
  tcp_bytes_def demo_conn_def demo_buffer_facts)

lemma demo_answer:
  assumes "n < 10"
  shows "response_header demo_done n = response_lines ''H/1'' (int n) []"
    "\<forall>s \<in> set (response_header demo_done n). length s \<le> vec_max"
proof -
  have "StringGetSuffix ''/srv//a'' = Inr []" by code_simp
  then show header: "response_header demo_done n = response_lines ''H/1'' (int n) []" by (simp add: response_header_def demo_done_facts)
  have "smap_find ContentTypes_new [] = None" by code_simp
  then show "\<forall>s \<in> set (response_header demo_done n). length s \<le> vec_max"
    using assms by (simp add: header response_lines_def http_crlf_def int_to_string_def to_string.simps [of n] ContentTypes_getType_def vec_max_def)
qed

lemma demo_pieces_facts:
  "concat demo_pieces = render_request ''GET'' ''/a'' ''H/1'' []" "\<forall>d \<in> set demo_pieces. d \<noteq> [] \<and> length d \<le> extrabuf_size"
  by (simp_all add: demo_pieces_def render_request_def render_requestLine_def kCRLFCRLF_def extrabuf_size_def)

theorem http_request_over_loop_witness:
  "case conn_turns (epoll_ops table_ctl) (http_callbacks (\<lambda>a b c. a) (demo_files ''xyz'') (epoll_ops table_ctl) 7) (Timestamp 5)
      (map (\<lambda>d. Readable (IoBytes d)) demo_pieces @ map Sendable [[WriteError EAGAIN]]) demo_wait_loop of
     Inl e \<Rightarrow> e = LengthError
   | Inr l' \<Rightarrow> prefix (tc_sent (fst (el_app l'))) (''ab'' @ concat (response_lines ''H/1'' 3 []) @ ''xyz'') \<and> el_functors l' = []"
proof -
  have docs: "turns_documented (epoll_ops table_ctl) (http_callbacks (\<lambda>a b c. a) (demo_files ''xyz'') (epoll_ops table_ctl) 7) (Timestamp 5)
      (map (\<lambda>d. Readable (IoBytes d)) demo_pieces @ map Sendable [[WriteError EAGAIN]]) demo_wait_loop"
    by (rule turns_always) (use demo_pieces_facts(2) in \<open>auto simp: readv_fits_def write_documented_def\<close>)
  have n: "length ''xyz'' = 3" by simp
  note served = http_request_over_loop [OF table.epoll_kernel_axioms demo_waiting demo_done_facts(6) _ _ _ demo_pieces_facts(1) _
      demo_done_def demo_done_facts(5),
      where fs = "demo_files ''xyz''" and ?file = "''xyz''" and fd = 9 and ?f1.0 = 0 and good = "\<lambda>f. True"
        and st = "\<lparr>st_mode = 0x81a4, st_size = 3, st_mtime = 0\<rparr>", unfolded n, OF _ _ _ _ _ _ _ _ _ _ _ demo_answer(2) demo_files_serve _ docs]
  from served demo_pieces_facts(2) show ?thesis
    by (simp add: token_def demo_files_def GetFileStat_def IsRegularFile_def FileSizeInBytes_def stat_defs demo_answer demo_done_facts Let_def
        split: sum.splits)
qed


section \<open>A request that ends the worker\<close>

text \<open>What a worker thread runs: its loop, on the kernel's results \<open>lps\<close> of the coming turns.\<close>

definition worker_func :: "(hid \<Rightarrow> ('p, 'u) evloop handlers) \<Rightarrow> (nat \<Rightarrow> ('p, 'u) evloop \<Rightarrow> ('p, 'u) evloop res) \<Rightarrow> 'p poller_ops \<Rightarrow>
    ('p \<Rightarrow> (events list \<times> timestamp \<times> 'p) res) list \<Rightarrow> ('p, 'u) evloop \<Rightarrow> ('p, 'u) evloop res" where
  "worker_func hnd exec ops lps l = bind_res (EventLoop_loop True hnd exec ops lps l) (\<lambda>(ret, l'). Inr l')"

lemma bad_header_step:
  assumes w: "waiting registered pre l" and l: "el_app l = (c, a)"
    and doc: "event_documented (Readable (IoBytes data)) c"
    and bad: "pre @ data = render_requestLine m p v @ kCRLF @ k @ '':'' @ kCRLFCRLF @ rest"
      "token m" "token p" "token v" "trimmed k" "CHR '':'' \<notin> set k"
  shows "conn_step ops (http_callbacks regex fs ops f) t (Readable (IoBytes data)) (c, with_app a l') \<in> {Inl OutOfRange, Inl LengthError}"
proof -
  have ok: "Buffer_inv (tc_readBuffer c)" "Buffer_content (tc_readBuffer c) = pre" using w by (simp_all add: waiting_def l)
  obtain g where g: "cb_message (http_callbacks regex fs ops f) = Some g" by (simp add: HttpServer_OnNewConnection_def Let_def)
  have "g t (c\<lparr>tc_readBuffer := b\<rparr>, with_app a l') = Inl OutOfRange"
    if b: "Buffer_inv b" "Buffer_content b = pre @ data" for b
  proof -
    have "HttpRequest_analyseHttpRequestHeader regex (ha_request a) b = Some (Inl OutOfRange)"
      by (rule empty_value_throws [OF b(1) _ bad(2-6)]) (simp add: b(2) bad(1))
    with g show ?thesis
      by (auto simp: HttpServer_OnNewConnection_def Let_def HttpReqHandle_OnMessageCallback_def http_app_def)
  qed
  with readable_step [OF ok(1) doc g, of ops t "with_app a l'"] ok(2) show ?thesis by auto
qed

text \<open>
  C14: One header line ends a whole worker. When a client sends a request whose header field
  has an empty value, the exception of \<open>StringTrim\<close> leaves the parser, the callbacks of the
  connection and of its handle, and the loop; \<open>Thread::ThreadFunc\<close> catches it and the thread
  returns. It does so whatever the kernel would have reported in the turns to come: the
  other connections of this loop are not served any more, and no error tells the server.
\<close>
theorem http_bad_header_ends_worker:
  fixes l :: "('k, tcp_conn \<times> 'f http_app) epoll_loop"
  assumes "epoll_kernel ctl registered" and "waiting registered pre l" and "el_app l = (c, a)" and "\<not> el_quit l"
    and "event_documented (Readable (IoBytes data)) c"
    and "pre @ data = render_requestLine m p v @ kCRLF @ k @ '':'' @ kCRLFCRLF @ rest"
    and "token m" "token p" "token v" and "trimmed k" and "CHR '':'' \<notin> set k"
    and "lp (el_poll l) = Inr ([Events_new (tc_fd c) POLLIN], t, el_poll l)"
    and "hnd (tc_handle c) = TcpConnection_handlers (epoll_ops ctl) True (http_callbacks regex fs (epoll_ops ctl) f) (IoBytes data) []"
  shows "Thread_ThreadFunc (Thread_new (Some (worker_func hnd run_clear (epoll_ops ctl) (lp # lps))) name) l = Inr None"
proof -
  let ?ev = "Events_new (tc_fd c) POLLIN" and ?h = "tc_handle c"
  have ok: "conn_ok registered (c, with_app a l)" using assms(2,3) by (simp add: waiting_def)
  have inv: "epoll_loop_inv registered (with_app a l)" "el_updates l = []" and h: "smap_find (el_handles l) (tc_fd c) = Some ?h"
    using conn_okD [OF ok] by simp_all
  have "loop_inv (\<lambda>p. ep_fd (fst p) \<noteq> -1) (\<lambda>m. True) (\<lambda>p. registered (snd p)) [] (with_app a l)"
    using inv by (simp add: epoll_loop_inv_def)
  from loop_inv_same_handle [OF this] h obtain x where x: "el_store l ?h = Some x" "h_state x = STATE_LOOP" by auto
  have find: "smap_find (el_handles l) (Events_getFd ?ev) = Some ?h" using h by (simp add: Events_getFd_def Events_new_def)
  note run = conn_handler_step [OF assms(3), where ev = "Readable (IoBytes data)", unfolded conn_got.simps conn_results.simps conn_mask.simps]
  from bad_header_step [OF assms(2,3,5-11), of "epoll_ops ctl" regex fs f t "pin ?h l"] obtain e where
    e: "is_exception e"
      "conn_step (epoll_ops ctl) (http_callbacks regex fs (epoll_ops ctl) f) t (Readable (IoBytes data)) (c, with_app a (pin ?h l)) = Inl e"
    by (auto simp: is_exception_def simp del: conn_step.simps)
  have "Handle_handleEvent (hnd ?h) ?ev t (pin ?h (l\<lparr>el_poll := el_poll l\<rparr>)) = Inl e"
    using run [of "epoll_ops ctl" "http_callbacks regex fs (epoll_ops ctl) f" t ?h] by (simp add: assms(13) e(2) del: conn_step.simps)
  from turn_handler(2) [where hnd = hnd and lp = lp and exec = run_clear, OF inv(2) assms(12) find x this] assms(4)
  have "worker_func hnd run_clear (epoll_ops ctl) (lp # lps) l = Inl e" by (simp add: worker_func_def EventLoop_loop_def)
  with e(1) show ?thesis by (simp add: Thread_ThreadFunc_def Thread_new_def)
qed

theorem http_bad_header_ends_worker_witness:
  "Thread_ThreadFunc (Thread_new (Some (worker_func
      (\<lambda>h. TcpConnection_handlers (epoll_ops table_ctl) True (http_callbacks (\<lambda>a b c. a) (demo_files []) (epoll_ops table_ctl) 7) (IoBytes demo_bad) [])
      run_clear (epoll_ops table_ctl) [\<lambda>p. Inr ([Events_new 5 POLLIN], Timestamp 5, p)])) ''worker'') demo_wait_loop = Inr None"
proof -
  have app: "el_app demo_wait_loop = (demo_wait_conn, demo_wait_app)" "\<not> el_quit demo_wait_loop"
    by (simp_all add: demo_wait_loop_def demo_app_loop_def)
  have doc: "event_documented (Readable (IoBytes demo_bad)) demo_wait_conn"
    by (simp add: readv_fits_def demo_bad_def render_requestLine_def kCRLF_def kCRLFCRLF_def extrabuf_size_def)
  have bad: "[] @ demo_bad = render_requestLine ''GET'' ''/'' ''H'' @ kCRLF @ ''Host'' @ '':'' @ kCRLFCRLF @ []"
    "token ''GET''" "token ''/''" "token ''H''" "trimmed ''Host''" "CHR '':'' \<notin> set ''Host''"
    by (simp_all add: demo_bad_def token_def trimmed_def)
  have "tc_fd demo_wait_conn = 5" by (simp add: demo_wait_conn_def demo_conn_def)
  then show ?thesis
    using http_bad_header_ends_worker [OF table.epoll_kernel_axioms demo_waiting app doc bad,
      where lp = "\<lambda>p. Inr ([Events_new 5 POLLIN], Timestamp 5, p)"
        and hnd = "\<lambda>h. TcpConnection_handlers (epoll_ops table_ctl) True (http_callbacks (\<lambda>a b c. a) (demo_files []) (epoll_ops table_ctl) 7) (IoBytes demo_bad) []"
        and regex = "\<lambda>a b c. a" and fs = "demo_files []" and f = 7 and t = "Timestamp 5" and lps = "[]" and name = "''worker''"]
    by simp
qed

end
