(* ===== verification/Http_Edge.thy ===== *)
theory Http_Edge
  imports Http_Loop
begin

text \<open>
  What the HTTP handler (\<open>src/http/HttpReqHandle.cpp\<close>) does outside the case of one GET of
  a file with content per connection, over the turns of the connection's loop. Lemmas: the
  answer to a GET of an empty file leaves the connection open for ever; a second GET while a
  file is being sent cuts the first answer short and leaks its descriptor.
\<close>

section \<open>A file without content\<close>

text \<open>
  With nothing to read, \<open>sendMassData\<close> only clears its context and the flag of the
  connection: from then on the connection is one that only sends.
\<close>

lemma written_empty:
  assumes "serving registered fd [] good bytes (c, l)" and "serves_file fs fd [] good" and "0 < fd"
    and "0 < n" "n \<le> length (Buffer_content (tc_writeBuffer c))"
  shows "\<exists>a. TcpConnection_written ops True (http_callbacks regex fs ops f) n (c, l) =
    TcpConnection_written ops True (http_callbacks regex fs ops f) n (c\<lparr>tc_hasMoreData := False\<rparr>, l\<lparr>el_app := a\<rparr>)"
proof -
  let ?pending = "Buffer_content (tc_writeBuffer c)" and ?a = "el_app l"
  have s: "conn_ok registered (c, l)" "tc_hasMoreData c" "ha_ctx ?a = mass_at fd [] 0" "good (ha_files ?a)"
    using assms(1) by (simp_all add: serving_def http_app_def)
  from assms(2) s(4) obtain f1 f2 where f: "fs_lseek fs fd 0 (ha_files ?a) = (True, f1)"
    "fs_read fs fd SendMassDataContext_readEveryTime f1 = (IoBytes [], f2)"
    by (fastforce simp: serves_file_def)
  from Buffer_retrieve_ok [OF conn_okD(4) [OF s(1)] assms(5)] obtain b where
    b: "Buffer_retrieve (tc_writeBuffer c) n = Inr b" "Buffer_inv b" "Buffer_content b = drop n ?pending" by blast
  let ?c1 = "c\<lparr>tc_writeBuffer := b, tc_sent := tc_sent c @ take n ?pending\<rparr>"
  let ?a2 = "?a\<lparr>ha_files := fs_close fs fd f2, ha_ctx := SendMassDataContext_ContextClear (ha_ctx ?a)\<rparr>"
  have send: "HttpReqHandle_sendMassData fs ops True \<lparr>cb_message = None, cb_close = Some (queue_clear f), cb_moreData = None\<rparr> (?c1, l) =
      Inr (?c1\<lparr>tc_hasMoreData := False\<rparr>, l\<lparr>el_app := ?a2\<rparr>)"
    using f s(3) assms(3)
    by (simp add: HttpReqHandle_sendMassData_def http_defs mass_at_def TcpConnection_unsetHasMoreData_def Let_def)
  have left: "Buffer_readableBytes b = sz_sub (Buffer_readableBytes (tc_writeBuffer c)) n"
    using conn_okD(4) [OF s(1)] b(2,3) assms(5) by (simp add: buffer_simps size_simps Buffer_length_content)
  have swap: "c\<lparr>tc_hasMoreData := False, tc_writeBuffer := b, tc_sent := tc_sent c @ take n ?pending\<rparr> =
      ?c1\<lparr>tc_hasMoreData := False\<rparr>" by simp
  have "TcpConnection_written ops True (http_callbacks regex fs ops f) n (c, l) =
      TcpConnection_written ops True (http_callbacks regex fs ops f) n (c\<lparr>tc_hasMoreData := False\<rparr>, l\<lparr>el_app := ?a2\<rparr>)"
    using b(1) s(2) send by (simp add: TcpConnection_written_def Let_def left swap)
  then show ?thesis by blast
qed

text \<open>The answer was begun, or everything that is left is in the write buffer.\<close>

definition answered :: "('k \<Rightarrow> int \<Rightarrow> 32 word option) \<Rightarrow> int \<Rightarrow> ('f \<Rightarrow> bool) \<Rightarrow> string \<Rightarrow> (epoll \<times> 'k, 'f) http_world \<Rightarrow> bool" where
  "answered registered fd good bytes w \<longleftrightarrow> serving registered fd [] good bytes w \<or> sending registered bytes w"

lemma answered_stable: "loop_stable registered (answered registered fd good bytes)"
  using serving_stable [of registered fd "[]" good bytes] sending_stable [of registered bytes]
  unfolding loop_stable_def answered_def by blast

lemma answered_facts:
  assumes "answered registered fd good bytes w"
  shows "conn_ok registered w" "tcp_bytes w = bytes" "\<not> tc_closeing (fst w)" "\<not> tc_shouldBeClosed (fst w)"
    "Buffer_content (tc_writeBuffer (fst w)) = [] \<longrightarrow>
       (\<exists>m. registered (snd (el_poll (snd w))) (tc_fd (fst w)) = Some m \<and> m AND kWriteEvent = 0)"
  using assms by (auto simp: answered_def serving_def sending_def)

context epoll_kernel begin

lemma answered_step:
  assumes w: "answered registered fd good bytes w" and fs: "serves_file fs fd [] good" "0 < fd"
    and pending: "Buffer_content (tc_writeBuffer (fst w)) \<noteq> []" and doc: "write_documented (fst w) rs"
  shows "\<exists>w'. conn_step (epoll_ops ctl) (http_callbacks regex fs (epoll_ops ctl) f) t (Sendable rs) w = Inr w' \<and>
    answered registered fd good bytes w' \<and> length (tc_sent (fst w')) = length (tc_sent (fst w)) + taken rs"
proof (cases "sending registered bytes w")
  case True
  from sending_step [OF this pending doc, of "http_callbacks regex fs (epoll_ops ctl) f" t] show ?thesis
    unfolding answered_def by blast
next
  case False
  obtain c l where wc: "w = (c, l)" by (cases w)
  have s: "serving registered fd [] good bytes (c, l)" using w False by (simp add: answered_def wc)
  have ok: "conn_ok registered (c, l)" "\<not> tc_closeing c" "\<not> tc_shouldBeClosed c" "tcp_bytes (c, l) = bytes"
    using s by (simp_all add: serving_def)
  show ?thesis
  proof (cases "\<exists>n. reWrite rs = Some (WriteBytes n)")
    case True
    then obtain n where n: "reWrite rs = Some (WriteBytes n)" by blast
    with pending doc have le: "0 < n" "n \<le> length (Buffer_content (tc_writeBuffer c))" by (auto simp: wc write_documented_def)
    from written_empty [OF s fs le] obtain a where
      eq: "TcpConnection_written (epoll_ops ctl) True (http_callbacks regex fs (epoll_ops ctl) f) n (c, l) =
        TcpConnection_written (epoll_ops ctl) True (http_callbacks regex fs (epoll_ops ctl) f) n (c\<lparr>tc_hasMoreData := False\<rparr>, l\<lparr>el_app := a\<rparr>)"
      by blast
    have "conn_ok registered (c\<lparr>tc_hasMoreData := False\<rparr>, l\<lparr>el_app := a\<rparr>)"
      using ok(1) unfolding conn_ok_app by (simp add: conn_ok_def Let_def cong: option.case_cong)
    from written_sending [OF this, of n bytes "http_callbacks regex fs (epoll_ops ctl) f"] ok le n show ?thesis
      by (fastforce simp: wc eq answered_def TcpConnection_handleWrite_def taken_def tcp_bytes_def)
  next
    case False
    then have "conn_step (epoll_ops ctl) (http_callbacks regex fs (epoll_ops ctl) f) t (Sendable rs) w = Inr w" "taken rs = 0"
      by (auto simp: wc TcpConnection_handleWrite_def taken_def split: option.split write_result.split)
    with w show ?thesis by simp
  qed
qed

lemma answered_turns:
  assumes fs: "serves_file fs fd [] good" "0 < fd"
  shows "between_turns (answered registered fd good bytes) l \<Longrightarrow>
    turns_documented (epoll_ops ctl) (http_callbacks regex fs (epoll_ops ctl) f) t (map Sendable rss) l \<Longrightarrow>
    turns_watched registered (epoll_ops ctl) (http_callbacks regex fs (epoll_ops ctl) f) t (map Sendable rss) l \<Longrightarrow>
    \<exists>l'. conn_turns (epoll_ops ctl) (http_callbacks regex fs (epoll_ops ctl) f) t (map Sendable rss) l = Inr l' \<and>
      between_turns (answered registered fd good bytes) l' \<and>
      length (tc_sent (fst (el_app l'))) = length (tc_sent (fst (el_app l))) + sum_list (map taken rss)"
proof (rule write_turns [OF answered_stable])
  fix w rs assume w: "answered registered fd good bytes w" "Buffer_content (tc_writeBuffer (fst w)) \<noteq> []" "write_documented (fst w) rs"
  from answered_step [OF w(1) fs w(2,3), of regex f t] conn_step_frame [OF http_callbacks_framed, of _ _ _ _ _ t "Sendable rs" "fst w" "snd w"]
  show "\<exists>w'. conn_step (epoll_ops ctl) (http_callbacks regex fs (epoll_ops ctl) f) t (Sendable rs) w = Inr w' \<and> conn_frame w w' \<and>
      answered registered fd good bytes w' \<and> length (tc_sent (fst w')) = length (tc_sent (fst w)) + taken rs"
    by (metis prod.collapse)
qed (auto dest: answered_facts)

end

text \<open>
  C16: The answer to a GET of an empty file never ends. The header announces
  \<open>Connection : close\<close>, but as there is no last part of the file whose reading would shut the
  connection down, nothing does: however the request and the writes are cut, as long as the
  kernel reports writability only while it is asked for, no turn closes the connection or
  marks it to be closed; what the socket took is a prefix of the header, and once all of it
  was taken the loop does not even watch for writability any more.
\<close>
theorem http_empty_file_stays_open:
  fixes l :: "('k, tcp_conn \<times> 'f http_app) epoll_loop"
  assumes "epoll_kernel ctl registered" and "waiting registered [] l" and "el_app l = (c, a)"
    and "token p" "token v" "\<forall>kv \<in> set hs. header_field kv" and "concat ds = render_request ''GET'' p v hs" "\<forall>d \<in> set ds. d \<noteq> []"
    and "a' = request_done regex ''GET'' p v hs a" and "\<not> sublist ''../'' (rq_path (ha_request a'))"
    and "GetFileStat (\<lambda>name. fs_lstat fs name (ha_files a)) (requested_file a') = Some st"
    and "IsRegularFile st" "FileSizeInBytes st = 0"
    and "fs_open fs (c_str (requested_file a')) (ha_files a) = (fd, f1)" "good f1" "0 < fd"
    and "\<forall>s \<in> set (response_header a' 0). length s \<le> vec_max" and "serves_file fs fd [] good"
    and "turns_documented (epoll_ops ctl) (http_callbacks regex fs (epoll_ops ctl) f) t
      (map (\<lambda>d. Readable (IoBytes d)) ds @ map Sendable rss) l"
    and "turns_watched registered (epoll_ops ctl) (http_callbacks regex fs (epoll_ops ctl) f) t
      (map (\<lambda>d. Readable (IoBytes d)) ds @ map Sendable rss) l"
  shows "case conn_turns (epoll_ops ctl) (http_callbacks regex fs (epoll_ops ctl) f) t
      (map (\<lambda>d. Readable (IoBytes d)) ds @ map Sendable rss) l of
     Inl e \<Rightarrow> e = LengthError
   | Inr l' \<Rightarrow>
       let c' = fst (el_app l'); bytes = tcp_bytes (c, l) @ concat (response_header a' 0) in
       \<not> tc_closeing c' \<and> \<not> tc_shouldBeClosed c' \<and> prefix (tc_sent c') bytes \<and>
       (length bytes \<le> length (tc_sent c) + sum_list (map taken rss) \<longrightarrow> tc_sent c' = bytes \<and>
         (\<exists>m. registered (snd (el_poll l')) (tc_fd c') = Some m \<and> m AND kWriteEvent = 0))"
proof -
  let ?bytes = "tcp_bytes (c, l) @ concat (response_header a' 0)"
  let ?cbs = "http_callbacks regex fs (epoll_ops ctl) f" and ?reads = "map (\<lambda>d. Readable (IoBytes d)) ds"
  have ds: "ds \<noteq> []" using assms(7) by (auto simp: render_request_def kCRLFCRLF_def)
  note docs = assms(19,20) [unfolded turns_all_append]
  from epoll_kernel.request_reads [where good = good and fs = fs and regex = regex and ?file = "[]", unfolded list.size int_ops,
      OF assms(1,4-6) ds assms(8-17) _ refl assms(2,3)] assms(7) docs(1)
  have read: "case conn_turns (epoll_ops ctl) ?cbs t ?reads l of
     Inl e \<Rightarrow> e = LengthError
   | Inr l' \<Rightarrow> between_turns (serving registered fd [] good ?bytes) l' \<and> tc_sent (fst (el_app l')) = tc_sent c" by simp
  show ?thesis
  proof (cases "conn_turns (epoll_ops ctl) ?cbs t ?reads l")
    case (Inl e)
    with read show ?thesis by (simp add: conn_turns_append)
  next
    case (Inr l1)
    with read have l1: "between_turns (answered registered fd good ?bytes) l1" "tc_sent (fst (el_app l1)) = tc_sent c"
      by (auto simp: between_turns_def answered_def)
    have "turns_documented (epoll_ops ctl) ?cbs t (map Sendable rss) l1" "turns_watched registered (epoll_ops ctl) ?cbs t (map Sendable rss) l1"
      using docs Inr by simp_all
    from epoll_kernel.answered_turns [OF assms(1,18,16) l1(1) this] l1(2) obtain l' where
      l': "conn_turns (epoll_ops ctl) ?cbs t (map Sendable rss) l1 = Inr l'" "between_turns (answered registered fd good ?bytes) l'"
        "length (tc_sent (fst (el_app l'))) = length (tc_sent c) + sum_list (map taken rss)"
      by auto
    let ?w = "(fst (el_app l'), with_app (snd (el_app l')) l')"
    note w = answered_facts [of registered fd good ?bytes ?w, simplified]
    from l'(2) have aw: "answered registered fd good ?bytes ?w" by (simp add: between_turns_def)
    have eq: "tc_sent (fst (el_app l')) @ Buffer_content (tc_writeBuffer (fst (el_app l'))) = ?bytes"
      using w(2) [OF aw] by (simp add: tcp_bytes_def)
    have "length (tc_sent (fst (el_app l'))) + length (Buffer_content (tc_writeBuffer (fst (el_app l')))) = length ?bytes"
      by (simp flip: eq)
    then have all: "Buffer_content (tc_writeBuffer (fst (el_app l'))) = []" if "length ?bytes \<le> length (tc_sent c) + sum_list (map taken rss)"
      using that l'(3) by (simp flip: length_0_conv)
    have "prefix (tc_sent (fst (el_app l'))) ?bytes" using eq by (metis prefixI)
    with w(3-5) [OF aw] eq all Inr l'(1) show ?thesis by (auto simp: Let_def conn_turns_append)
  qed
qed

section \<open>A request behind another\<close>

text \<open>
  C15: A second GET that arrives while a file is being sent spoils the first answer. The one
  context of the handler is reset to the new file, so the rest of the first file is never
  sent: the header and the content of the second file follow directly behind the part \<open>take r file1\<close>
  that was handed over, although the first header promised \<open>length file1\<close> bytes. And the descriptor of
  the first file leaks: whatever holds of the files with it open, and is not changed by
  closing the second, holds to the end, also when the connection has closed.
\<close>
theorem http_second_get_overwrites:
  fixes l :: "('k, tcp_conn \<times> 'f http_app) epoll_loop"
  assumes "epoll_kernel ctl registered" and "in_turn registered fd1 file1 good1 shut1 base l" and "tc_hasMoreData c"
    and "waiting registered pre l" and "el_app l = (c, a)"
    and "pre @ data = render_request ''GET'' p v hs @ rest" and "token p" "token v" "\<forall>kv \<in> set hs. header_field kv"
    and "a' = request_done regex ''GET'' p v hs a" and "\<not> sublist ''../'' (rq_path (ha_request a'))"
    and "GetFileStat (\<lambda>name. fs_lstat fs name (ha_files a)) (requested_file a') = Some st"
    and "IsRegularFile st" "FileSizeInBytes st = int (length file)"
    and "fs_open fs (c_str (requested_file a')) (ha_files a) = (fd, f1)" "good f1" "0 < fd" and "file \<noteq> []"
    and "\<forall>s \<in> set (response_header a' (length file)). length s \<le> vec_max" and "serves_file fs fd file good" "length file < 2 ^ 63"
    and "\<forall>f. good f \<longrightarrow> first_open f \<and> first_open (fs_close fs fd f)"
    and "turns_documented (epoll_ops ctl) (http_callbacks regex fs (epoll_ops ctl) f) t (Readable (IoBytes data) # map Sendable rss) l"
  shows "(\<exists>r < length file1. tcp_bytes (c, l) = base @ take r file1) \<and>
    (case conn_turns (epoll_ops ctl) (http_callbacks regex fs (epoll_ops ctl) f) t (Readable (IoBytes data) # map Sendable rss) l of
       Inl e \<Rightarrow> e = LengthError
     | Inr l' \<Rightarrow>
         let c' = fst (el_app l'); bytes = tcp_bytes (c, l) @ concat (response_header a' (length file)) @ file in
         prefix (tc_sent c') bytes \<and> (tc_closeing c' \<longrightarrow> tc_sent c' = bytes) \<and>
         (length bytes \<le> length (tc_sent c) + sum_list (map taken rss) \<longrightarrow> tc_closeing c') \<and>
         first_open (ha_files (snd (el_app l'))))"
proof -
  let ?cbs = "http_callbacks regex fs (epoll_ops ctl) f" and ?base = "tcp_bytes (c, l) @ concat (response_header a' (length file))"
  have nc: "\<not> tc_closeing c" using assms(4,5) by (simp add: waiting_def)
  from assms(2,3) nc obtain r where r: "r < length file1" "tcp_bytes (c, l) = base @ take r file1"
    by (auto simp: between_turns_def stream_inv_def assms(5) tcp_bytes_def)
  have doc: "event_documented (Readable (IoBytes data)) c" using assms(23) nc by (simp add: assms(5))
  note turn = epoll_kernel.request_turn [where good = good and fs = fs and regex = regex,
      OF assms(1,4,5) doc assms(6-17,19,21), of f t]
  have run: "case conn_turns (epoll_ops ctl) ?cbs t (Readable (IoBytes data) # map Sendable rss) l of
     Inl e \<Rightarrow> e = LengthError
   | Inr l' \<Rightarrow> in_turn registered fd file good first_open ?base l' \<and>
       (tc_closeing (fst (el_app l')) \<or> length (tc_sent (fst (el_app l'))) = length (tc_sent c) + sum_list (map taken rss))"
  proof (cases "conn_turn (epoll_ops ctl) ?cbs t (Readable (IoBytes data)) l")
    case (Inl e)
    with turn nc show ?thesis by (simp add: assms(5))
  next
    case (Inr l1)
    with turn assms(18) have l1: "in_turn registered fd file good first_open ?base l1" "tc_sent (fst (el_app l1)) = tc_sent c"
      by (auto simp: between_turns_def serving_stream)
    have "turns_documented (epoll_ops ctl) ?cbs t (map Sendable rss) l1" using assms(23) nc Inr by (simp add: assms(5))
    from epoll_kernel.sendable_turns [where shut = first_open, OF assms(1,20,17,21) _ l1(1) this] assms(22) l1(2) Inr nc
    show ?thesis by (simp add: assms(5) cong: sum.case_cong)
  qed
  have first: "first_open (ha_files (http_app w))" if "stream_inv registered fd file good first_open ?base w" for w
    using that assms(22) by (auto simp: stream_inv_def split: if_splits)
  show ?thesis
  proof (cases "conn_turns (epoll_ops ctl) ?cbs t (Readable (IoBytes data) # map Sendable rss) l")
    case (Inl e)
    with run r show ?thesis by auto
  next
    case (Inr l')
    with run have s: "stream_inv registered fd file good first_open ?base (fst (el_app l'), with_app (snd (el_app l')) l')"
      "tc_closeing (fst (el_app l')) \<or> length (tc_sent (fst (el_app l'))) = length (tc_sent c) + sum_list (map taken rss)"
      by (simp_all add: between_turns_def)
    from stream_bounds [OF s(1)] first [OF s(1)] s(2) r show ?thesis
      unfolding Inr by (auto simp: Let_def http_app_def)
  qed
qed

section \<open>Examples\<close>

definition demo_request_text :: string where
  "demo_request_text = render_request ''GET'' ''/a'' ''H/1'' []"

lemma demo_request_text_facts:
  "length demo_request_text \<le> extrabuf_size" "demo_request_text \<noteq> []" "token ''/a''" "token ''H/1''"
  by (simp_all add: demo_request_text_def render_request_def render_requestLine_def kCRLFCRLF_def extrabuf_size_def token_def)

lemma demo_empty_stat:
  "GetFileStat (\<lambda>name. fs_lstat (demo_files []) name f) name = Some \<lparr>st_mode = 0x81a4, st_size = 0, st_mtime = 0\<rparr>"
  "IsRegularFile \<lparr>st_mode = 0x81a4, st_size = n, st_mtime = 0\<rparr>" "FileSizeInBytes \<lparr>st_mode = 0x81a4, st_size = n, st_mtime = 0\<rparr> = n"
  "fs_open (demo_files []) name f = (9, 0)"
  by (simp_all add: demo_files_def GetFileStat_def IsRegularFile_def FileSizeInBytes_def stat_defs)

abbreviation demo_edge_callbacks :: "'f files \<Rightarrow> (epoll \<times> (int, 32 word) smap, 'f) http_world tcp_callbacks" where
  "demo_edge_callbacks fs \<equiv> http_callbacks (\<lambda>a b c. a) fs (epoll_ops table_ctl) 7"

lemma demo_empty_watched:
  "turns_watched smap_find (epoll_ops table_ctl) (demo_edge_callbacks (demo_files [])) (Timestamp 5)
     [Readable (IoBytes demo_request_text), Sendable [WriteError EAGAIN]] demo_wait_loop"
proof -
  have doc: "event_documented (Readable (IoBytes demo_request_text)) demo_wait_conn"
    using demo_request_text_facts(1,2) by (simp add: readv_fits_def)
  have req: "[] @ demo_request_text = render_request ''GET'' ''/a'' ''H/1'' [] @ []" by (simp add: demo_request_text_def)
  have hs: "\<forall>kv \<in> set []. header_field kv" by simp
  note turn = table.request_turn [where fs = "demo_files []" and good = "\<lambda>f. True" and ?file = "[]" and regex = "\<lambda>a b c. a" and f = 7
      and t = "Timestamp 5" and a' = demo_done, OF demo_waiting demo_done_facts(6) doc req demo_request_text_facts(3,4) hs demo_done_def
      demo_done_facts(5) demo_empty_stat(1,2) _ demo_empty_stat(4) TrueI _ demo_answer(2)]
  have watched: "\<exists>m. smap_find (snd (el_poll l1)) (tc_fd (fst (el_app l1))) = Some m \<and> m AND kWriteEvent \<noteq> 0"
    if "between_turns (serving smap_find 9 [] (\<lambda>f. True) bytes) l1" for l1 :: "((int, 32 word) smap, tcp_conn \<times> nat http_app) epoll_loop" and bytes
    using that pending_watched [of smap_find "fst (el_app l1)" "with_app (snd (el_app l1)) l1"]
    by (simp add: between_turns_def serving_def)
  with turn show ?thesis by (auto simp: demo_empty_stat split: sum.splits)
qed

theorem http_empty_file_stays_open_witness:
  "case conn_turns (epoll_ops table_ctl) (demo_edge_callbacks (demo_files [])) (Timestamp 5)
      [Readable (IoBytes demo_request_text), Sendable [WriteError EAGAIN]] demo_wait_loop of
     Inl e \<Rightarrow> e = LengthError
   | Inr l' \<Rightarrow> \<not> tc_closeing (fst (el_app l')) \<and> prefix (tc_sent (fst (el_app l'))) (''ab'' @ concat (response_lines ''H/1'' 0 []))"
proof -
  have docs: "turns_documented (epoll_ops table_ctl) (demo_edge_callbacks (demo_files [])) (Timestamp 5)
      (map (\<lambda>d. Readable (IoBytes d)) [demo_request_text] @ map Sendable [[WriteError EAGAIN]]) demo_wait_loop"
    by (rule turns_always) (use demo_request_text_facts in \<open>auto simp: readv_fits_def write_documented_def\<close>)
  have watched: "turns_watched smap_find (epoll_ops table_ctl) (demo_edge_callbacks (demo_files [])) (Timestamp 5)
      (map (\<lambda>d. Readable (IoBytes d)) [demo_request_text] @ map Sendable [[WriteError EAGAIN]]) demo_wait_loop"
    using demo_empty_watched by simp
  have hs: "\<forall>kv \<in> set []. header_field kv" by simp
  have pieces: "concat [demo_request_text] = render_request ''GET'' ''/a'' ''H/1'' []" "\<forall>d \<in> set [demo_request_text]. d \<noteq> []"
    using demo_request_text_facts(2) by (simp_all add: demo_request_text_def)
  show ?thesis
    using http_empty_file_stays_open [where fs = "demo_files []" and good = "\<lambda>f. True" and ?f1.0 = 0,
        OF table.epoll_kernel_axioms demo_waiting demo_done_facts(6) demo_request_text_facts(3,4) hs pieces demo_done_def demo_done_facts(5)
          demo_empty_stat(1,2) _ demo_empty_stat(4) TrueI _ demo_answer(2) demo_files_serve docs watched]
    by (simp add: demo_empty_stat demo_answer demo_done_facts Let_def del: conn_turns.simps split: sum.splits)
qed

text \<open>
  Two files: \<open>''abcd''\<close> is open under 8 and half of it was handed over when a request for
  \<open>''xyz''\<close>, which is opened under 9, arrives. The state of the files is the position in the
  second and the open descriptors.
\<close>

definition demo_two_files :: "(nat \<times> int list) files" where
  "demo_two_files = \<lparr>fs_lstat = (\<lambda>name f. Some \<lparr>st_mode = 0x81a4, st_size = 3, st_mtime = 0\<rparr>),
     fs_open = (\<lambda>name f. (9, (0, 9 # snd f))), fs_lseek = (\<lambda>fd pos f. (True, (pos, snd f))),
     fs_read = (\<lambda>fd n f. (IoBytes (take n (drop (fst f) ''xyz'')), (fst f + n, snd f))),
     fs_close = (\<lambda>fd f. (fst f, remove1 fd (snd f)))\<rparr>"

definition first_still_open :: "nat \<times> int list \<Rightarrow> bool" where
  "first_still_open f \<longleftrightarrow> 8 \<in> set (snd f)"

lemma demo_two_files_facts:
  "serves_file demo_two_files 9 ''xyz'' first_still_open"
  "\<forall>f. first_still_open f \<longrightarrow> first_still_open f \<and> first_still_open (fs_close demo_two_files 9 f)"
  "GetFileStat (\<lambda>name. fs_lstat demo_two_files name f) name = Some \<lparr>st_mode = 0x81a4, st_size = 3, st_mtime = 0\<rparr>"
  "fs_open demo_two_files name f = (9, (0, 9 # snd f))"
proof -
  show "serves_file demo_two_files 9 ''xyz'' first_still_open"
    by (auto simp: demo_two_files_def serves_file_def first_still_open_def take_is_prefix SendMassDataContext_readEveryTime_def)
qed (simp_all add: demo_two_files_def first_still_open_def GetFileStat_def)

definition demo_busy_app :: "(nat \<times> int list) http_app" where
  "demo_busy_app = \<lparr>ha_request = HttpRequest_new, ha_serverPath = ''/srv/'', ha_ctx = mass_at 8 ''abcd'' 2, ha_files = (2, [8])\<rparr>"

definition demo_busy_loop :: "((int, 32 word) smap, tcp_conn \<times> (nat \<times> int list) http_app) epoll_loop" where
  "demo_busy_loop = demo_app_loop (demo_wait_conn\<lparr>tc_hasMoreData := True\<rparr>, demo_busy_app)"

definition demo_busy_done :: "(nat \<times> int list) http_app" where
  "demo_busy_done = request_done (\<lambda>a b c. a) ''GET'' ''/a'' ''H/1'' [] demo_busy_app"

lemma demo_busy_facts:
  "waiting smap_find [] demo_busy_loop" "in_turn smap_find 8 ''abcd'' first_still_open (\<lambda>f. True) [] demo_busy_loop"
  "el_app demo_busy_loop = (demo_wait_conn\<lparr>tc_hasMoreData := True\<rparr>, demo_busy_app)"
  "tcp_bytes (demo_wait_conn\<lparr>tc_hasMoreData := True\<rparr>, demo_busy_loop) = ''ab''"
proof -
  have app: "with_app a (demo_app_loop b) = demo_app_loop a" for a :: "(nat \<times> int list) http_app" and b :: "tcp_conn \<times> (nat \<times> int list) http_app"
    by (simp add: with_app_def demo_app_loop_def)
  show bytes: "tcp_bytes (demo_wait_conn\<lparr>tc_hasMoreData := True\<rparr>, demo_busy_loop) = ''ab''"
    using demo_done_facts(7) by (simp add: tcp_bytes_def)
  have b: "Buffer_content (tc_writeBuffer demo_wait_conn) = ''ab''"
    by (simp add: demo_wait_conn_def demo_conn_def demo_buffer_facts)
  have c: "awaiting smap_find [] (demo_wait_conn, with_app demo_wait_app demo_wait_loop)"
    using demo_waiting by (simp add: waiting_between between_turns_def demo_done_facts)
  have sel: "el_app (demo_app_loop a) = a" "el_functors (demo_app_loop a) = []" "\<not> el_runningFunctors (demo_app_loop a)"
    for a :: 'a by (simp_all add: demo_app_loop_def)
  have nc: "\<not> tc_closeing demo_wait_conn" "\<not> tc_shouldBeClosed demo_wait_conn" by (simp_all add: demo_wait_conn_def demo_conn_def)
  have fields: "ha_ctx demo_busy_app = mass_at 8 ''abcd'' 2" "ha_files demo_busy_app = (2, [8])" by (simp_all add: demo_busy_app_def)
  have ok: "conn_ok smap_find (demo_wait_conn\<lparr>tc_hasMoreData := True\<rparr>, demo_app_loop demo_busy_app)"
    using demo_app_conn(1) [where a = demo_busy_app] by (simp add: demo_wait_conn_def conn_ok_def Let_def cong: option.case_cong)
  show "waiting smap_find [] demo_busy_loop"
    using ok c by (simp add: waiting_between between_turns_def awaiting_def demo_busy_loop_def app sel)
  show "in_turn smap_find 8 ''abcd'' first_still_open (\<lambda>f. True) [] demo_busy_loop"
    using ok bytes b nc
    by (auto simp: between_turns_def stream_inv_def demo_busy_loop_def app sel http_app_def first_still_open_def tcp_bytes_def
        fields intro!: exI [of _ 2])
  show "el_app demo_busy_loop = (demo_wait_conn\<lparr>tc_hasMoreData := True\<rparr>, demo_busy_app)"
    by (simp add: demo_busy_loop_def demo_app_loop_def)
qed

lemma demo_busy_done_facts:
  "response_header demo_busy_done n = response_header demo_done n" "\<not> sublist ''../'' (rq_path (ha_request demo_busy_done))"
proof -
  have "ha_request demo_busy_done = ha_request demo_done" "ha_serverPath demo_busy_done = ha_serverPath demo_done"
    by (simp_all add: demo_busy_done_def demo_done_def request_done_def demo_busy_app_def demo_wait_app_def)
  then show "response_header demo_busy_done n = response_header demo_done n" "\<not> sublist ''../'' (rq_path (ha_request demo_busy_done))"
    using demo_done_facts(5) by (simp_all add: response_header_def requested_file_def)
qed

theorem http_second_get_overwrites_witness:
  "case conn_turns (epoll_ops table_ctl) (demo_edge_callbacks demo_two_files) (Timestamp 5)
      [Readable (IoBytes demo_request_text), Sendable [WriteError EAGAIN]] demo_busy_loop of
     Inl e \<Rightarrow> e = LengthError
   | Inr l' \<Rightarrow> first_still_open (ha_files (snd (el_app l'))) \<and>
       prefix (tc_sent (fst (el_app l'))) (''ab'' @ concat (response_lines ''H/1'' 3 []) @ ''xyz'')"
proof -
  have docs: "turns_documented (epoll_ops table_ctl) (demo_edge_callbacks demo_two_files) (Timestamp 5)
      (Readable (IoBytes demo_request_text) # map Sendable [[WriteError EAGAIN]]) demo_busy_loop"
    by (rule turns_always) (use demo_request_text_facts in \<open>auto simp: readv_fits_def write_documented_def\<close>)
  have hs: "\<forall>kv \<in> set []. header_field kv" and n: "length ''xyz'' = 3" and more: "tc_hasMoreData (demo_wait_conn\<lparr>tc_hasMoreData := True\<rparr>)"
    by simp_all
  have req: "[] @ demo_request_text = render_request ''GET'' ''/a'' ''H/1'' [] @ []" by (simp add: demo_request_text_def)
  have good: "first_still_open (0, 9 # snd (ha_files demo_busy_app))" by (simp add: demo_busy_app_def first_still_open_def)
  have short: "\<forall>s \<in> set (response_header demo_busy_done 3). length s \<le> vec_max" unfolding demo_busy_done_facts by (rule demo_answer) simp
  show ?thesis
    using http_second_get_overwrites [where ?file = "''xyz''" and first_open = first_still_open, unfolded n,
        OF table.epoll_kernel_axioms demo_busy_facts(2) more demo_busy_facts(1,3) req demo_request_text_facts(3,4) hs demo_busy_done_def
          demo_busy_done_facts(2) demo_two_files_facts(3) demo_empty_stat(2) _ demo_two_files_facts(4) good _ _ short
          demo_two_files_facts(1) _ demo_two_files_facts(2) docs]
    by (cases "conn_turns (epoll_ops table_ctl) (demo_edge_callbacks demo_two_files) (Timestamp 5)
        [Readable (IoBytes demo_request_text), Sendable [WriteError EAGAIN]] demo_busy_loop")
      (auto simp: demo_empty_stat demo_busy_done_facts demo_answer demo_busy_facts Let_def simp del: conn_turns.simps)
qed

end
