(* ===== verification/Server_Socket.thy ===== *)
theory Server_Socket
  imports Buffer Pollers Tcp_Connection Util_String
begin

text \<open>
  The memcache daemon's side towards its servers: \<open>writeSizeBytes2NoBlockSock\<close> and
  \<open>readUntilStrWithEnd\<close> of \<open>src/mdm/mcacheTask.cpp\<close>, over the system calls. The calls
  are the record \<open>net\<close> of functions on the state of the kernel and the servers, a
  parameter; a socket object closes its descriptor when it is destroyed. A loop that may
  go on for ever has fuel, \<open>None\<close> when it runs out. Lemmas: what the two loops return,
  and what they do on errors they do not expect.
\<close>

section \<open>Fallible computations that may run out of fuel\<close>

definition bind_ro :: "'a res option \<Rightarrow> ('a \<Rightarrow> 'b res option) \<Rightarrow> 'b res option" where
  "bind_ro m f = (case m of None \<Rightarrow> None | Some (Inl e) \<Rightarrow> Some (Inl e) | Some (Inr x) \<Rightarrow> f x)"

lemma bind_ro_simps [simp]:
  "bind_ro None f = None" "bind_ro (Some (Inl e)) f = Some (Inl e)" "bind_ro (Some (Inr x)) f = f x"
  by (simp_all add: bind_ro_def)

lemma bind_ro_cong [fundef_cong]:
  assumes "m = m'" and "\<And>x. m' = Some (Inr x) \<Longrightarrow> f x = g x"
  shows "bind_ro m f = bind_ro m' g"
  using assms by (auto simp: bind_ro_def split: option.splits sum.splits)

lemma bind_ro_eq_Inr_iff [res_simps]:
  "bind_ro m f = Some (Inr y) \<longleftrightarrow> (\<exists>x. m = Some (Inr x) \<and> f x = Some (Inr y))"
  by (auto simp: bind_ro_def split: option.splits sum.splits)

section \<open>The system calls\<close>

record 'k net =
  nt_socket :: "'k \<Rightarrow> int \<times> 'k"
  nt_connect :: "int \<Rightarrow> string \<Rightarrow> int \<Rightarrow> 'k \<Rightarrow> bool \<times> 'k"
  nt_poll :: "poll \<Rightarrow> 'k \<Rightarrow> poll_result list \<times> 'k"
  nt_soerror :: "int \<Rightarrow> 'k \<Rightarrow> int option \<times> 'k"
  nt_write :: "int \<Rightarrow> string \<Rightarrow> 'k \<Rightarrow> write_result \<times> 'k"
  nt_read :: "int \<Rightarrow> nat \<Rightarrow> 'k \<Rightarrow> io_result \<times> 'k"
  nt_close :: "int \<Rightarrow> 'k \<Rightarrow> 'k"

definition again :: "int \<Rightarrow> bool" where
  "again e \<longleftrightarrow> e = EAGAIN \<or> e = EWOULDBLOCK \<or> e = EINTR"

text \<open>
  The loop of \<open>writeSizeBytes2NoBlockSock\<close>. An error that is not one of the three falls
  through to \<open>hasRet += ret\<close> with \<open>ret = -1\<close>; the next round then forms the pointer
  \<open>buf + hasRet\<close>, which is undefined behaviour before the start of \<open>buf\<close>.
\<close>

fun write_loop :: "nat \<Rightarrow> 'k net \<Rightarrow> int \<Rightarrow> string \<Rightarrow> int \<Rightarrow> 'k \<Rightarrow> (int \<times> 'k) res option" where
  "write_loop 0 net sock buf hasRet k = None"
| "write_loop (Suc n) net sock buf hasRet k =
     (if \<not> hasRet < int (length buf) then Some (Inr (int (length buf), k))
      else if hasRet < 0 then Some (Inl OutOfBounds)
      else case nt_write net sock (drop (nat hasRet) buf) k of
          (WriteError e, k') \<Rightarrow>
             if again e then write_loop n net sock buf hasRet k' else write_loop n net sock buf (hasRet - 1) k'
        | (WriteBytes m, k') \<Rightarrow>
             if m = 0 then Some (Inr (-1, k')) else write_loop n net sock buf (hasRet + int m) k')"

definition writeSizeBytes2NoBlockSock :: "nat \<Rightarrow> 'k net \<Rightarrow> int \<Rightarrow> string \<Rightarrow> 'k \<Rightarrow> (int \<times> 'k) res option" where
  "writeSizeBytes2NoBlockSock fuel net sock buf k =
     (if length buf = 0 then Some (Inr (0, k)) else write_loop fuel net sock buf 0 k)"

text \<open>
  \<open>std::string(buf, 0, ret)\<close> converts the array to a string first, up to its first zero
  byte, and takes \<open>ret\<close> characters of that; \<open>buf[52]\<close> stays zero. An unexpected error
  (\<open>ret = -1\<close>) takes them all.
\<close>

definition READSIZE_L :: nat where
  "READSIZE_L = 52"

fun read_loop :: "nat \<Rightarrow> 'k net \<Rightarrow> int \<Rightarrow> string \<Rightarrow> char list \<Rightarrow> string \<Rightarrow> 'k \<Rightarrow> (int \<times> string \<times> 'k) res option" where
  "read_loop 0 net sock endp buf str k = None"
| "read_loop (Suc n) net sock endp buf str k =
     (case nt_read net sock READSIZE_L k of
        (IoError e, k') \<Rightarrow>
          if again e then read_loop n net sock endp buf str k'
          else let str' = str @ c_str buf in
               if std_search str' endp \<noteq> length str' then Some (Inr (int (std_search str' endp), str', k'))
               else read_loop n net sock endp buf str' k'
      | (IoBytes data, k') \<Rightarrow>
          if data = [] then Some (Inr (-1, str, k'))
          else if READSIZE_L < length data then Some (Inl OutOfBounds)
          else let buf' = data @ drop (length data) buf; str' = str @ take (length data) (c_str buf') in
               if std_search str' endp \<noteq> length str' then Some (Inr (int (std_search str' endp), str', k'))
               else read_loop n net sock endp buf' str' k')"

definition readUntilStrWithEnd :: "nat \<Rightarrow> 'k net \<Rightarrow> int \<Rightarrow> string \<Rightarrow> string \<Rightarrow> 'k \<Rightarrow> (int \<times> string \<times> 'k) res option" where
  "readUntilStrWithEnd fuel net sock str endp k =
     read_loop fuel net sock endp (replicate 53 (CHR 0x00)) str k"

section \<open>What the loops return\<close>

lemma write_loop_result:
  "write_loop n net sock buf hasRet k = Some (Inr (ret, k')) \<Longrightarrow> ret = int (length buf) \<or> ret = -1"
  by (induction n net sock buf hasRet k rule: write_loop.induct)
    (auto split: if_splits prod.splits write_result.splits)

lemma write_result:
  "writeSizeBytes2NoBlockSock fuel net sock buf k = Some (Inr (ret, k')) \<Longrightarrow> ret = int (length buf) \<or> ret = -1"
  by (auto simp: writeSizeBytes2NoBlockSock_def dest: write_loop_result split: if_splits)

text \<open>On an error it does not expect the writer leaves its buffer in the second round.\<close>

lemma write_unexpected_error:
  assumes "nt_write net sock buf k = (WriteError e, k')" and "\<not> again e" and "buf \<noteq> []"
  shows "writeSizeBytes2NoBlockSock (Suc (Suc n)) net sock buf k = Some (Inl OutOfBounds)"
  using assms by (simp add: writeSizeBytes2NoBlockSock_def)

lemma read_loop_found:
  "read_loop n net sock endp buf str k = Some (Inr (ret, str', k')) \<Longrightarrow> ret \<noteq> -1 \<Longrightarrow>
    0 \<le> ret \<and> nat ret < length str' \<and> prefix endp (drop (nat ret) str') \<and> prefix str str'"
proof (induction n net sock endp buf str k rule: read_loop.induct)
  case (2 n net sock endp buf str k)
  have found: "0 \<le> ret \<and> nat ret < length str' \<and> prefix endp (drop (nat ret) str')"
    if "std_search str' endp \<noteq> length str'" "ret = int (std_search str' endp)"
    using that std_search_le [of str' endp] std_search_found [of str' endp] by simp
  show ?case
  proof (cases "nt_read net sock READSIZE_L k")
    case (Pair r k1)
    then show ?thesis
      using "2.IH" "2.prems" found
      by (cases r) (force simp: Let_def dest: append_prefixD split: if_splits)+
  qed
qed simp

text \<open>An answer that comes in one piece, without zero bytes.\<close>

lemma read_one_piece:
  assumes "nt_read net fd READSIZE_L k = (IoBytes data, k')" and "data \<noteq> []" and "length data \<le> READSIZE_L"
    and "CHR 0x00 \<notin> set data" and "std_search data endp \<noteq> length data"
  shows "readUntilStrWithEnd (Suc n) net fd [] endp k = Some (Inr (int (std_search data endp), data, k'))"
proof -
  have "drop (length data) (replicate 53 (CHR 0x00)) = CHR 0x00 # replicate (52 - length data) (CHR 0x00)"
    using assms(3) by (simp add: READSIZE_L_def Suc_diff_le flip: replicate_Suc)
  then have "take (length data) (c_str (data @ drop (length data) (replicate 53 (CHR 0x00)))) = data"
    using c_str_append_zero [OF assms(4)] by simp
  then show ?thesis using assms by (simp add: readUntilStrWithEnd_def Let_def del: length_take)
qed

section \<open>A socket that takes the bytes\<close>

text \<open>
  The documented behaviour of \<open>write\<close> on a socket that keeps taking bytes: it takes a
  non-empty prefix of what it is given, or fails for a reason that passes; \<open>pend\<close> bounds
  the failures that are still to come, and \<open>recvd\<close> is what the other side receives.
\<close>

definition socket_takes :: "'k net \<Rightarrow> int \<Rightarrow> ('k \<Rightarrow> string) \<Rightarrow> ('k \<Rightarrow> nat) \<Rightarrow> bool" where
  "socket_takes net fd recvd pend \<longleftrightarrow> (\<forall>buf k. buf \<noteq> [] \<longrightarrow>
     (case nt_write net fd buf k of
        (WriteBytes m, k') \<Rightarrow> 0 < m \<and> m \<le> length buf \<and> recvd k' = recvd k @ take m buf \<and> pend k' \<le> pend k
      | (WriteError e, k') \<Rightarrow> again e \<and> recvd k' = recvd k \<and> pend k' < pend k))"

lemma socket_takesD:
  assumes "socket_takes net fd recvd pend" and "buf \<noteq> []"
  shows "nt_write net fd buf k = (WriteBytes m, k') \<Longrightarrow>
      0 < m \<and> m \<le> length buf \<and> recvd k' = recvd k @ take m buf \<and> pend k' \<le> pend k"
    "nt_write net fd buf k = (WriteError e, k') \<Longrightarrow> again e \<and> recvd k' = recvd k \<and> pend k' < pend k"
  using assms(1) [unfolded socket_takes_def, THEN spec [of _ buf], THEN spec [of _ k]] assms(2) by auto

lemma write_loop_delivers:
  assumes "socket_takes net fd recvd pend" and "d \<le> length buf" and "length buf - d + pend k < n"
  shows "\<exists>k'. write_loop n net fd buf (int d) k = Some (Inr (int (length buf), k')) \<and> recvd k' = recvd k @ drop d buf"
  using assms(2,3)
proof (induction n arbitrary: d k)
  case 0
  then show ?case by simp
next
  case (Suc n)
  show ?case
  proof (cases "d = length buf")
    case False
    with Suc.prems have ne: "drop d buf \<noteq> []" "d < length buf" by auto
    obtain r k1 where w: "nt_write net fd (drop d buf) k = (r, k1)" by (metis surj_pair)
    show ?thesis
    proof (cases r)
      case (WriteBytes m)
      from socket_takesD(1) [OF assms(1) ne(1) w [unfolded WriteBytes]] have m: "0 < m" "m \<le> length buf - d"
        "recvd k1 = recvd k @ take m (drop d buf)" "pend k1 \<le> pend k" by simp_all
      have "d + m \<le> length buf" "length buf - (d + m) + pend k1 < n" using m Suc.prems ne by linarith+
      from Suc.IH [OF this] obtain k' where k': "write_loop n net fd buf (int (d + m)) k1 = Some (Inr (int (length buf), k'))"
        "recvd k' = recvd k1 @ drop (d + m) buf" by (elim exE conjE)
      have "take m (drop d buf) @ drop (d + m) buf = drop d buf"
        using append_take_drop_id [of m "drop d buf"] by (simp add: add.commute)
      with k'(2) m(3) have "recvd k' = recvd k @ drop d buf" by (simp only: append_assoc)
      with k'(1) w WriteBytes ne m(1) show ?thesis by (auto simp: algebra_simps)
    next
      case (WriteError e)
      from socket_takesD(2) [OF assms(1) ne(1) w [unfolded WriteError]] have m: "again e" "recvd k1 = recvd k" "pend k1 < pend k"
        by simp_all
      have "d \<le> length buf" "length buf - d + pend k1 < n" using m Suc.prems by linarith+
      from Suc.IH [OF this] show ?thesis using w WriteError ne m by auto
    qed
  qed simp
qed

text \<open>
  C29: \<open>writeSizeBytes2NoBlockSock\<close> returns and has sent every byte once and in order, however
  the kernel splits the write and however often it fails with \<open>EAGAIN\<close>, \<open>EWOULDBLOCK\<close> or
  \<open>EINTR\<close> in between, as long as these failures end.
\<close>
theorem socket_write_delivers:
  assumes "socket_takes net fd recvd pend" and "length buf + pend k < fuel"
  shows "\<exists>k'. writeSizeBytes2NoBlockSock fuel net fd buf k = Some (Inr (int (length buf), k')) \<and>
    recvd k' = recvd k @ buf"
  using write_loop_delivers [OF assms(1), of 0 buf k fuel] assms(2)
  by (auto simp: writeSizeBytes2NoBlockSock_def)

text \<open>A kernel that takes one byte at a time and fails once with \<open>EAGAIN\<close> first.\<close>

definition slow_net :: "(string \<times> nat) net" where
  "slow_net = \<lparr>nt_socket = (\<lambda>k. (7, k)), nt_connect = (\<lambda>fd ip port k. (True, k)), nt_poll = (\<lambda>p k. ([], k)),
     nt_soerror = (\<lambda>fd k. (Some 0, k)),
     nt_write = (\<lambda>fd b (recvd, n). if 0 < n then (WriteError EAGAIN, (recvd, n - 1)) else (WriteBytes 1, (recvd @ take 1 b, 0))),
     nt_read = (\<lambda>fd n k. (IoBytes [], k)), nt_close = (\<lambda>fd k. k)\<rparr>"

theorem socket_write_delivers_witness:
  "\<exists>k'. writeSizeBytes2NoBlockSock 5 slow_net 7 ''abc'' (''x'', 1) = Some (Inr (3, k')) \<and> fst k' = ''xabc''"
proof -
  have t: "socket_takes slow_net 7 fst snd"
    by (auto simp: socket_takes_def slow_net_def again_def Suc_le_eq split: prod.splits)
  from socket_write_delivers [OF t, of "''abc''" "(''x'', 1)" 5] show ?thesis by simp
qed

end
