(* ===== verification/Mem_Protocol.thy ===== *)
theory Mem_Protocol
  imports FAS_Prelude
begin

text \<open>
  \<open>src/mdm/memProtocol.h\<close>, \<open>src/mdm/memProtocol.cpp\<close>: the command words of the memcache
  protocol and their classes. The sets are filled once, by the constructor.
\<close>

definition stroage_cmd :: "string list" where
  "stroage_cmd = [''set'', ''add'', ''replace'', ''append'', ''prepend'', ''cas'']"

definition retriveal_cmd :: "string list" where
  "retriveal_cmd = [''get'', ''gets'']"

definition delete_cmd :: "string list" where
  "delete_cmd = [''delete'']"

definition incr_decr_cmd :: "string list" where
  "incr_decr_cmd = [''incr'', ''decr'']"

definition other_cmd :: "string list" where
  "other_cmd = [''touch'', ''flush_all'', ''version'', ''quit'']"

definition memProtocol_isStorageCommand :: "string \<Rightarrow> bool" where
  "memProtocol_isStorageCommand cmd \<longleftrightarrow> cmd \<in> set stroage_cmd"

definition memProtocol_isRetrievalCommand :: "string \<Rightarrow> bool" where
  "memProtocol_isRetrievalCommand cmd \<longleftrightarrow> cmd \<in> set retriveal_cmd"

definition memProtocol_isOtherCommand :: "string \<Rightarrow> bool" where
  "memProtocol_isOtherCommand cmd \<longleftrightarrow> cmd \<in> set other_cmd"

definition memProtocol_isDeleteCommand :: "string \<Rightarrow> bool" where
  "memProtocol_isDeleteCommand cmd \<longleftrightarrow> cmd \<in> set delete_cmd"

definition memProtocol_isIncrDecrCommand :: "string \<Rightarrow> bool" where
  "memProtocol_isIncrDecrCommand cmd \<longleftrightarrow> cmd \<in> set incr_decr_cmd"

definition memProtocol_inCmdSet :: "string \<Rightarrow> bool" where
  "memProtocol_inCmdSet cmd \<longleftrightarrow> memProtocol_isStorageCommand cmd \<or> memProtocol_isRetrievalCommand cmd \<or>
     memProtocol_isOtherCommand cmd \<or> memProtocol_isIncrDecrCommand cmd \<or> memProtocol_isDeleteCommand cmd"

definition memProtocol_getNoreply :: string where
  "memProtocol_getNoreply = ''noreply''"

lemmas mem_protocol_defs =
  memProtocol_isStorageCommand_def memProtocol_isRetrievalCommand_def memProtocol_isOtherCommand_def
  memProtocol_isDeleteCommand_def memProtocol_isIncrDecrCommand_def memProtocol_inCmdSet_def
  stroage_cmd_def retriveal_cmd_def delete_cmd_def incr_decr_cmd_def other_cmd_def

text \<open>No command word is in two classes.\<close>

lemma command_classes:
  "memProtocol_isRetrievalCommand c \<Longrightarrow> \<not> memProtocol_isStorageCommand c"
  "memProtocol_isDeleteCommand c \<Longrightarrow> \<not> memProtocol_isStorageCommand c \<and> \<not> memProtocol_isRetrievalCommand c"
  "memProtocol_isIncrDecrCommand c \<Longrightarrow> \<not> memProtocol_isStorageCommand c \<and> \<not> memProtocol_isRetrievalCommand c \<and>
     \<not> memProtocol_isDeleteCommand c"
  "memProtocol_isOtherCommand c \<Longrightarrow> \<not> memProtocol_isStorageCommand c \<and> \<not> memProtocol_isRetrievalCommand c \<and>
     \<not> memProtocol_isDeleteCommand c \<and> \<not> memProtocol_isIncrDecrCommand c"
  by (auto simp: mem_protocol_defs)

end
