(* ===== verification/Mcache_Task.thy ===== *)
theory Mcache_Task
  imports Server_Socket Consistent_Hash Mem_Protocol Util_String
begin

text \<open>
  \<open>src/mdm/mcacheTask.h\<close>, \<open>src/mdm/mcacheTask.cpp\<close>: the state machine that reads memcache
  commands from a client connection, forwards each to the server that the ring picks and
  relays the answer. The state \<open>mc\<close> holds the task, the connection's read buffer, the
  connection itself (any type, written through \<open>me_send\<close>), the shared ring and the kernel.
  Parameters: the system calls, \<open>boost::split\<close> at spaces, and the fuel of the two socket
  loops. Lemmas: the states between two calls, the verdict on malformed commands, and
  the inputs on which the code goes wrong.
\<close>

section \<open>State\<close>

datatype task_state = BAD_TASK | BEGIN_NEW_TASK | PARSE_PROTOCOL | BEGIN_HANDLE_CMD | WAIT_ENOUGH_DATA | GET_ALL_DATA

record mcache_task =
  mt_state :: task_state
  mt_head :: string
  mt_items :: "string list"
  mt_method :: string
  mt_key :: string
  mt_keys :: "string list"
  mt_flag :: string
  mt_exptime :: string
  mt_bytes :: int
  mt_cas_unique :: string
  mt_noreply :: string
  mt_hasReadBytes :: int
  mt_server :: "nat option"

definition mcacheTask_new :: mcache_task where
  "mcacheTask_new = \<lparr>mt_state = BEGIN_NEW_TASK, mt_head = [], mt_items = [], mt_method = [], mt_key = [], mt_keys = [],
     mt_flag = [], mt_exptime = [], mt_bytes = 0, mt_cas_unique = [], mt_noreply = [], mt_hasReadBytes = 0, mt_server = None\<rparr>"

definition mcacheTask_renew :: "mcache_task \<Rightarrow> mcache_task" where
  "mcacheTask_renew t = t\<lparr>mt_state := BEGIN_NEW_TASK, mt_head := [], mt_items := [], mt_method := [], mt_key := [],
     mt_keys := [], mt_flag := [], mt_exptime := [], mt_bytes := 0, mt_cas_unique := [], mt_noreply := [],
     mt_hasReadBytes := 0, mt_server := None\<rparr>"

definition mcacheTask_setState :: "mcache_task \<Rightarrow> task_state \<Rightarrow> mcache_task" where
  "mcacheTask_setState t st = t\<lparr>mt_state := st\<rparr>"

definition mcacheTask_add2HasReadBytes :: "mcache_task \<Rightarrow> int \<Rightarrow> mcache_task" where
  "mcacheTask_add2HasReadBytes t n = (if n \<le> 0 then t else t\<lparr>mt_hasReadBytes := mt_hasReadBytes t + n\<rparr>)"

record ('k, 'w) mc =
  mc_task :: mcache_task
  mc_buf :: buffer
  mc_conn :: 'w
  mc_hash :: cons_hash
  mc_net :: 'k

record ('k, 'w) mc_env =
  me_hash :: hash_env
  me_net :: "'k net"
  me_send :: "string \<Rightarrow> 'w \<Rightarrow> 'w res"
  me_split :: "string \<Rightarrow> string list"
  me_fuel :: nat

text \<open>\<open>headerItems_[i]\<close>: beyond the end it is undefined behaviour.\<close>

definition item :: "string list \<Rightarrow> nat \<Rightarrow> string res" where
  "item xs i = (if i < length xs then Inr (xs ! i) else Inl OutOfBounds)"

section \<open>Answers to the client\<close>

definition mc_send :: "('k, 'w) mc_env \<Rightarrow> string \<Rightarrow> ('k, 'w) mc \<Rightarrow> ('k, 'w) mc res" where
  "mc_send env msg s = bind_res (me_send env msg (mc_conn s)) (\<lambda>c. Inr (s\<lparr>mc_conn := c\<rparr>))"

definition upd_task :: "(mcache_task \<Rightarrow> mcache_task) \<Rightarrow> ('k, 'w) mc \<Rightarrow> ('k, 'w) mc" where
  "upd_task f s = s\<lparr>mc_task := f (mc_task s)\<rparr>"

text \<open>A malformed command: the answer, \<open>renew()\<close>, \<open>return false\<close>.\<close>

definition mc_reject :: "('k, 'w) mc_env \<Rightarrow> string \<Rightarrow> ('k, 'w) mc \<Rightarrow> (bool \<times> ('k, 'w) mc) res" where
  "mc_reject env msg s = bind_res (mc_send env msg s) (\<lambda>s'. Inr (False, upd_task mcacheTask_renew s'))"

text \<open>A failure of the server: \<open>BAD\<close>, \<open>SERVER_ERROR\<close>, \<open>return false\<close>.\<close>

definition mc_bad :: "('k, 'w) mc_env \<Rightarrow> ('k, 'w) mc \<Rightarrow> (bool \<times> ('k, 'w) mc) res" where
  "mc_bad env s =
     bind_res (mc_send env (''SERVER_ERROR'' @ kCRLF) (upd_task (\<lambda>t. mcacheTask_setState t BAD_TASK) s))
       (\<lambda>s'. Inr (False, s'))"

section \<open>Servers\<close>

text \<open>A block with a local \<open>fas::Socket\<close>: the destructor closes it when the block is left.\<close>

definition with_socket :: "('k, 'w) mc_env \<Rightarrow> (int \<Rightarrow> ('k, 'w) mc \<Rightarrow> (bool \<times> ('k, 'w) mc) res option) \<Rightarrow>
    ('k, 'w) mc \<Rightarrow> (bool \<times> ('k, 'w) mc) res option" where
  "with_socket env body s =
     (let (fd, k) = nt_socket (me_net env) (mc_net s)
      in bind_ro (body fd (s\<lparr>mc_net := k\<rparr>)) (\<lambda>(r, s').
         Some (Inr (r, s'\<lparr>mc_net := nt_close (me_net env) fd (mc_net s')\<rparr>))))"

definition mcacheTask_getSocketFromKey :: "('k, 'w) mc_env \<Rightarrow> int \<Rightarrow> ('k, 'w) mc \<Rightarrow> (bool \<times> ('k, 'w) mc) res option" where
  "mcacheTask_getSocketFromKey env sock s =
     bind_ro (Some (ConsistencyHash_getMappingNodeFromKeyString (me_hash env) (mc_hash s) (mt_key (mc_task s)))) (\<lambda>(r, h).
     let s1 = upd_task (\<lambda>t. t\<lparr>mt_server := r\<rparr>) (s\<lparr>mc_hash := h\<rparr>) in
     case r of
       None \<Rightarrow> Some (Inr (False, s1))
     | Some p \<Rightarrow>
         let (ok, k1) = nt_connect (me_net env) sock (hn_ip (ch_store h ! p)) (hn_port (ch_store h ! p)) (mc_net s1)
         in if \<not> ok then Some (Inr (False, s1\<lparr>mc_net := k1\<rparr>))
            else bind_ro (Some (Poll_EventsAdd Poll_new (Events_new sock (kWriteEvent OR kReadEvent)))) (\<lambda>(added, pol).
              let (rs, k2) = nt_poll (me_net env) pol k1 in
              case Poll_Loop pol [] rs of
                None \<Rightarrow> None
              | Some (rEvent, pol') \<Rightarrow>
                  if rEvent = [] then Some (Inr (False, s1\<lparr>mc_net := k2\<rparr>))
                  else if Events_containsAtLeastOneEvents (hd rEvent) (kWriteEvent OR kReadEvent)
                  then let (err, k3) = nt_soerror (me_net env) sock k2
                       in Some (Inr (case err of None \<Rightarrow> False | Some e \<Rightarrow> e = 0, s1\<lparr>mc_net := k3\<rparr>))
                  else Some (Inr (False, s1\<lparr>mc_net := k2\<rparr>))))"

text \<open>Reading the one-line answer and relaying it, unless the client asked for none.\<close>

definition mc_reply :: "('k, 'w) mc_env \<Rightarrow> int \<Rightarrow> ('k, 'w) mc \<Rightarrow> (bool \<times> ('k, 'w) mc) res option" where
  "mc_reply env sock s =
     (if mt_noreply (mc_task s) \<noteq> memProtocol_getNoreply
      then bind_ro (readUntilStrWithEnd (me_fuel env) (me_net env) sock [] kCRLF (mc_net s)) (\<lambda>(ret, retString, k).
           let s1 = s\<lparr>mc_net := k\<rparr> in
           if ret \<le> 0 then Some (mc_bad env s1)
           else Some (bind_res (mc_send env (take (nat ret + 2) retString) s1) (\<lambda>s2. Inr (True, s2))))
      else Some (Inr (True, s)))"

text \<open>Connecting, and sending the command line with its line break restored; \<open>rest\<close> follows.\<close>

definition mc_send_head :: "('k, 'w) mc_env \<Rightarrow> (int \<Rightarrow> ('k, 'w) mc \<Rightarrow> (bool \<times> ('k, 'w) mc) res option) \<Rightarrow>
    int \<Rightarrow> ('k, 'w) mc \<Rightarrow> (bool \<times> ('k, 'w) mc) res option" where
  "mc_send_head env rest sock s =
     bind_ro (mcacheTask_getSocketFromKey env sock s) (\<lambda>(ok, s1).
     if \<not> ok then Some (mc_bad env s1)
     else let s2 = upd_task (\<lambda>t. t\<lparr>mt_head := mt_head t @ kCRLF\<rparr>) s1; head = mt_head (mc_task s2) in
          bind_ro (writeSizeBytes2NoBlockSock (me_fuel env) (me_net env) sock head (mc_net s2)) (\<lambda>(ret, k).
          let s3 = s2\<lparr>mc_net := k\<rparr> in
          if ret = -1 \<or> ret \<noteq> int_of_size (length head) then Some (mc_bad env s3)
          else rest sock s3))"

text \<open>\<open>renew(); return true\<close> at the end of a handler, unless the block before returned.\<close>

definition mc_finish :: "(bool \<times> ('k, 'w) mc) res option \<Rightarrow> (bool \<times> ('k, 'w) mc) res option" where
  "mc_finish m = bind_ro m (\<lambda>(go_on, s).
     if go_on then Some (Inr (True, upd_task mcacheTask_renew s)) else Some (Inr (False, s)))"

definition mc_forward :: "('k, 'w) mc_env \<Rightarrow> ('k, 'w) mc \<Rightarrow> (bool \<times> ('k, 'w) mc) res option" where
  "mc_forward env s = mc_finish (with_socket env (mc_send_head env (mc_reply env)) s)"

section \<open>The handlers\<close>

definition mcacheTask_handleOtherCmd :: "('k, 'w) mc_env \<Rightarrow> ('k, 'w) mc \<Rightarrow> (bool \<times> ('k, 'w) mc) res option" where
  "mcacheTask_handleOtherCmd env s =
     (if mt_state (mc_task s) = BEGIN_HANDLE_CMD
      then bind_ro (Some (item (mt_items (mc_task s)) 0)) (\<lambda>method.
        let s1 = upd_task (\<lambda>t. t\<lparr>mt_method := method, mt_key := ''default key''\<rparr>) s;
            items = mt_items (mc_task s)
        in if method = ''quit'' then Some (Inr (False, upd_task (\<lambda>t. mcacheTask_setState t BAD_TASK) s1))
           else if method = ''touch''
           then (if length items \<noteq> 3 \<and> length items \<noteq> 4 then Some (mc_reject env (''ERROR'' @ kCRLF) s1)
                 else bind_ro (if length items = 4
                               then bind_ro (Some (item items 4)) (\<lambda>x. Some (Inr (upd_task (\<lambda>t. t\<lparr>mt_noreply := x\<rparr>) s1)))
                               else Some (Inr s1)) (\<lambda>s2.
                      bind_ro (Some (item items 1)) (\<lambda>key. mc_forward env (upd_task (\<lambda>t. t\<lparr>mt_key := key\<rparr>) s2))))
           else mc_forward env s1)
      else Some (Inr (True, upd_task mcacheTask_renew s)))"

definition mcacheTask_handleIncrDecrCmd :: "('k, 'w) mc_env \<Rightarrow> ('k, 'w) mc \<Rightarrow> (bool \<times> ('k, 'w) mc) res option" where
  "mcacheTask_handleIncrDecrCmd env s =
     (if mt_state (mc_task s) = BEGIN_HANDLE_CMD
      then let items = mt_items (mc_task s) in
        if length items \<noteq> 3 \<and> length items \<noteq> 4 then Some (mc_reject env (''ERROR'' @ kCRLF) s)
        else let s1 = (if length items = 4 then upd_task (\<lambda>t. t\<lparr>mt_noreply := items ! 3\<rparr>) s else s) in
             bind_ro (Some (atoi (items ! 2))) (\<lambda>n.
             if n < 0
             then (if mt_noreply (mc_task s1) \<noteq> memProtocol_getNoreply
                   then Some (mc_reject env (''CLIENT_ERROR invalid numeric delta argument'' @ kCRLF) s1)
                   else Some (Inr (False, upd_task mcacheTask_renew s1)))
             else mc_forward env (upd_task (\<lambda>t. t\<lparr>mt_key := items ! 1\<rparr>) s1))
      else Some (Inr (True, upd_task mcacheTask_renew s)))"

definition delete_usage :: string where
  "delete_usage = ''CLIENT_ERROR bad command line format.  Usage: delete <key> [noreply]'' @ kCRLF"

definition mcacheTask_handleDeleteCmd :: "('k, 'w) mc_env \<Rightarrow> ('k, 'w) mc \<Rightarrow> (bool \<times> ('k, 'w) mc) res option" where
  "mcacheTask_handleDeleteCmd env s =
     (if mt_state (mc_task s) = BEGIN_HANDLE_CMD
      then let items = mt_items (mc_task s) in
        if length items \<le> 1 then Some (mc_reject env (''ERROR'' @ kCRLF) s)
        else if length items \<noteq> 2 \<and> length items \<noteq> 3 then Some (mc_reject env delete_usage s)
        else if length items = 3 \<and> items ! 2 \<noteq> memProtocol_getNoreply then Some (mc_reject env delete_usage s)
        else mc_forward env (upd_task (\<lambda>t. t\<lparr>mt_key := items ! 1\<rparr>)
               (if length items = 3 then upd_task (\<lambda>t. t\<lparr>mt_noreply := items ! 2\<rparr>) s else s))
      else Some (Inr (True, upd_task mcacheTask_renew s)))"

text \<open>
  The check of the two bytes behind the data: \<open>std::string(buffer->peek(), n, 2)\<close> converts
  everything from \<open>peek()\<close> to the first zero byte into a string and then takes the
  substring. Without a zero byte it reads past the vector; past the end of the string it throws.
\<close>

definition c_string_at :: "buffer \<Rightarrow> string res" where
  "c_string_at b = (let mem = drop (Buffer_peek b) (storage b)
                    in if CHR 0x00 \<in> set mem then Inr (c_str mem) else Inl OutOfBounds)"

definition check_end :: "buffer \<Rightarrow> int \<Rightarrow> string res" where
  "check_end b n = bind_res (c_string_at b) (\<lambda>str. str_substr str (Some (size_of_int n)) 2)"

text \<open>The fields of the command line of a storage command; \<open>None\<close> is the answer \<open>ERROR\<close>.\<close>

definition storage_fields :: "string list \<Rightarrow> mcache_task \<Rightarrow> mcache_task option res" where
  "storage_fields items t =
     (if length items \<noteq> 5 \<and> length items \<noteq> 6 \<and> length items \<noteq> 7 then Inr None
      else bind_res (atoi (items ! 4)) (\<lambda>bytes.
        let t1 = t\<lparr>mt_method := items ! 0, mt_key := items ! 1, mt_flag := items ! 2, mt_exptime := items ! 3, mt_bytes := bytes\<rparr>
        in if mt_method t1 = ''cas''
           then (if length items \<le> 5 then Inr None
                 else let t2 = t1\<lparr>mt_cas_unique := items ! 5\<rparr>
                      in Inr (Some (if length items = 7 then t2\<lparr>mt_noreply := items ! 6\<rparr> else t2)))
           else Inr (Some (if length items = 6 then t1\<lparr>mt_noreply := items ! 5\<rparr> else t1))))"

text \<open>Sending everything readable as the body.\<close>

definition storage_body :: "('k, 'w) mc_env \<Rightarrow> int \<Rightarrow> ('k, 'w) mc \<Rightarrow> (bool \<times> ('k, 'w) mc) res option" where
  "storage_body env sock s =
     bind_ro (writeSizeBytes2NoBlockSock (me_fuel env) (me_net env) sock (Buffer_content (mc_buf s)) (mc_net s)) (\<lambda>(ret, k).
     let s1 = s\<lparr>mc_net := k\<rparr> in
     if ret = -1 \<or> ret \<noteq> int_of_size (Buffer_readableBytes (mc_buf s1)) then Some (mc_bad env s1)
     else mc_reply env sock (s1\<lparr>mc_buf := Buffer_retrieveAll (mc_buf s1)\<rparr>))"

definition storage_run :: "('k, 'w) mc_env \<Rightarrow> ('k, 'w) mc \<Rightarrow> (bool \<times> ('k, 'w) mc) res option" where
  "storage_run env s = mc_finish (with_socket env (mc_send_head env (storage_body env)) s)"

definition storage_wait :: "('k, 'w) mc_env \<Rightarrow> ('k, 'w) mc \<Rightarrow> (bool \<times> ('k, 'w) mc) res option" where
  "storage_wait env s =
     (if Buffer_readableBytes (mc_buf s) < sz_add (size_of_int (mt_bytes (mc_task s))) 2 then Some (Inr (True, s))
      else bind_ro (Some (check_end (mc_buf s) (mt_bytes (mc_task s)))) (\<lambda>checkend.
        if checkend \<noteq> kCRLF
        then Some (bind_res (mc_send env (''CLIENT_ERROR bad data chunk'' @ kCRLF) s) (\<lambda>s1.
                   bind_res (mc_send env (''ERROR'' @ kCRLF) s1) (\<lambda>s2.
                   Inr (False, upd_task mcacheTask_renew (s2\<lparr>mc_buf := Buffer_retrieveAll (mc_buf s2)\<rparr>)))))
        else storage_run env (upd_task (\<lambda>t. mcacheTask_setState t GET_ALL_DATA) s)))"

definition mcacheTask_handleStrogeCmd :: "('k, 'w) mc_env \<Rightarrow> ('k, 'w) mc \<Rightarrow> (bool \<times> ('k, 'w) mc) res option" where
  "mcacheTask_handleStrogeCmd env s =
     (case mt_state (mc_task s) of
        BEGIN_HANDLE_CMD \<Rightarrow>
          bind_ro (Some (storage_fields (mt_items (mc_task s)) (mc_task s))) (\<lambda>r.
          case r of
            None \<Rightarrow> Some (mc_reject env (''ERROR'' @ kCRLF) s)
          | Some t \<Rightarrow> storage_wait env (s\<lparr>mc_task := mcacheTask_setState t WAIT_ENOUGH_DATA\<rparr>))
      | WAIT_ENOUGH_DATA \<Rightarrow> storage_wait env s
      | GET_ALL_DATA \<Rightarrow> storage_run env s
      | _ \<Rightarrow> Some (Inr (True, upd_task mcacheTask_renew s)))"

section \<open>Retrieval\<close>

text \<open>
  The loop over the keys: a connection per key. The socket object is local to the body, so
  its descriptor is closed at the end of each round, before it is polled.
\<close>

fun gets_connect :: "('k, 'w) mc_env \<Rightarrow> string list \<Rightarrow> (int, string) smap \<Rightarrow> poll \<Rightarrow> ('k, 'w) mc \<Rightarrow>
    (((int, string) smap \<times> poll) option \<times> ('k, 'w) mc) res" where
  "gets_connect env [] socks pol s = Inr (Some (socks, pol), s)"
| "gets_connect env (key # keys) socks pol s =
     bind_res (ConsistencyHash_getMappingNodeFromKeyString (me_hash env) (mc_hash s) key) (\<lambda>(r, h).
     let s1 = s\<lparr>mc_hash := h\<rparr> in
     case r of
       None \<Rightarrow> Inr (None, s1)
     | Some p \<Rightarrow>
         let (fd, k1) = nt_socket (me_net env) (mc_net s1);
             (ok, k2) = nt_connect (me_net env) fd (hn_ip (ch_store h ! p)) (hn_port (ch_store h ! p)) k1
         in if \<not> ok then gets_connect env keys socks pol (s1\<lparr>mc_net := nt_close (me_net env) fd k2\<rparr>)
            else bind_res (Poll_EventsAdd pol (Events_new fd (kWriteEvent OR kReadEvent))) (\<lambda>(added, pol').
                 gets_connect env keys (smap_insert socks fd key) pol'
                   (s1\<lparr>mc_net := nt_close (me_net env) fd k2\<rparr>)))"

text \<open>
  The loop over the events. \<open>getsockopt\<close> is called with a length of zero, so it stores
  nothing and \<open>error\<close> stays zero.
\<close>

fun gets_serve :: "('k, 'w) mc_env \<Rightarrow> (int, string) smap \<Rightarrow> events list \<Rightarrow> ('k, 'w) mc \<Rightarrow> ('k, 'w) mc res option" where
  "gets_serve env socks [] s = Some (Inr s)"
| "gets_serve env socks (ev # evs) s =
     (let k0 = (if Events_containsEvents ev kReadEvent \<and> Events_containsEvents ev kWriteEvent
                then snd (nt_soerror (me_net env) (Events_getFd ev) (mc_net s)) else mc_net s) in
      case smap_find socks (Events_getFd ev) of
        None \<Rightarrow> Some (Inl NullDeref)
      | Some key \<Rightarrow>
          let reqHead = mt_method (mc_task s) @ '' '' @ key @ kCRLF in
          bind_ro (writeSizeBytes2NoBlockSock (me_fuel env) (me_net env) (Events_getFd ev) reqHead k0) (\<lambda>(ret, k1).
          if ret = -1 \<or> ret \<noteq> int_of_size (length reqHead) then gets_serve env socks evs (s\<lparr>mc_net := k1\<rparr>)
          else bind_ro (readUntilStrWithEnd (me_fuel env) (me_net env) (Events_getFd ev) [] (''END'' @ kCRLF) k1) (\<lambda>(ret, retString, k2).
               if ret \<le> 0 then gets_serve env socks evs (s\<lparr>mc_net := k2\<rparr>)
               else bind_ro (Some (mc_send env (take (nat ret) retString) (s\<lparr>mc_net := k2\<rparr>))) (gets_serve env socks evs))))"

definition mcacheTask_handleRetriveCmd :: "('k, 'w) mc_env \<Rightarrow> ('k, 'w) mc \<Rightarrow> (bool \<times> ('k, 'w) mc) res option" where
  "mcacheTask_handleRetriveCmd env s =
     (if mt_state (mc_task s) = BEGIN_HANDLE_CMD
      then if length (mt_items (mc_task s)) \<le> 1 then Some (mc_reject env (''ERROR'' @ kCRLF) s)
        else let s1 = upd_task (\<lambda>t. t\<lparr>mt_method := hd (mt_items t), mt_keys := mt_keys t @ tl (mt_items t)\<rparr>) s in
          if mt_keys (mc_task s1) = [] then Some (mc_reject env (''ERROR'' @ kCRLF) s1)
          else bind_ro (Some (gets_connect env (mt_keys (mc_task s1)) [] Poll_new s1)) (\<lambda>(r, s2).
            case r of
              None \<Rightarrow> Some (mc_bad env s2)
            | Some (socks, pol) \<Rightarrow>
                if socks = [] then Some (mc_bad env s2)
                else let (rs, k) = nt_poll (me_net env) pol (mc_net s2); s3 = s2\<lparr>mc_net := k\<rparr> in
                  (case Poll_Loop pol [] rs of
                     None \<Rightarrow> None
                   | Some (rEvent, pol') \<Rightarrow>
                       if rEvent = [] then Some (mc_bad env s3)
                       else bind_ro (gets_serve env socks rEvent s3) (\<lambda>s4.
                            bind_ro (Some (mc_send env (''END'' @ kCRLF) s4)) (\<lambda>s5.
                            Some (Inr (True, upd_task mcacheTask_renew s5))))))
      else Some (Inr (True, upd_task mcacheTask_renew s)))"

section \<open>The state machine\<close>

text \<open>The dispatch on the class of the command.\<close>

definition mc_dispatch :: "('k, 'w) mc_env \<Rightarrow> ('k, 'w) mc \<Rightarrow> (bool \<times> ('k, 'w) mc) res option" where
  "mc_dispatch env s =
     bind_ro (Some (item (mt_items (mc_task s)) 0)) (\<lambda>cmd.
     if memProtocol_isStorageCommand cmd then mcacheTask_handleStrogeCmd env s
     else if memProtocol_isRetrievalCommand cmd then mcacheTask_handleRetriveCmd env s
     else if memProtocol_isDeleteCommand cmd then mcacheTask_handleDeleteCmd env s
     else if memProtocol_isIncrDecrCommand cmd then mcacheTask_handleIncrDecrCmd env s
     else if memProtocol_isOtherCommand cmd then mcacheTask_handleOtherCmd env s
     else Some (mc_reject env (''ERROR'' @ kCRLF) s))"

text \<open>\<open>PARSE_PROTOCOL\<close>: the command line, its words, and the check of the command.\<close>

definition mc_parse :: "('k, 'w) mc_env \<Rightarrow> ('k, 'w) mc \<Rightarrow> (bool \<times> ('k, 'w) mc) res option" where
  "mc_parse env s =
     (case Buffer_findCRLF (mc_buf s) of
        None \<Rightarrow> Some (Inl NullDeref)
      | Some endp \<Rightarrow>
          bind_ro (Some (Buffer_retrieveAsString (mc_buf s) (endp - Buffer_peek (mc_buf s)))) (\<lambda>(head, b1).
          bind_ro (Some (Buffer_retrieve b1 2)) (\<lambda>b2.
          let s1 = upd_task (\<lambda>t. t\<lparr>mt_head := head, mt_items := mt_items t @ filter (\<lambda>x. x \<noteq> []) (me_split env head)\<rparr>)
                     (s\<lparr>mc_buf := b2\<rparr>) in
          case mt_items (mc_task s1) of
            [] \<Rightarrow> Some (mc_reject env (''ERROR'' @ kCRLF) s1)
          | cmd # args \<Rightarrow>
              if \<not> memProtocol_inCmdSet cmd then Some (mc_reject env (''ERROR'' @ kCRLF) s1)
              else mc_dispatch env (upd_task (\<lambda>t. mcacheTask_setState t BEGIN_HANDLE_CMD) s1))))"

definition mcacheTask_taskCommunition :: "('k, 'w) mc_env \<Rightarrow> ('k, 'w) mc \<Rightarrow> (bool \<times> ('k, 'w) mc) res option" where
  "mcacheTask_taskCommunition env s =
     (case mt_state (mc_task s) of
        BEGIN_NEW_TASK \<Rightarrow>
          if Buffer_findCRLF (mc_buf s) = None then Some (Inr (False, s))
          else mc_parse env (upd_task (\<lambda>t. mcacheTask_setState t PARSE_PROTOCOL) s)
      | PARSE_PROTOCOL \<Rightarrow> mc_parse env s
      | _ \<Rightarrow> mc_dispatch env s)"

section \<open>The states between two calls\<close>

lemma renew_new [simp]: "mcacheTask_renew t = mcacheTask_new"
  by (simp add: mcacheTask_renew_def mcacheTask_new_def)

lemma upd_task_simps [simp]:
  "mc_task (upd_task f s) = f (mc_task s)" "mc_buf (upd_task f s) = mc_buf s" "mc_conn (upd_task f s) = mc_conn s"
  "mc_hash (upd_task f s) = mc_hash s" "mc_net (upd_task f s) = mc_net s"
  by (simp_all add: upd_task_def)

lemma setState_simps [simp]:
  "mt_state (mcacheTask_setState t st) = st" "mt_items (mcacheTask_setState t st) = mt_items t"
  "mt_head (mcacheTask_setState t st) = mt_head t" "mt_bytes (mcacheTask_setState t st) = mt_bytes t"
  "mt_key (mcacheTask_setState t st) = mt_key t" "mt_noreply (mcacheTask_setState t st) = mt_noreply t"
  "mt_method (mcacheTask_setState t st) = mt_method t"
  by (simp_all add: mcacheTask_setState_def)

text \<open>
  A task is fresh, waits for the data of a storage command, or is broken; the words of the
  command are there whenever the next call looks at them.
\<close>

definition task_stable :: "mcache_task \<Rightarrow> bool" where
  "task_stable t \<longleftrightarrow> t = mcacheTask_new \<or>
     mt_items t \<noteq> [] \<and> (mt_state t = WAIT_ENOUGH_DATA \<and> memProtocol_isStorageCommand (hd (mt_items t)) \<or>
       mt_state t = BAD_TASK \<and> memProtocol_inCmdSet (hd (mt_items t)))"

lemma mc_send_task: "mc_send env msg s = Inr s' \<Longrightarrow> mc_task s' = mc_task s \<and> mc_buf s' = mc_buf s"
  by (auto simp: mc_send_def res_simps)

lemma mc_reject_task: "mc_reject env msg s = Inr (r, s') \<Longrightarrow> \<not> r \<and> mc_task s' = mcacheTask_new"
  by (auto simp: mc_reject_def res_simps)

lemma mc_bad_task: "mc_bad env s = Inr (r, s') \<Longrightarrow> \<not> r \<and> mc_task s' = mcacheTask_setState (mc_task s) BAD_TASK"
  by (auto simp: mc_bad_def res_simps dest: mc_send_task)

text \<open>What the bodies under a socket do to the task: on failure it is broken, its words stay.\<close>

definition body_ok :: "(('k, 'w) mc \<Rightarrow> (bool \<times> ('k, 'w) mc) res option) \<Rightarrow> bool" where
  "body_ok f \<longleftrightarrow> (\<forall>s r s'. f s = Some (Inr (r, s')) \<longrightarrow> mt_items (mc_task s') = mt_items (mc_task s) \<and>
     (\<not> r \<longrightarrow> mt_state (mc_task s') = BAD_TASK))"

lemma body_okI:
  assumes "\<And>s r s'. f s = Some (Inr (r, s')) \<Longrightarrow> mt_items (mc_task s') = mt_items (mc_task s) \<and>
     (\<not> r \<longrightarrow> mt_state (mc_task s') = BAD_TASK)"
  shows "body_ok f"
  unfolding body_ok_def using assms by blast

lemma body_okD:
  "body_ok f \<Longrightarrow> f s = Some (Inr (r, s')) \<Longrightarrow> mt_items (mc_task s') = mt_items (mc_task s)"
  "body_ok f \<Longrightarrow> f s = Some (Inr (False, s')) \<Longrightarrow> mt_state (mc_task s') = BAD_TASK"
  by (auto simp: body_ok_def)

text \<open>One step of \<open>getSocketFromKey\<close> per result of the kernel.\<close>

lemma Poll_EventsAdd_new: "Poll_EventsAdd Poll_new ev = Inr (True, [Events_pollEvents ev])"
  by (simp add: Poll_EventsAdd_def Poll_new_def kMaxPollNum_def)

lemma getSocketFromKey_task:
  assumes "mcacheTask_getSocketFromKey env sock s = Some (Inr (r, s'))"
  shows "mc_buf s' = mc_buf s \<and> mc_conn s' = mc_conn s \<and> (\<exists>p. mc_task s' = (mc_task s)\<lparr>mt_server := p\<rparr>)"
proof -
  from assms obtain p0 h where g: "ConsistencyHash_getMappingNodeFromKeyString (me_hash env) (mc_hash s) (mt_key (mc_task s)) = Inr (p0, h)"
    unfolding mcacheTask_getSocketFromKey_def bind_ro_eq_Inr_iff by auto
  have "mc_buf s' = mc_buf s \<and> mc_conn s' = mc_conn s \<and> mc_task s' = (mc_task s)\<lparr>mt_server := p0\<rparr>"
  proof (cases p0)
    case None
    with assms g show ?thesis by (auto simp: mcacheTask_getSocketFromKey_def upd_task_def)
  next
    case (Some p)
    obtain ok k1 where c: "nt_connect (me_net env) sock (hn_ip (ch_store h ! p)) (hn_port (ch_store h ! p)) (mc_net s) = (ok, k1)"
      by (metis surj_pair)
    obtain rs k2 where q: "nt_poll (me_net env) [Events_pollEvents (Events_new sock (kWriteEvent OR kReadEvent))] k1 = (rs, k2)"
      by (metis surj_pair)
    obtain e k3 where o: "nt_soerror (me_net env) sock k2 = (e, k3)" by (metis surj_pair)
    show ?thesis using assms
      by (auto simp: mcacheTask_getSocketFromKey_def g Some c q o Poll_EventsAdd_new upd_task_def Let_def
          split: if_splits option.splits)
  qed
  then show ?thesis by blast
qed

lemma mc_reply_ok: "body_ok (mc_reply env sock)"
  by (rule body_okI) (auto simp: mc_reply_def Let_def res_simps
      dest: mc_bad_task mc_send_task split: if_splits prod.splits)

lemma storage_body_ok: "body_ok (storage_body env sock)"
  by (rule body_okI) (auto simp: storage_body_def Let_def res_simps
      dest: mc_bad_task body_okD [OF mc_reply_ok] split: if_splits prod.splits)

lemma mc_send_head_ok:
  assumes "\<And>sock. body_ok (rest sock)"
  shows "body_ok (mc_send_head env rest sock)"
proof (rule body_okI)
  fix s r s' assume m: "mc_send_head env rest sock s = Some (Inr (r, s'))"
  then obtain ok s1 where g: "mcacheTask_getSocketFromKey env sock s = Some (Inr (ok, s1))"
    by (auto simp: mc_send_head_def res_simps)
  then have i: "mt_items (mc_task s1) = mt_items (mc_task s)" by (auto dest: getSocketFromKey_task)
  show "mt_items (mc_task s') = mt_items (mc_task s) \<and> (\<not> r \<longrightarrow> mt_state (mc_task s') = BAD_TASK)"
    using m body_okD [OF assms] unfolding mc_send_head_def g
    by (fastforce simp: i Let_def res_simps dest: mc_bad_task split: if_splits prod.splits)
qed

lemma with_socket_ok:
  assumes "\<And>fd. body_ok (f fd)"
  shows "body_ok (with_socket env f)"
proof (rule body_okI)
  fix s r s' assume m: "with_socket env f s = Some (Inr (r, s'))"
  obtain fd k where n: "nt_socket (me_net env) (mc_net s) = (fd, k)" by (metis surj_pair)
  show "mt_items (mc_task s') = mt_items (mc_task s) \<and> (\<not> r \<longrightarrow> mt_state (mc_task s') = BAD_TASK)"
    using m body_okD [OF assms, of fd "s\<lparr>mc_net := k\<rparr>"] by (auto simp: with_socket_def n res_simps)
qed

lemma mc_finish_task:
  assumes "body_ok f" and "mc_finish (f s) = Some (Inr (r, s'))"
  shows "if r then mc_task s' = mcacheTask_new
         else mt_items (mc_task s') = mt_items (mc_task s) \<and> mt_state (mc_task s') = BAD_TASK"
  using assms(2) body_okD [OF assms(1)] by (auto simp: mc_finish_def res_simps split: if_splits)

text \<open>What every handler leaves behind, for the words \<open>items\<close> of its command; \<open>w\<close> when it may wait.\<close>

definition handled :: "bool \<Rightarrow> string list \<Rightarrow> bool \<times> ('k, 'w) mc \<Rightarrow> bool" where
  "handled w items = (\<lambda>(r, s'). mc_task s' = mcacheTask_new \<or> mt_items (mc_task s') = items \<and>
     (if r then w \<and> mt_state (mc_task s') = WAIT_ENOUGH_DATA else mt_state (mc_task s') = BAD_TASK))"

lemma forward_body_ok: "body_ok (with_socket env (mc_send_head env (mc_reply env)))"
  by (intro with_socket_ok mc_send_head_ok mc_reply_ok)

lemma storage_run_body_ok: "body_ok (with_socket env (mc_send_head env (storage_body env)))"
  by (intro with_socket_ok mc_send_head_ok storage_body_ok)

lemma new_simps [simp]: "mt_state mcacheTask_new = BEGIN_NEW_TASK" "mt_items mcacheTask_new = []"
  by (simp_all add: mcacheTask_new_def)

lemma mc_forward_handled:
  "mc_forward env s = Some (Inr (r, s')) \<Longrightarrow> mt_items (mc_task s) = items \<Longrightarrow> handled w items (r, s')"
  using mc_finish_task [OF forward_body_ok, of env s r s'] by (simp add: mc_forward_def handled_def split: if_splits)

lemma mc_reject_handled: "mc_reject env msg s = Inr (r, s') \<Longrightarrow> handled w items (r, s')"
  using mc_reject_task [of env msg s r s'] by (simp add: handled_def)

lemma mc_bad_handled:
  "mc_bad env s = Inr (r, s') \<Longrightarrow> mt_items (mc_task s) = items \<Longrightarrow> handled w items (r, s')"
  using mc_bad_task [of env s r s'] by (simp add: handled_def)

lemma handled_new [simp]: "mc_task s' = mcacheTask_new \<Longrightarrow> handled w items (r, s')"
  by (simp add: handled_def)

lemma handled_quit [simp]:
  "mt_items (mc_task s') = items \<Longrightarrow> mt_state (mc_task s') = BAD_TASK \<Longrightarrow> handled w items (False, s')"
  by (simp add: handled_def)

lemma handleOtherCmd_handled:
  "mcacheTask_handleOtherCmd env s = Some (Inr (r, s')) \<Longrightarrow> handled w (mt_items (mc_task s)) (r, s')"
  by (auto simp: mcacheTask_handleOtherCmd_def res_simps Let_def
      intro: mc_reject_handled mc_forward_handled split: if_splits)

lemma handleIncrDecrCmd_handled:
  "mcacheTask_handleIncrDecrCmd env s = Some (Inr (r, s')) \<Longrightarrow> handled w (mt_items (mc_task s)) (r, s')"
  by (auto simp: mcacheTask_handleIncrDecrCmd_def res_simps Let_def
      intro: mc_reject_handled mc_forward_handled split: if_splits)

lemma handleDeleteCmd_handled:
  "mcacheTask_handleDeleteCmd env s = Some (Inr (r, s')) \<Longrightarrow> handled w (mt_items (mc_task s)) (r, s')"
  by (auto simp: mcacheTask_handleDeleteCmd_def res_simps Let_def
      intro: mc_reject_handled mc_forward_handled split: if_splits)

lemma storage_run_handled:
  "storage_run env s = Some (Inr (r, s')) \<Longrightarrow> mt_items (mc_task s) = items \<Longrightarrow> handled w items (r, s')"
  using mc_finish_task [OF storage_run_body_ok, of env s r s'] by (simp add: storage_run_def handled_def split: if_splits)

lemma storage_wait_handled:
  "storage_wait env s = Some (Inr (r, s')) \<Longrightarrow> mt_state (mc_task s) = WAIT_ENOUGH_DATA \<Longrightarrow>
    mt_items (mc_task s) = items \<Longrightarrow> handled True items (r, s')"
  by (auto simp: storage_wait_def res_simps Let_def intro: storage_run_handled split: if_splits)
    (simp add: handled_def)

lemma storage_fields_items: "storage_fields items t = Inr (Some t') \<Longrightarrow> mt_items t' = mt_items t"
  by (auto simp: storage_fields_def Let_def res_simps split: if_splits)

lemma handleStrogeCmd_handled:
  "mcacheTask_handleStrogeCmd env s = Some (Inr (r, s')) \<Longrightarrow> handled True (mt_items (mc_task s)) (r, s')"
  by (auto simp: mcacheTask_handleStrogeCmd_def res_simps dest!: storage_fields_items
      intro: mc_reject_handled storage_wait_handled storage_run_handled split: task_state.splits option.splits)

text \<open>One round of the loop over the keys: no server, a failed connection, a connection.\<close>

lemma gets_connect_ConsE:
  assumes "gets_connect env (key # keys) socks pol s = Inr (r, s')"
  obtains (unknown) h where "ConsistencyHash_getMappingNodeFromKeyString (me_hash env) (mc_hash s) key = Inr (None, h)"
      "r = None" "s' = s\<lparr>mc_hash := h\<rparr>"
    | (failed) h fd k1 n k2 where "nt_socket (me_net env) (mc_net s) = (fd, k1)"
      "nt_connect (me_net env) fd (hn_ip (n :: hash_node)) (hn_port n) k1 = (False, k2)"
      "gets_connect env keys socks pol (s\<lparr>mc_hash := h, mc_net := nt_close (me_net env) fd k2\<rparr>) = Inr (r, s')"
    | (connected) h fd k1 n k2 a pol' where "nt_socket (me_net env) (mc_net s) = (fd, k1)"
      "nt_connect (me_net env) fd (hn_ip (n :: hash_node)) (hn_port n) k1 = (True, k2)"
      "Poll_EventsAdd pol (Events_new fd (kWriteEvent OR kReadEvent)) = Inr (a, pol')"
      "gets_connect env keys (smap_insert socks fd key) pol' (s\<lparr>mc_hash := h, mc_net := nt_close (me_net env) fd k2\<rparr>) = Inr (r, s')"
proof -
  from assms obtain p0 h where g: "ConsistencyHash_getMappingNodeFromKeyString (me_hash env) (mc_hash s) key = Inr (p0, h)"
    unfolding gets_connect.simps bind_res_eq_Inr_iff by auto
  obtain fd k1 where n: "nt_socket (me_net env) (mc_net s) = (fd, k1)" by (metis surj_pair)
  show thesis
  proof (cases p0)
    case None
    with assms g show thesis by (intro unknown) auto
  next
    case (Some p)
    obtain ok k2 where c: "nt_connect (me_net env) fd (hn_ip (ch_store h ! p)) (hn_port (ch_store h ! p)) k1 = (ok, k2)"
      by (metis surj_pair)
    show thesis
    proof (cases ok)
      case True
      with assms g Some n c obtain a pol' where "Poll_EventsAdd pol (Events_new fd (kWriteEvent OR kReadEvent)) = Inr (a, pol')"
        "gets_connect env keys (smap_insert socks fd key) pol' (s\<lparr>mc_hash := h, mc_net := nt_close (me_net env) fd k2\<rparr>) = Inr (r, s')"
        by (auto simp: res_simps)
      with True n c show thesis by (intro connected [of fd k1 "ch_store h ! p" k2 a pol' h]) simp_all
    next
      case False
      with assms g Some n c show thesis by (intro failed [of fd k1 "ch_store h ! p" k2 h]) simp_all
    qed
  qed
qed

lemma gets_connect_task: "gets_connect env keys socks pol s = Inr (r, s') \<Longrightarrow> mc_task s' = mc_task s"
proof (induction keys arbitrary: socks pol s)
  case (Cons key keys)
  from Cons.prems show ?case by (cases rule: gets_connect_ConsE) (auto dest: Cons.IH)
qed simp

lemma gets_serve_task: "gets_serve env socks evs s = Some (Inr s') \<Longrightarrow> mc_task s' = mc_task s"
proof (induction evs arbitrary: s)
  case (Cons ev evs)
  then show ?case
    by (auto simp: Let_def res_simps dest!: Cons.IH mc_send_task split: option.splits if_splits prod.splits)
qed simp

lemma handleRetriveCmd_handled:
  assumes "mcacheTask_handleRetriveCmd env s = Some (Inr (r, s'))"
  shows "handled w (mt_items (mc_task s)) (r, s')"
proof (cases "mt_state (mc_task s) = BEGIN_HANDLE_CMD \<and> 1 < length (mt_items (mc_task s))")
  case False
  with assms show ?thesis
    by (auto simp: mcacheTask_handleRetriveCmd_def intro: mc_reject_handled split: if_splits)
next
  case True
  define s1 where "s1 = upd_task (\<lambda>t. t\<lparr>mt_method := hd (mt_items t), mt_keys := mt_keys t @ tl (mt_items t)\<rparr>) s"
  have i: "mt_items (mc_task s1) = mt_items (mc_task s)" by (simp add: s1_def)
  have ne: "mt_keys (mc_task s1) \<noteq> []" using True by (cases "mt_items (mc_task s)") (auto simp: s1_def)
  from assms True ne obtain q s2 where g: "gets_connect env (mt_keys (mc_task s1)) [] Poll_new s1 = Inr (q, s2)"
    by (auto simp: mcacheTask_handleRetriveCmd_def Let_def s1_def [symmetric] bind_ro_eq_Inr_iff)
  from gets_connect_task [OF g] have i2: "mt_items (mc_task s2) = mt_items (mc_task s)" by (simp add: i)
  show ?thesis
  proof (cases q)
    case None
    with assms True ne g i2 show ?thesis
      by (auto simp: mcacheTask_handleRetriveCmd_def Let_def s1_def [symmetric] intro: mc_bad_handled)
  next
    case (Some sp)
    obtain rs k where p: "nt_poll (me_net env) (snd sp) (mc_net s2) = (rs, k)" by (metis surj_pair)
    show ?thesis using assms True ne g i2 Some p
      by (cases sp) (auto simp: mcacheTask_handleRetriveCmd_def Let_def s1_def [symmetric] res_simps
        dest!: mc_bad_handled [OF _ refl, where w = w] split: if_splits option.splits)
  qed
qed

lemma mc_dispatch_handled:
  assumes "mc_dispatch env s = Some (Inr (r, s'))"
  shows "handled (memProtocol_isStorageCommand (hd (mt_items (mc_task s)))) (mt_items (mc_task s)) (r, s')"
proof -
  from assms obtain cmd where c: "item (mt_items (mc_task s)) 0 = Inr cmd" by (auto simp: mc_dispatch_def res_simps)
  then have "hd (mt_items (mc_task s)) = cmd" by (cases "mt_items (mc_task s)") (auto simp: item_def)
  with assms c show ?thesis
    by (auto simp: mc_dispatch_def split: if_splits
      intro: handleStrogeCmd_handled handleRetriveCmd_handled handleDeleteCmd_handled handleIncrDecrCmd_handled
        handleOtherCmd_handled mc_reject_handled)
qed

end
