(* ===== verification/Mcache_Behaviour.thy ===== *)
theory Mcache_Behaviour
  imports Mcache_Task
begin

text \<open>
  The properties of the memcache task (\<open>src/mdm/mcacheTask.cpp\<close>): its states between two
  calls, the answers to malformed command lines, the relayed storage command, and the
  inputs on which the code fails.
\<close>

section \<open>The invariant\<close>

lemma handled_stable:
  assumes "handled (memProtocol_isStorageCommand (hd items)) items (r, s')" and "items \<noteq> []"
    and "memProtocol_inCmdSet (hd items)"
  shows "task_stable (mc_task s') \<and> mt_state (mc_task s') \<noteq> (if r then BAD_TASK else WAIT_ENOUGH_DATA)"
  using assms by (auto simp: handled_def task_stable_def split: if_splits)

lemma storage_inCmdSet: "memProtocol_isStorageCommand c \<Longrightarrow> memProtocol_inCmdSet c"
  by (simp add: memProtocol_inCmdSet_def)

lemma mc_parse_stable:
  assumes "mc_parse env s = Some (Inr (r, s'))" and "mt_items (mc_task s) = []"
  shows "task_stable (mc_task s') \<and> mt_state (mc_task s') \<noteq> (if r then BAD_TASK else WAIT_ENOUGH_DATA)"
proof -
  from assms(1) obtain endp head b1 b2 where b: "Buffer_findCRLF (mc_buf s) = Some endp"
    "Buffer_retrieveAsString (mc_buf s) (endp - Buffer_peek (mc_buf s)) = Inr (head, b1)" "Buffer_retrieve b1 2 = Inr b2"
    by (auto simp: mc_parse_def res_simps split: option.splits)
  let ?items = "filter (\<lambda>x. x \<noteq> []) (me_split env head)"
  show ?thesis
  proof (cases ?items)
    case Nil
    with assms b show ?thesis by (auto simp: mc_parse_def task_stable_def dest!: mc_reject_task)
  next
    case (Cons cmd args)
    show ?thesis
    proof (cases "memProtocol_inCmdSet cmd")
      case False
      with Cons assms b show ?thesis by (auto simp: mc_parse_def task_stable_def dest!: mc_reject_task)
    next
      case True
      with Cons assms b obtain s1 where s1: "mc_dispatch env s1 = Some (Inr (r, s'))" "mt_items (mc_task s1) = ?items"
        by (auto simp: mc_parse_def)
      from mc_dispatch_handled [OF s1(1)] s1(2) Cons True show ?thesis
        by (intro handled_stable [of ?items]) simp_all
    qed
  qed
qed

text \<open>
  C24: Between two calls the task is fresh, waits for the data of a storage command, or is
  broken, and the words of its command are there: the intermediate states never survive
  a call, whatever the client sends and the servers answer. A call that returns true
  leaves the task fresh or waiting, one that returns false fresh or broken.
\<close>
theorem mcache_states:
  assumes "task_stable (mc_task s)" and "mcacheTask_taskCommunition env s = Some (Inr (r, s'))"
  shows "task_stable (mc_task s') \<and> mt_state (mc_task s') \<noteq> (if r then BAD_TASK else WAIT_ENOUGH_DATA)"
proof (cases "mc_task s = mcacheTask_new")
  case True
  then show ?thesis using assms(2) mc_parse_stable [of env "upd_task (\<lambda>t. mcacheTask_setState t PARSE_PROTOCOL) s" r s']
    by (auto simp: mcacheTask_taskCommunition_def task_stable_def split: if_splits)
next
  case False
  with assms(1) have i: "mt_items (mc_task s) \<noteq> []" "memProtocol_inCmdSet (hd (mt_items (mc_task s)))"
    and "mt_state (mc_task s) = WAIT_ENOUGH_DATA \<or> mt_state (mc_task s) = BAD_TASK"
    by (auto simp: task_stable_def storage_inCmdSet)
  with assms(2) have "mc_dispatch env s = Some (Inr (r, s'))" by (auto simp: mcacheTask_taskCommunition_def)
  from mc_dispatch_handled [OF this] i show ?thesis by (rule handled_stable)
qed

text \<open>A kernel that logs what it is given, and a client side that logs what it is sent.\<close>

fun split_at_char :: "char \<Rightarrow> string \<Rightarrow> string \<Rightarrow> string list" where
  "split_at_char d acc [] = [acc]"
| "split_at_char d acc (c # s) = (if c = d then acc # split_at_char d [] s else split_at_char d (acc @ [c]) s)"

definition demo_net :: "string net" where
  "demo_net = \<lparr>nt_socket = (\<lambda>k. (7, k)), nt_connect = (\<lambda>fd ip port k. (True, k)),
     nt_poll = (\<lambda>p k. ([PollReady 1 [4]], k)), nt_soerror = (\<lambda>fd k. (Some 0, k)),
     nt_write = (\<lambda>fd b k. (WriteBytes (length b), k @ b)),
     nt_read = (\<lambda>fd n k. (IoBytes (''STORED'' @ kCRLF), k)), nt_close = (\<lambda>fd k. k)\<rparr>"

definition demo_mc_env :: "(string, string) mc_env" where
  "demo_mc_env = \<lparr>me_hash = demo_env, me_net = demo_net, me_send = (\<lambda>msg w. Inr (w @ msg)),
     me_split = split_at_char CHR '' '' [], me_fuel = 2\<rparr>"

text \<open>A buffer with the input behind the reserved bytes and zeros behind it.\<close>

definition input_buffer :: "string \<Rightarrow> buffer" where
  "input_buffer cs = \<lparr>initialSize = 0, storage = replicate 8 (CHR 0x00) @ cs @ replicate 8 (CHR 0x00), readerIndex = 8,
     writerIndex = 8 + length cs\<rparr>"

lemma input_buffer_facts:
  assumes "length cs < 100"
  shows "Buffer_inv (input_buffer cs)" "Buffer_content (input_buffer cs) = cs"
  using assms by (simp_all add: input_buffer_def Buffer_inv_def Buffer_content_alt vec_slice_def kCheapPrepend_def vec_max_def)

definition demo_mc :: "string \<Rightarrow> (string, string) mc" where
  "demo_mc cs = \<lparr>mc_task = mcacheTask_new, mc_buf = input_buffer cs, mc_conn = [], mc_hash = demo_ring, mc_net = []\<rparr>"

lemmas demo_mc_defs = demo_mc_def demo_mc_env_def demo_net_def input_buffer_def

lemma item_0 [simp]: "item (c # xs) 0 = Inr c"
  by (simp add: item_def)

lemma demo_mc_buf: "mc_buf (demo_mc cs) = input_buffer cs" "mc_task (demo_mc cs) = mcacheTask_new"
  by (simp_all add: demo_mc_def)

section \<open>The command line\<close>

definition command_words :: "('k, 'w) mc_env \<Rightarrow> string \<Rightarrow> string list" where
  "command_words env head = filter (\<lambda>x. x \<noteq> []) (me_split env head)"

text \<open>The state in which the command of the line is looked up.\<close>

definition parsed :: "('k, 'w) mc_env \<Rightarrow> string \<Rightarrow> buffer \<Rightarrow> ('k, 'w) mc \<Rightarrow> ('k, 'w) mc" where
  "parsed env head b s = s\<lparr>mc_buf := b, mc_task := mcacheTask_new\<lparr>mt_state := PARSE_PROTOCOL, mt_head := head,
     mt_items := command_words env head\<rparr>\<rparr>"

lemma parsed_simps [simp]:
  "mc_buf (parsed env head b s) = b" "mc_conn (parsed env head b s) = mc_conn s" "mc_hash (parsed env head b s) = mc_hash s"
  "mc_net (parsed env head b s) = mc_net s" "mt_items (mc_task (parsed env head b s)) = command_words env head"
  "mt_head (mc_task (parsed env head b s)) = head" "mt_keys (mc_task (parsed env head b s)) = []"
  "mt_noreply (mc_task (parsed env head b s)) = []" "mt_method (mc_task (parsed env head b s)) = []"
  by (simp_all add: parsed_def mcacheTask_new_def)

text \<open>Reading does not change the memory of the vector, nor where it is written next.\<close>

lemma retrieve_frame:
  "Buffer_retrieve b n = Inr b' \<Longrightarrow> storage b' = storage b \<and> (n < Buffer_readableBytes b \<longrightarrow> writerIndex b' = writerIndex b)"
  by (auto simp: Buffer_retrieve_def Buffer_retrieveAll_def split: if_splits)

lemma retrieveAsString_frame:
  "Buffer_retrieveAsString b n = Inr (s, b') \<Longrightarrow> storage b' = storage b \<and> (n < Buffer_readableBytes b \<longrightarrow> writerIndex b' = writerIndex b)"
  by (auto simp: Buffer_retrieveAsString_def res_simps dest!: retrieve_frame split: if_splits)

lemma content_memory:
  assumes "Buffer_inv b"
  shows "drop (Buffer_peek b) (storage b) = Buffer_content b @ drop (writerIndex b) (storage b)"
proof -
  from Buffer_invD(1) [OF assms] obtain n where "writerIndex b = readerIndex b + n" using le_Suc_ex by blast
  then show ?thesis
    by (simp add: Buffer_content_alt vec_slice_def Buffer_peek_def) (metis append_take_drop_id drop_drop add.commute)
qed

lemma readable_content: "Buffer_inv b \<Longrightarrow> Buffer_readableBytes b = length (Buffer_content b)"
  by (simp add: Buffer_length_content buffer_simps Buffer_invD)

lemma take_line:
  assumes "Buffer_inv b" and "Buffer_content b = head @ kCRLF @ rest" and "CHR 0x0D \<notin> set head"
  obtains b1 b2 where "Buffer_findCRLF b = Some (readerIndex b + length head)"
    "Buffer_retrieveAsString b (length head) = Inr (head, b1)" "Buffer_retrieve b1 2 = Inr b2"
    "Buffer_inv b2" "Buffer_content b2 = rest"
    "rest \<noteq> [] \<longrightarrow> drop (Buffer_peek b2) (storage b2) = rest @ drop (writerIndex b) (storage b)"
proof -
  from assms(2) have l: "length head < length (Buffer_content b)" by (simp add: kCRLF_def)
  from retrieveAsString_reader [OF assms(1) l] obtain b1 where b1: "Buffer_retrieveAsString b (length head) = Inr (head, b1)"
    "Buffer_inv b1" "Buffer_content b1 = kCRLF @ rest" by (auto simp: assms(2))
  from Buffer_retrieve_ok [OF b1(2), of 2] b1(3) obtain b2 where b2: "Buffer_retrieve b1 2 = Inr b2" "Buffer_inv b2" "Buffer_content b2 = rest"
    by (auto simp: kCRLF_def)
  have "rest \<noteq> [] \<longrightarrow> drop (Buffer_peek b2) (storage b2) = rest @ drop (writerIndex b) (storage b)"
    using retrieveAsString_frame [OF b1(1)] retrieve_frame [OF b2(1)] l readable_content [OF assms(1)]
      readable_content [OF b1(2)] b1(3) content_memory [OF b2(2)] b2(3) by (simp add: kCRLF_def)
  with that findCRLF_line [OF assms] b1(1) b2 show thesis by blast
qed

lemma taskCommunition_line:
  assumes "mc_task s = mcacheTask_new" and "Buffer_inv (mc_buf s)" and "Buffer_content (mc_buf s) = head @ kCRLF @ rest"
    and "CHR 0x0D \<notin> set head"
  obtains b where "Buffer_inv b" "Buffer_content b = rest"
    "rest \<noteq> [] \<longrightarrow> drop (Buffer_peek b) (storage b) = rest @ drop (writerIndex (mc_buf s)) (storage (mc_buf s))"
    "mcacheTask_taskCommunition env s =
       (case command_words env head of
          [] \<Rightarrow> Some (mc_reject env (''ERROR'' @ kCRLF) (parsed env head b s))
        | cmd # args \<Rightarrow>
            if \<not> memProtocol_inCmdSet cmd then Some (mc_reject env (''ERROR'' @ kCRLF) (parsed env head b s))
            else mc_dispatch env (upd_task (\<lambda>t. mcacheTask_setState t BEGIN_HANDLE_CMD) (parsed env head b s)))"
proof -
  from take_line [OF assms(2-4)] obtain b1 b where b: "Buffer_findCRLF (mc_buf s) = Some (readerIndex (mc_buf s) + length head)"
    "Buffer_retrieveAsString (mc_buf s) (length head) = Inr (head, b1)" "Buffer_retrieve b1 2 = Inr b"
    and r: "Buffer_inv b" "Buffer_content b = rest"
      "rest \<noteq> [] \<longrightarrow> drop (Buffer_peek b) (storage b) = rest @ drop (writerIndex (mc_buf s)) (storage (mc_buf s))"
    by blast
  have "mcacheTask_taskCommunition env s = mc_parse env (upd_task (\<lambda>t. mcacheTask_setState t PARSE_PROTOCOL) s)"
    using assms(1) b(1) by (simp add: mcacheTask_taskCommunition_def mcacheTask_new_def)
  moreover have "(upd_task (\<lambda>t. mcacheTask_setState t PARSE_PROTOCOL) s)\<lparr>mc_buf := b,
      mc_task := mcacheTask_new\<lparr>mt_state := PARSE_PROTOCOL, mt_head := head, mt_items := command_words env head\<rparr>\<rparr> =
      parsed env head b s" by (simp add: parsed_def upd_task_def)
  ultimately have "mcacheTask_taskCommunition env s =
       (case command_words env head of
          [] \<Rightarrow> Some (mc_reject env (''ERROR'' @ kCRLF) (parsed env head b s))
        | cmd # args \<Rightarrow>
            if \<not> memProtocol_inCmdSet cmd then Some (mc_reject env (''ERROR'' @ kCRLF) (parsed env head b s))
            else mc_dispatch env (upd_task (\<lambda>t. mcacheTask_setState t BEGIN_HANDLE_CMD) (parsed env head b s)))"
    using b assms(1)
    by (cases "command_words env head") (simp_all add: mc_parse_def Buffer_peek_def parsed_def upd_task_def
      command_words_def mcacheTask_setState_def mcacheTask_new_def Let_def)
  with that [OF r] show thesis by blast
qed

lemma demo_quit:
  "\<exists>s. mcacheTask_taskCommunition demo_mc_env (demo_mc (''quit'' @ kCRLF)) = Some (Inr (False, s)) \<and>
    mt_state (mc_task s) = BAD_TASK"
proof -
  let ?s = "demo_mc (''quit'' @ kCRLF)"
  have "Buffer_inv (mc_buf ?s)" "Buffer_content (mc_buf ?s) = ''quit'' @ kCRLF @ []"
    by (simp_all add: demo_mc_buf input_buffer_facts kCRLF_def)
  from taskCommunition_line [OF demo_mc_buf(2) this, where env = demo_mc_env] obtain b where
    "mcacheTask_taskCommunition demo_mc_env ?s =
       (case command_words demo_mc_env ''quit'' of
          [] \<Rightarrow> Some (mc_reject demo_mc_env (''ERROR'' @ kCRLF) (parsed demo_mc_env ''quit'' b ?s))
        | cmd # args \<Rightarrow>
            if \<not> memProtocol_inCmdSet cmd then Some (mc_reject demo_mc_env (''ERROR'' @ kCRLF) (parsed demo_mc_env ''quit'' b ?s))
            else mc_dispatch demo_mc_env (upd_task (\<lambda>t. mcacheTask_setState t BEGIN_HANDLE_CMD) (parsed demo_mc_env ''quit'' b ?s)))"
    by (auto simp: kCRLF_def)
  moreover have "command_words demo_mc_env ''quit'' = [''quit'']" by (simp add: command_words_def demo_mc_env_def)
  ultimately show ?thesis by (simp add: mem_protocol_defs mc_dispatch_def mcacheTask_handleOtherCmd_def)
qed

theorem mcache_states_witness:
  "\<exists>s. mcacheTask_taskCommunition demo_mc_env (demo_mc (''quit'' @ kCRLF)) = Some (Inr (False, s)) \<and>
    task_stable (mc_task s) \<and> mt_state (mc_task s) = BAD_TASK"
proof -
  obtain s where s: "mcacheTask_taskCommunition demo_mc_env (demo_mc (''quit'' @ kCRLF)) = Some (Inr (False, s))"
    "mt_state (mc_task s) = BAD_TASK" using demo_quit by (elim exE conjE)
  have "task_stable (mc_task (demo_mc (''quit'' @ kCRLF)))" by (simp add: demo_mc_buf task_stable_def)
  from mcache_states [OF this s(1)] s show ?thesis by auto
qed

section \<open>Malformed commands\<close>

text \<open>The answer to a command line that is turned down before any server is asked.\<close>

definition line_error :: "string list \<Rightarrow> string option" where
  "line_error items =
     (case items of
        [] \<Rightarrow> Some (''ERROR'' @ kCRLF)
      | c # args \<Rightarrow>
          if \<not> memProtocol_inCmdSet c then Some (''ERROR'' @ kCRLF)
          else if memProtocol_isStorageCommand c
          then if length items \<notin> {5, 6, 7} \<or> c = ''cas'' \<and> length items = 5 \<and> \<not> isl (atoi (items ! 4))
               then Some (''ERROR'' @ kCRLF) else None
          else if memProtocol_isRetrievalCommand c
          then if length items \<le> 1 then Some (''ERROR'' @ kCRLF) else None
          else if memProtocol_isDeleteCommand c
          then if length items \<le> 1 then Some (''ERROR'' @ kCRLF)
               else if 3 < length items \<or> length items = 3 \<and> items ! 2 \<noteq> ''noreply'' then Some delete_usage else None
          else if memProtocol_isIncrDecrCommand c
          then if length items \<notin> {3, 4} then Some (''ERROR'' @ kCRLF)
               else (case atoi (items ! 2) of
                       Inl e \<Rightarrow> None
                     | Inr v \<Rightarrow> if v < 0 \<and> (length items = 4 \<longrightarrow> items ! 3 \<noteq> ''noreply'')
                               then Some (''CLIENT_ERROR invalid numeric delta argument'' @ kCRLF) else None)
          else if c = ''touch'' \<and> length items \<notin> {3, 4} then Some (''ERROR'' @ kCRLF) else None)"

definition rejected :: "('k, 'w) mc_env \<Rightarrow> string \<Rightarrow> ('k, 'w) mc \<Rightarrow> (bool \<times> ('k, 'w) mc) res" where
  "rejected env msg s = bind_res (me_send env msg (mc_conn s)) (\<lambda>w. Inr (False, s\<lparr>mc_task := mcacheTask_new, mc_conn := w\<rparr>))"

lemma mc_reject_rejected: "mc_reject env msg s = rejected env msg s"
  by (cases "me_send env msg (mc_conn s)") (simp_all add: mc_reject_def rejected_def mc_send_def upd_task_def)

lemma rejected_upd_task [simp]: "rejected env msg (upd_task f s) = rejected env msg s"
  by (simp add: rejected_def upd_task_def)

lemma rejected_task [simp]: "rejected env msg (s\<lparr>mc_task := t\<rparr>) = rejected env msg s"
  by (simp add: rejected_def)

lemma mc_dispatch_line_error:
  assumes "mt_items (mc_task s) = c # args" and "memProtocol_inCmdSet c" and "line_error (c # args) = Some msg"
    and "mt_state (mc_task s) = BEGIN_HANDLE_CMD" and "mt_noreply (mc_task s) = []" and "mt_keys (mc_task s) = []"
  shows "mc_dispatch env s = Some (rejected env msg s)"
proof -
  consider "memProtocol_isStorageCommand c" | "memProtocol_isRetrievalCommand c" | "memProtocol_isDeleteCommand c"
    | "memProtocol_isIncrDecrCommand c" | "memProtocol_isOtherCommand c"
    using assms(2) by (auto simp: memProtocol_inCmdSet_def)
  then show ?thesis
  proof cases
    case 1
    with assms show ?thesis
      by (cases "atoi (args ! 3)") (auto simp: mc_dispatch_def mcacheTask_handleStrogeCmd_def storage_fields_def line_error_def mc_reject_rejected
        Let_def split: if_splits sum.splits)
  next
    case 2
    with assms command_classes show ?thesis
      by (auto simp: mc_dispatch_def mcacheTask_handleRetriveCmd_def line_error_def mc_reject_rejected split: if_splits)
  next
    case 3
    with assms command_classes show ?thesis
      by (auto simp: mc_dispatch_def mcacheTask_handleDeleteCmd_def line_error_def mc_reject_rejected memProtocol_getNoreply_def
        Let_def split: if_splits)
  next
    case 4
    with assms command_classes show ?thesis
      by (auto simp: mc_dispatch_def mcacheTask_handleIncrDecrCmd_def line_error_def mc_reject_rejected memProtocol_getNoreply_def
        Let_def split: if_splits sum.splits)
  next
    case 5
    with assms command_classes show ?thesis
      by (auto simp: mc_dispatch_def mcacheTask_handleOtherCmd_def line_error_def mc_reject_rejected Let_def split: if_splits)
  qed
qed

text \<open>
  C27: A command line that is malformed (no word, an unknown command, a wrong number of
  words, a negative or misplaced argument) is answered with the error of the protocol:
  exactly the line is taken off the buffer, no server is asked, the task is fresh
  again and the call returns false. \<open>line_error\<close> is the table of these answers.
\<close>
theorem mcache_malformed_line:
  assumes "mc_task s = mcacheTask_new" and "Buffer_inv (mc_buf s)" and "Buffer_content (mc_buf s) = head @ kCRLF @ rest"
    and "CHR 0x0D \<notin> set head" and "line_error (command_words env head) = Some msg"
  shows "\<exists>b. Buffer_inv b \<and> Buffer_content b = rest \<and>
    mcacheTask_taskCommunition env s =
      Some (bind_res (me_send env msg (mc_conn s)) (\<lambda>w. Inr (False, s\<lparr>mc_buf := b, mc_conn := w\<rparr>)))"
proof -
  from assms(1-4) obtain b where b: "Buffer_inv b" "Buffer_content b = rest"
    "mcacheTask_taskCommunition env s =
       (case command_words env head of
          [] \<Rightarrow> Some (mc_reject env (''ERROR'' @ kCRLF) (parsed env head b s))
        | cmd # args \<Rightarrow>
            if \<not> memProtocol_inCmdSet cmd then Some (mc_reject env (''ERROR'' @ kCRLF) (parsed env head b s))
            else mc_dispatch env (upd_task (\<lambda>t. mcacheTask_setState t BEGIN_HANDLE_CMD) (parsed env head b s)))"
    by (rule taskCommunition_line)
  have "mcacheTask_taskCommunition env s = Some (rejected env msg (parsed env head b s))"
  proof (cases "command_words env head")
    case Nil
    with b(3) assms(5) show ?thesis by (auto simp: line_error_def mc_reject_rejected)
  next
    case (Cons c args)
    show ?thesis
    proof (cases "memProtocol_inCmdSet c")
      case True
      then have "mc_dispatch env (upd_task (\<lambda>t. mcacheTask_setState t BEGIN_HANDLE_CMD) (parsed env head b s)) =
          Some (rejected env msg (upd_task (\<lambda>t. mcacheTask_setState t BEGIN_HANDLE_CMD) (parsed env head b s)))"
        using Cons assms(5)
        by (intro mc_dispatch_line_error [of _ c args]) (simp_all add: mcacheTask_setState_def)
      with b(3) Cons True show ?thesis by simp
    qed (use b(3) Cons assms(5) in \<open>auto simp: line_error_def mc_reject_rejected\<close>)
  qed
  moreover have "rejected env msg (parsed env head b s) =
      bind_res (me_send env msg (mc_conn s)) (\<lambda>w. Inr (False, s\<lparr>mc_buf := b, mc_conn := w\<rparr>))"
    using assms(1) by (cases s) (simp add: rejected_def parsed_def)
  ultimately show ?thesis using b(1,2) by auto
qed

theorem mcache_malformed_line_witness:
  "\<exists>b. Buffer_inv b \<and> Buffer_content b = ''rest'' \<and>
    mcacheTask_taskCommunition demo_mc_env (demo_mc (''bogus 1'' @ kCRLF @ ''rest'')) =
      Some (Inr (False, (demo_mc (''bogus 1'' @ kCRLF @ ''rest''))\<lparr>mc_buf := b, mc_conn := ''ERROR'' @ kCRLF\<rparr>))"
proof -
  let ?s = "demo_mc (''bogus 1'' @ kCRLF @ ''rest'')"
  have "line_error (command_words demo_mc_env ''bogus 1'') = Some (''ERROR'' @ kCRLF)"
    by (simp add: command_words_def demo_mc_env_def line_error_def mem_protocol_defs)
  moreover have "Buffer_inv (mc_buf ?s)" "Buffer_content (mc_buf ?s) = ''bogus 1'' @ kCRLF @ ''rest''"
    by (simp_all add: demo_mc_def input_buffer_facts kCRLF_def)
  ultimately have "\<exists>b. Buffer_inv b \<and> Buffer_content b = ''rest'' \<and> mcacheTask_taskCommunition demo_mc_env ?s =
      Some (bind_res (me_send demo_mc_env (''ERROR'' @ kCRLF) (mc_conn ?s)) (\<lambda>w. Inr (False, ?s\<lparr>mc_buf := b, mc_conn := w\<rparr>)))"
    by (intro mcache_malformed_line [where head = "''bogus 1''"]) (simp_all add: demo_mc_def)
  then show ?thesis by (simp add: demo_mc_env_def demo_mc_def)
qed

section \<open>Relaying a command\<close>

text \<open>
  The ring picks server \<open>p\<close> for the key, and connecting the socket \<open>fd\<close> to it succeeds: the
  poll reports it ready and it has no pending error.
\<close>

definition server_link :: "('k, 'w) mc_env \<Rightarrow> cons_hash \<Rightarrow> string \<Rightarrow> int \<Rightarrow> 'k \<Rightarrow> nat \<Rightarrow> cons_hash \<Rightarrow> 'k \<Rightarrow> bool" where
  "server_link env ch key fd k p h k' \<longleftrightarrow>
     ConsistencyHash_getMappingNodeFromKeyString (me_hash env) ch key = Inr (Some p, h) \<and>
     (\<exists>k1 k2 rs ev evs pol. nt_connect (me_net env) fd (hn_ip (ch_store h ! p)) (hn_port (ch_store h ! p)) k = (True, k1) \<and>
       nt_poll (me_net env) [Events_pollEvents (Events_new fd (kWriteEvent OR kReadEvent))] k1 = (rs, k2) \<and>
       Poll_Loop [Events_pollEvents (Events_new fd (kWriteEvent OR kReadEvent))] [] rs = Some (ev # evs, pol) \<and>
       Events_containsAtLeastOneEvents ev (kWriteEvent OR kReadEvent) \<and> nt_soerror (me_net env) fd k2 = (Some 0, k'))"

lemma getSocketFromKey_link:
  assumes "server_link env (mc_hash s) (mt_key (mc_task s)) fd (mc_net s) p h k'"
  shows "mcacheTask_getSocketFromKey env fd s =
    Some (Inr (True, s\<lparr>mc_hash := h, mc_task := (mc_task s)\<lparr>mt_server := Some p\<rparr>, mc_net := k'\<rparr>))"
  using assms by (auto simp: server_link_def mcacheTask_getSocketFromKey_def Poll_EventsAdd_new upd_task_def Let_def)

lemma int_of_size_small: "n < 2 ^ 31 \<Longrightarrow> int_of_size n = int n"
  by (simp add: int_of_size_def signed_take_bit_int_eq_self)

text \<open>The bytes of the chunks are sent one chunk after the other, each completely.\<close>

fun sends :: "('k, 'w) mc_env \<Rightarrow> int \<Rightarrow> string list \<Rightarrow> 'k \<Rightarrow> 'k \<Rightarrow> bool" where
  "sends env fd [] k k' = (k' = k)"
| "sends env fd (c # cs) k k' =
     (length c < 2 ^ 31 \<and> (\<exists>k1. writeSizeBytes2NoBlockSock (me_fuel env) (me_net env) fd c k = Some (Inr (int (length c), k1)) \<and>
        sends env fd cs k1 k'))"

text \<open>The server's answer goes to the client, up to and with its line break; nothing does for \<open>noreply\<close>.\<close>

definition answers :: "('k, 'w) mc_env \<Rightarrow> bool \<Rightarrow> int \<Rightarrow> 'k \<Rightarrow> 'w \<Rightarrow> 'k \<Rightarrow> 'w \<Rightarrow> bool" where
  "answers env quiet fd k w k' w' \<longleftrightarrow>
     (if quiet then k' = k \<and> w' = w
      else \<exists>ret str. readUntilStrWithEnd (me_fuel env) (me_net env) fd [] kCRLF k = Some (Inr (ret, str, k')) \<and> 0 < ret \<and>
        me_send env (take (nat ret + 2) str) w = Inr w')"

text \<open>A whole exchange with the server of the key, from the new socket to its closing.\<close>

definition exchange :: "('k, 'w) mc_env \<Rightarrow> cons_hash \<Rightarrow> string \<Rightarrow> string list \<Rightarrow> bool \<Rightarrow> 'k \<Rightarrow> 'w \<Rightarrow> cons_hash \<Rightarrow> 'k \<Rightarrow> 'w \<Rightarrow> bool" where
  "exchange env ch key chunks quiet k w h k' w' \<longleftrightarrow>
     (\<exists>fd k0 p k1 k2 k3. nt_socket (me_net env) k = (fd, k0) \<and> server_link env ch key fd k0 p h k1 \<and>
        sends env fd chunks k1 k2 \<and> answers env quiet fd k2 w k3 w' \<and> k' = nt_close (me_net env) fd k3)"

lemma mc_reply_answers:
  assumes "answers env (mt_noreply (mc_task s) = ''noreply'') fd (mc_net s) (mc_conn s) k w"
  shows "mc_reply env fd s = Some (Inr (True, s\<lparr>mc_net := k, mc_conn := w\<rparr>))"
proof (cases "mt_noreply (mc_task s) = ''noreply''")
  case True
  with assms show ?thesis by (simp add: answers_def mc_reply_def memProtocol_getNoreply_def)
next
  case False
  with assms show ?thesis by (auto simp: answers_def mc_reply_def memProtocol_getNoreply_def mc_send_def)
qed

lemma mc_send_head_link:
  assumes "server_link env (mc_hash s) (mt_key (mc_task s)) fd (mc_net s) p h k1"
    and "writeSizeBytes2NoBlockSock (me_fuel env) (me_net env) fd (mt_head (mc_task s) @ kCRLF) k1 =
      Some (Inr (int (length (mt_head (mc_task s) @ kCRLF)), k2))"
    and "length (mt_head (mc_task s) @ kCRLF) < 2 ^ 31"
  shows "mc_send_head env rest fd s = rest fd
    (s\<lparr>mc_hash := h, mc_task := (mc_task s)\<lparr>mt_server := Some p, mt_head := mt_head (mc_task s) @ kCRLF\<rparr>, mc_net := k2\<rparr>)"
  using assms(2,3) by (simp add: mc_send_head_def getSocketFromKey_link [OF assms(1)] upd_task_def Let_def int_of_size_small)


lemma mc_forward_exchange:
  assumes "exchange env (mc_hash s) (mt_key (mc_task s)) [mt_head (mc_task s) @ kCRLF] (mt_noreply (mc_task s) = ''noreply'')
      (mc_net s) (mc_conn s) h k w"
  shows "mc_forward env s = Some (Inr (True, s\<lparr>mc_task := mcacheTask_new, mc_hash := h, mc_net := k, mc_conn := w\<rparr>))"
proof -
  from assms obtain fd k0 p k1 k2 k3 where x: "nt_socket (me_net env) (mc_net s) = (fd, k0)"
    "server_link env (mc_hash s) (mt_key (mc_task s)) fd k0 p h k1"
    "writeSizeBytes2NoBlockSock (me_fuel env) (me_net env) fd (mt_head (mc_task s) @ kCRLF) k1 =
       Some (Inr (int (length (mt_head (mc_task s) @ kCRLF)), k2))" "length (mt_head (mc_task s) @ kCRLF) < 2 ^ 31"
    "answers env (mt_noreply (mc_task s) = ''noreply'') fd k2 (mc_conn s) k3 w" "k = nt_close (me_net env) fd k3"
    by (auto simp: exchange_def)
  let ?s = "s\<lparr>mc_net := k0\<rparr>"
  have "mc_send_head env (mc_reply env) fd ?s = mc_reply env fd
    (?s\<lparr>mc_hash := h, mc_task := (mc_task ?s)\<lparr>mt_server := Some p, mt_head := mt_head (mc_task ?s) @ kCRLF\<rparr>, mc_net := k2\<rparr>)"
    using x by (intro mc_send_head_link) simp_all
  also have "\<dots> = Some (Inr (True, ?s\<lparr>mc_hash := h,
      mc_task := (mc_task ?s)\<lparr>mt_server := Some p, mt_head := mt_head (mc_task ?s) @ kCRLF\<rparr>, mc_net := k3, mc_conn := w\<rparr>))"
    using x(5) by (subst mc_reply_answers [where k = k3 and w = w]) simp_all
  finally show ?thesis using x(1,6) by (simp add: mc_forward_def with_socket_def mc_finish_def upd_task_def)
qed


text \<open>The commands of one line: the key that picks the server and whether an answer is wanted.\<close>

definition one_line_plan :: "string list \<Rightarrow> (string \<times> bool) option" where
  "one_line_plan items =
     (case items of
        [] \<Rightarrow> None
      | c # args \<Rightarrow>
          if memProtocol_isDeleteCommand c
          then if length items = 2 then Some (items ! 1, False)
               else if length items = 3 \<and> items ! 2 = ''noreply'' then Some (items ! 1, True) else None
          else if memProtocol_isIncrDecrCommand c
          then if length items \<in> {3, 4} \<and> (case atoi (items ! 2) of Inl e \<Rightarrow> False | Inr v \<Rightarrow> 0 \<le> v)
               then Some (items ! 1, length items = 4 \<and> items ! 3 = ''noreply'') else None
          else if c = ''touch'' then if length items = 3 then Some (items ! 1, False) else None
          else if c = ''flush_all'' \<or> c = ''version'' then Some (''default key'', False) else None)"

lemma one_line_planE:
  assumes "one_line_plan (c # args) = Some (key, quiet)"
  obtains (delete) "memProtocol_isDeleteCommand c" | (incr) "memProtocol_isIncrDecrCommand c"
    | (other) "memProtocol_isOtherCommand c" "c \<noteq> ''quit''"
  using assms by (auto simp: one_line_plan_def memProtocol_isOtherCommand_def other_cmd_def split: if_splits)

lemma mc_dispatch_class:
  assumes "mt_items (mc_task s) = c # args"
  shows "memProtocol_isDeleteCommand c \<Longrightarrow> mc_dispatch env s = mcacheTask_handleDeleteCmd env s"
    "memProtocol_isIncrDecrCommand c \<Longrightarrow> mc_dispatch env s = mcacheTask_handleIncrDecrCmd env s"
    "memProtocol_isOtherCommand c \<Longrightarrow> mc_dispatch env s = mcacheTask_handleOtherCmd env s"
    "memProtocol_isRetrievalCommand c \<Longrightarrow> mc_dispatch env s = mcacheTask_handleRetriveCmd env s"
    "memProtocol_isStorageCommand c \<Longrightarrow> mc_dispatch env s = mcacheTask_handleStrogeCmd env s"
  using assms command_classes [of c] by (simp_all add: mc_dispatch_def)

lemma mc_dispatch_plan:
  assumes i: "mt_items (mc_task s) = c # args" and p: "one_line_plan (c # args) = Some (key, quiet)"
    and st: "mt_state (mc_task s) = BEGIN_HANDLE_CMD" "mt_noreply (mc_task s) = []"
  shows "\<exists>t. mc_dispatch env s = mc_forward env (s\<lparr>mc_task := t\<rparr>) \<and> mt_key t = key \<and>
    mt_head t = mt_head (mc_task s) \<and> (mt_noreply t = ''noreply'') = quiet"
  using p
proof (cases rule: one_line_planE)
  case delete
  then consider (two) "length args = 1" "key = args ! 0" "\<not> quiet"
    | (three) "length args = 2" "key = args ! 0" "quiet" "args ! 1 = ''noreply''"
    using p by (auto simp: one_line_plan_def split: if_splits)
  then show ?thesis
  proof cases
    case two
    then show ?thesis
      by (intro exI [of _ "(mc_task s)\<lparr>mt_key := key\<rparr>"])
        (simp add: mc_dispatch_class(1) [OF i delete] mcacheTask_handleDeleteCmd_def i st upd_task_def)
  next
    case three
    then show ?thesis
      by (intro exI [of _ "(mc_task s)\<lparr>mt_noreply := args ! 1, mt_key := key\<rparr>"])
        (simp add: mc_dispatch_class(1) [OF i delete] mcacheTask_handleDeleteCmd_def i st memProtocol_getNoreply_def upd_task_def)
  qed
next
  case incr
  then obtain v where v: "atoi (args ! 1) = Inr v" "0 \<le> v" and
      "length args = 2 \<and> \<not> quiet \<or> length args = 3 \<and> quiet = (args ! 2 = ''noreply'')" "key = args ! 0"
    using p command_classes(3) [OF incr] by (auto simp: one_line_plan_def split: if_splits sum.splits)
  then consider (two) "length args = 2" "\<not> quiet" "key = args ! 0"
    | (three) "length args = 3" "quiet = (args ! 2 = ''noreply'')" "key = args ! 0"
    by blast
  then show ?thesis
  proof cases
    case two
    then show ?thesis using v
      by (intro exI [of _ "(mc_task s)\<lparr>mt_key := key\<rparr>"])
        (simp add: mc_dispatch_class(2) [OF i incr] mcacheTask_handleIncrDecrCmd_def i st upd_task_def)
  next
    case three
    then show ?thesis using v
      by (intro exI [of _ "(mc_task s)\<lparr>mt_noreply := args ! 2, mt_key := key\<rparr>"])
        (simp add: mc_dispatch_class(2) [OF i incr] mcacheTask_handleIncrDecrCmd_def i st upd_task_def)
  qed
next
  case other
  then consider (touch) "c = ''touch''" "length args = 2" "key = args ! 0" "\<not> quiet"
    | (all) "c \<noteq> ''touch''" "key = ''default key''" "\<not> quiet"
    using p command_classes(4) [OF other(1)] by (auto simp: one_line_plan_def split: if_splits)
  then show ?thesis
  proof cases
    case touch
    then show ?thesis
      by (intro exI [of _ "(mc_task s)\<lparr>mt_method := c, mt_key := key\<rparr>"])
        (simp add: mc_dispatch_class(3) [OF i other(1)] mcacheTask_handleOtherCmd_def i st item_def upd_task_def)
  next
    case all
    then show ?thesis using other(2)
      by (intro exI [of _ "(mc_task s)\<lparr>mt_method := c, mt_key := key\<rparr>"])
        (simp add: mc_dispatch_class(3) [OF i other(1)] mcacheTask_handleOtherCmd_def i st upd_task_def)
  qed
qed

text \<open>A lookup in the sample ring gives one of its servers; the sample kernel reaches it.\<close>

lemma demo_lookup:
  assumes "length key < 2 ^ 31"
  shows "\<exists>p h. ConsistencyHash_getMappingNodeFromKeyString demo_env demo_ring key = Inr (Some p, h)"
proof -
  have "ch_md5 demo_ring = MD5_new 4" by (simp add: demo_ring_def)
  then have l: "length (ch_md5 demo_ring) = 16" by simp
  obtain e v h where m: "ConsistencyHash_getMappingNodeFromKey (demo_ring\<lparr>ch_md5 := rfc_md5 key\<rparr>) (ring_hash key) = ((e, v), h)"
    by (metis surj_pair)
  have "ch_hashMap demo_ring \<noteq> []" by (simp add: demo_ring_def)
  with m have "v \<and> (\<exists>k p. e = Some (k, p))"
    by (cases e) (auto simp: ConsistencyHash_getMappingNodeFromKey_def Let_def split: if_splits option.splits list.splits)
  then obtain k p where "v" "e = Some (k, p)" by (elim exE conjE)
  then show ?thesis
    by (simp only: ConsistencyHash_getMappingNodeFromKeyString_def generate_key [OF demo_env_ok l assms] bind_res_Inr m Let_def
      prod.case) simp
qed

lemma demo_link:
  assumes "length key < 2 ^ 31"
  shows "\<exists>p h. server_link demo_mc_env demo_ring key fd k p h k"
proof -
  from demo_lookup [OF assms] obtain p h where
    "ConsistencyHash_getMappingNodeFromKeyString demo_env demo_ring key = Inr (Some p, h)" by (elim exE)
  then show ?thesis
    by (auto simp: server_link_def demo_mc_env_def demo_net_def Events_pollEvents_def Events_new_def
      Events_containsAtLeastOneEvents_def kWriteEvent_def kReadEvent_def Events_of_poll_def Events_getEvents_def
      Events_getFd_def poll_fill_def POLLIN_def POLLOUT_def POLLPRI_def)
qed

lemma demo_sends:
  assumes "length c < 2 ^ 31" and "c \<noteq> []"
  shows "sends demo_mc_env fd [c] k (k @ c)"
proof -
  have "writeSizeBytes2NoBlockSock (Suc (Suc 0)) demo_net fd c k = Some (Inr (int (length c), k @ c))"
    using assms(2) by (simp add: demo_net_def writeSizeBytes2NoBlockSock_def)
  then show ?thesis using assms(1) by (simp add: demo_mc_env_def numeral_2_eq_2)
qed

lemma demo_search: "std_search (''STORED'' @ kCRLF) kCRLF = 6"
  by (simp add: kCRLF_def)

lemma demo_read: "readUntilStrWithEnd 2 demo_net fd [] kCRLF k = Some (Inr (6, ''STORED'' @ kCRLF, k))"
  using read_one_piece [of demo_net fd k "''STORED'' @ kCRLF" k kCRLF 1] demo_search
  by (simp add: demo_net_def READSIZE_L_def kCRLF_def numeral_2_eq_2)

lemma demo_answers: "answers demo_mc_env False fd k w k (w @ ''STORED'' @ kCRLF)"
  using demo_read [of fd k] by (simp add: answers_def demo_mc_env_def kCRLF_def)

lemma known_command: "one_line_plan (c # args) = Some p \<Longrightarrow> memProtocol_inCmdSet c"
  by (cases p) (auto simp: memProtocol_inCmdSet_def elim: one_line_planE)

text \<open>A well-formed command of one line is taken off the buffer and forwarded.\<close>

lemma taskCommunition_one_line:
  assumes "mc_task s = mcacheTask_new" and "Buffer_inv (mc_buf s)" and "Buffer_content (mc_buf s) = head @ kCRLF @ rest"
    and "CHR 0x0D \<notin> set head" and "one_line_plan (command_words env head) = Some (key, quiet)"
  obtains b t where "Buffer_inv b" "Buffer_content b = rest" "mt_key t = key" "mt_head t = head" "(mt_noreply t = ''noreply'') = quiet"
    "mcacheTask_taskCommunition env s = mc_forward env (s\<lparr>mc_buf := b, mc_task := t\<rparr>)"
proof -
  from assms(1-4) obtain b where b: "Buffer_inv b" "Buffer_content b = rest"
    "mcacheTask_taskCommunition env s =
       (case command_words env head of
          [] \<Rightarrow> Some (mc_reject env (''ERROR'' @ kCRLF) (parsed env head b s))
        | cmd # args \<Rightarrow>
            if \<not> memProtocol_inCmdSet cmd then Some (mc_reject env (''ERROR'' @ kCRLF) (parsed env head b s))
            else mc_dispatch env (upd_task (\<lambda>t. mcacheTask_setState t BEGIN_HANDLE_CMD) (parsed env head b s)))"
    by (rule taskCommunition_line)
  let ?s = "upd_task (\<lambda>t. mcacheTask_setState t BEGIN_HANDLE_CMD) (parsed env head b s)"
  from assms(5) obtain c args where i: "command_words env head = c # args"
    by (cases "command_words env head") (auto simp: one_line_plan_def)
  from assms(5) i obtain t where t: "mc_dispatch env ?s = mc_forward env (?s\<lparr>mc_task := t\<rparr>)" "mt_key t = key"
      "mt_head t = mt_head (mc_task ?s)" "(mt_noreply t = ''noreply'') = quiet"
    using mc_dispatch_plan [of ?s c args key quiet] by (auto simp: upd_task_def)
  have "?s\<lparr>mc_task := t\<rparr> = s\<lparr>mc_buf := b, mc_task := t\<rparr>" by (cases s) (simp add: parsed_def upd_task_def)
  with b i t known_command assms(5) have "mcacheTask_taskCommunition env s = mc_forward env (s\<lparr>mc_buf := b, mc_task := t\<rparr>)"
    by auto
  with b(1,2) t(2-4) show ?thesis by (intro that) (simp_all add: upd_task_def)
qed

text \<open>
  A well-formed command of one line (delete, incr, decr, touch, \<open>flush_all\<close>, version) is
  relayed: the line, with its line break, goes to the server that the ring picks for the
  key, the server's answer goes to the client unless it said \<open>noreply\<close> where the code
  looks for it, the socket is closed, exactly the line is taken off the buffer, and the task
  is fresh again. \<open>one_line_plan\<close> is the table of these commands; \<open>exchange\<close> says that the
  server is reachable and takes and answers what it is sent.
\<close>
theorem mcache_one_line_relayed:
  assumes "mc_task s = mcacheTask_new" and "Buffer_inv (mc_buf s)" and "Buffer_content (mc_buf s) = head @ kCRLF @ rest"
    and "CHR 0x0D \<notin> set head" and "one_line_plan (command_words env head) = Some (key, quiet)"
    and "exchange env (mc_hash s) key [head @ kCRLF] quiet (mc_net s) (mc_conn s) h k w"
  shows "\<exists>b. Buffer_inv b \<and> Buffer_content b = rest \<and> mcacheTask_taskCommunition env s =
    Some (Inr (True, s\<lparr>mc_buf := b, mc_conn := w, mc_hash := h, mc_net := k\<rparr>))"
proof -
  from assms(1-5) obtain b t where b: "Buffer_inv b" "Buffer_content b = rest"
    and t: "mt_key t = key" "mt_head t = head" "(mt_noreply t = ''noreply'') = quiet"
    and step: "mcacheTask_taskCommunition env s = mc_forward env (s\<lparr>mc_buf := b, mc_task := t\<rparr>)"
    by (rule taskCommunition_one_line)
  let ?s = "s\<lparr>mc_buf := b, mc_task := t\<rparr>"
  have "mc_forward env ?s = Some (Inr (True, ?s\<lparr>mc_task := mcacheTask_new, mc_hash := h, mc_net := k, mc_conn := w\<rparr>))"
    using assms(6) t by (intro mc_forward_exchange) simp
  moreover have "?s\<lparr>mc_task := mcacheTask_new, mc_hash := h, mc_net := k, mc_conn := w\<rparr> =
      s\<lparr>mc_buf := b, mc_conn := w, mc_hash := h, mc_net := k\<rparr>"
    using assms(1) by (cases s) simp
  ultimately show ?thesis using b step by auto
qed

theorem mcache_one_line_relayed_witness:
  "\<exists>b h. Buffer_content b = ''x'' \<and> mcacheTask_taskCommunition demo_mc_env (demo_mc (''delete k'' @ kCRLF @ ''x'')) =
    Some (Inr (True, (demo_mc (''delete k'' @ kCRLF @ ''x''))\<lparr>mc_buf := b, mc_conn := ''STORED'' @ kCRLF, mc_hash := h,
      mc_net := ''delete k'' @ kCRLF\<rparr>))"
proof -
  let ?s = "demo_mc (''delete k'' @ kCRLF @ ''x'')"
  obtain p h where l: "server_link demo_mc_env demo_ring ''k'' 7 [] p h []" using demo_link [of "''k''" 7 "[]"] by (auto elim!: exE)
  have "nt_socket (me_net demo_mc_env) [] = (7, [])" "nt_close (me_net demo_mc_env) fd k = k" for fd k
    by (simp_all add: demo_mc_env_def demo_net_def)
  then have x: "exchange demo_mc_env (mc_hash ?s) ''k'' [''delete k'' @ kCRLF] False (mc_net ?s) (mc_conn ?s) h
      (''delete k'' @ kCRLF) (''STORED'' @ kCRLF)"
    using l demo_sends [of "''delete k'' @ kCRLF" 7 "[]"] demo_answers [of 7 "''delete k'' @ kCRLF" "[]"]
    unfolding exchange_def by (fastforce simp: demo_mc_def kCRLF_def)
  have c: "Buffer_inv (mc_buf ?s)" "Buffer_content (mc_buf ?s) = ''delete k'' @ kCRLF @ ''x''"
    by (simp_all add: demo_mc_buf input_buffer_facts kCRLF_def)
  have w: "one_line_plan (command_words demo_mc_env ''delete k'') = Some (''k'', False)"
    by (simp add: command_words_def demo_mc_env_def one_line_plan_def mem_protocol_defs)
  from mcache_one_line_relayed [OF demo_mc_buf(2) c _ w x] show ?thesis by auto
qed

section \<open>Storage commands\<close>

text \<open>The commands with a data block: the key, the announced length, and whether no answer is wanted.\<close>

definition storage_plan :: "string list \<Rightarrow> (string \<times> int \<times> bool) option" where
  "storage_plan items =
     (case items of
        [] \<Rightarrow> None
      | c # args \<Rightarrow>
          if memProtocol_isStorageCommand c \<and> length items \<in> {5, 6, 7} \<and> (c = ''cas'' \<longrightarrow> 5 < length items)
          then case atoi (items ! 4) of
                 Inl e \<Rightarrow> None
               | Inr n \<Rightarrow> Some (items ! 1, n, if c = ''cas'' then length items = 7 \<and> items ! 6 = ''noreply''
                                            else length items = 6 \<and> items ! 5 = ''noreply'')
          else None)"

lemma storage_fields_plan:
  assumes "storage_plan items = Some (key, n, quiet)" and "mt_noreply t = []"
  shows "\<exists>t'. storage_fields items t = Inr (Some t') \<and> mt_key t' = key \<and> mt_bytes t' = n \<and> mt_head t' = mt_head t \<and>
    (mt_noreply t' = ''noreply'') = quiet"
proof -
  from assms(1) obtain c args where i: "items = c # args" "length items = 5 \<or> length items = 6 \<or> length items = 7"
    "c = ''cas'' \<longrightarrow> 5 < length items" "atoi (items ! 4) = Inr n" "key = items ! 1"
    "quiet = (if c = ''cas'' then length items = 7 \<and> items ! 6 = ''noreply'' else length items = 6 \<and> items ! 5 = ''noreply'')"
    by (auto simp: storage_plan_def split: list.splits if_splits sum.splits)
  with assms(2) show ?thesis by (auto simp: storage_fields_def Let_def)
qed

text \<open>The two bytes behind the data, when the data has no zero byte and one follows.\<close>

lemma check_end_line:
  assumes "drop (Buffer_peek b) (storage b) = data @ kCRLF @ behind" and "CHR 0x00 \<notin> set data"
    and "CHR 0x00 \<in> set behind" and "length data < 2 ^ 64"
  shows "check_end b (int (length data)) = Inr kCRLF"
proof -
  have "c_str (data @ kCRLF @ behind) = data @ kCRLF @ c_str behind"
    using assms(2) by (simp add: c_str_def takeWhile_append kCRLF_def)
  moreover have "size_of_int (int (length data)) = length data" using assms(4) by (simp add: size_of_int_def nat_mod_as_int)
  ultimately show ?thesis using assms(1,3) by (simp add: check_end_def c_string_at_def str_substr_def kCRLF_def)
qed

text \<open>The exchange of a storage command, from the complete data on.\<close>

lemma storage_run_exchange:
  assumes "exchange env (mc_hash s) (mt_key (mc_task s)) [mt_head (mc_task s) @ kCRLF, Buffer_content (mc_buf s)]
      (mt_noreply (mc_task s) = ''noreply'') (mc_net s) (mc_conn s) h k w"
    and "Buffer_inv (mc_buf s)"
  shows "storage_run env s = Some (Inr (True,
    s\<lparr>mc_task := mcacheTask_new, mc_buf := Buffer_retrieveAll (mc_buf s), mc_hash := h, mc_net := k, mc_conn := w\<rparr>))"
proof -
  from assms(1) obtain fd k0 p k1 k2 k3 k4 where x: "nt_socket (me_net env) (mc_net s) = (fd, k0)"
    "server_link env (mc_hash s) (mt_key (mc_task s)) fd k0 p h k1"
    "writeSizeBytes2NoBlockSock (me_fuel env) (me_net env) fd (mt_head (mc_task s) @ kCRLF) k1 =
       Some (Inr (int (length (mt_head (mc_task s) @ kCRLF)), k2))" "length (mt_head (mc_task s) @ kCRLF) < 2 ^ 31"
    "writeSizeBytes2NoBlockSock (me_fuel env) (me_net env) fd (Buffer_content (mc_buf s)) k2 =
       Some (Inr (int (length (Buffer_content (mc_buf s))), k3))" "length (Buffer_content (mc_buf s)) < 2 ^ 31"
    "answers env (mt_noreply (mc_task s) = ''noreply'') fd k3 (mc_conn s) k4 w" "k = nt_close (me_net env) fd k4"
    unfolding exchange_def sends.simps by (elim exE conjE) simp
  let ?s = "s\<lparr>mc_net := k0\<rparr>"
  let ?s2 = "?s\<lparr>mc_hash := h, mc_task := (mc_task ?s)\<lparr>mt_server := Some p, mt_head := mt_head (mc_task ?s) @ kCRLF\<rparr>, mc_net := k2\<rparr>"
  let ?s3 = "?s2\<lparr>mc_net := k3, mc_buf := Buffer_retrieveAll (mc_buf s)\<rparr>"
  have "mc_send_head env (storage_body env) fd ?s = storage_body env fd ?s2"
    using x by (intro mc_send_head_link) simp_all
  also have "\<dots> = mc_reply env fd ?s3"
    using x(5,6) by (simp add: storage_body_def int_of_size_small readable_content [OF assms(2)])
  also have "\<dots> = Some (Inr (True, ?s3\<lparr>mc_net := k4, mc_conn := w\<rparr>))"
    using x(7) by (intro mc_reply_answers) simp
  finally show ?thesis using x(1,8) by (simp add: storage_run_def with_socket_def mc_finish_def upd_task_def)
qed

text \<open>A task that waits for the data of a storage command.\<close>

definition waits_for :: "mcache_task \<Rightarrow> string \<Rightarrow> string \<Rightarrow> int \<Rightarrow> bool \<Rightarrow> bool" where
  "waits_for t head key n quiet \<longleftrightarrow> mt_state t = WAIT_ENOUGH_DATA \<and> mt_head t = head \<and> mt_key t = key \<and>
     mt_bytes t = n \<and> (mt_noreply t = ''noreply'') = quiet"

lemma waits_for_setState: "waits_for t head key n quiet \<Longrightarrow> mt_head (mcacheTask_setState t st) = head \<and>
    mt_key (mcacheTask_setState t st) = key \<and> (mt_noreply (mcacheTask_setState t st) = ''noreply'') = quiet"
  by (simp add: waits_for_def)

lemma storage_wait_complete:
  assumes "waits_for (mc_task s) head key (int (length data)) quiet" and "Buffer_inv (mc_buf s)"
    and "Buffer_content (mc_buf s) = data @ kCRLF @ extra" and "CHR 0x00 \<notin> set data"
    and "CHR 0x00 \<in> set (extra @ drop (writerIndex (mc_buf s)) (storage (mc_buf s)))"
    and "exchange env (mc_hash s) key [head @ kCRLF, data @ kCRLF @ extra] quiet (mc_net s) (mc_conn s) h k w"
  shows "storage_wait env s = Some (Inr (True,
    s\<lparr>mc_task := mcacheTask_new, mc_buf := Buffer_retrieveAll (mc_buf s), mc_hash := h, mc_net := k, mc_conn := w\<rparr>))"
proof -
  have l: "length data < 2 ^ 31" using assms(6) by (auto simp: exchange_def)
  then have sz: "size_of_int (int (length data)) = length data" by (simp add: size_of_int_def nat_mod_as_int)
  have b: "mt_bytes (mc_task s) = int (length data)" using assms(1) by (simp add: waits_for_def)
  have "\<not> Buffer_readableBytes (mc_buf s) < sz_add (size_of_int (mt_bytes (mc_task s))) 2"
    using l by (simp add: b sz readable_content [OF assms(2)] assms(3) sz_add_def kCRLF_def)
  moreover have "check_end (mc_buf s) (mt_bytes (mc_task s)) = Inr kCRLF"
    unfolding b using content_memory [OF assms(2)] assms(3-5) l
    by (intro check_end_line [where behind = "extra @ drop (writerIndex (mc_buf s)) (storage (mc_buf s))"]) simp_all
  ultimately have "storage_wait env s = storage_run env (upd_task (\<lambda>t. mcacheTask_setState t GET_ALL_DATA) s)"
    by (simp add: storage_wait_def)
  also have "\<dots> = Some (Inr (True, (upd_task (\<lambda>t. mcacheTask_setState t GET_ALL_DATA) s)\<lparr>mc_task := mcacheTask_new,
      mc_buf := Buffer_retrieveAll (mc_buf (upd_task (\<lambda>t. mcacheTask_setState t GET_ALL_DATA) s)), mc_hash := h, mc_net := k, mc_conn := w\<rparr>))"
    using assms(2,3,6) waits_for_setState [OF assms(1)] by (intro storage_run_exchange) simp_all
  finally show ?thesis by (simp add: upd_task_def)
qed

lemma taskCommunition_storage:
  assumes "mc_task s = mcacheTask_new" and "Buffer_inv (mc_buf s)" and "Buffer_content (mc_buf s) = head @ kCRLF @ rest"
    and "CHR 0x0D \<notin> set head" and "storage_plan (command_words env head) = Some (key, n, quiet)"
  obtains b t where "Buffer_inv b" "Buffer_content b = rest" "waits_for t head key n quiet" "mt_items t = command_words env head"
    "rest \<noteq> [] \<longrightarrow> drop (Buffer_peek b) (storage b) = rest @ drop (writerIndex (mc_buf s)) (storage (mc_buf s))"
    "mcacheTask_taskCommunition env s = storage_wait env (s\<lparr>mc_buf := b, mc_task := t\<rparr>)"
proof -
  obtain b where b: "Buffer_inv b" "Buffer_content b = rest"
    "rest \<noteq> [] \<longrightarrow> drop (Buffer_peek b) (storage b) = rest @ drop (writerIndex (mc_buf s)) (storage (mc_buf s))"
    "mcacheTask_taskCommunition env s =
       (case command_words env head of
          [] \<Rightarrow> Some (mc_reject env (''ERROR'' @ kCRLF) (parsed env head b s))
        | cmd # args \<Rightarrow>
            if \<not> memProtocol_inCmdSet cmd then Some (mc_reject env (''ERROR'' @ kCRLF) (parsed env head b s))
            else mc_dispatch env (upd_task (\<lambda>t. mcacheTask_setState t BEGIN_HANDLE_CMD) (parsed env head b s)))"
    by (rule taskCommunition_line [OF assms(1-4), where env = env])
  let ?s = "upd_task (\<lambda>t. mcacheTask_setState t BEGIN_HANDLE_CMD) (parsed env head b s)"
  from assms(5) obtain c args where i: "command_words env head = c # args" "memProtocol_isStorageCommand c"
    by (cases "command_words env head") (auto simp: storage_plan_def split: if_splits)
  from storage_fields_plan [OF assms(5), of "mc_task ?s"] obtain t where
    t: "storage_fields (command_words env head) (mc_task ?s) = Inr (Some t)" "mt_key t = key" "mt_bytes t = n"
      "mt_head t = head" "(mt_noreply t = ''noreply'') = quiet" by auto
  have "mcacheTask_taskCommunition env s = mcacheTask_handleStrogeCmd env ?s"
    using b(4) i mc_dispatch_class(5) [of ?s c args] storage_inCmdSet [OF i(2)] by simp
  also have "\<dots> = storage_wait env (?s\<lparr>mc_task := mcacheTask_setState t WAIT_ENOUGH_DATA\<rparr>)"
    using t(1) by (simp add: mcacheTask_handleStrogeCmd_def)
  also have "?s\<lparr>mc_task := mcacheTask_setState t WAIT_ENOUGH_DATA\<rparr> =
      s\<lparr>mc_buf := b, mc_task := mcacheTask_setState t WAIT_ENOUGH_DATA\<rparr>" by (simp add: upd_task_def parsed_def)
  finally show thesis using b t
    by (intro that [of b "mcacheTask_setState t WAIT_ENOUGH_DATA"]) (simp_all add: waits_for_def storage_fields_items [OF t(1)])
qed



lemma atoi_range: "atoi s = Inr n \<Longrightarrow> - (2 ^ 31) \<le> n \<and> n < 2 ^ 31"
  by (auto simp: atoi_def Let_def split: if_splits)

lemma storage_plan_range: "storage_plan items = Some (key, n, quiet) \<Longrightarrow> - (2 ^ 31) \<le> n \<and> n < 2 ^ 31"
  using atoi_range [of "items ! 4" n] by (auto simp: storage_plan_def split: list.splits if_splits sum.splits)

lemma taskCommunition_waiting:
  assumes "waits_for (mc_task s) head key n quiet" and "mt_items (mc_task s) = c # args" and "memProtocol_isStorageCommand c"
  shows "mcacheTask_taskCommunition env s = storage_wait env s"
  using assms mc_dispatch_class(5) [OF assms(2,3), of env]
  by (simp add: waits_for_def mcacheTask_taskCommunition_def mcacheTask_handleStrogeCmd_def)

text \<open>
  C26: A storage command may arrive in pieces. Without the whole data and its line break the call
  returns true and keeps the part it has, asks no server and answers nothing; the call
  after the rest has arrived relays the command exactly as if it had come at once.
\<close>
theorem mcache_storage_in_pieces:
  assumes "mc_task s = mcacheTask_new" and "Buffer_inv (mc_buf s)" and "Buffer_content (mc_buf s) = head @ kCRLF @ part"
    and "CHR 0x0D \<notin> set head" and "storage_plan (command_words env head) = Some (key, int n, quiet)" and "length part < n + 2"
  shows "\<exists>b t. mcacheTask_taskCommunition env s = Some (Inr (True, s\<lparr>mc_buf := b, mc_task := t\<rparr>)) \<and>
    Buffer_inv b \<and> Buffer_content b = part \<and> mt_state t = WAIT_ENOUGH_DATA \<and>
    (\<forall>s' data extra h k w. mc_task s' = t \<longrightarrow> Buffer_inv (mc_buf s') \<longrightarrow> Buffer_content (mc_buf s') = data @ kCRLF @ extra \<longrightarrow>
       length data = n \<longrightarrow> CHR 0x00 \<notin> set data \<longrightarrow>
       CHR 0x00 \<in> set (extra @ drop (writerIndex (mc_buf s')) (storage (mc_buf s'))) \<longrightarrow>
       exchange env (mc_hash s') key [head @ kCRLF, data @ kCRLF @ extra] quiet (mc_net s') (mc_conn s') h k w \<longrightarrow>
       mcacheTask_taskCommunition env s' = Some (Inr (True, s'\<lparr>mc_task := mcacheTask_new,
         mc_buf := Buffer_retrieveAll (mc_buf s'), mc_hash := h, mc_net := k, mc_conn := w\<rparr>)))"
proof -
  obtain b t where b: "Buffer_inv b" "Buffer_content b = part" "waits_for t head key (int n) quiet"
    "mt_items t = command_words env head"
    "mcacheTask_taskCommunition env s = storage_wait env (s\<lparr>mc_buf := b, mc_task := t\<rparr>)"
    by (rule taskCommunition_storage [OF assms(1-5)])
  have "n < 2 ^ 31" using storage_plan_range [OF assms(5)] by simp
  then have "size_of_int (mt_bytes t) = n" "sz_add n 2 = n + 2" using b(3)
    by (simp_all add: waits_for_def size_of_int_def nat_mod_as_int sz_add_def)
  then have now: "mcacheTask_taskCommunition env s = Some (Inr (True, s\<lparr>mc_buf := b, mc_task := t\<rparr>))"
    using assms(6) by (simp add: b(5) storage_wait_def readable_content [OF b(1)] b(2))
  from assms(5) b(4) obtain c args where i: "mt_items t = c # args" "memProtocol_isStorageCommand c"
    by (cases "command_words env head") (auto simp: storage_plan_def split: if_splits)
  have later: "mcacheTask_taskCommunition env s' = Some (Inr (True, s'\<lparr>mc_task := mcacheTask_new,
         mc_buf := Buffer_retrieveAll (mc_buf s'), mc_hash := h, mc_net := k, mc_conn := w\<rparr>))"
    if "mc_task s' = t" "Buffer_inv (mc_buf s')" "Buffer_content (mc_buf s') = data @ kCRLF @ extra" "length data = n"
      "CHR 0x00 \<notin> set data" "CHR 0x00 \<in> set (extra @ drop (writerIndex (mc_buf s')) (storage (mc_buf s')))"
      "exchange env (mc_hash s') key [head @ kCRLF, data @ kCRLF @ extra] quiet (mc_net s') (mc_conn s') h k w"
    for s' data extra h k w
  proof -
    have "mcacheTask_taskCommunition env s' = storage_wait env s'"
      using b(3) i that(1) by (intro taskCommunition_waiting) simp_all
    also have "\<dots> = Some (Inr (True, s'\<lparr>mc_task := mcacheTask_new,
         mc_buf := Buffer_retrieveAll (mc_buf s'), mc_hash := h, mc_net := k, mc_conn := w\<rparr>))"
      using b(3) that by (intro storage_wait_complete [where data = data and extra = extra]) simp_all
    finally show ?thesis .
  qed
  show ?thesis
  proof (rule exI [of _ b], rule exI [of _ t], intro conjI)
    show "mt_state t = WAIT_ENOUGH_DATA" using b(3) by (simp add: waits_for_def)
  qed (use now b(1,2) later in blast)+
qed

theorem mcache_storage_in_pieces_witness:
  "\<exists>b t. mcacheTask_taskCommunition demo_mc_env (demo_mc (''set k 0 0 2'' @ kCRLF @ ''a'')) =
      Some (Inr (True, (demo_mc (''set k 0 0 2'' @ kCRLF @ ''a''))\<lparr>mc_buf := b, mc_task := t\<rparr>)) \<and>
    Buffer_content b = ''a'' \<and> mt_state t = WAIT_ENOUGH_DATA"
proof -
  let ?s = "demo_mc (''set k 0 0 2'' @ kCRLF @ ''a'')"
  have c: "Buffer_inv (mc_buf ?s)" "Buffer_content (mc_buf ?s) = ''set k 0 0 2'' @ kCRLF @ ''a''"
    by (simp_all add: demo_mc_buf input_buffer_facts kCRLF_def)
  have w: "storage_plan (command_words demo_mc_env ''set k 0 0 2'') = Some (''k'', int 2, False)"
    by (simp add: command_words_def demo_mc_env_def storage_plan_def mem_protocol_defs atoi_def is_space_def digits_value_def is_digit_def)
  from mcache_storage_in_pieces [OF demo_mc_buf(2) c _ w] show ?thesis by (simp, elim exE conjE) blast
qed

section \<open>Inputs on which the code fails\<close>

text \<open>The bytes behind a negative length: the position wraps around to one beyond every string.\<close>

lemma c_string_at_length:
  assumes "Buffer_inv b" and "c_string_at b = Inr str"
  shows "length str < 2 ^ 63"
proof -
  have "str = c_str (drop (Buffer_peek b) (storage b))"
    using assms(2) by (auto simp: c_string_at_def Let_def split: if_splits)
  then have "length str \<le> length (drop (Buffer_peek b) (storage b))"
    unfolding c_str_def by (simp only: length_takeWhile_le)
  then have "length str \<le> length (storage b)" by simp
  then show ?thesis using Buffer_invD(4) [OF assms(1)] by linarith
qed

lemma size_of_negative:
  assumes "- (2 ^ 31) \<le> n" and "n < 0"
  shows "size_of_int n = nat (2 ^ 64 + n)"
proof -
  have "n mod 2 ^ 64 = (2 ^ 64 + n) mod 2 ^ 64" by simp
  also have "\<dots> = 2 ^ 64 + n" using assms by (intro mod_pos_pos_trivial) simp_all
  finally show ?thesis by (simp add: size_of_int_def)
qed

lemma check_end_negative:
  assumes "Buffer_inv b" and "- (2 ^ 31) \<le> n" and "n < 0"
  shows "\<exists>e. check_end b n = Inl e"
proof (cases "c_string_at b")
  case (Inr str)
  then have "length str < size_of_int n" using c_string_at_length [OF assms(1) Inr] assms(2,3) by (simp add: size_of_negative)
  with Inr show ?thesis by (simp add: check_end_def str_substr_def)
qed (simp add: check_end_def)

text \<open>
  A negative length in a storage command is not rejected. A length of -1 or -2 makes the
  call throw or read past the buffer as soon as the sum of the length and 2 bytes are
  there; with any smaller length the task waits for ever, whatever arrives.
\<close>
theorem mcache_negative_length:
  assumes "mc_task s = mcacheTask_new" and "Buffer_inv (mc_buf s)" and "Buffer_content (mc_buf s) = head @ kCRLF @ rest"
    and "CHR 0x0D \<notin> set head" and "storage_plan (command_words env head) = Some (key, n, quiet)" and "n < 0"
  shows "if n < -2
    then \<exists>b t. mcacheTask_taskCommunition env s = Some (Inr (True, s\<lparr>mc_buf := b, mc_task := t\<rparr>)) \<and>
      (\<forall>s'. mc_task s' = t \<longrightarrow> Buffer_inv (mc_buf s') \<longrightarrow> mcacheTask_taskCommunition env s' = Some (Inr (True, s')))
    else n + 2 \<le> int (length rest) \<longrightarrow> (\<exists>e. mcacheTask_taskCommunition env s = Some (Inl e))"
proof -
  obtain b t where b: "Buffer_inv b" "Buffer_content b = rest" "waits_for t head key n quiet"
    "mt_items t = command_words env head"
    "mcacheTask_taskCommunition env s = storage_wait env (s\<lparr>mc_buf := b, mc_task := t\<rparr>)"
    by (rule taskCommunition_storage [OF assms(1-5)])
  have r: "- (2 ^ 31) \<le> n" using storage_plan_range [OF assms(5)] by simp
  have t: "mt_bytes t = n" using b(3) by (simp add: waits_for_def)
  from assms(5) b(4) obtain c args where i: "mt_items t = c # args" "memProtocol_isStorageCommand c"
    by (cases "command_words env head") (auto simp: storage_plan_def split: if_splits)
  show ?thesis
  proof (cases "n < -2")
    case True
    have wait: "storage_wait env s' = Some (Inr (True, s'))" if "mc_task s' = t" "Buffer_inv (mc_buf s')" for s'
    proof -
      have "sz_add (size_of_int n) 2 = nat (2 ^ 64 + n + 2)"
        using True r assms(6) by (simp add: size_of_negative sz_add_def nat_mod_as_int nat_add_distrib)
      moreover have "Buffer_readableBytes (mc_buf s') < 2 ^ 63"
        using Buffer_invD [OF that(2)] by (simp add: readable_content [OF that(2)] Buffer_length_content [OF that(2)])
      ultimately have "Buffer_readableBytes (mc_buf s') < sz_add (size_of_int n) 2" using r by simp
      then show ?thesis by (simp add: storage_wait_def that(1) t)
    qed
    have later: "mcacheTask_taskCommunition env s' = Some (Inr (True, s'))" if "mc_task s' = t" "Buffer_inv (mc_buf s')" for s'
      using taskCommunition_waiting [of s' head key n quiet c args env] b(3) i wait [OF that] that(1) by simp
    have "mcacheTask_taskCommunition env s = Some (Inr (True, s\<lparr>mc_buf := b, mc_task := t\<rparr>))"
      unfolding b(5) by (rule wait) (simp_all add: b(1))
    with True later show ?thesis by auto
  next
    case False
    have "sz_add (size_of_int n) 2 = nat (n + 2)"
    proof -
      have "n = -1 \<or> n = -2" using False assms(6) by linarith
      then show ?thesis by (auto simp: size_of_int_def sz_add_def)
    qed
    moreover from check_end_negative [OF b(1) r assms(6)] obtain e where "check_end b n = Inl e" by (elim exE)
    ultimately show ?thesis using False
      by (auto simp: b(5) storage_wait_def t readable_content [OF b(1)] b(2))
  qed
qed

theorem mcache_negative_length_witness:
  "\<exists>e. mcacheTask_taskCommunition demo_mc_env (demo_mc (''set k 0 0 -1'' @ kCRLF @ ''x'')) = Some (Inl e)"
proof -
  let ?s = "demo_mc (''set k 0 0 -1'' @ kCRLF @ ''x'')"
  have c: "Buffer_inv (mc_buf ?s)" "Buffer_content (mc_buf ?s) = ''set k 0 0 -1'' @ kCRLF @ ''x''"
    by (simp_all add: demo_mc_buf input_buffer_facts kCRLF_def)
  have w: "storage_plan (command_words demo_mc_env ''set k 0 0 -1'') = Some (''k'', -1, False)"
    by (simp add: command_words_def demo_mc_env_def storage_plan_def mem_protocol_defs atoi_def is_space_def digits_value_def is_digit_def)
  from mcache_negative_length [OF demo_mc_buf(2) c _ w] show ?thesis by simp
qed

text \<open>
  C36: No \<open>get\<close> of one key succeeds. The socket is a local variable of the loop over the keys,
  so it is closed before it is polled and written (POSIX: a write to a closed
  descriptor fails with \<open>EBADF\<close>, here 9); \<open>writeSizeBytes2NoBlockSock\<close> does not expect that
  error and leaves its buffer.
\<close>
theorem mcache_get_undefined:
  assumes "mc_task s = mcacheTask_new" and "Buffer_inv (mc_buf s)" and "Buffer_content (mc_buf s) = head @ kCRLF @ rest"
    and "CHR 0x0D \<notin> set head" and "command_words env head = [c, key]" and "memProtocol_isRetrievalCommand c"
    and "ConsistencyHash_getMappingNodeFromKeyString (me_hash env) (mc_hash s) key = Inr (Some p, h)"
    and "nt_socket (me_net env) (mc_net s) = (fd, k0)"
    and "nt_connect (me_net env) fd (hn_ip (ch_store h ! p)) (hn_port (ch_store h ! p)) k0 = (True, k1)"
    and "nt_poll (me_net env) [Events_pollEvents (Events_new fd (kWriteEvent OR kReadEvent))]
      (nt_close (me_net env) fd k1) = ([PollReady 1 [r]], k2)" and "r \<noteq> 0"
    and "\<forall>k \<in> {k2, snd (nt_soerror (me_net env) fd k2)}. \<exists>k'. nt_write (me_net env) fd (c @ '' '' @ key @ kCRLF) k = (WriteError 9, k')"
    and "2 \<le> me_fuel env"
  shows "mcacheTask_taskCommunition env s = Some (Inl OutOfBounds)"
proof -
  obtain b where b: "mcacheTask_taskCommunition env s =
       (case command_words env head of
          [] \<Rightarrow> Some (mc_reject env (''ERROR'' @ kCRLF) (parsed env head b s))
        | cmd # args \<Rightarrow>
            if \<not> memProtocol_inCmdSet cmd then Some (mc_reject env (''ERROR'' @ kCRLF) (parsed env head b s))
            else mc_dispatch env (upd_task (\<lambda>t. mcacheTask_setState t BEGIN_HANDLE_CMD) (parsed env head b s)))"
    by (rule taskCommunition_line [OF assms(1-4), where env = env])
  let ?s = "upd_task (\<lambda>t. mcacheTask_setState t BEGIN_HANDLE_CMD) (parsed env head b s)"
  let ?pol = "[Events_pollEvents (Events_new fd (kWriteEvent OR kReadEvent))]"
  have d: "mcacheTask_taskCommunition env s = mcacheTask_handleRetriveCmd env ?s"
    using b assms(5,6) mc_dispatch_class(4) [of ?s c "[key]"] by (simp add: memProtocol_inCmdSet_def)
  obtain n where n: "me_fuel env = Suc (Suc n)" using assms(13) by (metis add_2_eq_Suc le_Suc_ex)
  let ?s1 = "upd_task (\<lambda>t. t\<lparr>mt_method := hd (mt_items t), mt_keys := mt_keys t @ tl (mt_items t)\<rparr>) ?s"
  have g: "gets_connect env [key] [] Poll_new ?s1 =
      Inr (Some (smap_insert [] fd key, ?pol), ?s1\<lparr>mc_hash := h, mc_net := nt_close (me_net env) fd k1\<rparr>)"
    using assms(7-9) by (simp add: Poll_EventsAdd_new)
  obtain ev where ev: "Poll_Loop ?pol [] [PollReady 1 [r]] = Some ([ev], map (\<lambda>x. x\<lparr>pf_revents := 0\<rparr>) ?pol)"
    "Events_getFd ev = fd"
    using assms(11) by (auto simp: poll_fill_def Events_of_poll_def Events_getFd_def Events_pollEvents_def Events_new_def)
  have w: "writeSizeBytes2NoBlockSock (me_fuel env) (me_net env) fd (c @ '' '' @ key @ kCRLF) k = Some (Inl OutOfBounds)"
    if "k \<in> {k2, snd (nt_soerror (me_net env) fd k2)}" for k
  proof -
    from assms(12) that obtain k' where "nt_write (me_net env) fd (c @ '' '' @ key @ kCRLF) k = (WriteError 9, k')" by blast
    then show ?thesis unfolding n by (rule write_unexpected_error) (simp_all add: again_def EAGAIN_def EWOULDBLOCK_def EINTR_def)
  qed
  have "gets_serve env (smap_insert [] fd key) [ev] (?s1\<lparr>mc_hash := h, mc_net := k2\<rparr>) = Some (Inl OutOfBounds)"
    using w [of k2] w [of "snd (nt_soerror (me_net env) fd k2)"] by (simp add: ev(2) assms(5) upd_task_def Let_def)
  moreover have "mt_keys (mcacheTask_setState t st) = mt_keys t" for t st by (simp add: mcacheTask_setState_def)
  moreover have "smap_insert [] fd key \<noteq> []" by (cases "smap_insert [] fd key") (auto simp: smap_insert_def)
  ultimately show ?thesis using assms(5,10) g ev(1)
    by (simp add: d mcacheTask_handleRetriveCmd_def Let_def del: Poll_Loop.simps gets_serve.simps gets_connect.simps)
qed

text \<open>A kernel that keeps the open descriptors: a closed one polls as \<open>POLLNVAL\<close> and cannot be written.\<close>

definition fd_net :: "int list net" where
  "fd_net = \<lparr>nt_socket = (\<lambda>k. (7, 7 # k)), nt_connect = (\<lambda>fd ip port k. (fd \<in> set k, k)),
     nt_poll = (\<lambda>p k. ([PollReady 1 (map (\<lambda>x. if pf_fd x \<in> set k then 4 else 32) p)], k)), nt_soerror = (\<lambda>fd k. (Some 0, k)),
     nt_write = (\<lambda>fd b k. (if fd \<in> set k then WriteBytes (length b) else WriteError 9, k)),
     nt_read = (\<lambda>fd n k. (if fd \<in> set k then IoBytes (''END'' @ kCRLF) else IoError 9, k)), nt_close = (\<lambda>fd k. removeAll fd k)\<rparr>"

definition fd_env :: "(int list, string) mc_env" where
  "fd_env = \<lparr>me_hash = demo_env, me_net = fd_net, me_send = (\<lambda>msg w. Inr (w @ msg)),
     me_split = split_at_char CHR '' '' [], me_fuel = 2\<rparr>"

theorem mcache_get_undefined_witness:
  "mcacheTask_taskCommunition fd_env \<lparr>mc_task = mcacheTask_new, mc_buf = input_buffer (''get k'' @ kCRLF), mc_conn = [],
     mc_hash = demo_ring, mc_net = []\<rparr> = Some (Inl OutOfBounds)"
proof -
  let ?s = "\<lparr>mc_task = mcacheTask_new, mc_buf = input_buffer (''get k'' @ kCRLF), mc_conn = [] :: string,
     mc_hash = demo_ring, mc_net = [] :: int list\<rparr>"
  obtain p h where l: "ConsistencyHash_getMappingNodeFromKeyString (me_hash fd_env) (mc_hash ?s) ''k'' = Inr (Some p, h)"
    using demo_lookup [of "''k''"] by (auto simp: fd_env_def elim!: exE)
  have c: "Buffer_inv (mc_buf ?s)" "Buffer_content (mc_buf ?s) = ''get k'' @ kCRLF @ []"
    by (simp_all add: input_buffer_facts kCRLF_def)
  have w: "command_words fd_env ''get k'' = [''get'', ''k'']" by (simp add: command_words_def fd_env_def)
  note e = Events_pollEvents_def Events_new_def Events_getFd_def
  show ?thesis
    by (rule mcache_get_undefined [OF _ c _ w _ l, where fd = 7 and ?k0.0 = "[7]" and ?k1.0 = "[7]" and ?k2.0 = "[]" and r = 32])
      (simp_all add: fd_env_def fd_net_def mem_protocol_defs e)
qed

text \<open>\<open>touch\<close> with \<open>noreply\<close>: the code reads the fifth of four words.\<close>

lemma touch_noreply_undefined:
  assumes "mt_items (mc_task s) = [''touch'', key, exptime, x]" and "mt_state (mc_task s) = BEGIN_HANDLE_CMD"
  shows "mc_dispatch env s = Some (Inl OutOfBounds)"
  using assms mc_dispatch_class(3) [OF assms(1), of env]
  by (simp add: mem_protocol_defs mcacheTask_handleOtherCmd_def item_def)

end
