(* ===== verification/Mcache_Server.thy ===== *)
theory Mcache_Server
  imports Mcache_Behaviour Tcp_Loop
begin

text \<open>
  \<open>src/mdm/mcacheTaskHandle.h/.cpp\<close> and \<open>mcacheTaskServer.h/.cpp\<close>: the task of \<open>Mcache_Task\<close> on
  a real connection of \<open>Tcp_Connection\<close>. Each connection has its own handler and task, the
  ring of servers is shared; both are the application's state of the loop. The answers of
  the task go out through \<open>sendString\<close>. Lemmas: one command from the bytes received to the
  bytes queued for the client, and what the client gets when the server fails.
\<close>

section \<open>The handler of a connection\<close>

record 'k mc_app =
  ma_task :: mcache_task
  ma_hash :: cons_hash
  ma_net :: 'k

type_synonym ('p, 'k) mc_world = "('p, 'k mc_app) tcp_world"

definition mcacheTaskHandle_new :: "cons_hash \<Rightarrow> 'k \<Rightarrow> 'k mc_app" where
  "mcacheTaskHandle_new hash k = \<lparr>ma_task = mcacheTask_new, ma_hash = hash, ma_net = k\<rparr>"

text \<open>The task's view of the connection, and the connection after the task ran.\<close>

definition mc_view :: "('p, 'k) mc_world \<Rightarrow> ('k, ('p, 'k) mc_world) mc" where
  "mc_view w = (let a = el_app (snd w) in
     \<lparr>mc_task = ma_task a, mc_buf = tc_readBuffer (fst w), mc_conn = w, mc_hash = ma_hash a, mc_net = ma_net a\<rparr>)"

definition mc_world_of :: "('k, ('p, 'k) mc_world) mc \<Rightarrow> ('p, 'k) mc_world" where
  "mc_world_of s = ((fst (mc_conn s))\<lparr>tc_readBuffer := mc_buf s\<rparr>,
     (snd (mc_conn s))\<lparr>el_app := \<lparr>ma_task = mc_task s, ma_hash = mc_hash s, ma_net = mc_net s\<rparr>\<rparr>)"

text \<open>The trace message copies the buffer as a C string first; what it prints has no effect.\<close>

definition mcacheTaskHandle_OnMessageCallback :: "('k, ('p, 'k) mc_world) mc_env \<Rightarrow> 'p poller_ops \<Rightarrow> bool \<Rightarrow>
    ('p, 'k) mc_world tcp_callbacks \<Rightarrow> ('p, 'k) mc_world \<Rightarrow> ('p, 'k) mc_world res option" where
  "mcacheTaskHandle_OnMessageCallback env ops own cbs w =
     bind_ro (Some (c_string_at (tc_readBuffer (fst w)))) (\<lambda>str.
     bind_ro (mcacheTask_taskCommunition (env\<lparr>me_send := TcpConnection_sendString ops own\<rparr>) (mc_view w)) (\<lambda>(ok, s).
     let w1 = mc_world_of s in
     if \<not> ok \<and> mt_state (ma_task (el_app (snd w1))) = BAD_TASK then Some (TcpConnection_shutdown ops own cbs w1)
     else Some (Inr w1)))"

text \<open>A new connection gets a handler of its own, and the handler's callback.\<close>

definition mcacheTaskServer_OnNewConnection :: "('k, ('p, 'k) mc_world) mc_env \<Rightarrow> 'p poller_ops \<Rightarrow> bool \<Rightarrow>
    (('p, 'k) mc_world \<Rightarrow> ('p, 'k) mc_world res) option \<Rightarrow> cons_hash \<Rightarrow> ('p, 'k) mc_world \<Rightarrow>
    ('p, 'k) mc_world \<times> (timestamp \<Rightarrow> ('p, 'k) mc_world \<Rightarrow> ('p, 'k) mc_world res option)" where
  "mcacheTaskServer_OnNewConnection env ops own close hash w =
     ((fst w, (snd w)\<lparr>el_app := mcacheTaskHandle_new hash (ma_net (el_app (snd w)))\<rparr>),
      \<lambda>time. mcacheTaskHandle_OnMessageCallback env ops own \<lparr>cb_message = None, cb_close = close, cb_moreData = None\<rparr>)"

section \<open>Sending through the connection\<close>

lemma me_send_irrelevant [simp]:
  "server_link (env\<lparr>me_send := f\<rparr>) = server_link env" "sends (env\<lparr>me_send := f\<rparr>) = sends env"
  "command_words (env\<lparr>me_send := f\<rparr>) = command_words env"
proof -
  show "sends (env\<lparr>me_send := f\<rparr>) = sends env"
  proof (intro ext)
    fix fd cs k k'
    show "sends (env\<lparr>me_send := f\<rparr>) fd cs k k' = sends env fd cs k k'" by (induction cs arbitrary: k) auto
  qed
qed (simp_all add: server_link_def command_words_def fun_eq_iff)

context epoll_kernel begin

lemma sendString_fits:
  assumes ok: "conn_ok registered (c, l)" and fits: "writerIndex (tc_writeBuffer c) + length msg \<le> vec_max"
  shows "\<exists>c' l'. TcpConnection_sendString (epoll_ops ctl) True msg (c, l) = Inr (c', l') \<and> conn_ok registered (c', l') \<and>
    tcp_bytes (c', l') = tcp_bytes (c, l) @ msg \<and> tc_closeing c' = tc_closeing c \<and> \<not> tc_sendAllDataOut c' \<and>
    tc_readBuffer c' = tc_readBuffer c \<and> tc_shouldBeClosed c' = tc_shouldBeClosed c \<and> el_app l' = el_app l \<and>
    tc_sent c' = tc_sent c \<and> tc_hasMoreData c' = tc_hasMoreData c \<and> conn_frame (c, l) (c', l')"
proof -
  have len: "length msg \<le> vec_max" using fits by simp
  obtain b where b: "Buffer_append (tc_writeBuffer c) msg = Inr b"
    using Buffer_append_ok [OF conn_okD(4) [OF ok] len] fits by blast
  note inv = conn_okD [OF ok]
  from inv(6) obtain x where x: "el_store l (tc_handle c) = Some x"
    "registered (snd (el_poll l)) (tc_fd c) = Some (ev_mask (h_events x))" by blast
  from rearm_ok [OF inv(1-3) x(1), of "Handle_enableWrite x"] x(2) obtain l' where
    "EventLoop_modHandle (epoll_ops ctl) True (tc_handle c) (set_handle l (tc_handle c) (Handle_enableWrite x)) = Inr (True, l')"
    by auto
  with b x(1) have "\<exists>w. TcpConnection_sendData (epoll_ops ctl) True msg (c, l) = Inr w" by (simp add: tcp_defs)
  then show ?thesis
    using send_ok [OF ok len] by (auto simp: TcpConnection_sendString_def tcp_bytes_def dest: sendData_frame sendData_conn_frame)
qed

end

lemma mc_view_simps [simp]:
  "mc_task (mc_view w) = ma_task (el_app (snd w))" "mc_buf (mc_view w) = tc_readBuffer (fst w)" "mc_conn (mc_view w) = w"
  "mc_hash (mc_view w) = ma_hash (el_app (snd w))" "mc_net (mc_view w) = ma_net (el_app (snd w))"
  by (simp_all add: mc_view_def Let_def)

section \<open>One command\<close>

text \<open>The server of the key is asked with one line, and the reply is the line it answers.\<close>

definition asks :: "('k, 'w) mc_env \<Rightarrow> cons_hash \<Rightarrow> string \<Rightarrow> string \<Rightarrow> 'k \<Rightarrow> cons_hash \<Rightarrow> string \<Rightarrow> 'k \<Rightarrow> bool" where
  "asks env ch key line k h reply k' \<longleftrightarrow>
     (\<exists>fd k0 p k1 k2 k3 ret str. nt_socket (me_net env) k = (fd, k0) \<and> server_link env ch key fd k0 p h k1 \<and>
        sends env fd [line] k1 k2 \<and> readUntilStrWithEnd (me_fuel env) (me_net env) fd [] kCRLF k2 = Some (Inr (ret, str, k3)) \<and>
        0 < ret \<and> reply = take (nat ret + 2) str \<and> k' = nt_close (me_net env) fd k3)"

lemma asks_exchange:
  assumes "asks env ch key line k h reply k'" and "f reply w = Inr w'"
  shows "exchange (env\<lparr>me_send := f\<rparr>) ch key [line] False k w h k' w'"
proof -
  from assms(1) obtain fd k0 p k1 k2 k3 ret str where "nt_socket (me_net env) k = (fd, k0)" "server_link env ch key fd k0 p h k1"
    "sends env fd [line] k1 k2" "readUntilStrWithEnd (me_fuel env) (me_net env) fd [] kCRLF k2 = Some (Inr (ret, str, k3))"
    "0 < ret" "reply = take (nat ret + 2) str" "k' = nt_close (me_net env) fd k3" unfolding asks_def by blast
  with assms(2) show ?thesis
    unfolding exchange_def
    by (intro exI [of _ fd] exI [of _ k0] exI [of _ p] exI [of _ k1] exI [of _ k2] exI [of _ k3])
      (simp add: answers_def del: sends.simps)
qed

text \<open>The bytes behind the read position hold a zero byte, so that the trace message is defined.\<close>

definition traceable :: "buffer \<Rightarrow> bool" where
  "traceable b \<longleftrightarrow> CHR 0x00 \<in> set (drop (Buffer_peek b) (storage b))"

lemma traceable_c_string: "traceable b \<Longrightarrow> \<exists>str. c_string_at b = Inr str"
  by (simp add: traceable_def c_string_at_def Let_def)

text \<open>The line of a one-line command is taken off the connection's buffer and forwarded.\<close>

lemma handler_one_line:
  assumes "ma_task (el_app l) = mcacheTask_new" and "Buffer_inv (tc_readBuffer c)"
    and "Buffer_content (tc_readBuffer c) = head @ kCRLF @ rest" and "CHR 0x0D \<notin> set head"
    and "one_line_plan (command_words env head) = Some (key, quiet)"
  obtains b t where "Buffer_inv b" "Buffer_content b = rest" "mt_key t = key" "mt_head t = head" "(mt_noreply t = ''noreply'') = quiet"
    "mcacheTask_taskCommunition (env\<lparr>me_send := f\<rparr>) (mc_view (c, l)) =
       mc_forward (env\<lparr>me_send := f\<rparr>) ((mc_view (c, l))\<lparr>mc_buf := b, mc_task := t\<rparr>)"
proof (rule taskCommunition_one_line [of "mc_view (c, l)" head rest "env\<lparr>me_send := f\<rparr>" key quiet])
qed (use assms in simp_all)

text \<open>
  One command through the whole daemon. When the bytes received on a connection begin
  with the line of a one-line command, its handler asks the server that the ring picks for
  the key with exactly that line and queues exactly the server's reply for the client, behind
  what was queued before; the connection stays open and registered, the task is
  fresh, and the bytes behind the line are still unread -- also when they are further
  complete commands, which wait until the client sends more.
\<close>
theorem mcache_server_relays:
  assumes "epoll_kernel ctl registered" and "conn_ok registered (c, l)" and "ma_task (el_app l) = mcacheTask_new"
    and "Buffer_inv (tc_readBuffer c)" and "Buffer_content (tc_readBuffer c) = head @ kCRLF @ rest" and "CHR 0x0D \<notin> set head"
    and "traceable (tc_readBuffer c)" and "one_line_plan (command_words env head) = Some (key, False)"
    and "asks env (ma_hash (el_app l)) key (head @ kCRLF) (ma_net (el_app l)) h reply k"
    and "writerIndex (tc_writeBuffer c) + length reply \<le> vec_max"
  shows "\<exists>c' l'. mcacheTaskHandle_OnMessageCallback env (epoll_ops ctl) True cbs (c, l) = Some (Inr (c', l')) \<and>
    conn_ok registered (c', l') \<and> tcp_bytes (c', l') = tcp_bytes (c, l) @ reply \<and> tc_closeing c' = tc_closeing c \<and>
    tc_shouldBeClosed c' = tc_shouldBeClosed c \<and> Buffer_content (tc_readBuffer c') = rest \<and>
    tc_sent c' = tc_sent c \<and> tc_hasMoreData c' = tc_hasMoreData c \<and> conn_frame (c, l) (c', l') \<and>
    el_app l' = \<lparr>ma_task = mcacheTask_new, ma_hash = h, ma_net = k\<rparr>"
proof -
  from epoll_kernel.sendString_fits [OF assms(1,2,10)] obtain c1 l1 where
    send: "TcpConnection_sendString (epoll_ops ctl) True reply (c, l) = Inr (c1, l1)" "conn_ok registered (c1, l1)"
      "tcp_bytes (c1, l1) = tcp_bytes (c, l) @ reply" "tc_closeing c1 = tc_closeing c" "tc_shouldBeClosed c1 = tc_shouldBeClosed c"
      "tc_sent c1 = tc_sent c" "tc_hasMoreData c1 = tc_hasMoreData c" "conn_frame (c, l) (c1, l1)"
    by blast
  let ?env = "env\<lparr>me_send := TcpConnection_sendString (epoll_ops ctl) True\<rparr>"
  from assms(3-6,8) obtain b t where b: "Buffer_inv b" "Buffer_content b = rest"
    and t: "mt_key t = key" "mt_head t = head" "(mt_noreply t = ''noreply'') = False"
    and step: "mcacheTask_taskCommunition ?env (mc_view (c, l)) = mc_forward ?env ((mc_view (c, l))\<lparr>mc_buf := b, mc_task := t\<rparr>)"
    by (rule handler_one_line) simp
  have "mc_forward ?env ((mc_view (c, l))\<lparr>mc_buf := b, mc_task := t\<rparr>) =
      Some (Inr (True, (mc_view (c, l))\<lparr>mc_buf := b, mc_task := mcacheTask_new, mc_hash := h, mc_net := k, mc_conn := (c1, l1)\<rparr>))"
    using asks_exchange [OF assms(9), of "TcpConnection_sendString (epoll_ops ctl) True" "(c, l)", OF send(1)] t
    by (subst mc_forward_exchange [where h = h and k = k and w = "(c1, l1)"]) simp_all
  with step traceable_c_string [OF assms(7)] have
    "mcacheTaskHandle_OnMessageCallback env (epoll_ops ctl) True cbs (c, l) =
      Some (Inr (c1\<lparr>tc_readBuffer := b\<rparr>, l1\<lparr>el_app := \<lparr>ma_task = mcacheTask_new, ma_hash = h, ma_net = k\<rparr>\<rparr>))"
    by (auto simp: mcacheTaskHandle_OnMessageCallback_def mc_world_of_def)
  moreover have "conn_frame (c, l) (c1\<lparr>tc_readBuffer := b\<rparr>, l1\<lparr>el_app := \<lparr>ma_task = mcacheTask_new, ma_hash = h, ma_net = k\<rparr>\<rparr>)"
    by (rule conn_frame_trans [OF send(8)]) (simp add: conn_frame_def)
  ultimately show ?thesis using b send by (simp add: tcp_bytes_def)
qed

section \<open>A server that cannot be reached\<close>

lemma mc_forward_unreachable:
  assumes "nt_socket (me_net env) (mc_net s) = (fd, k0)"
    and "ConsistencyHash_getMappingNodeFromKeyString (me_hash env) (mc_hash s) (mt_key (mc_task s)) = Inr (Some p, h)"
    and "nt_connect (me_net env) fd (hn_ip (ch_store h ! p)) (hn_port (ch_store h ! p)) k0 = (False, k1)"
    and "me_send env (''SERVER_ERROR'' @ kCRLF) (mc_conn s) = Inr w"
  shows "mc_forward env s = Some (Inr (False, s\<lparr>mc_task := (mc_task s)\<lparr>mt_server := Some p, mt_state := BAD_TASK\<rparr>, mc_hash := h,
    mc_conn := w, mc_net := nt_close (me_net env) fd k1\<rparr>))"
proof -
  have "mcacheTask_getSocketFromKey env fd (s\<lparr>mc_net := k0\<rparr>) =
      Some (Inr (False, s\<lparr>mc_hash := h, mc_task := (mc_task s)\<lparr>mt_server := Some p\<rparr>, mc_net := k1\<rparr>))"
    using assms(2,3) by (simp add: mcacheTask_getSocketFromKey_def upd_task_def Let_def)
  then show ?thesis
    using assms(1,4)
    by (simp add: mc_forward_def with_socket_def mc_finish_def mc_send_head_def mc_bad_def mc_send_def upd_task_def
      mcacheTask_setState_def)
qed


section \<open>Examples\<close>

text \<open>The sample kernel and ring behind a real connection; \<open>down\<close> is a kernel that refuses every connection.\<close>

definition demo_server_env :: "(string, (epoll \<times> (int, 32 word) smap, string) mc_world) mc_env" where
  "demo_server_env = \<lparr>me_hash = demo_env, me_net = demo_net, me_send = (\<lambda>msg w. Inr w),
     me_split = split_at_char CHR '' '' [], me_fuel = 2\<rparr>"

definition demo_down_env :: "(string, (epoll \<times> (int, 32 word) smap, string) mc_world) mc_env" where
  "demo_down_env = demo_server_env\<lparr>me_net := demo_net\<lparr>nt_connect := \<lambda>fd ip port k. (False, k)\<rparr>\<rparr>"

definition demo_mc_conn :: tcp_conn where
  "demo_mc_conn = demo_conn\<lparr>tc_readBuffer := input_buffer (''delete k'' @ kCRLF @ ''version'' @ kCRLF)\<rparr>"

definition demo_mc_loop :: "((int, 32 word) smap, string mc_app) epoll_loop" where
  "demo_mc_loop = demo_app_loop (mcacheTaskHandle_new demo_ring [])"

lemma demo_mc_facts:
  "conn_ok smap_find (demo_mc_conn, demo_mc_loop)" "ma_task (el_app demo_mc_loop) = mcacheTask_new"
  "Buffer_inv (tc_readBuffer demo_mc_conn)" "Buffer_content (tc_readBuffer demo_mc_conn) = ''delete k'' @ kCRLF @ ''version'' @ kCRLF"
  "CHR 0x0D \<notin> set ''delete k''" "traceable (tc_readBuffer demo_mc_conn)"
  "one_line_plan (command_words demo_server_env ''delete k'') = Some (''k'', False)"
  "writerIndex (tc_writeBuffer demo_mc_conn) + 100 \<le> vec_max" "\<not> tc_closeing demo_mc_conn"
proof -
  show "conn_ok smap_find (demo_mc_conn, demo_mc_loop)"
    by (simp add: demo_mc_conn_def demo_mc_loop_def demo_app_conn)
  show "Buffer_inv (tc_readBuffer demo_mc_conn)"
    "Buffer_content (tc_readBuffer demo_mc_conn) = ''delete k'' @ kCRLF @ ''version'' @ kCRLF"
    by (simp_all add: demo_mc_conn_def input_buffer_facts kCRLF_def)
  show "one_line_plan (command_words demo_server_env ''delete k'') = Some (''k'', False)"
    by (simp add: command_words_def demo_server_env_def one_line_plan_def mem_protocol_defs)
qed (simp_all add: demo_mc_conn_def demo_mc_loop_def demo_app_loop_def mcacheTaskHandle_new_def traceable_def Buffer_peek_def
  input_buffer_def kCRLF_def demo_conn_def demo_buffer_def vec_max_def)

lemma demo_asks: "\<exists>h. asks demo_server_env demo_ring ''k'' (''delete k'' @ kCRLF) [] h (''STORED'' @ kCRLF) (''delete k'' @ kCRLF)"
proof -
  obtain p h where l: "server_link demo_mc_env demo_ring ''k'' 7 [] p h []" using demo_link [of "''k''" 7 "[]"] by (auto elim!: exE)
  then have link: "server_link demo_server_env demo_ring ''k'' 7 [] p h []"
    by (simp add: server_link_def demo_mc_env_def demo_server_env_def)
  have sent: "sends demo_server_env 7 [''delete k'' @ kCRLF] [] (''delete k'' @ kCRLF)"
    using demo_sends [of "''delete k'' @ kCRLF" 7 "[]"] by (simp add: demo_mc_env_def demo_server_env_def kCRLF_def)
  have got: "readUntilStrWithEnd (me_fuel demo_server_env) (me_net demo_server_env) 7 [] kCRLF (''delete k'' @ kCRLF) =
      Some (Inr (6, ''STORED'' @ kCRLF, ''delete k'' @ kCRLF))"
    using demo_read [of 7 "''delete k'' @ kCRLF"] by (simp add: demo_server_env_def)
  have "nt_socket (me_net demo_server_env) [] = (7, [])" "nt_close (me_net demo_server_env) 7 (''delete k'' @ kCRLF) = ''delete k'' @ kCRLF"
    by (simp_all add: demo_server_env_def demo_net_def)
  moreover have "''STORED'' @ kCRLF = take (nat 6 + 2) (''STORED'' @ kCRLF)" by (simp add: kCRLF_def)
  ultimately have "asks demo_server_env demo_ring ''k'' (''delete k'' @ kCRLF) [] h (''STORED'' @ kCRLF) (''delete k'' @ kCRLF)"
    unfolding asks_def using link sent got by (metis zero_less_numeral)
  then show ?thesis by blast
qed

theorem mcache_server_relays_witness:
  "\<exists>c' l'. mcacheTaskHandle_OnMessageCallback demo_server_env (epoll_ops table_ctl) True demo_cbs (demo_mc_conn, demo_mc_loop) =
      Some (Inr (c', l')) \<and> tcp_bytes (c', l') = ''abSTORED'' @ kCRLF \<and> Buffer_content (tc_readBuffer c') = ''version'' @ kCRLF"
proof -
  obtain h where h: "asks demo_server_env (ma_hash (el_app demo_mc_loop)) ''k'' (''delete k'' @ kCRLF)
      (ma_net (el_app demo_mc_loop)) h (''STORED'' @ kCRLF) (''delete k'' @ kCRLF)"
    using demo_asks by (auto simp: demo_mc_loop_def demo_app_loop_def mcacheTaskHandle_new_def)
  have "tcp_bytes (demo_mc_conn, demo_mc_loop) = ''ab''"
    by (simp add: tcp_bytes_def demo_mc_conn_def demo_conn_def demo_buffer_facts)
  moreover have "writerIndex (tc_writeBuffer demo_mc_conn) + length (''STORED'' @ kCRLF) \<le> vec_max"
    using demo_mc_facts(8) by (simp add: kCRLF_def)
  ultimately show ?thesis
    using mcache_server_relays [OF table.epoll_kernel_axioms demo_mc_facts(1-7) h, of demo_cbs] by fastforce
qed


end
