(* ===== verification/Mcache_Loop.thy ===== *)
theory Mcache_Loop
  imports Mcache_Server
begin

text \<open>
  The memcache daemon in its worker threads: the handler of a connection
  (\<open>src/mdm/mcacheTaskHandle.cpp\<close>, set by \<open>mcacheTaskServer::OnNewConnection\<close>), run by the
  turns of the worker's event loop. Lemmas: a command that arrives in any pieces is
  relayed to its server, and the reply goes out over the turns that follow.
\<close>

section \<open>The callbacks of a connection\<close>

text \<open>The bucket sets the close callback; a call of the handler that does not return is no step.\<close>

definition mc_callbacks :: "('k, (epoll \<times> 'p, 'k) mc_world) mc_env \<Rightarrow> (epoll \<times> 'p) poller_ops \<Rightarrow> nat \<Rightarrow>
    (epoll \<times> 'p, 'k) mc_world tcp_callbacks" where
  "mc_callbacks env ops f =
     (let conn = TcpConnection_setOnCloseCallBack (Some (queue_clear f)) \<lparr>cb_message = None, cb_close = None, cb_moreData = None\<rparr>
      in TcpConnection_setOnMessageCallBack
           (Some (\<lambda>time w. case mcacheTaskHandle_OnMessageCallback env ops True conn w of None \<Rightarrow> Inr w | Some r \<Rightarrow> r)) conn)"

lemma mc_callbacks_simps [simp]:
  "cb_close (mc_callbacks env ops f) = Some (queue_clear f)" "cb_moreData (mc_callbacks env ops f) = None"
  by (simp_all add: mc_callbacks_def Let_def)

text \<open>Writing does not look at the message callback.\<close>

lemma mc_sendable_frame:
  assumes "conn_step ops (mc_callbacks env ops' f) t (Sendable rs) w = Inr w'"
  shows "conn_frame w w'"
proof -
  let ?cbs = "\<lparr>cb_message = None, cb_close = Some (queue_clear f), cb_moreData = None\<rparr>"
  have shutdown: "TcpConnection_handleClose ops True (mc_callbacks env ops' f) = TcpConnection_handleClose ops True ?cbs"
    by (simp add: TcpConnection_handleClose_def TcpConnection_shutdown_def fun_eq_iff)
  have "TcpConnection_written ops True (mc_callbacks env ops' f) n w = TcpConnection_written ops True ?cbs n w" for n
    by (simp add: TcpConnection_written_def shutdown Let_def cong: if_cong)
  then have "conn_step ops (mc_callbacks env ops' f) t (Sendable rs) w = conn_step ops ?cbs t (Sendable rs) w"
    by (simp add: TcpConnection_handleWrite_def shutdown cong: if_cong option.case_cong write_result.case_cong)
  moreover have "cbs_framed f ?cbs" by (simp add: cbs_framed_def)
  ultimately show ?thesis using conn_step_frame [of f ?cbs ops t "Sendable rs" "fst w" "snd w" w'] assms by simp
qed

section \<open>A command over the turns of the loop\<close>

text \<open>A zero byte lies \<open>m\<close> bytes behind what was read, so the next \<open>m\<close> bytes need no growth.\<close>

definition room :: "buffer \<Rightarrow> nat \<Rightarrow> bool" where
  "room b m \<longleftrightarrow> CHR 0x00 \<in> set (drop (writerIndex b + m) (storage b))"

lemma room_traceable:
  assumes "Buffer_inv b" and "room b m"
  shows "traceable b"
proof -
  have "set (drop (writerIndex b + m) (storage b)) \<subseteq> set (drop (Buffer_peek b) (storage b))"
    using assms(1) by (intro set_drop_subset_set_drop) (simp add: Buffer_inv_def Buffer_peek_def)
  with assms(2) show ?thesis by (auto simp: traceable_def room_def)
qed

lemma readable_room_step:
  assumes "Buffer_inv (tc_readBuffer c)" and "room (tc_readBuffer c) (length data + m)" and "data \<noteq> []"
    and "cb_message cbs = Some g"
  shows "\<exists>b. Buffer_inv b \<and> Buffer_content b = Buffer_content (tc_readBuffer c) @ data \<and> room b m \<and>
    conn_step ops cbs t (Readable (IoBytes data)) (c, l) = g t (c\<lparr>tc_readBuffer := b\<rparr>, l)"
proof -
  have "Events_getFd (Events_new (tc_fd c) POLLIN) = tc_fd c" by (simp add: Events_getFd_def Events_new_def)
  moreover from Buffer_readFd_room [OF assms(1), of "CHR 0x00" data m] assms(2) obtain b where
    "Buffer_readFd (tc_readBuffer c) (IoBytes data) = Inr (int (length data), None, b)" "Buffer_inv b"
    "Buffer_content b = Buffer_content (tc_readBuffer c) @ data" "room b m" by (auto simp: room_def add.assoc)
  ultimately show ?thesis using assms(3,4) by (auto simp: TcpConnection_handleRead_def Let_def)
qed

text \<open>Between two commands; \<open>pre\<close> of the next has arrived.\<close>

definition mc_waiting :: "('k \<Rightarrow> int \<Rightarrow> 32 word option) \<Rightarrow> string \<Rightarrow> (epoll \<times> 'k, 'n) mc_world \<Rightarrow> bool" where
  "mc_waiting registered pre w \<longleftrightarrow> conn_ok registered w \<and> Buffer_inv (tc_readBuffer (fst w)) \<and>
     Buffer_content (tc_readBuffer (fst w)) = pre \<and> ma_task (el_app (snd w)) = mcacheTask_new \<and>
     \<not> tc_closeing (fst w) \<and> \<not> tc_shouldBeClosed (fst w) \<and> \<not> tc_hasMoreData (fst w)"

lemma mc_waiting_stable: "loop_stable registered (mc_waiting registered pre)"
  by (simp add: loop_stable_def mc_waiting_def)

text \<open>Without its line break the command waits.\<close>

lemma mc_handler_waits:
  assumes "mc_waiting registered pre w" and "room (tc_readBuffer (fst w)) m" and "\<not> sublist kCRLF pre"
  shows "mcacheTaskHandle_OnMessageCallback env ops own cbs w = Some (Inr w)"
proof -
  have w: "Buffer_inv (tc_readBuffer (fst w))" "Buffer_content (tc_readBuffer (fst w)) = pre" "ma_task (el_app (snd w)) = mcacheTask_new"
    using assms(1) by (simp_all add: mc_waiting_def)
  have "Buffer_findCRLF (tc_readBuffer (fst w)) = None"
    using buffer_findCRLF_splits [OF w(1)] w(2) assms(3) by (auto simp: sublist_def split: option.splits)
  moreover have "mc_world_of (mc_view w) = w" by (simp add: mc_world_of_def prod_eq_iff)
  ultimately show ?thesis
    using traceable_c_string [OF room_traceable [OF w(1) assms(2)]] w(3)
    by (auto simp: mcacheTaskHandle_OnMessageCallback_def mcacheTask_taskCommunition_def mcacheTask_new_def)
qed

context epoll_kernel begin

lemma mc_wait_turn:
  fixes l :: "('k, tcp_conn \<times> 'n mc_app) epoll_loop"
  assumes l: "between_turns (mc_waiting registered pre) l" and room: "room (tc_readBuffer (fst (el_app l))) (length data + m)"
    and data: "data \<noteq> []" "\<not> sublist kCRLF (pre @ data)"
  shows "case conn_turn (epoll_ops ctl) (mc_callbacks env (epoll_ops ctl) f) t (Readable (IoBytes data)) l of
     Inl e \<Rightarrow> False
   | Inr l' \<Rightarrow> between_turns (mc_waiting registered (pre @ data)) l' \<and>
       room (tc_readBuffer (fst (el_app l'))) m \<and> snd (el_app l') = snd (el_app l) \<and>
       (\<exists>b. fst (el_app l') = (fst (el_app l))\<lparr>tc_readBuffer := b\<rparr>)"
proof (rule turn_lift_facts [OF l mc_waiting_stable mc_waiting_stable,
    where R = "\<lambda>c a. room (tc_readBuffer c) m \<and> a = snd (el_app l) \<and> (\<exists>b. c = (fst (el_app l))\<lparr>tc_readBuffer := b\<rparr>)"])
  let ?cbs = "mc_callbacks env (epoll_ops ctl) f"
  have step: "\<exists>b. conn_step (epoll_ops ctl) ?cbs t (Readable (IoBytes data)) w = Inr ((fst w)\<lparr>tc_readBuffer := b\<rparr>, snd w) \<and>
      mc_waiting registered (pre @ data) ((fst w)\<lparr>tc_readBuffer := b\<rparr>, snd w) \<and> room b m"
    if w: "mc_waiting registered pre w" "fst w = fst (el_app l)" for w :: "(epoll \<times> 'k, 'n) mc_world"
  proof -
    obtain c l1 where wc: "w = (c, l1)" by (cases w)
    obtain g where g: "cb_message ?cbs = Some g" by (simp add: mc_callbacks_def Let_def)
    from readable_room_step [OF _ _ data(1) g, of c m "epoll_ops ctl" t l1] w room obtain b where
      b: "Buffer_inv b" "Buffer_content b = pre @ data" "room b m"
        "conn_step (epoll_ops ctl) ?cbs t (Readable (IoBytes data)) (c, l1) = g t (c\<lparr>tc_readBuffer := b\<rparr>, l1)"
      by (auto simp: mc_waiting_def wc)
    have wait: "mc_waiting registered (pre @ data) (c\<lparr>tc_readBuffer := b\<rparr>, l1)" using w(1) b(1,2) by (simp add: mc_waiting_def wc)
    from mc_handler_waits [OF this _ data(2), of m] b(3) g have "g t (c\<lparr>tc_readBuffer := b\<rparr>, l1) = Inr (c\<lparr>tc_readBuffer := b\<rparr>, l1)"
      by (auto simp: mc_callbacks_def Let_def)
    with b(3,4) wait show ?thesis by (auto simp: wc simp del: conn_step.simps)
  qed
  show "conn_ok registered (fst (el_app l), with_app (snd (el_app l)) l)" using l by (simp add: between_turns_def mc_waiting_def)
  fix w :: "(epoll \<times> 'k, 'n) mc_world" assume w: "mc_waiting registered pre w" "fst w = fst (el_app l)"
  show "conn_frame w w'" if "conn_step (epoll_ops ctl) ?cbs t (Readable (IoBytes data)) w = Inr w'" for w'
    using step [OF w] that by (auto simp: conn_frame_def simp del: conn_step.simps)
  assume app: "el_app (snd w) = snd (el_app l)"
  from step [OF w] w(2) app show "case conn_step (epoll_ops ctl) ?cbs t (Readable (IoBytes data)) w of
     Inl e \<Rightarrow> False
   | Inr w' \<Rightarrow> mc_waiting registered (pre @ data) w' \<and> room (tc_readBuffer (fst w')) m \<and> el_app (snd w') = snd (el_app l) \<and>
       (\<exists>b. fst w' = (fst (el_app l))\<lparr>tc_readBuffer := b\<rparr>)"
    by (auto simp del: conn_step.simps)
qed

lemma mc_wait_turns:
  "between_turns (mc_waiting registered pre) l \<Longrightarrow> room (tc_readBuffer (fst (el_app l))) (length (concat ds) + m) \<Longrightarrow>
    \<forall>d \<in> set ds. d \<noteq> [] \<Longrightarrow> \<not> sublist kCRLF (pre @ concat ds) \<Longrightarrow>
    \<exists>l'. conn_turns (epoll_ops ctl) (mc_callbacks env (epoll_ops ctl) f) t (map (\<lambda>d. Readable (IoBytes d)) ds) l = Inr l' \<and>
      between_turns (mc_waiting registered (pre @ concat ds)) l' \<and> room (tc_readBuffer (fst (el_app l'))) m \<and>
      snd (el_app l') = snd (el_app l) \<and> (\<exists>b. fst (el_app l') = (fst (el_app l))\<lparr>tc_readBuffer := b\<rparr>)"
proof (induction ds arbitrary: pre l)
  case Nil
  then show ?case by (auto intro: exI [of _ "tc_readBuffer (fst (el_app l))"])
next
  case (Cons d ds)
  have "\<not> sublist kCRLF (pre @ d)" using Cons.prems(4) sublist_order.order_trans [of kCRLF "pre @ d" "(pre @ d) @ concat ds"] by auto
  with mc_wait_turn [OF Cons.prems(1), of d "length (concat ds) + m" env f t] Cons.prems(2,3) obtain l1 where
    l1: "conn_turn (epoll_ops ctl) (mc_callbacks env (epoll_ops ctl) f) t (Readable (IoBytes d)) l = Inr l1"
      "between_turns (mc_waiting registered (pre @ d)) l1" "room (tc_readBuffer (fst (el_app l1))) (length (concat ds) + m)"
      "snd (el_app l1) = snd (el_app l)" "\<exists>b. fst (el_app l1) = (fst (el_app l))\<lparr>tc_readBuffer := b\<rparr>"
    by (auto simp: add.assoc split: sum.splits)
  have "\<not> tc_closeing (fst (el_app l))" using Cons.prems(1) by (simp add: between_turns_def mc_waiting_def)
  with Cons.IH [OF l1(2,3)] Cons.prems(3,4) l1(1,4,5) show ?case by auto
qed

text \<open>The data with the line break: the reply of the server waits in the write buffer.\<close>

lemma mc_answer_turn:
  fixes l :: "('k, tcp_conn \<times> 'n mc_app) epoll_loop"
  assumes l: "between_turns (mc_waiting registered pre) l" and app: "el_app l = (c, a)" and room: "room (tc_readBuffer c) (length data)"
    and data: "data \<noteq> []" "pre @ data = head @ kCRLF @ rest" "CHR 0x0D \<notin> set head"
    and plan: "one_line_plan (command_words env head) = Some (key, False)"
    and asks: "asks env (ma_hash a) key (head @ kCRLF) (ma_net a) h reply k" "reply \<noteq> []"
    and fits: "writerIndex (tc_writeBuffer c) + length reply \<le> vec_max"
  shows "case conn_turn (epoll_ops ctl) (mc_callbacks env (epoll_ops ctl) f) t (Readable (IoBytes data)) l of
     Inl e \<Rightarrow> False
   | Inr l' \<Rightarrow> between_turns (sending registered (tcp_bytes (c, l) @ reply)) l' \<and> tc_sent (fst (el_app l')) = tc_sent c \<and>
       Buffer_content (tc_readBuffer (fst (el_app l'))) = rest \<and>
       snd (el_app l') = \<lparr>ma_task = mcacheTask_new, ma_hash = h, ma_net = k\<rparr>"
proof (rule turn_lift_facts [OF l mc_waiting_stable sending_stable, where R = "\<lambda>c' a'. tc_sent c' = tc_sent c \<and>
    Buffer_content (tc_readBuffer c') = rest \<and> a' = \<lparr>ma_task = mcacheTask_new, ma_hash = h, ma_net = k\<rparr>"])
  let ?cbs = "mc_callbacks env (epoll_ops ctl) f"
  let ?conn = "\<lparr>cb_message = None, cb_close = Some (queue_clear f), cb_moreData = None\<rparr>"
  have step: "\<exists>w'. conn_step (epoll_ops ctl) ?cbs t (Readable (IoBytes data)) w = Inr w' \<and> conn_frame w w' \<and>
      sending registered (tcp_bytes (c, l) @ reply) w' \<and> tc_sent (fst w') = tc_sent c \<and>
      Buffer_content (tc_readBuffer (fst w')) = rest \<and> el_app (snd w') = \<lparr>ma_task = mcacheTask_new, ma_hash = h, ma_net = k\<rparr>"
    if w: "mc_waiting registered pre w" "fst w = c" "el_app (snd w) = a" for w :: "(epoll \<times> 'k, 'n) mc_world"
  proof -
    obtain l1 where wc: "w = (c, l1)" using w(2) by (cases w) simp
    obtain g where g: "cb_message ?cbs = Some g" by (simp add: mc_callbacks_def Let_def)
    from readable_room_step [OF _ _ data(1) g, of c 0 "epoll_ops ctl" t l1] w room obtain b where
      b: "Buffer_inv b" "Buffer_content b = pre @ data" "room b 0"
        "conn_step (epoll_ops ctl) ?cbs t (Readable (IoBytes data)) (c, l1) = g t (c\<lparr>tc_readBuffer := b\<rparr>, l1)"
      by (auto simp: mc_waiting_def wc)
    let ?c = "c\<lparr>tc_readBuffer := b\<rparr>"
    have c: "conn_ok registered (?c, l1)" "ma_task a = mcacheTask_new" "\<not> tc_closeing c" "\<not> tc_shouldBeClosed c" "\<not> tc_hasMoreData c"
      "el_app l1 = a" using w by (simp_all add: mc_waiting_def wc)
    from mcache_server_relays [of ctl registered ?c l1 head rest env key h reply k ?conn, OF epoll_kernel_axioms c(1) _ _ _ data(3) _ plan]
      b data(2) asks(1) fits room_traceable [OF b(1,3)] c(2,6) obtain c' l' where
      r: "mcacheTaskHandle_OnMessageCallback env (epoll_ops ctl) True ?conn (?c, l1) = Some (Inr (c', l'))"
        "conn_ok registered (c', l')" "tcp_bytes (c', l') = tcp_bytes (?c, l1) @ reply" "tc_closeing c' = tc_closeing ?c"
        "tc_shouldBeClosed c' = tc_shouldBeClosed ?c" "Buffer_content (tc_readBuffer c') = rest" "tc_sent c' = tc_sent ?c"
        "tc_hasMoreData c' = tc_hasMoreData ?c" "conn_frame (?c, l1) (c', l')"
        "el_app l' = \<lparr>ma_task = mcacheTask_new, ma_hash = h, ma_net = k\<rparr>" by auto
    have frame: "conn_frame (c, l1) (c', l')"
      by (rule conn_frame_trans [OF _ r(9)]) (simp add: conn_frame_def)
    have "Buffer_content (tc_writeBuffer c') = Buffer_content (tc_writeBuffer c) @ reply"
      using r(3,7) by (simp add: tcp_bytes_def)
    then have "sending registered (tcp_bytes (c, l) @ reply) (c', l')"
      using r c asks(2) by (simp add: sending_def tcp_bytes_def)
    moreover have "g t (?c, l1) = Inr (c', l')" using g r(1) by (auto simp: mc_callbacks_def Let_def)
    ultimately show ?thesis using b(4) frame r(6,7,10) by (simp add: wc del: conn_step.simps)
  qed
  show "conn_ok registered (fst (el_app l), with_app (snd (el_app l)) l)" using l by (simp add: between_turns_def mc_waiting_def)
  fix w :: "(epoll \<times> 'k, 'n) mc_world"
  assume w: "mc_waiting registered pre w" "fst w = fst (el_app l)" "el_app (snd w) = snd (el_app l)"
  from step [OF w(1)] w(2,3) app obtain w1 where w1: "conn_step (epoll_ops ctl) ?cbs t (Readable (IoBytes data)) w = Inr w1"
    "conn_frame w w1" "sending registered (tcp_bytes (c, l) @ reply) w1" "tc_sent (fst w1) = tc_sent c"
    "Buffer_content (tc_readBuffer (fst w1)) = rest" "el_app (snd w1) = \<lparr>ma_task = mcacheTask_new, ma_hash = h, ma_net = k\<rparr>" by auto
  then show "case conn_step (epoll_ops ctl) ?cbs t (Readable (IoBytes data)) w of
     Inl e \<Rightarrow> False
   | Inr w' \<Rightarrow> sending registered (tcp_bytes (c, l) @ reply) w' \<and> tc_sent (fst w') = tc_sent c \<and>
       Buffer_content (tc_readBuffer (fst w')) = rest \<and> el_app (snd w') = \<lparr>ma_task = mcacheTask_new, ma_hash = h, ma_net = k\<rparr>"
    by (simp del: conn_step.simps)
  show "conn_frame w w'" if "conn_step (epoll_ops ctl) ?cbs t (Readable (IoBytes data)) w = Inr w'" for w'
    using w1(1,2) that by (simp del: conn_step.simps)
qed

end

context epoll_kernel begin

text \<open>The pieces of the line arrive: the reply is queued.\<close>

lemma mc_command_arrives:
  fixes l :: "('k, tcp_conn \<times> 'n mc_app) epoll_loop"
  assumes "between_turns (mc_waiting registered []) l" and "el_app l = (c, a)"
    and "room (tc_readBuffer c) (length (concat ds) + length d)" and "\<forall>x \<in> set (ds @ [d]). x \<noteq> []"
    and "concat ds @ d = head @ kCRLF @ rest" and "\<not> sublist kCRLF (concat ds)" and "CHR 0x0D \<notin> set head"
    and "one_line_plan (command_words env head) = Some (key, False)"
    and "asks env (ma_hash a) key (head @ kCRLF) (ma_net a) h reply k" and "reply \<noteq> []"
    and "writerIndex (tc_writeBuffer c) + length reply \<le> vec_max"
  shows "\<exists>l'. conn_turns (epoll_ops ctl) (mc_callbacks env (epoll_ops ctl) f) t (map (\<lambda>d. Readable (IoBytes d)) (ds @ [d])) l = Inr l' \<and>
    between_turns (\<lambda>w. sending registered (tcp_bytes (c, l) @ reply) w \<and> Buffer_content (tc_readBuffer (fst w)) = rest \<and>
      el_app (snd w) = \<lparr>ma_task = mcacheTask_new, ma_hash = h, ma_net = k\<rparr>) l' \<and> tc_sent (fst (el_app l')) = tc_sent c"
proof -
  let ?cbs = "mc_callbacks env (epoll_ops ctl) f"
  from mc_wait_turns [OF assms(1), of ds "length d" env f t] assms(2-4,6) obtain l1 b where
    l1: "conn_turns (epoll_ops ctl) ?cbs t (map (\<lambda>d. Readable (IoBytes d)) ds) l = Inr l1"
      "between_turns (mc_waiting registered (concat ds)) l1" "el_app l1 = (c\<lparr>tc_readBuffer := b\<rparr>, a)" "room b (length d)"
    by (auto simp: prod_eq_iff)
  have nc: "\<not> tc_closeing (fst (el_app l1))" using l1(2) by (simp add: between_turns_def mc_waiting_def)
  have "d \<noteq> []" "room (tc_readBuffer (c\<lparr>tc_readBuffer := b\<rparr>)) (length d)"
    "writerIndex (tc_writeBuffer (c\<lparr>tc_readBuffer := b\<rparr>)) + length reply \<le> vec_max" using assms(4,11) l1(4) by simp_all
  from mc_answer_turn [OF l1(2,3) this(2,1) assms(5,7-10) this(3), of f t] obtain l2 where
    l2: "conn_turn (epoll_ops ctl) ?cbs t (Readable (IoBytes d)) l1 = Inr l2"
      "between_turns (sending registered (tcp_bytes (c, l) @ reply)) l2"
      "tc_sent (fst (el_app l2)) = tc_sent c" "Buffer_content (tc_readBuffer (fst (el_app l2))) = rest"
      "snd (el_app l2) = \<lparr>ma_task = mcacheTask_new, ma_hash = h, ma_net = k\<rparr>"
    by (auto simp: tcp_bytes_def split: sum.splits)
  then show ?thesis using l1(1) nc
    by (auto simp: conn_turns_append between_turns_def intro!: exI [of _ l2])
qed

text \<open>The reply goes out; nothing else of the connection or its task changes.\<close>

lemma mc_sending_turns:
  fixes l :: "('k, tcp_conn \<times> 'n mc_app) epoll_loop"
  defines "P \<equiv> \<lambda>bytes rest app w. sending registered bytes w \<and> Buffer_content (tc_readBuffer (fst w)) = rest \<and> el_app (snd w) = app"
  assumes "between_turns (P bytes rest app) l"
    and "turns_documented (epoll_ops ctl) (mc_callbacks env (epoll_ops ctl) f) t (map Sendable rss) l"
    and "turns_watched registered (epoll_ops ctl) (mc_callbacks env (epoll_ops ctl) f) t (map Sendable rss) l"
  shows "\<exists>l'. conn_turns (epoll_ops ctl) (mc_callbacks env (epoll_ops ctl) f) t (map Sendable rss) l = Inr l' \<and>
    between_turns (P bytes rest app) l' \<and>
    length (tc_sent (fst (el_app l'))) = length (tc_sent (fst (el_app l))) + sum_list (map taken rss)"
proof (rule write_turns [OF _ _ _ assms(2-4)])
  let ?cbs = "mc_callbacks env (epoll_ops ctl) f"
  show "loop_stable registered (P bytes rest app)"
    using loop_stable_conj [OF sending_stable, of registered bytes "\<lambda>c a. Buffer_content (tc_readBuffer c) = rest \<and> a = app"]
    by (simp add: P_def)
  fix w :: "(epoll \<times> 'k, 'n) mc_world" and rs
  assume w: "P bytes rest app w"
  then show "conn_ok registered w \<and> \<not> tc_closeing (fst w) \<and> (Buffer_content (tc_writeBuffer (fst w)) = [] \<longrightarrow>
    (\<exists>m. registered (snd (el_poll (snd w))) (tc_fd (fst w)) = Some m \<and> m AND kWriteEvent = 0))" by (simp add: P_def sending_def)
  assume "Buffer_content (tc_writeBuffer (fst w)) \<noteq> []" "write_documented (fst w) rs"
  with sending_step [of bytes w rs ?cbs t] w obtain w' where
    w': "conn_step (epoll_ops ctl) ?cbs t (Sendable rs) w = Inr w'" "P bytes rest app w'"
      "length (tc_sent (fst w')) = length (tc_sent (fst w)) + taken rs" unfolding P_def by metis
  with mc_sendable_frame [OF w'(1)] show "\<exists>w'. conn_step (epoll_ops ctl) ?cbs t (Sendable rs) w = Inr w' \<and> conn_frame w w' \<and>
      P bytes rest app w' \<and> length (tc_sent (fst w')) = length (tc_sent (fst w)) + taken rs" by blast
qed

end

text \<open>
  C12: A command over the turns of the worker's loop. The line may arrive in any pieces: the
  task waits without asking anybody. The piece that completes it asks the server that the
  ring picks for the key and queues its reply; then, however the kernel splits the writes,
  what the socket took is a prefix of what was queued before and the reply. Once all was
  taken the loop stops watching for writability; the connection stays open for the next
  command, whose bytes behind the line are still there, with a fresh task.
\<close>
theorem mcache_command_over_loop:
  fixes l :: "('k, tcp_conn \<times> 'n mc_app) epoll_loop"
  assumes "epoll_kernel ctl registered" and "between_turns (mc_waiting registered []) l" and "el_app l = (c, a)"
    and "room (tc_readBuffer c) (length (concat ds) + length d)" and "\<forall>x \<in> set (ds @ [d]). x \<noteq> []"
    and "concat ds @ d = head @ kCRLF @ rest" and "\<not> sublist kCRLF (concat ds)" and "CHR 0x0D \<notin> set head"
    and "one_line_plan (command_words env head) = Some (key, False)"
    and "asks env (ma_hash a) key (head @ kCRLF) (ma_net a) h reply k" and "reply \<noteq> []"
    and "writerIndex (tc_writeBuffer c) + length reply \<le> vec_max"
    and "turns_documented (epoll_ops ctl) (mc_callbacks env (epoll_ops ctl) f) t
      (map (\<lambda>d. Readable (IoBytes d)) (ds @ [d]) @ map Sendable rss) l"
    and "turns_watched registered (epoll_ops ctl) (mc_callbacks env (epoll_ops ctl) f) t
      (map (\<lambda>d. Readable (IoBytes d)) (ds @ [d]) @ map Sendable rss) l"
  shows "\<exists>l'. conn_turns (epoll_ops ctl) (mc_callbacks env (epoll_ops ctl) f) t
      (map (\<lambda>d. Readable (IoBytes d)) (ds @ [d]) @ map Sendable rss) l = Inr l' \<and>
    (let c' = fst (el_app l'); bytes = tcp_bytes (c, l) @ reply in
     prefix (tc_sent c') bytes \<and> \<not> tc_closeing c' \<and> \<not> tc_shouldBeClosed c' \<and>
     (length bytes \<le> length (tc_sent c) + sum_list (map taken rss) \<longrightarrow> tc_sent c' = bytes \<and>
       (\<exists>m. registered (snd (el_poll l')) (tc_fd c') = Some m \<and> m AND kWriteEvent = 0)) \<and>
     Buffer_content (tc_readBuffer c') = rest \<and> snd (el_app l') = \<lparr>ma_task = mcacheTask_new, ma_hash = h, ma_net = k\<rparr>)"
proof -
  let ?cbs = "mc_callbacks env (epoll_ops ctl) f" and ?bytes = "tcp_bytes (c, l) @ reply"
  let ?app = "\<lparr>ma_task = mcacheTask_new, ma_hash = h, ma_net = k\<rparr>"
  let ?P = "\<lambda>w. sending registered ?bytes w \<and> Buffer_content (tc_readBuffer (fst w)) = rest \<and> el_app (snd w) = ?app"
  let ?send = "map Sendable rss" and ?reads = "map (\<lambda>d. Readable (IoBytes d)) (ds @ [d])"
  from epoll_kernel.mc_command_arrives [OF assms(1-12), of f t] obtain l2 where
    l2: "conn_turns (epoll_ops ctl) ?cbs t ?reads l = Inr l2" "between_turns ?P l2" "tc_sent (fst (el_app l2)) = tc_sent c" by blast
  have "turns_documented (epoll_ops ctl) ?cbs t ?send l2" "turns_watched registered (epoll_ops ctl) ?cbs t ?send l2"
    using assms(13,14) [unfolded turns_all_append] l2(1) by simp_all
  from epoll_kernel.mc_sending_turns [OF assms(1) l2(2) this] obtain l' where
    l': "conn_turns (epoll_ops ctl) ?cbs t ?send l2 = Inr l'" "between_turns ?P l'"
      "length (tc_sent (fst (el_app l'))) = length (tc_sent (fst (el_app l2))) + sum_list (map taken rss)" by blast
  have run: "conn_turns (epoll_ops ctl) ?cbs t (map (\<lambda>d. Readable (IoBytes d)) (ds @ [d]) @ ?send) l = Inr l'"
    unfolding conn_turns_append l2(1) using l'(1) by simp
  have s: "sending registered ?bytes (fst (el_app l'), with_app (snd (el_app l')) l')"
    using l'(2) unfolding between_turns_def by blast
  have eq: "tc_sent (fst (el_app l')) @ Buffer_content (tc_writeBuffer (fst (el_app l'))) = ?bytes"
    using s by (simp add: sending_def tcp_bytes_def)
  have "length (tc_sent (fst (el_app l'))) + length (Buffer_content (tc_writeBuffer (fst (el_app l')))) = length ?bytes"
    by (simp flip: eq)
  then have all: "Buffer_content (tc_writeBuffer (fst (el_app l'))) = []" if "length ?bytes \<le> length (tc_sent c) + sum_list (map taken rss)"
    using that l'(3) l2(3) by (simp flip: length_0_conv)
  have "prefix (tc_sent (fst (el_app l'))) ?bytes" using eq by (metis prefixI)
  with s eq all l'(2) show ?thesis unfolding run by (auto simp: Let_def sending_def between_turns_def)
qed

section \<open>Example\<close>

text \<open>A connection of the sample daemon with an empty read buffer.\<close>

definition demo_start_conn :: tcp_conn where
  "demo_start_conn = demo_conn\<lparr>tc_readBuffer := \<lparr>initialSize = 56, storage = replicate 64 (CHR 0x00), readerIndex = 8, writerIndex = 8\<rparr>\<rparr>"

definition demo_start_loop :: "((int, 32 word) smap, tcp_conn \<times> string mc_app) epoll_loop" where
  "demo_start_loop = demo_app_loop (demo_start_conn, mcacheTaskHandle_new demo_ring [])"

lemma demo_start_facts:
  "between_turns (mc_waiting smap_find []) demo_start_loop" "el_app demo_start_loop = (demo_start_conn, mcacheTaskHandle_new demo_ring [])"
  "room (tc_readBuffer demo_start_conn) 20" "tcp_bytes (demo_start_conn, l) = ''ab''"
  "writerIndex (tc_writeBuffer demo_start_conn) + 100 \<le> vec_max"
proof -
  have app: "with_app a (demo_app_loop b) = demo_app_loop a" for a :: "string mc_app" and b :: "tcp_conn \<times> string mc_app"
    by (simp add: with_app_def demo_app_loop_def)
  have "conn_ok smap_find (demo_start_conn, demo_app_loop a)" for a :: "string mc_app"
    using demo_app_conn(1) [where a = a] by (simp add: demo_start_conn_def)
  then show "between_turns (mc_waiting smap_find []) demo_start_loop"
    by (simp add: between_turns_def mc_waiting_def demo_start_loop_def app)
      (simp add: demo_app_loop_def app mcacheTaskHandle_new_def demo_start_conn_def demo_conn_def Buffer_inv_def Buffer_content_alt
        vec_slice_def kCheapPrepend_def vec_max_def)
  show "tcp_bytes (demo_start_conn, l) = ''ab''" by (simp add: demo_start_conn_def tcp_bytes_def demo_conn_def demo_buffer_facts)
qed (simp_all add: demo_start_loop_def demo_app_loop_def demo_start_conn_def room_def demo_conn_def demo_buffer_def vec_max_def)

lemma reads_watched: "turns_watched registered ops cbs t (map (\<lambda>d. Readable (IoBytes d)) ds) l"
  by (induction ds arbitrary: l) (auto split: sum.split)

definition demo_start_pieces :: "string list" where
  "demo_start_pieces = [''dele'']"

theorem mcache_command_over_loop_witness:
  "\<exists>l'. conn_turns (epoll_ops table_ctl) (mc_callbacks demo_server_env (epoll_ops table_ctl) 7) (Timestamp 5)
      (map (\<lambda>d. Readable (IoBytes d)) (demo_start_pieces @ [''te k'' @ kCRLF @ ''v'']) @ map Sendable [[WriteError EAGAIN]]) demo_start_loop = Inr l' \<and>
    prefix (tc_sent (fst (el_app l'))) (''abSTORED'' @ kCRLF) \<and> Buffer_content (tc_readBuffer (fst (el_app l'))) = ''v''"
proof -
  let ?d = "''te k'' @ kCRLF @ ''v''" and ?a = "mcacheTaskHandle_new demo_ring [] :: string mc_app"
  let ?reads = "map (\<lambda>d. Readable (IoBytes d)) (demo_start_pieces @ [?d])" and ?cbs = "mc_callbacks demo_server_env (epoll_ops table_ctl) 7"
  obtain h where h: "asks demo_server_env (ma_hash ?a) ''k'' (''delete k'' @ kCRLF) (ma_net ?a) h (''STORED'' @ kCRLF) (''delete k'' @ kCRLF)"
    using demo_asks by (auto simp: mcacheTaskHandle_new_def)
  have room: "room (tc_readBuffer demo_start_conn) (length (concat demo_start_pieces) + length ?d)"
    by (simp add: room_def demo_start_conn_def demo_start_pieces_def kCRLF_def)
  have line: "\<forall>x \<in> set (demo_start_pieces @ [?d]). x \<noteq> []" "concat demo_start_pieces @ ?d = ''delete k'' @ kCRLF @ ''v''"
    "''STORED'' @ kCRLF \<noteq> []" by (simp_all add: demo_start_pieces_def)
  have early: "\<not> sublist kCRLF (concat demo_start_pieces)" unfolding demo_start_pieces_def kCRLF_def by code_simp
  have fits: "writerIndex (tc_writeBuffer demo_start_conn) + length (''STORED'' @ kCRLF) \<le> vec_max"
    using demo_start_facts(5) by (simp add: kCRLF_def)
  note plan = demo_mc_facts(7)
  from table.mc_command_arrives [OF demo_start_facts(1,2) room line(1,2) early demo_mc_facts(5) plan h line(3) fits, of 7 "Timestamp 5"]
  obtain l2 where l2: "conn_turns (epoll_ops table_ctl) ?cbs (Timestamp 5) ?reads demo_start_loop = Inr l2"
    "between_turns (\<lambda>w. sending smap_find (tcp_bytes (demo_start_conn, demo_start_loop) @ ''STORED'' @ kCRLF) w \<and>
      Buffer_content (tc_readBuffer (fst w)) = ''v'' \<and>
      el_app (snd w) = \<lparr>ma_task = mcacheTask_new, ma_hash = h, ma_net = ''delete k'' @ kCRLF\<rparr>) l2"
    "tc_sent (fst (el_app l2)) = tc_sent demo_start_conn"
    by blast
  have s: "sending smap_find (''ab'' @ ''STORED'' @ kCRLF) (fst (el_app l2), with_app (snd (el_app l2)) l2)"
    using l2(2) unfolding between_turns_def demo_start_facts by blast
  have "tc_sent (fst (el_app l2)) = []" using l2(3) by (simp add: demo_start_conn_def demo_conn_def)
  with s have "conn_ok smap_find (fst (el_app l2), with_app (snd (el_app l2)) l2)" "Buffer_content (tc_writeBuffer (fst (el_app l2))) \<noteq> []"
    by (auto simp: sending_def tcp_bytes_def)
  from pending_watched [OF this] have watched: "turns_watched smap_find (epoll_ops table_ctl) ?cbs (Timestamp 5)
      (?reads @ map Sendable [[WriteError EAGAIN]]) demo_start_loop"
    unfolding turns_all_append l2(1) by (intro conjI reads_watched) (simp split: sum.split)
  have docs: "turns_documented (epoll_ops table_ctl) ?cbs (Timestamp 5) (?reads @ map Sendable [[WriteError EAGAIN]]) demo_start_loop"
    by (rule turns_always) (auto simp: readv_fits_def write_documented_def demo_start_pieces_def extrabuf_size_def kCRLF_def)
  from mcache_command_over_loop [OF table.epoll_kernel_axioms demo_start_facts(1,2) room line(1,2) early demo_mc_facts(5) plan h line(3)
      fits docs watched]
  show ?thesis by (auto simp: Let_def demo_start_facts)
qed

end
