(* ===== verification/Sockets.thy ===== *)
theory Sockets
  imports Byte_Order
begin

text \<open>
  \<open>src/base/NetAddress.h/.cpp\<close>, \<open>Socket.h/.cpp\<close> and \<open>PipeFd.h\<close>: addresses as the kernel takes them, and
  the wrapper of a socket descriptor. The system calls are the record \<open>sock_ops\<close> of
  functions on the state of the kernel, a parameter, as is \<open>inet_pton\<close>. A result of -1
  is a failure; only \<open>connect\<close> looks at \<open>errno\<close>. Lemmas: the port is in network byte
  order in memory, and a socket from \<open>accept\<close> is non-blocking and closed on \<open>exec\<close>.
\<close>

unbundle bit_operations_syntax

section \<open>Addresses\<close>

definition AF_INET :: "16 word" where "AF_INET = 2"
definition AF_INET6 :: "16 word" where "AF_INET6 = 10"

text \<open>Family, port as stored, and the bytes of the address.\<close>

datatype sockaddr =
    Sockaddr_in "16 word" "16 word" "char list"
  | Sockaddr_in6 "16 word" "16 word" "char list"

text \<open>The union holds one of the two, which \<open>family_\<close> tells.\<close>

record net_address =
  na_family :: "16 word"
  na_addr :: sockaddr

text \<open>\<open>inet_pton\<close> gives no bytes for a text that is no address: the zeros stay.\<close>

definition NetAddress_new :: "host \<Rightarrow> (16 word \<Rightarrow> string \<Rightarrow> char list option) \<Rightarrow> 16 word \<Rightarrow> int \<Rightarrow> string \<Rightarrow> net_address" where
  "NetAddress_new host inet_pton family port ip =
     (let sin_port = hostToNetwork16 host (word_of_int port) in
      if family = AF_INET
      then \<lparr>na_family = family, na_addr = Sockaddr_in family sin_port
              (case inet_pton family ip of None \<Rightarrow> replicate 4 (CHR 0x00) | Some b \<Rightarrow> b)\<rparr>
      else \<lparr>na_family = family, na_addr = Sockaddr_in6 family sin_port
              (case inet_pton family ip of None \<Rightarrow> replicate 16 (CHR 0x00) | Some b \<Rightarrow> b)\<rparr>)"

definition NetAddress_addrPtr :: "net_address \<Rightarrow> sockaddr" where
  "NetAddress_addrPtr a = na_addr a"

definition NetAddress_addrLen :: "net_address \<Rightarrow> nat" where
  "NetAddress_addrLen a = (if na_family a = AF_INET then 16 else if na_family a = AF_INET6 then 28 else 28)"

section \<open>Sockets\<close>

definition F_GETFD :: int where "F_GETFD = 1"
definition F_SETFD :: int where "F_SETFD = 2"
definition F_GETFL :: int where "F_GETFL = 3"
definition F_SETFL :: int where "F_SETFL = 4"
definition FD_CLOEXEC :: "32 word" where "FD_CLOEXEC = 1"
definition O_NONBLOCK :: "32 word" where "O_NONBLOCK = 0x800"
definition EINPROGRESS :: int where "EINPROGRESS = 115"

lemmas fcntl_cmds = F_GETFD_def F_SETFD_def F_GETFL_def F_SETFL_def

record 'k sock_ops =
  so_socket :: "int \<Rightarrow> int \<Rightarrow> int \<Rightarrow> 'k \<Rightarrow> int \<times> 'k"
  so_fcntl :: "int \<Rightarrow> int \<Rightarrow> 32 word \<Rightarrow> 'k \<Rightarrow> 32 word \<times> 'k"
  so_bind :: "int \<Rightarrow> sockaddr \<Rightarrow> nat \<Rightarrow> 'k \<Rightarrow> int \<times> 'k"
  so_listen :: "int \<Rightarrow> int \<Rightarrow> 'k \<Rightarrow> int \<times> 'k"
  so_connect :: "int \<Rightarrow> sockaddr \<Rightarrow> nat \<Rightarrow> 'k \<Rightarrow> (int \<times> int) \<times> 'k"
  so_accept :: "int \<Rightarrow> sockaddr \<Rightarrow> nat \<Rightarrow> 'k \<Rightarrow> (int \<times> sockaddr) \<times> 'k"
  so_close :: "int \<Rightarrow> 'k \<Rightarrow> 'k"

datatype sock_state = CLOSED | OPENED

record socket =
  sk_socket :: int
  sk_state :: sock_state

definition Socket_new :: "'k sock_ops \<Rightarrow> int \<Rightarrow> int \<Rightarrow> int \<Rightarrow> 'k \<Rightarrow> socket \<times> 'k" where
  "Socket_new ops domain type protocol k =
     (let (fd, k') = so_socket ops domain type protocol k in (\<lparr>sk_socket = fd, sk_state = OPENED\<rparr>, k'))"

definition Socket_of :: "int \<Rightarrow> socket" where
  "Socket_of sd = \<lparr>sk_socket = sd, sk_state = OPENED\<rparr>"

definition Socket_getSocket :: "socket \<Rightarrow> int" where
  "Socket_getSocket s = sk_socket s"

definition Socket_setNoBlocking :: "'k sock_ops \<Rightarrow> socket \<Rightarrow> 'k \<Rightarrow> bool \<times> 'k" where
  "Socket_setNoBlocking ops s k =
     (let (flag, k1) = so_fcntl ops (sk_socket s) F_GETFL 0 k;
          (ret, k2) = so_fcntl ops (sk_socket s) F_SETFL (flag OR O_NONBLOCK) k1
      in (ret \<noteq> - 1, k2))"

definition Socket_setExecClose :: "'k sock_ops \<Rightarrow> socket \<Rightarrow> 'k \<Rightarrow> bool \<times> 'k" where
  "Socket_setExecClose ops s k =
     (let (flag, k1) = so_fcntl ops (sk_socket s) F_GETFD 0 k;
          (ret, k2) = so_fcntl ops (sk_socket s) F_SETFD (flag OR FD_CLOEXEC) k1
      in (ret \<noteq> - 1, k2))"

definition Socket_bind :: "'k sock_ops \<Rightarrow> socket \<Rightarrow> net_address \<Rightarrow> 'k \<Rightarrow> bool \<times> 'k" where
  "Socket_bind ops s addr k =
     (let (ret, k') = so_bind ops (sk_socket s) (NetAddress_addrPtr addr) (NetAddress_addrLen addr) k in (ret \<noteq> - 1, k'))"

definition Socket_listen :: "'k sock_ops \<Rightarrow> socket \<Rightarrow> int \<Rightarrow> 'k \<Rightarrow> bool \<times> 'k" where
  "Socket_listen ops s backlog k = (let (ret, k') = so_listen ops (sk_socket s) backlog k in (ret \<noteq> - 1, k'))"

definition Socket_connect :: "'k sock_ops \<Rightarrow> socket \<Rightarrow> net_address \<Rightarrow> 'k \<Rightarrow> bool \<times> 'k" where
  "Socket_connect ops s addr k =
     (let ((ret, errno), k') = so_connect ops (sk_socket s) (NetAddress_addrPtr addr) (NetAddress_addrLen addr) k
      in (if ret = - 1 then errno = EINPROGRESS else True, k'))"

text \<open>
  The status flags with \<open>FD_CLOEXEC\<close> added go to \<open>F_SETFD\<close>, not the descriptor flags
  just read, and the result of that call is not looked at.
\<close>

definition SetNoBlockingOrExec :: "'k sock_ops \<Rightarrow> int \<Rightarrow> 'k \<Rightarrow> bool \<times> 'k" where
  "SetNoBlockingOrExec ops sd k =
     (let (flag, k1) = so_fcntl ops sd F_GETFL 0 k;
          nflag = flag OR O_NONBLOCK;
          (ret, k2) = so_fcntl ops sd F_SETFL nflag k1;
          (flag, k3) = so_fcntl ops sd F_GETFD 0 k2;
          nflag = nflag OR FD_CLOEXEC;
          k4 = (if ret = - 1 then k3 else snd (so_fcntl ops sd F_SETFD nflag k3))
      in (ret \<noteq> - 1, k4))"

definition Socket_accept :: "'k sock_ops \<Rightarrow> socket \<Rightarrow> net_address \<Rightarrow> bool \<Rightarrow> 'k \<Rightarrow> (int \<times> net_address) \<times> 'k" where
  "Socket_accept ops s addr noblockingexec k =
     (let ((ret, peer), k1) = so_accept ops (sk_socket s) (NetAddress_addrPtr addr) (NetAddress_addrLen addr) k;
          addr1 = addr\<lparr>na_addr := peer\<rparr>
      in if ret = - 1 then ((ret, addr1), k1)
         else if \<not> noblockingexec then ((ret, addr1), k1)
         else ((ret, addr1), snd (SetNoBlockingOrExec ops ret k1)))"

definition Socket_destroy :: "'k sock_ops \<Rightarrow> socket \<Rightarrow> 'k \<Rightarrow> socket \<times> 'k" where
  "Socket_destroy ops s k = (s\<lparr>sk_state := CLOSED\<rparr>, so_close ops (sk_socket s) k)"

section \<open>The port in memory\<close>

lemma le_bytes_16: "le_bytes 2 (w :: 16 word) = [char_of (unat w), char_of (unat w div 256)]"
  by (simp add: le_bytes_def upt_rec)

lemma split_16: "nat ((p :: int) mod 65536) div 256 = nat (p div 256 mod 256)" "nat (p mod 65536) mod 256 = nat (p mod 256)"
proof -
  have "p mod (256 * 256) = 256 * (p div 256 mod 256) + p mod 256" by (rule zmod_zmult2_eq) simp
  then have p: "p mod 65536 = 256 * (p div 256 mod 256) + p mod 256" by simp
  then have "p mod 65536 div 256 = p div 256 mod 256" "p mod 65536 mod 256 = p mod 256" by simp_all
  moreover have "0 \<le> p mod 65536" by simp
  ultimately show "nat (p mod 65536) div 256 = nat (p div 256 mod 256)" "nat (p mod 65536) mod 256 = nat (p mod 256)"
    by (metis nat_div_distrib nat_numeral, metis nat_mod_distrib nat_numeral zero_le_numeral)
qed

lemma port_bytes:
  "mem_image host 2 (hostToNetwork16 host (word_of_int port)) = [char_of (nat (port div 256 mod 256)), char_of (nat (port mod 256))]"
proof -
  have "mem_image host 2 (hostToNetwork16 host (word_of_int port)) = rev (le_bytes 2 (word_of_int port :: 16 word))"
    unfolding hostToNetwork16_def by (rule mem_image_host_swap) simp
  also have "\<dots> = [char_of (nat (port mod 65536) div 256), char_of (nat (port mod 65536))]"
    by (simp add: le_bytes_16 unat_eq_nat_uint uint_word_of_int)
  also have "(char_of (nat (port mod 65536)) :: char) = char_of (nat (port mod 256))"
    by (metis char_of_mod_256 split_16(2))
  finally show ?thesis by (simp only: split_16(1))
qed

text \<open>
  An address holds its port as the network expects it, most significant byte first in
  memory, on hosts of either byte order; a port outside of 16 bits is silently reduced.
  The length handed to the kernel fits the kind of address.
\<close>
theorem address_port_wire:
  "(case NetAddress_addrPtr (NetAddress_new host inet_pton family port ip) of
      Sockaddr_in f p b \<Rightarrow> family = AF_INET \<and> NetAddress_addrLen (NetAddress_new host inet_pton family port ip) = 16 \<and>
        mem_image host 2 p = [char_of (nat (port div 256 mod 256)), char_of (nat (port mod 256))]
    | Sockaddr_in6 f p b \<Rightarrow> family \<noteq> AF_INET \<and> NetAddress_addrLen (NetAddress_new host inet_pton family port ip) = 28 \<and>
        mem_image host 2 p = [char_of (nat (port div 256 mod 256)), char_of (nat (port mod 256))])"
proof -
  note port_bytes [of host port]
  then show ?thesis
    by (simp add: NetAddress_new_def NetAddress_addrPtr_def NetAddress_addrLen_def Let_def)
qed

section \<open>Accepted sockets\<close>

text \<open>
  The documented behaviour of \<open>fcntl\<close> on an open descriptor: \<open>files\<close> gives its status flags
  and whether it is closed on \<open>exec\<close>. \<open>F_SETFD\<close> looks at one bit of its argument only.
\<close>

definition fcntl_documented :: "'k sock_ops \<Rightarrow> ('k \<Rightarrow> int \<Rightarrow> (32 word \<times> bool) option) \<Rightarrow> bool" where
  "fcntl_documented ops files \<longleftrightarrow> (\<forall>k fd fl ce x. files k fd = Some (fl, ce) \<longrightarrow>
     so_fcntl ops fd F_GETFL x k = (fl, k) \<and> so_fcntl ops fd F_GETFD x k = (if ce then FD_CLOEXEC else 0, k) \<and>
     (\<exists>k'. so_fcntl ops fd F_SETFL (fl OR O_NONBLOCK) k = (0, k') \<and> files k' = (files k)(fd := Some (fl OR O_NONBLOCK, ce))) \<and>
     (\<exists>k'. so_fcntl ops fd F_SETFD x k = (0, k') \<and> files k' = (files k)(fd := Some (fl, x AND FD_CLOEXEC \<noteq> 0))))"

lemma SetNoBlockingOrExec_ok:
  assumes doc: "fcntl_documented ops files" and "files k sd = Some (fl, ce)"
  shows "\<exists>k'. SetNoBlockingOrExec ops sd k = (True, k') \<and> files k' = (files k)(sd := Some (fl OR O_NONBLOCK, True))"
proof -
  note law = doc [unfolded fcntl_documented_def, rule_format]
  let ?fl = "fl OR O_NONBLOCK"
  from law [OF assms(2)] obtain k1 where k1: "so_fcntl ops sd F_GETFL 0 k = (fl, k)" "so_fcntl ops sd F_SETFL ?fl k = (0, k1)"
    "files k1 = (files k)(sd := Some (?fl, ce))" by blast
  then have "files k1 sd = Some (?fl, ce)" by simp
  from law [OF this, of "?fl OR FD_CLOEXEC"] law [OF this, of 0] obtain f k2 where
    k2: "so_fcntl ops sd F_GETFD 0 k1 = (f, k1)" "so_fcntl ops sd F_SETFD (?fl OR FD_CLOEXEC) k1 = (0, k2)"
      "files k2 = (files k1)(sd := Some (?fl, (?fl OR FD_CLOEXEC) AND FD_CLOEXEC \<noteq> 0))" by blast
  have "(?fl OR FD_CLOEXEC) AND FD_CLOEXEC \<noteq> 0" by (simp add: FD_CLOEXEC_def word_bw_comms word_ao_absorbs)
  with k1 k2 show ?thesis by (simp add: SetNoBlockingOrExec_def)
qed

text \<open>
  Every socket that \<open>accept\<close> hands on is non-blocking and closed on \<open>exec\<close>, its other
  flags are as the kernel made them, and no other descriptor is touched -- although the
  status flags are passed where the descriptor flags belong. A failed \<open>accept\<close> changes
  nothing further and returns -1.
\<close>
theorem accept_sets_flags:
  assumes "fcntl_documented ops files"
    and "so_accept ops (sk_socket s) (NetAddress_addrPtr a) (NetAddress_addrLen a) k = ((sd, peer), k1)"
    and "sd \<noteq> - 1 \<longrightarrow> files k1 sd = Some (fl, ce)"
  shows "\<exists>k2. Socket_accept ops s a True k = ((sd, a\<lparr>na_addr := peer\<rparr>), k2) \<and>
    (if sd = - 1 then k2 = k1 else files k2 = (files k1)(sd := Some (fl OR O_NONBLOCK, True)))"
proof (cases "sd = - 1")
  case False
  with assms(3) SetNoBlockingOrExec_ok [OF assms(1)] obtain k2 where
    "SetNoBlockingOrExec ops sd k1 = (True, k2)" "files k2 = (files k1)(sd := Some (fl OR O_NONBLOCK, True))" by blast
  with False assms(2) show ?thesis by (simp add: Socket_accept_def)
qed (use assms(2) in \<open>simp add: Socket_accept_def\<close>)

text \<open>A kernel that is a table of open descriptors; a connection arrives as descriptor 8.\<close>

definition table_sockets :: "(int \<Rightarrow> (32 word \<times> bool) option) sock_ops" where
  "table_sockets = \<lparr>so_socket = (\<lambda>d t p k. (3, k(3 := Some (0, False)))),
     so_fcntl = (\<lambda>fd cmd x k. case k fd of None \<Rightarrow> (- 1, k)
       | Some (fl, ce) \<Rightarrow> if cmd = F_GETFL then (fl, k) else if cmd = F_GETFD then (if ce then FD_CLOEXEC else 0, k)
           else if cmd = F_SETFL then (0, k(fd := Some (x, ce))) else (0, k(fd := Some (fl, x AND FD_CLOEXEC \<noteq> 0)))),
     so_bind = (\<lambda>fd a n k. (0, k)), so_listen = (\<lambda>fd b k. (0, k)), so_connect = (\<lambda>fd a n k. ((0, 0), k)),
     so_accept = (\<lambda>fd a n k. ((8, Sockaddr_in AF_INET 0 (replicate 4 (CHR 0x00))), k(8 := Some (2, False)))),
     so_close = (\<lambda>fd k. k(fd := None))\<rparr>"

lemma table_documented: "fcntl_documented table_sockets (\<lambda>k. k)"
  by (simp add: fcntl_documented_def table_sockets_def fcntl_cmds)

theorem accept_sets_flags_witness:
  "\<exists>a' k2. Socket_accept table_sockets (Socket_of 3) (NetAddress_new LittleEndian (\<lambda>f s. None) AF_INET 8899 ''x'') True (\<lambda>fd. None) =
      ((8, a'), k2) \<and> k2 8 = Some (2 OR O_NONBLOCK, True)"
  using accept_sets_flags [OF table_documented, of "Socket_of 3" "NetAddress_new LittleEndian (\<lambda>f s. None) AF_INET 8899 ''x''"
    "\<lambda>fd. None" 8 _ _ 2 False] by (fastforce simp: table_sockets_def)


section \<open>Pipes\<close>

text \<open>\<open>PipeFd.h\<close>: the read end and the write end; the destructor closes both, whatever was closed before.\<close>

record pipe_fd =
  pf_read :: int
  pf_write :: int

definition PipeFd_getWriteEnd :: "pipe_fd \<Rightarrow> int" where
  "PipeFd_getWriteEnd p = pf_write p"

definition PipeFd_getReadEnd :: "pipe_fd \<Rightarrow> int" where
  "PipeFd_getReadEnd p = pf_read p"

definition PipeFd_closeWriteEnd :: "'k sock_ops \<Rightarrow> pipe_fd \<Rightarrow> 'k \<Rightarrow> 'k" where
  "PipeFd_closeWriteEnd ops p k = so_close ops (pf_write p) k"

definition PipeFd_closeReadEnd :: "'k sock_ops \<Rightarrow> pipe_fd \<Rightarrow> 'k \<Rightarrow> 'k" where
  "PipeFd_closeReadEnd ops p k = so_close ops (pf_read p) k"

definition PipeFd_destroy :: "'k sock_ops \<Rightarrow> pipe_fd \<Rightarrow> 'k \<Rightarrow> 'k" where
  "PipeFd_destroy ops p k = so_close ops (pf_read p) (so_close ops (pf_write p) k)"

text \<open>
  Once an end was closed its number may name another descriptor; the destructor closes that
  one, too. Here a socket opened in between gets the number.
\<close>

lemma pipe_closes_other:
  assumes "so_close ops = (\<lambda>fd k. k(fd := None))" and "pf_write p = fd" and "pf_read p \<noteq> fd"
    and "so_socket ops d ty pr (PipeFd_closeWriteEnd ops p k) = (fd, k')"
  shows "PipeFd_destroy ops p k' fd = None"
  using assms by (simp add: PipeFd_destroy_def)

end
