(* ===== verification/Tcp_Server.thy ===== *)
theory Tcp_Server
  imports Tcp_Connection Sockets "HOL-Library.Product_Lexorder"
begin

text \<open>
  \<open>src/base/TcpServer.h/.cpp\<close>, \<open>EventLoopBucket.h/.cpp\<close> and \<open>TcpConnBucket.h/.cpp\<close>: the
  acceptor hands each new connection to the next of the worker loops, and the bucket of
  connections owns it until it closes. Loops, connections and handles are shared by
  pointer, so the server's state holds a store of each. The constructor of a connection
  is that of \<open>Tcp_Connection\<close>, on the worker's loop. Parameters: the result of \<open>accept\<close>, the
  addresses of new objects, the user's callback. Lemmas: the loops take turns, and an accepted
  connection is owned, queued for registration and cannot be slept through.
\<close>

section \<open>The bucket of loops\<close>

record loop_bucket =
  eb_loops :: "(int, nat) smap"
  eb_nextLoops :: "nat list"
  eb_next :: nat

definition EventLoopBucket_new :: loop_bucket where
  "EventLoopBucket_new = \<lparr>eb_loops = [], eb_nextLoops = [], eb_next = 0\<rparr>"

definition EventLoopBucket_addEventLoop :: "loop_bucket \<Rightarrow> int \<Rightarrow> nat option \<Rightarrow> bool \<times> loop_bucket" where
  "EventLoopBucket_addEventLoop b tid loop =
     (case loop of
        None \<Rightarrow> (False, b)
      | Some l \<Rightarrow> if smap_find (eb_loops b) tid \<noteq> None then (False, b)
                 else (True, b\<lparr>eb_loops := smap_set (eb_loops b) tid l, eb_nextLoops := eb_nextLoops b @ [l]\<rparr>))"

definition EventLoopBucket_getNextLoop :: "loop_bucket \<Rightarrow> nat option \<times> loop_bucket" where
  "EventLoopBucket_getNextLoop b =
     (if length (eb_nextLoops b) = 0 then (None, b)
      else let n = (if length (eb_nextLoops b) \<le> eb_next b then 0 else eb_next b)
           in (Some (eb_nextLoops b ! n), b\<lparr>eb_next := sz_add n 1\<rparr>))"

section \<open>The server\<close>

text \<open>\<open>connkey_t\<close>: the descriptor and the address of the connection.\<close>

type_synonym connkey = "int \<times> nat"

record ('p, 'u, 'm) server =
  sv_fd :: int
  sv_loop :: "nat option"
  sv_threadNum :: int
  sv_events :: events
  sv_handle :: "hid option"
  sv_messageCb :: "'m option"
  sv_loops :: "nat \<Rightarrow> ('p, 'u) evloop"
  sv_tid :: "nat \<Rightarrow> int"
  sv_eb :: loop_bucket
  sv_bucket :: "(int, (connkey, nat) smap) smap"
  sv_conns :: "nat \<Rightarrow> tcp_conn option"
  sv_connLoop :: "nat \<Rightarrow> nat"
  sv_closeCb :: "nat \<Rightarrow> (int \<times> connkey) option"
  sv_onMessage :: "nat \<Rightarrow> 'm option"

text \<open>The constructor, on the sockets, loops and buckets that are there.\<close>

definition TcpServer_new :: "int \<Rightarrow> nat option \<Rightarrow> int \<Rightarrow> ('p, 'u, 'm) server \<Rightarrow> ('p, 'u, 'm) server" where
  "TcpServer_new fd loop threadNum s = s\<lparr>sv_fd := fd, sv_loop := loop,
     sv_threadNum := (if threadNum \<le> 0 then 1 else threadNum), sv_events := Events_new fd kReadEvent,
     sv_handle := None, sv_messageCb := None\<rparr>"

text \<open>
  The rest of the constructor makes the listening socket; none of the results is looked at.
  The domain is \<open>AF_INET\<close> and the type \<open>SOCK_STREAM\<close>.
\<close>

definition listenBacklog :: int where "listenBacklog = 50"

definition TcpServer_listen :: "'k sock_ops \<Rightarrow> net_address \<Rightarrow> 'k \<Rightarrow> socket \<times> 'k" where
  "TcpServer_listen ops addr k =
     (let (s, k1) = Socket_new ops 2 1 0 k; k2 = snd (Socket_setNoBlocking ops s k1); k3 = snd (Socket_setExecClose ops s k2);
          k4 = snd (Socket_bind ops s addr k3)
      in (s, snd (Socket_listen ops s listenBacklog k4)))"

definition TcpServer_setMessageCallback :: "'m option \<Rightarrow> ('p, 'u, 'm) server \<Rightarrow> ('p, 'u, 'm) server" where
  "TcpServer_setMessageCallback cb s = s\<lparr>sv_messageCb := cb\<rparr>"

text \<open>\<open>start\<close> registers the listening socket; \<open>pool\<close> is whether the thread pool started.\<close>

definition TcpServer_start :: "'p poller_ops \<Rightarrow> bool \<Rightarrow> hid \<Rightarrow> bool \<Rightarrow> ('p, 'u, 'm) server \<Rightarrow> (bool \<times> ('p, 'u, 'm) server) res" where
  "TcpServer_start ops own h pool s =
     (case sv_loop s of
        None \<Rightarrow> Inr (False, s)
      | Some i \<Rightarrow>
          let l = sv_loops s i; l1 = pin h (set_handle l h (Handle_new (Some (el_id l)) (sv_events s)))
          in bind_res (EventLoop_addHandle ops own h l1) (\<lambda>(ok, l2).
             Inr (pool, s\<lparr>sv_handle := Some h, sv_loops := (sv_loops s)(i := l2)\<rparr>)))"

text \<open>A worker thread \<open>tid\<close> with its new loop \<open>i\<close>; it runs the loop when this returns true.\<close>

definition TcpServer_LoopThreadFunc :: "int \<Rightarrow> nat option \<Rightarrow> ('p, 'u, 'm) server \<Rightarrow> bool \<times> ('p, 'u, 'm) server" where
  "TcpServer_LoopThreadFunc tid i s =
     (case i of
        None \<Rightarrow> (False, s)
      | Some l \<Rightarrow> let (ok, b) = EventLoopBucket_addEventLoop (sv_eb s) tid (Some l) in (ok, s\<lparr>sv_eb := b\<rparr>))"

definition TcpConnBucket_addTcpConnection :: "int \<Rightarrow> connkey \<Rightarrow> nat \<Rightarrow> ('p, 'u, 'm) server \<Rightarrow> bool \<times> ('p, 'u, 'm) server" where
  "TcpConnBucket_addTcpConnection tid key conn s =
     (let conns = (if smap_find (sv_bucket s) tid = None then smap_set (sv_bucket s) tid [] else sv_bucket s) in
      case smap_find conns tid of
        None \<Rightarrow> (False, s)
      | Some m \<Rightarrow> if smap_find m key \<noteq> None then (False, s\<lparr>sv_bucket := conns\<rparr>)
                 else (True, s\<lparr>sv_bucket := smap_set conns tid (smap_set m key conn)\<rparr>))"

text \<open>
  The close callback: \<open>clearInLoop\<close> of the connection, named by its address, is queued in
  its loop; the functor keeps the connection alive, the bucket no longer does.
\<close>

definition TcpConnBucket_removeTcpConnection :: "bool \<Rightarrow> int \<Rightarrow> connkey \<Rightarrow> ('p, 'u, 'm) server \<Rightarrow> ('p, 'u, 'm) server res" where
  "TcpConnBucket_removeTcpConnection own tid key s =
     (case smap_find (sv_bucket s) tid of
        None \<Rightarrow> Inl AssertFailed
      | Some m \<Rightarrow>
          case smap_find m key of
            None \<Rightarrow> Inl AssertFailed
          | Some conn \<Rightarrow>
              let i = sv_connLoop s conn
              in Inr (s\<lparr>sv_loops := (sv_loops s)(i := EventLoop_queueInLoop own conn (sv_loops s i)),
                        sv_bucket := smap_set (sv_bucket s) tid (smap_erase m key)\<rparr>))"

text \<open>
  The handler of the listening socket. \<open>accepted\<close> is the result of \<open>accept\<close>, \<open>p\<close> and \<open>h\<close> the
  addresses of the new connection and its handle, \<open>mine\<close> whether a loop runs in this
  thread, \<open>onConnection\<close> the user's callback. Without a loop the descriptor is leaked.
\<close>

definition TcpServer_defHandleAccept :: "'p poller_ops \<Rightarrow> (nat \<Rightarrow> bool) \<Rightarrow>
    (nat \<Rightarrow> ('p, 'u, 'm) server \<Rightarrow> ('p, 'u, 'm) server res) option \<Rightarrow> events \<Rightarrow> int \<Rightarrow> nat \<Rightarrow> hid \<Rightarrow> bool \<Rightarrow> timestamp \<Rightarrow>
    ('p, 'u, 'm) server \<Rightarrow> ('p, 'u, 'm) server res" where
  "TcpServer_defHandleAccept ops mine onConnection event accepted p h junk acceptTime s =
     (case sv_loop s of
        None \<Rightarrow> Inl NullDeref
      | Some i0 \<Rightarrow>
      if \<not> mine i0 then Inl AssertFailed
      else if Events_getFd event \<noteq> sv_fd s then Inr s
      else if accepted < 0 then Inr s
      else let (workloop, b) = EventLoopBucket_getNextLoop (sv_eb s); s1 = s\<lparr>sv_eb := b\<rparr> in
        case workloop of
          None \<Rightarrow> Inr s1
        | Some i \<Rightarrow>
            bind_res (TcpConnection_new ops (mine i) h junk (Events_new accepted kReadEvent) acceptTime (sv_loops s1 i)) (\<lambda>(c, l).
            let key = (accepted, p); looptid = sv_tid s1 i;
                s2 = s1\<lparr>sv_loops := (sv_loops s1)(i := l), sv_conns := (sv_conns s1)(p := Some c),
                       sv_connLoop := (sv_connLoop s1)(p := i), sv_onMessage := (sv_onMessage s1)(p := None)\<rparr>;
                (added, s3) = TcpConnBucket_addTcpConnection looptid key p s2;
                s4 = s3\<lparr>sv_closeCb := (sv_closeCb s3)(p := Some (looptid, key))\<rparr>
            in bind_res (case onConnection of None \<Rightarrow> Inr s4 | Some f \<Rightarrow> f p s4) (\<lambda>s5.
               let s6 = (if sv_onMessage s5 p = None then s5\<lparr>sv_onMessage := (sv_onMessage s5)(p := sv_messageCb s5)\<rparr> else s5)
               in Inr (s6\<lparr>sv_loops := (sv_loops s6)(i := EventLoop_wakeUp (sv_loops s6 i))\<rparr>))))"

section \<open>The loops take turns\<close>

fun next_loops :: "nat \<Rightarrow> loop_bucket \<Rightarrow> nat option list" where
  "next_loops 0 b = []"
| "next_loops (Suc k) b = (let (l, b') = EventLoopBucket_getNextLoop b in l # next_loops k b')"

lemma next_loops_turns:
  assumes "length (eb_nextLoops b) = n" and "0 < n" and "n < 2 ^ 63"
  shows "next_loops k b = map (\<lambda>i. Some (eb_nextLoops b ! (((if n \<le> eb_next b then 0 else eb_next b) + i) mod n))) [0..<k]"
  using assms(1)
proof (induction k arbitrary: b)
  case 0
  then show ?case by simp
next
  case (Suc k)
  define m where "m = (if n \<le> eb_next b then 0 else eb_next b)"
  have m: "m < n" using assms(2) by (simp add: m_def)
  have g: "EventLoopBucket_getNextLoop b = (Some (eb_nextLoops b ! m), b\<lparr>eb_next := Suc m\<rparr>)"
    using Suc.prems assms(2,3) m by (auto simp: EventLoopBucket_getNextLoop_def Let_def size_simps m_def)
  have turn: "((if n \<le> Suc m then 0 else Suc m) + i) mod n = (m + Suc i) mod n" for i
  proof (cases "n = Suc m")
    case True
    then have "m + Suc i = n + i" by linarith
    then have "(m + Suc i) mod n = i mod n" by (simp only: mod_add_self1)
    with True show ?thesis by auto
  qed (use m in auto)
  have ih: "next_loops k (b\<lparr>eb_next := Suc m\<rparr>) =
      map (\<lambda>i. Some (eb_nextLoops b ! (((if n \<le> Suc m then 0 else Suc m) + i) mod n))) [0..<k]"
    using Suc.IH [of "b\<lparr>eb_next := Suc m\<rparr>"] Suc.prems by simp
  have "next_loops (Suc k) b = Some (eb_nextLoops b ! m) # next_loops k (b\<lparr>eb_next := Suc m\<rparr>)"
    by (simp only: next_loops.simps g Let_def prod.case)
  also have "next_loops k (b\<lparr>eb_next := Suc m\<rparr>) = map (\<lambda>i. Some (eb_nextLoops b ! ((m + Suc i) mod n))) [0..<k]"
    by (simp only: ih turn)
  also have "Some (eb_nextLoops b ! m) # \<dots> = map (\<lambda>i. Some (eb_nextLoops b ! ((m + i) mod n))) [0..<Suc k]"
    using m by (simp add: upt_conv_Cons map_Suc_upt [symmetric] o_def del: upt_Suc map_Suc_upt)
  finally show ?case unfolding m_def .
qed

text \<open>
  The acceptor deals the connections out in turn: while no loop joins, the \<open>k\<close>-th next loop
  it is given is the one \<open>k\<close> places on, cyclically, so that in \<open>n\<close> consecutive accepts each
  of the \<open>n\<close> loops gets exactly one connection.
\<close>
theorem server_loops_take_turns:
  assumes "length (eb_nextLoops b) = n" and "0 < n" and "n < 2 ^ 63" and "distinct (eb_nextLoops b)"
  shows "next_loops k b = map (\<lambda>i. Some (eb_nextLoops b ! (((if n \<le> eb_next b then 0 else eb_next b) + i) mod n))) [0..<k] \<and>
    distinct (next_loops n b) \<and> set (next_loops n b) = Some ` set (eb_nextLoops b)"
proof -
  define m where "m = (if n \<le> eb_next b then 0 else eb_next b)"
  have t: "next_loops n b = map (\<lambda>i. Some (eb_nextLoops b ! ((m + i) mod n))) [0..<n]"
    unfolding m_def by (rule next_loops_turns [OF assms(1-3)])
  have inj: "inj_on (\<lambda>i. (m + i) mod n) {0..<n}"
  proof (rule inj_onI)
    fix i j assume ij: "i \<in> {0..<n}" "j \<in> {0..<n}" "(m + i) mod n = (m + j) mod n"
    have "m < n" using assms(2) by (simp add: m_def)
    then have "(m + k) mod n = (if m + k < n then m + k else m + k - n)" if "k < n" for k
      using that by (simp add: mod_if [of "m + k"])
    with ij show "i = j" by (auto split: if_splits)
  qed
  have img: "(\<lambda>i. (m + i) mod n) ` {0..<n} = {0..<n}"
    by (rule endo_inj_surj) (use inj assms(2) in auto)
  have "inj_on (\<lambda>j. Some (eb_nextLoops b ! j)) {0..<n}"
    using assms(1,4) by (auto simp: inj_on_def nth_eq_iff_index_eq)
  then have "distinct (next_loops n b)"
    unfolding t distinct_map using comp_inj_on [OF inj, of "\<lambda>j. Some (eb_nextLoops b ! j)"] img by (simp add: o_def)
  moreover have "set (next_loops n b) = (\<lambda>j. Some (eb_nextLoops b ! j)) ` (\<lambda>i. (m + i) mod n) ` {0..<n}"
    by (simp add: t image_image)
  then have "set (next_loops n b) = Some ` set (eb_nextLoops b)"
    unfolding img by (auto simp: set_conv_nth assms(1) image_iff)
  ultimately show ?thesis using next_loops_turns [OF assms(1-3)] by simp
qed

theorem server_loops_take_turns_witness:
  "next_loops 4 \<lparr>eb_loops = [(1, 10), (2, 11), (3, 12)], eb_nextLoops = [10, 11, 12], eb_next = 2\<rparr> =
    [Some 12, Some 10, Some 11, Some 12]"
  using server_loops_take_turns [of "\<lparr>eb_loops = [(1, 10), (2, 11), (3, 12)], eb_nextLoops = [10, 11, 12], eb_next = 2\<rparr>" 3 4]
  by (simp add: upt_rec)

section \<open>Life of an accepted connection\<close>

definition owned :: "('p, 'u, 'm) server \<Rightarrow> int \<Rightarrow> connkey \<Rightarrow> nat option" where
  "owned s tid key = (case smap_find (sv_bucket s) tid of None \<Rightarrow> None | Some m \<Rightarrow> smap_find m key)"

lemma addTcpConnection_owned:
  assumes "owned s tid key = None"
  shows "\<exists>b. TcpConnBucket_addTcpConnection tid key p s = (True, s\<lparr>sv_bucket := b\<rparr>) \<and>
    (\<forall>t k. owned (s\<lparr>sv_bucket := b\<rparr>) t k = (if t = tid \<and> k = key then Some p else owned s t k))"
proof (cases "smap_find (sv_bucket s) tid")
  case None
  then show ?thesis by (auto simp: TcpConnBucket_addTcpConnection_def owned_def)
next
  case (Some m)
  with assms have "smap_find m key = None" by (simp add: owned_def)
  with Some show ?thesis by (auto simp: TcpConnBucket_addTcpConnection_def owned_def Let_def)
qed

lemma removeTcpConnection_owned:
  assumes "owned s tid key = Some p" and "\<forall>m. smap_find (sv_bucket s) tid = Some m \<longrightarrow> smap_ok m"
  shows "\<exists>b. TcpConnBucket_removeTcpConnection own tid key s = Inr (s\<lparr>sv_loops := (sv_loops s)(sv_connLoop s p :=
      EventLoop_queueInLoop own p (sv_loops s (sv_connLoop s p))), sv_bucket := b\<rparr>) \<and>
    (\<forall>t k. owned (s\<lparr>sv_bucket := b\<rparr>) t k = (if t = tid \<and> k = key then None else owned s t k))"
proof -
  from assms(1) obtain m where m: "smap_find (sv_bucket s) tid = Some m" "smap_find m key = Some p"
    by (auto simp: owned_def split: option.splits)
  with assms(2) have "smap_ok m" by simp
  with m show ?thesis
    by (auto simp: TcpConnBucket_removeTcpConnection_def owned_def Let_def smap_find_erase)
qed

text \<open>A connection made for the loop of another thread: its handle waits to be added.\<close>

lemma TcpConnection_new_foreign:
  assumes "smap_ok (el_updates l)"
  shows "\<exists>c l'. TcpConnection_new ops False h junk event now l = Inr (c, l') \<and> tc_fd c = Events_getFd event \<and>
    tc_handle c = h \<and> \<not> tc_closeing c \<and> el_updates l' = smap_set (el_updates l) (Events_getFd event) h \<and>
    el_wakeups l' = el_wakeups l \<and> el_store l' h = Some (Handle_setState (Handle_new (Some (el_id l)) event) STATE_ADD)"
proof -
  have "1024 + kCheapPrepend \<le> vec_max" by (simp add: kCheapPrepend_def vec_max_def)
  from Buffer_new_ok [OF this] obtain b where b: "Buffer_new 1024 = Inr b" by blast
  let ?x = "Handle_new (Some (el_id l)) event"
  have x: "h_state ?x = STATE_NEW" "Handle_fd ?x = Events_getFd event" "h_loop ?x = Some (el_id l)"
    by (simp_all add: Handle_new_def Handle_fd_def Events_copy_def Events_getFd_def Events_new_def)
  have "(Events_getFd event, h) \<in> set (smap_set (el_updates l) (Events_getFd event) h)"
    by (rule smap_find_in) simp
  then have "h \<in> snd ` set (smap_set (el_updates l) (Events_getFd event) h)" by (force simp: image_iff)
  then show ?thesis using b x
    by (simp add: TcpConnection_new_def EventLoop_addHandle_def EventLoop_updateHandle_def pin_def Handle_getState_def
      Handle_getLoop_def live_handles_def set_handle_def drop_dead_def Let_def)
qed

text \<open>While the bucket owns a connection, its close callback gives up this entry and no other, and only once.\<close>

lemma removeTcpConnection_once:
  assumes "owned s tid key = Some p" and "\<forall>m. smap_find (sv_bucket s) tid = Some m \<longrightarrow> smap_ok m"
  shows "\<exists>s'. TcpConnBucket_removeTcpConnection own tid key s = Inr s' \<and>
    (\<forall>t k. owned s' t k = (if t = tid \<and> k = key then None else owned s t k)) \<and>
    sv_loops s' = (sv_loops s)(sv_connLoop s p := EventLoop_queueInLoop own p (sv_loops s (sv_connLoop s p))) \<and>
    TcpConnBucket_removeTcpConnection own tid key s' = Inl AssertFailed"
proof -
  let ?loops = "(sv_loops s)(sv_connLoop s p := EventLoop_queueInLoop own p (sv_loops s (sv_connLoop s p)))"
  from removeTcpConnection_owned [OF assms, of own] obtain bk where
    r: "TcpConnBucket_removeTcpConnection own tid key s = Inr (s\<lparr>sv_loops := ?loops, sv_bucket := bk\<rparr>)"
    "\<forall>t k. owned (s\<lparr>sv_bucket := bk\<rparr>) t k = (if t = tid \<and> k = key then None else owned s t k)" by blast
  have "owned (s\<lparr>sv_bucket := bk\<rparr>) tid key = None" using r(2) [rule_format, of tid key] by simp
  then show ?thesis using r
    by (intro exI [of _ "s\<lparr>sv_loops := ?loops, sv_bucket := bk\<rparr>"])
      (auto simp: owned_def TcpConnBucket_removeTcpConnection_def split: option.splits)
qed

text \<open>A connection callback that does what those of both servers do with the connection of the server: \<open>setOnMessageCallBack\<close>.\<close>

definition sets_message :: "(nat \<Rightarrow> ('p, 'u, 'm) server \<Rightarrow> ('p, 'u, 'm) server res) option \<Rightarrow> 'm option \<Rightarrow> bool" where
  "sets_message onConnection m \<longleftrightarrow>
     (case onConnection of
        None \<Rightarrow> m = None
      | Some f \<Rightarrow> \<forall>p s. f p s = Inr (s\<lparr>sv_onMessage := (sv_onMessage s)(p := m)\<rparr>))"

text \<open>What the accept handler leaves, when the connection goes to the loop \<open>i\<close> of another thread.\<close>

lemma defHandleAccept_result:
  assumes "sv_loop s = Some i0" "mine i0" "Events_getFd event = sv_fd s" "0 \<le> accepted"
    and "EventLoopBucket_getNextLoop (sv_eb s) = (Some i, b)" "\<not> mine i" "smap_ok (el_updates (sv_loops s i))"
    and "owned s (sv_tid s i) (accepted, p) = None" and "sets_message onConnection m"
  shows "\<exists>c l bk s'. TcpServer_defHandleAccept ops mine onConnection event accepted p h junk now s = Inr s' \<and>
    s' = s\<lparr>sv_eb := b, sv_loops := (sv_loops s)(i := EventLoop_wakeUp l), sv_conns := (sv_conns s)(p := Some c),
      sv_connLoop := (sv_connLoop s)(p := i), sv_onMessage := (sv_onMessage s)(p := if m = None then sv_messageCb s else m),
      sv_bucket := bk, sv_closeCb := (sv_closeCb s)(p := Some (sv_tid s i, (accepted, p)))\<rparr> \<and>
    tc_fd c = accepted \<and> tc_handle c = h \<and> \<not> tc_closeing c \<and> el_updates l = smap_set (el_updates (sv_loops s i)) accepted h \<and>
    (\<forall>t k. owned s' t k = (if t = sv_tid s i \<and> k = (accepted, p) then Some p else owned s t k))"
proof -
  let ?key = "(accepted, p)" and ?tid = "sv_tid s i"
  from TcpConnection_new_foreign [OF assms(7), of ops h junk "Events_new accepted kReadEvent" now] obtain c l where
    c: "TcpConnection_new ops False h junk (Events_new accepted kReadEvent) now (sv_loops s i) = Inr (c, l)"
      "tc_fd c = accepted" "tc_handle c = h" "\<not> tc_closeing c" "el_updates l = smap_set (el_updates (sv_loops s i)) accepted h"
    by (auto simp: Events_getFd_def Events_new_def)
  let ?s2 = "s\<lparr>sv_eb := b, sv_loops := (sv_loops s)(i := l), sv_conns := (sv_conns s)(p := Some c),
    sv_connLoop := (sv_connLoop s)(p := i), sv_onMessage := (sv_onMessage s)(p := None)\<rparr>"
  have "owned ?s2 ?tid ?key = None" using assms(8) by (simp add: owned_def)
  from addTcpConnection_owned [OF this, of p] obtain bk where
    bk: "TcpConnBucket_addTcpConnection ?tid ?key p ?s2 = (True, ?s2\<lparr>sv_bucket := bk\<rparr>)"
      "\<forall>t k. owned (?s2\<lparr>sv_bucket := bk\<rparr>) t k = (if t = ?tid \<and> k = ?key then Some p else owned ?s2 t k)" by blast
  let ?s4 = "s\<lparr>sv_eb := b, sv_loops := (sv_loops s)(i := EventLoop_wakeUp l), sv_conns := (sv_conns s)(p := Some c),
      sv_connLoop := (sv_connLoop s)(p := i), sv_onMessage := (sv_onMessage s)(p := if m = None then sv_messageCb s else m),
      sv_bucket := bk, sv_closeCb := (sv_closeCb s)(p := Some (?tid, ?key))\<rparr>"
  have "TcpServer_defHandleAccept ops mine onConnection event accepted p h junk now s = Inr ?s4"
  proof (cases onConnection)
    case None
    with assms(9) have "m = None" by (simp add: sets_message_def)
    with None show ?thesis using assms(1-6) c(1) bk(1) by (simp add: TcpServer_defHandleAccept_def Let_def)
  next
    case (Some f)
    with assms(9) have "f p s = Inr (s\<lparr>sv_onMessage := (sv_onMessage s)(p := m)\<rparr>)" for p s by (simp add: sets_message_def)
    with Some show ?thesis using assms(1-6) c(1) bk(1) by (simp add: TcpServer_defHandleAccept_def Let_def)
  qed
  moreover have "\<forall>t k. owned ?s4 t k = (if t = ?tid \<and> k = ?key then Some p else owned s t k)"
    using bk(2) unfolding owned_def by simp
  ultimately show ?thesis using c(2-5) by blast
qed


text \<open>A server with one worker loop of another thread, before its first connection.\<close>

definition demo_server :: "(epoll \<times> (int, 32 word) smap, unit, nat) server" where
  "demo_server = \<lparr>sv_fd = 4, sv_loop = Some 0, sv_threadNum = 1, sv_events = Events_new 4 kReadEvent, sv_handle = Some 7,
     sv_messageCb = Some 3, sv_loops = (\<lambda>i. demo_loop), sv_tid = (\<lambda>i. 100 + int i),
     sv_eb = \<lparr>eb_loops = [(101, 1)], eb_nextLoops = [1], eb_next = 0\<rparr>, sv_bucket = [], sv_conns = (\<lambda>p. None),
     sv_connLoop = (\<lambda>p. 0), sv_closeCb = (\<lambda>p. None), sv_onMessage = (\<lambda>p. None)\<rparr>"

definition demo_onConnection :: "nat \<Rightarrow> (epoll \<times> (int, 32 word) smap, unit, nat) server \<Rightarrow>
    (epoll \<times> (int, 32 word) smap, unit, nat) server res" where
  "demo_onConnection p s = Inr (s\<lparr>sv_onMessage := (sv_onMessage s)(p := Some 8)\<rparr>)"


end
