(* ===== verification/Server_Start.thy ===== *)
theory Server_Start
  imports Tcp_Server Loop_Timers Threads
begin

text \<open>
  How a server starts: the rest of the constructor and \<open>start\<close> of \<open>src/base/TcpServer.cpp\<close>
  with its thread pool, \<open>src/http/HttpServer.cpp\<close> and \<open>src/mdm/mcacheTaskServer.cpp\<close> around it,
  \<open>SigIgnore\<close>, and the poller factories that the constructor of the loop asks. Parameters: the
  system calls and the pthread calls. Lemmas: after the first three statements of a server's
  \<open>main\<close> the kernel watches what it must and nothing else and the workers exist; what
  the destructor of a server frees.
\<close>

section \<open>The pieces\<close>

text \<open>\<open>signal(SIGPIPE, SIG_IGN)\<close>; \<open>sig\<close> is the system call, its result is not looked at.\<close>

definition SIGPIPE :: int where "SIGPIPE = 13"
definition SIG_IGN :: nat where "SIG_IGN = 1"

definition SigIgnore_new :: "(int \<Rightarrow> nat \<Rightarrow> 'k \<Rightarrow> 'k) \<Rightarrow> 'k \<Rightarrow> 'k" where
  "SigIgnore_new sig k = sig SIGPIPE SIG_IGN k"

text \<open>The descriptor is the result of \<open>epoll_create\<close>.\<close>

definition EpollFactory_getPoller :: "int \<Rightarrow> epoll" where
  "EpollFactory_getPoller fd = Epoll_new fd"

definition PollFactory_getPoller :: poll where
  "PollFactory_getPoller = Poll_new"

text \<open>
  The constructor of a server: it ignores \<open>SIGPIPE\<close>, makes the listening socket and sets its
  fields.
\<close>

definition TcpServer_construct :: "(int \<Rightarrow> nat \<Rightarrow> 'k \<Rightarrow> 'k) \<Rightarrow> 'k sock_ops \<Rightarrow> nat option \<Rightarrow> net_address \<Rightarrow> int \<Rightarrow>
    ('p, 'u, 'm) server \<Rightarrow> 'k \<Rightarrow> ('p, 'u, 'm) server \<times> 'k" where
  "TcpServer_construct sig sops loop addr threadNum s k =
     (let (sock, k') = TcpServer_listen sops addr (SigIgnore_new sig k)
      in (TcpServer_new (Socket_getSocket sock) loop threadNum s, k'))"

text \<open>The thread of the loop \<open>i\<close>, which the calls of the loop compare with their own; \<open>gettid\<close> is the caller's.\<close>

definition EventLoop_getTid :: "nat \<Rightarrow> ('p, 'u, 'm) server \<Rightarrow> int" where
  "EventLoop_getTid i s = sv_tid s i"

definition EventLoop_isInLoopOwnerThread :: "int \<Rightarrow> nat \<Rightarrow> ('p, 'u, 'm) server \<Rightarrow> bool" where
  "EventLoop_isInLoopOwnerThread gettid i s \<longleftrightarrow> gettid = sv_tid s i"

definition EventLoop_assertInOwnerThread :: "int \<Rightarrow> nat \<Rightarrow> ('p, 'u, 'm) server \<Rightarrow> unit res" where
  "EventLoop_assertInOwnerThread gettid i s = (if EventLoop_isInLoopOwnerThread gettid i s then Inr () else Inl AssertFailed)"

definition EventLoop_resetOwnerTid :: "int \<Rightarrow> nat \<Rightarrow> ('p, 'u, 'm) server \<Rightarrow> ('p, 'u, 'm) server" where
  "EventLoop_resetOwnerTid gettid i s = s\<lparr>sv_tid := (sv_tid s)(i := gettid)\<rparr>"

definition TcpServer_getLoop :: "('p, 'u, 'm) server \<Rightarrow> nat option" where
  "TcpServer_getLoop s = sv_loop s"

definition TcpServer_setLoop :: "nat option \<Rightarrow> ('p, 'u, 'm) server \<Rightarrow> ('p, 'u, 'm) server" where
  "TcpServer_setLoop loop s = s\<lparr>sv_loop := loop\<rparr>"

text \<open>
  \<open>start\<close> with the pool whose threads run \<open>worker\<close>, from the thread \<open>tid\<close>. No pool is made
  without a loop.
\<close>

definition TcpServer_start_pool :: "'t thread_ops \<Rightarrow> 'p poller_ops \<Rightarrow> bool \<Rightarrow> int \<Rightarrow> hid \<Rightarrow> ('w \<Rightarrow> 'w res) \<Rightarrow> ('p, 'u, 'm) server \<Rightarrow> 't \<Rightarrow>
    (bool \<times> ('p, 'u, 'm) server \<times> 'w thread_pool option \<times> 't) res" where
  "TcpServer_start_pool pops ops own tid h worker s t =
     (if sv_loop s = None then Inr (False, s, None, t)
      else bind_res (TcpServer_start ops own h True s) (\<lambda>(ok, s1).
           bind_res (ThreadPool_new (sv_threadNum s1) (Some worker) ''ThreadPool'' tid) (\<lambda>pool.
           bind_res (ThreadPool_start pops tid pool t) (\<lambda>(started, pool', t').
           Inr (started, s1, Some pool', t')))))"

text \<open>
  The destructor deletes the handle that \<open>start\<close> made; the loop has it, too. Deleting a null
  pointer does nothing.
\<close>

definition TcpServer_destroy :: "('p, 'u, 'm) server \<Rightarrow> ('p, 'u, 'm) server res" where
  "TcpServer_destroy s =
     (case sv_handle s of
        None \<Rightarrow> Inr s
      | Some h \<Rightarrow>
          (case sv_loop s of
             None \<Rightarrow> Inl NullDeref
           | Some i \<Rightarrow>
               bind_res (handle_at (sv_loops s i) h) (\<lambda>x.
               Inr (s\<lparr>sv_loops := (sv_loops s)(i := (sv_loops s i)\<lparr>el_store := (el_store (sv_loops s i))(h := None)\<rparr>),
                     sv_handle := None\<rparr>))))"

section \<open>The two servers\<close>

text \<open>Both hold a TCP server whose connections they set up; \<open>onNew\<close> is their \<open>OnNewConnection\<close>.\<close>

record ('p, 'u, 'm) app_server =
  as_loop :: "nat option"
  as_tcpSer :: "('p, 'u, 'm) server"
  as_onConnectionCb :: "(nat \<Rightarrow> ('p, 'u, 'm) server \<Rightarrow> ('p, 'u, 'm) server res) option"

definition HttpServer_new where
  "HttpServer_new onNew sig sops loop addr s k =
     (let (ser, k') = TcpServer_construct sig sops loop addr 0 s k
      in (\<lparr>as_loop = loop, as_tcpSer = ser, as_onConnectionCb = Some onNew\<rparr>, k'))"

definition mcacheTaskServer_new where
  "mcacheTaskServer_new onNew sig sops loop addr threadNum s k =
     (let (ser, k') = TcpServer_construct sig sops loop addr threadNum s k
      in (\<lparr>as_loop = loop, as_tcpSer = ser, as_onConnectionCb = Some onNew\<rparr>, k'))"

definition HttpServer_start :: "'t thread_ops \<Rightarrow> 'p poller_ops \<Rightarrow> bool \<Rightarrow> int \<Rightarrow> hid \<Rightarrow> ('w \<Rightarrow> 'w res) \<Rightarrow> ('p, 'u, 'm) app_server \<Rightarrow> 't \<Rightarrow>
    (bool \<times> ('p, 'u, 'm) app_server \<times> 'w thread_pool option \<times> 't) res" where
  "HttpServer_start pops ops own tid h worker a t =
     bind_res (TcpServer_start_pool pops ops own tid h worker (as_tcpSer a) t)
       (\<lambda>(ok, s, pool, t'). Inr (ok, a\<lparr>as_tcpSer := s\<rparr>, pool, t'))"

definition mcacheTaskServer_start :: "'t thread_ops \<Rightarrow> 'p poller_ops \<Rightarrow> bool \<Rightarrow> int \<Rightarrow> hid \<Rightarrow> ('w \<Rightarrow> 'w res) \<Rightarrow> ('p, 'u, 'm) app_server \<Rightarrow> 't \<Rightarrow>
    (bool \<times> ('p, 'u, 'm) app_server \<times> 'w thread_pool option \<times> 't) res" where
  "mcacheTaskServer_start pops ops own tid h worker a t =
     bind_res (TcpServer_start_pool pops ops own tid h worker (as_tcpSer a) t)
       (\<lambda>(ok, s, pool, t'). Inr (ok, a\<lparr>as_tcpSer := s\<rparr>, pool, t'))"

section \<open>Watching the listening socket\<close>

context epoll_kernel begin

text \<open>A loop takes a new handle for a free descriptor.\<close>

lemma watch_read:
  fixes l :: "('k, 'u) epoll_loop"
  assumes inv: "epoll_loop_inv registered l" "el_updates l = []" and fresh: "el_store l h = None"
    and free: "smap_find (el_handles l) fd = None"
    and takes: "\<And>ev. \<exists>k'. ctl EPOLL_CTL_ADD fd ev (snd (el_poll l)) = (True, k')"
  shows "\<exists>l'. EventLoop_addHandle (epoll_ops ctl) True h
      (pin h (set_handle l h (Handle_new (Some (el_id l)) (Events_new fd kReadEvent)))) = Inr (True, l') \<and>
    epoll_loop_inv registered l' \<and> el_updates l' = [] \<and> el_id l' = el_id l \<and> el_functors l' = el_functors l \<and>
    el_quit l' = el_quit l \<and> el_app l' = el_app l \<and> smap_find (el_handles l') fd = Some h \<and>
    registered (snd (el_poll l')) = (registered (snd (el_poll l)))(fd := Some kReadEvent) \<and>
    (\<exists>x. el_store l' h = Some x \<and> h_state x = STATE_LOOP)"
proof -
  let ?x = "Handle_new (Some (el_id l)) (Events_new fd kReadEvent)"
  let ?l1 = "pin h (set_handle l h ?x)"
  obtain e k where p: "el_poll l = (e, k)" by (cases "el_poll l")
  have inv': "loop_inv (\<lambda>p. ep_fd (fst p) \<noteq> -1) (\<lambda>m. True) (\<lambda>p. registered (snd p)) (el_updates l) l"
    using inv by (simp add: epoll_loop_inv_def)
  then have e: "ep_fd e \<noteq> -1" using p by (simp add: loop_inv_def)
  have "\<exists>k'. ctl EPOLL_CTL_ADD (ev_fd (h_events ?x)) (Events_epollEvents (h_events ?x)) k = (True, k')"
    using takes p by (simp add: new_handle_facts)
  from epoll_takes [OF this e] obtain k' where
    k': "Epoll_EventsAdd ctl (e, k) (h_events ?x) = Inr (True, (e, k'))" "registered k' = (registered k)(fd := Some kReadEvent)"
    by (auto simp: new_handle_facts)
  let ?l' = "drop_dead (set_handle (?l1\<lparr>el_pins := remove1 h (el_pins ?l1), el_poll := (e, k'),
    el_handles := smap_set (el_handles ?l1) fd h\<rparr>) h (Handle_setState ?x STATE_LOOP))"
  have add: "EventLoop_addHandle (epoll_ops ctl) True h ?l1 = Inr (True, ?l')"
    by (rule add_owner(2) [where x = ?x]) (use k' p inv(2) free in \<open>simp_all add: pin_def new_handle_facts\<close>)
  have "loop_inv (\<lambda>p. ep_fd (fst p) \<noteq> -1) (\<lambda>m. True) (\<lambda>p. registered (snd p)) (el_updates ?l1) ?l1"
    using loop_inv_store [OF inv', of h ?x] fresh by (simp add: pin_def loop_inv_pins_cong)
  from poller.addHandle_ok(1) [OF epoll_poller this, of h True] add have "epoll_loop_inv registered ?l'"
    using free inv(2) by (auto simp: epoll_loop_inv_def addable_def pin_def new_handle_facts)
  have "smap_find (smap_set (el_handles l) fd h) fd = Some h" by simp
  from smap_find_in [OF this] have "h \<in> snd ` set (smap_set (el_handles l) fd h)" by force
  then have "el_store ?l' h = Some (Handle_setState ?x STATE_LOOP)" by (simp add: live_handles_def pin_def)
  then have "\<exists>x. el_store ?l' h = Some x \<and> h_state x = STATE_LOOP" by simp
  note live = this
  show ?thesis
  proof (intro exI [of _ ?l'] conjI)
    show "EventLoop_addHandle (epoll_ops ctl) True h ?l1 = Inr (True, ?l')" by (fact add)
    show "epoll_loop_inv registered ?l'" by fact
    show "\<exists>x. el_store ?l' h = Some x \<and> h_state x = STATE_LOOP" by (fact live)
    show "el_quit ?l' = el_quit l" "el_app ?l' = el_app l" by (simp_all add: pin_def drop_dead_def set_handle_def)
  qed (use k'(2) p inv(2) in \<open>simp_all add: pin_def\<close>)
qed

end

section \<open>Starting\<close>

text \<open>The threads of a new pool.\<close>

lemma new_pool_start:
  assumes doc: "threads_documented pops joinable" and n: "0 \<le> n" and pool: "ThreadPool_new n f name tid = Inr pool"
  shows "\<exists>ok pool' t'. ThreadPool_start pops tid pool t = Inr (ok, pool', t') \<and> length (tp_threads pool') = nat n \<and>
    (ok \<longrightarrow> distinct (map th_threadId (tp_threads pool')) \<and> (\<forall>th \<in> set (tp_threads pool'). th_threadFunc th = f) \<and>
       joinable t' = joinable t \<union> set (map th_threadId (tp_threads pool')) \<and>
       set (map th_threadId (tp_threads pool')) \<inter> joinable t = {})"
proof -
  have p: "pool = \<lparr>tp_curThreadNum = 0, tp_threadNum = n, tp_threads = [], tp_name = name,
      tp_threadFunc = f, tp_tid = tid, tp_started = False\<rparr>"
    using pool n by (simp add: ThreadPool_new_def)
  obtain count ts t' where s: "start_threads pops (replicate (nat n) (Thread_new f [])) t = ((count, ts), t')" by (metis surj_pair)
  have "ThreadPool_start pops tid pool t = Inr (int count = n, pool\<lparr>tp_threads := ts, tp_started := True\<rparr>, t')"
    using s by (simp add: ThreadPool_start_def p)
  with start_threads_ok [OF doc s] n show ?thesis
    by (intro exI [of _ "int count = n"] exI [of _ "pool\<lparr>tp_threads := ts, tp_started := True\<rparr>"] exI [of _ t'] conjI) (auto simp: disjoint_iff)
qed

context epoll_kernel begin

lemma start_pool:
  assumes doc: "threads_documented pops joinable" and loop: "sv_loop s = Some i" and n: "1 \<le> sv_threadNum s"
    and ev: "sv_events s = Events_new fd kReadEvent"
    and inv: "epoll_loop_inv registered (sv_loops s i)" "el_updates (sv_loops s i) = []" "el_store (sv_loops s i) h = None"
    and free: "smap_find (el_handles (sv_loops s i)) fd = None"
    and takes: "\<And>ev. \<exists>k'. ctl EPOLL_CTL_ADD fd ev (snd (el_poll (sv_loops s i))) = (True, k')"
  shows "\<exists>ok l' pool t'. TcpServer_start_pool pops (epoll_ops ctl) True tid h worker s t =
      Inr (ok, s\<lparr>sv_handle := Some h, sv_loops := (sv_loops s)(i := l')\<rparr>, Some pool, t') \<and>
    epoll_loop_inv registered l' \<and> el_updates l' = [] \<and> smap_find (el_handles l') fd = Some h \<and>
    registered (snd (el_poll l')) = (registered (snd (el_poll (sv_loops s i))))(fd := Some kReadEvent) \<and>
    (\<exists>x. el_store l' h = Some x \<and> h_state x = STATE_LOOP) \<and>
    length (tp_threads pool) = nat (sv_threadNum s) \<and>
    (ok \<longrightarrow> distinct (map th_threadId (tp_threads pool)) \<and> (\<forall>th \<in> set (tp_threads pool). th_threadFunc th = Some worker) \<and>
       joinable t' = joinable t \<union> set (map th_threadId (tp_threads pool)) \<and>
       set (map th_threadId (tp_threads pool)) \<inter> joinable t = {})"
proof -
  from watch_read [OF inv free takes] obtain l' where
    l': "EventLoop_addHandle (epoll_ops ctl) True h (pin h (set_handle (sv_loops s i) h
        (Handle_new (Some (el_id (sv_loops s i))) (Events_new fd kReadEvent)))) = Inr (True, l')"
      "epoll_loop_inv registered l'" "el_updates l' = []" "smap_find (el_handles l') fd = Some h"
      "registered (snd (el_poll l')) = (registered (snd (el_poll (sv_loops s i))))(fd := Some kReadEvent)"
      "\<exists>x. el_store l' h = Some x \<and> h_state x = STATE_LOOP" by blast
  let ?s = "s\<lparr>sv_handle := Some h, sv_loops := (sv_loops s)(i := l')\<rparr>"
  have st: "TcpServer_start (epoll_ops ctl) True h True s = Inr (True, ?s)"
    using loop ev l'(1) by (simp add: TcpServer_start_def Let_def)
  obtain pool where pool: "ThreadPool_new (sv_threadNum s) (Some worker) ''ThreadPool'' tid = Inr pool"
    using n by (simp add: ThreadPool_new_def)
  have n0: "0 \<le> sv_threadNum s" using n by simp
  from new_pool_start [OF doc n0 pool, of t] obtain ok pool' t' where
    r: "ThreadPool_start pops tid pool t = Inr (ok, pool', t')" "length (tp_threads pool') = nat (sv_threadNum s)"
      "ok \<longrightarrow> distinct (map th_threadId (tp_threads pool')) \<and> (\<forall>th \<in> set (tp_threads pool'). th_threadFunc th = Some worker) \<and>
       joinable t' = joinable t \<union> set (map th_threadId (tp_threads pool')) \<and>
       set (map th_threadId (tp_threads pool')) \<inter> joinable t = {}" by blast
  have "TcpServer_start_pool pops (epoll_ops ctl) True tid h worker s t = Inr (ok, ?s, Some pool', t')"
    using loop st pool r(1) by (simp add: TcpServer_start_pool_def)
  with l'(2-6) r(2,3) show ?thesis by blast
qed

end

section \<open>Properties\<close>



text \<open>A kernel with no descriptor open, a loop of which nothing is known, and a server before its constructor.\<close>

definition demo_fresh :: "(epoll \<times> (int, 32 word) smap, sched, nat) server" where
  "demo_fresh = \<lparr>sv_fd = 0, sv_loop = None, sv_threadNum = 0, sv_events = Events_new 0 0, sv_handle = None,
     sv_messageCb = None, sv_loops = (\<lambda>i. \<lparr>el_id = 0, el_poll = (Epoll_new 9, []), el_handles = [], el_updates = [],
       el_store = (\<lambda>h. None), el_pins = [], el_functors = [], el_runningFunctors = False, el_wakeups = 0, el_quit = False,
       el_app = TimersScheduler_new (\<lambda>a. None)\<rparr>), sv_tid = (\<lambda>i. 100 + int i), sv_eb = EventLoopBucket_new, sv_bucket = [],
     sv_conns = (\<lambda>p. None), sv_connLoop = (\<lambda>p. 0), sv_closeCb = (\<lambda>p. None), sv_onMessage = (\<lambda>p. None)\<rparr>"



text \<open>
  A server that is destroyed while its loop goes on leaves the loop with a freed handle: the next
  connection to the listening socket makes the loop use it.
\<close>

lemma server_destroy_dangling:
  assumes "sv_handle s = Some h" and "sv_loop s = Some i" and "el_updates (sv_loops s i) = []"
    and "smap_find (el_handles (sv_loops s i)) (Events_getFd ev) = Some h" and "el_store (sv_loops s i) h = Some x"
    and "lp (el_poll (sv_loops s i)) = Inr (ev # evs, time, p)"
  shows "\<exists>s'. TcpServer_destroy s = Inr s' \<and> EventLoop_turn hnd exec ops lp (sv_loops s' i) = Inl UseAfterFree"
  using assms by (simp add: TcpServer_destroy_def EventLoop_turn_def flush_updates_def)

end
