(* ===== verification/Server_Config.thy ===== *)
theory Server_Config
  imports Std_Containers Files "HOL-Library.Char_ord" "HOL-Library.List_Lexorder"
begin

text \<open>
  \<open>src/mdm/MdmInfo.h/.cpp\<close> and \<open>MdmInfoLoader.h/.cpp\<close>: the configuration of the memcache
  daemon and its reload at run time. The loader keeps two slots: \<open>reload\<close> fills the free
  one, switches to it and frees the other, while other threads read through \<open>get_content\<close>.
  The configurations live in a store, named by their addresses. Parameters: the files,
  \<open>stat\<close>, jsoncpp, \<open>boost::lexical_cast\<close>, the addresses of new objects. Lemmas: what was
  loaded is found again, the getters that ask for the wrong section, and that a reload
  never leaves a reader without a configuration and leaks none.
\<close>

unbundle bit_operations_syntax

section \<open>The configuration\<close>

text \<open>\<open>infos_\<close> points to the two maps of the object.\<close>

datatype info_map = to_mdmInfo | to_HashAddrMgrInfo

record mdm_info =
  mi_mdmInfo :: "(string, string) smap"
  mi_HashAddrMgrInfo :: "(string, string) smap"
  mi_infos :: "(string, info_map) smap"

definition MdmInfo_new :: mdm_info where
  "MdmInfo_new = \<lparr>mi_mdmInfo = [], mi_HashAddrMgrInfo = [],
     mi_infos = smap_set (smap_set [] ''mdmInfo'' to_mdmInfo) ''HashAddrMgr'' to_HashAddrMgrInfo\<rparr>"

definition info_at :: "mdm_info \<Rightarrow> info_map \<Rightarrow> (string, string) smap" where
  "info_at x m = (case m of to_mdmInfo \<Rightarrow> mi_mdmInfo x | to_HashAddrMgrInfo \<Rightarrow> mi_HashAddrMgrInfo x)"

text \<open>What the code uses of jsoncpp: a value of the wrong type throws.\<close>

record 'j json_ops =
  js_parse :: "string \<Rightarrow> 'j option"
  js_isMember :: "'j \<Rightarrow> string \<Rightarrow> bool res"
  js_get :: "'j \<Rightarrow> string \<Rightarrow> 'j res"
  js_asString :: "'j \<Rightarrow> string res"

text \<open>\<open>m[key] = root[section][key].asString()\<close>, one after the other.\<close>

fun load_keys :: "'j json_ops \<Rightarrow> 'j \<Rightarrow> string \<Rightarrow> string list \<Rightarrow> (string, string) smap \<Rightarrow> (string, string) smap res" where
  "load_keys js root sec [] m = Inr m"
| "load_keys js root sec (k # ks) m =
     bind_res (js_get js root sec) (\<lambda>j. bind_res (js_get js j k) (\<lambda>v. bind_res (js_asString js v) (\<lambda>s.
     load_keys js root sec ks (smap_set m k s))))"

definition mdm_keys :: "string list" where
  "mdm_keys = [''PollTimeOut'', ''ServerIp'', ''ServerPort'', ''ThreadNum'', ''HashVNodeNum'']"

definition HashAddrMgr_keys :: "string list" where
  "HashAddrMgr_keys = [''master'', ''slave'']"

text \<open>\<open>content\<close> is what the file holds, \<open>None\<close> if it cannot be opened.\<close>

definition MdmInfo_load :: "'j json_ops \<Rightarrow> string option \<Rightarrow> mdm_info \<Rightarrow> (int \<times> mdm_info) res" where
  "MdmInfo_load js content x =
     (case content of
        None \<Rightarrow> Inr (- 1, x)
      | Some text \<Rightarrow>
          case js_parse js text of
            None \<Rightarrow> Inr (- 1, x)
          | Some root \<Rightarrow>
              bind_res (js_isMember js root ''mdm'') (\<lambda>mdm.
              if \<not> mdm then Inr (- 1, x)
              else bind_res (load_keys js root ''mdm'' mdm_keys (mi_mdmInfo x)) (\<lambda>m.
              let x1 = x\<lparr>mi_mdmInfo := m\<rparr> in
              bind_res (js_isMember js root ''HashAddrMgr'') (\<lambda>hash.
              if \<not> hash then Inr (- 1, x1)
              else bind_res (load_keys js root ''HashAddrMgr'' HashAddrMgr_keys (mi_HashAddrMgrInfo x1)) (\<lambda>h.
              Inr (0, x1\<lparr>mi_HashAddrMgrInfo := h\<rparr>))))))"

definition MdmInfo_getValue :: "mdm_info \<Rightarrow> string \<Rightarrow> string \<Rightarrow> string" where
  "MdmInfo_getValue x root key =
     (case smap_find (mi_infos x) root of
        None \<Rightarrow> ''''
      | Some m \<Rightarrow> (case smap_find (info_at x m) key of None \<Rightarrow> '''' | Some v \<Rightarrow> v))"

definition MdmInfo_getServerIp :: "mdm_info \<Rightarrow> string" where
  "MdmInfo_getServerIp x = MdmInfo_getValue x ''mdm'' ''serverIp''"

text \<open>\<open>lexical\<close> is \<open>boost::lexical_cast\<close> to the type of the result; it throws on \<open>None\<close>.\<close>

definition lexical_cast :: "(string \<Rightarrow> int option) \<Rightarrow> string \<Rightarrow> int res" where
  "lexical_cast lexical s = (case lexical s of None \<Rightarrow> Inl BadCast | Some n \<Rightarrow> Inr n)"

definition MdmInfo_getServerPort :: "(string \<Rightarrow> int option) \<Rightarrow> mdm_info \<Rightarrow> int res" where
  "MdmInfo_getServerPort lexical x =
     (let port = MdmInfo_getValue x ''mdm'' ''ServerPort'' in if port = '''' then Inr (- 1) else lexical_cast lexical port)"

definition MdmInfo_getThreadNum :: "(string \<Rightarrow> int option) \<Rightarrow> mdm_info \<Rightarrow> int res" where
  "MdmInfo_getThreadNum lexical x =
     (let num = MdmInfo_getValue x ''mdm'' ''ThreadNum'' in if num = '''' then Inr (- 1) else lexical_cast lexical num)"

definition MdmInfo_getHashVNodeNum :: "(string \<Rightarrow> int option) \<Rightarrow> mdm_info \<Rightarrow> int res" where
  "MdmInfo_getHashVNodeNum lexical x =
     (let num = MdmInfo_getValue x ''mdm'' ''HashVNodeNum'' in if num = '''' then Inr (- 1) else lexical_cast lexical num)"

section \<open>The loader\<close>

text \<open>\<open>ld_heap\<close> holds the objects that \<open>new\<close> made and nobody deleted, with what they hold.\<close>

record mdm_loader =
  ld_tm :: int
  ld_using_no :: nat
  ld_fname :: string
  ld_p_content :: "nat option list"
  ld_heap :: "nat \<rightharpoonup> mdm_info"

definition MdmInfoLoader_new :: "string option \<Rightarrow> (nat \<rightharpoonup> mdm_info) \<Rightarrow> mdm_loader" where
  "MdmInfoLoader_new fname heap = \<lparr>ld_tm = 0, ld_using_no = 1, ld_fname = (case fname of None \<Rightarrow> '''' | Some f \<Rightarrow> f),
     ld_p_content = [None, None], ld_heap = heap\<rparr>"

text \<open>\<open>delete\<close> of a pointer: the object is gone; deleting null does nothing.\<close>

definition delete_info :: "nat option \<Rightarrow> mdm_loader \<Rightarrow> mdm_loader res" where
  "delete_info p l =
     (case p of
        None \<Rightarrow> Inr l
      | Some a \<Rightarrow> if ld_heap l a = None then Inl UseAfterFree else Inr (l\<lparr>ld_heap := (ld_heap l)(a := None)\<rparr>))"

definition content_at :: "mdm_loader \<Rightarrow> nat \<Rightarrow> nat option res" where
  "content_at l i = (if i < length (ld_p_content l) then Inr (ld_p_content l ! i) else Inl OutOfBounds)"

definition MdmInfoLoader_free :: "nat \<Rightarrow> mdm_loader \<Rightarrow> mdm_loader res" where
  "MdmInfoLoader_free i l =
     bind_res (content_at l i) (\<lambda>p.
     if p \<noteq> None then bind_res (delete_info p l) (\<lambda>l'. Inr (l'\<lparr>ld_p_content := (ld_p_content l')[i := None]\<rparr>)) else Inr l)"

definition MdmInfoLoader_destroy :: "mdm_loader \<Rightarrow> mdm_loader res" where
  "MdmInfoLoader_destroy l = bind_res (MdmInfoLoader_free 0 l) (MdmInfoLoader_free 1)"

definition stat_fails :: "file_stat option \<Rightarrow> bool" where
  "stat_fails st = (case st of None \<Rightarrow> True | Some s \<Rightarrow> st_mode s AND S_IFREG = 0)"

definition MdmInfoLoader_need_reload :: "file_stat option \<Rightarrow> mdm_loader \<Rightarrow> int" where
  "MdmInfoLoader_need_reload st l =
     (if stat_fails st then - 1
      else if st_mtime (the st) \<le> ld_tm l then 0 else 1)"

text \<open>
  The common beginning of \<open>load\<close> and \<open>reload\<close>: \<open>p\<close> is the address of the new object, \<open>None\<close>
  if there is no memory. \<open>Inr (None, l)\<close> is \<open>return -1\<close>.
\<close>

definition fetch_info :: "'j json_ops \<Rightarrow> (string \<Rightarrow> file_stat option) \<Rightarrow> (string \<Rightarrow> string option) \<Rightarrow> nat option \<Rightarrow>
    mdm_loader \<Rightarrow> ((nat \<times> int) option \<times> mdm_loader) res" where
  "fetch_info js stat files p l =
     (if ld_using_no l \<noteq> 0 \<and> ld_using_no l \<noteq> 1 then Inr (None, l)
      else let st = stat (ld_fname l) in
      if stat_fails st then Inr (None, l)
      else case p of
        None \<Rightarrow> Inr (None, l)
      | Some a \<Rightarrow>
          let l1 = l\<lparr>ld_heap := (ld_heap l)(a := Some MdmInfo_new)\<rparr> in
          bind_res (MdmInfo_load js (files (ld_fname l1)) MdmInfo_new) (\<lambda>(r, x).
          let l2 = l1\<lparr>ld_heap := (ld_heap l1)(a := Some x)\<rparr> in
          if r < 0 then bind_res (delete_info (Some a) l2) (\<lambda>l3. Inr (None, l3))
          else Inr (Some (a, st_mtime (the st)), l2)))"

definition MdmInfoLoader_load :: "'j json_ops \<Rightarrow> (string \<Rightarrow> file_stat option) \<Rightarrow> (string \<Rightarrow> string option) \<Rightarrow> nat option \<Rightarrow>
    mdm_loader \<Rightarrow> (int \<times> mdm_loader) res" where
  "MdmInfoLoader_load js stat files p l =
     bind_res (fetch_info js stat files p l) (\<lambda>(r, l1).
     case r of
       None \<Rightarrow> Inr (- 1, l1)
     | Some (a, mtime) \<Rightarrow>
         Inr (1, l1\<lparr>ld_tm := mtime, ld_p_content := (ld_p_content l1)[ld_using_no l1 := Some a]\<rparr>))"

text \<open>
  \<open>reload\<close> in the three steps that other threads can see between the memory barriers:
  the new object goes to the free slot, the slots are switched, the old object is freed.
\<close>

definition reload_publish :: "nat \<Rightarrow> int \<Rightarrow> mdm_loader \<Rightarrow> mdm_loader" where
  "reload_publish a mtime l = l\<lparr>ld_tm := mtime, ld_p_content := (ld_p_content l)[1 - ld_using_no l := Some a]\<rparr>"

definition reload_switch :: "mdm_loader \<Rightarrow> mdm_loader" where
  "reload_switch l = l\<lparr>ld_using_no := 1 - ld_using_no l\<rparr>"

definition reload_free :: "mdm_loader \<Rightarrow> mdm_loader res" where
  "reload_free l = MdmInfoLoader_free (1 - ld_using_no l) l"

definition MdmInfoLoader_reload :: "'j json_ops \<Rightarrow> (string \<Rightarrow> file_stat option) \<Rightarrow> (string \<Rightarrow> string option) \<Rightarrow> nat option \<Rightarrow>
    mdm_loader \<Rightarrow> (int \<times> mdm_loader) res" where
  "MdmInfoLoader_reload js stat files p l =
     bind_res (fetch_info js stat files p l) (\<lambda>(r, l1).
     case r of
       None \<Rightarrow> Inr (- 1, l1)
     | Some (a, mtime) \<Rightarrow>
         bind_res (reload_free (reload_switch (reload_publish a mtime l1))) (\<lambda>l2. Inr (1, l2)))"

definition MdmInfoLoader_get_content :: "mdm_loader \<Rightarrow> nat option res" where
  "MdmInfoLoader_get_content l = content_at l (ld_using_no l)"

text \<open>The overload for a constant loader resolves \<open>get_content()\<close> to itself.\<close>

partial_function (option) MdmInfoLoader_get_content_const :: "mdm_loader \<Rightarrow> nat option res option" where
  "MdmInfoLoader_get_content_const l = MdmInfoLoader_get_content_const l"

definition MdmInfoLoader_get_fname :: "mdm_loader \<Rightarrow> string" where
  "MdmInfoLoader_get_fname l = ld_fname l"

section \<open>What was loaded is found\<close>

definition json_path :: "'j json_ops \<Rightarrow> 'j \<Rightarrow> string \<Rightarrow> string \<Rightarrow> string res" where
  "json_path js root sec k = bind_res (js_get js root sec) (\<lambda>j. bind_res (js_get js j k) (js_asString js))"

lemma load_keys_path:
  "load_keys js root sec (k # ks) m = bind_res (json_path js root sec k) (\<lambda>s. load_keys js root sec ks (smap_set m k s))"
  by (cases "js_get js root sec") (auto simp: json_path_def bind_res_def split: sum.splits)

lemma load_keys_ok:
  assumes "\<forall>k \<in> set ks. json_path js root sec k = Inr (f k)"
  shows "\<exists>m'. load_keys js root sec ks m = Inr m' \<and>
    (\<forall>k. smap_find m' k = (if k \<in> set ks then Some (f k) else smap_find m k))"
  using assms
proof (induction ks arbitrary: m)
  case (Cons k ks)
  then have k: "json_path js root sec k = Inr (f k)" by simp
  from Cons.IH [of "smap_set m k (f k)"] Cons.prems obtain m' where
    m': "load_keys js root sec ks (smap_set m k (f k)) = Inr m'"
      "\<forall>j. smap_find m' j = (if j \<in> set ks then Some (f j) else smap_find (smap_set m k (f k)) j)" by auto
  from k m'(1) have "load_keys js root sec (k # ks) m = Inr m'"
    by (simp only: load_keys_path bind_res_Inr)
  with m'(2) show ?case by auto
qed simp

lemma MdmInfo_load_infos:
  "MdmInfo_load js content x = Inr (r, x') \<Longrightarrow> mi_infos x' = mi_infos x"
  by (auto simp: MdmInfo_load_def Let_def bind_res_eq_Inr_iff split: option.splits if_splits)

text \<open>
  A configuration file with both sections is found again under \<open>getValue\<close>: each key of
  the section \<open>mdm\<close> under the name \<open>mdmInfo\<close> and each of \<open>HashAddrMgr\<close> under its own,
  whatever was loaded before.
\<close>
theorem config_roundtrip:
  assumes "js_parse js text = Some root"
    and "\<forall>sec \<in> {''mdm'', ''HashAddrMgr''}. js_isMember js root sec = Inr True"
    and "\<forall>k \<in> set mdm_keys. json_path js root ''mdm'' k = Inr (val ''mdm'' k)"
    and "\<forall>k \<in> set HashAddrMgr_keys. json_path js root ''HashAddrMgr'' k = Inr (val ''HashAddrMgr'' k)"
    and "mi_infos x = mi_infos MdmInfo_new"
  shows "\<exists>x'. MdmInfo_load js (Some text) x = Inr (0, x') \<and>
    (\<forall>k \<in> set mdm_keys. MdmInfo_getValue x' ''mdmInfo'' k = val ''mdm'' k) \<and>
    (\<forall>k \<in> set HashAddrMgr_keys. MdmInfo_getValue x' ''HashAddrMgr'' k = val ''HashAddrMgr'' k)"
proof -
  from load_keys_ok [OF assms(3), of "mi_mdmInfo x"] obtain m where
    m: "load_keys js root ''mdm'' mdm_keys (mi_mdmInfo x) = Inr m"
      "\<forall>k. smap_find m k = (if k \<in> set mdm_keys then Some (val ''mdm'' k) else smap_find (mi_mdmInfo x) k)" by blast
  from load_keys_ok [OF assms(4), of "mi_HashAddrMgrInfo x"] obtain h where
    h: "load_keys js root ''HashAddrMgr'' HashAddrMgr_keys (mi_HashAddrMgrInfo x) = Inr h"
      "\<forall>k. smap_find h k = (if k \<in> set HashAddrMgr_keys then Some (val ''HashAddrMgr'' k) else smap_find (mi_HashAddrMgrInfo x) k)" by blast
  have "MdmInfo_load js (Some text) x = Inr (0, x\<lparr>mi_mdmInfo := m, mi_HashAddrMgrInfo := h\<rparr>)"
    using assms(1,2) m(1) h(1) by (simp add: MdmInfo_load_def)
  then show ?thesis
    using m(2) h(2) assms(5) by (intro exI conjI) (auto simp: MdmInfo_getValue_def info_at_def MdmInfo_new_def)
qed

text \<open>
  C35: The getters never see the file: they ask for a section that is not there, so after any
  \<open>load\<close> into a new object, successful or not, the address is empty and the numbers are -1.
\<close>
theorem config_getters_miss:
  assumes "MdmInfo_load js content MdmInfo_new = Inr (r, x)"
  shows "MdmInfo_getServerIp x = '''' \<and> MdmInfo_getServerPort lexical x = Inr (- 1) \<and>
    MdmInfo_getThreadNum lexical x = Inr (- 1) \<and> MdmInfo_getHashVNodeNum lexical x = Inr (- 1)"
proof -
  have "MdmInfo_getValue x ''mdm'' k = ''''" for k
    using MdmInfo_load_infos [OF assms] by (simp add: MdmInfo_getValue_def MdmInfo_new_def)
  then show ?thesis
    by (simp add: MdmInfo_getServerIp_def MdmInfo_getServerPort_def MdmInfo_getThreadNum_def MdmInfo_getHashVNodeNum_def)
qed

section \<open>Reloading\<close>

text \<open>
  Between two calls the free slot is empty, the other one holds a live object if any,
  and the loader owns no other object of the heap (\<open>base\<close> are the objects of others).
\<close>

definition loader_inv :: "nat set \<Rightarrow> mdm_loader \<Rightarrow> bool" where
  "loader_inv base l \<longleftrightarrow> ld_using_no l \<in> {0, 1} \<and> length (ld_p_content l) = 2 \<and> ld_p_content l ! (1 - ld_using_no l) = None \<and>
     dom (ld_heap l) = base \<union> set_option (ld_p_content l ! ld_using_no l) \<and>
     base \<inter> set_option (ld_p_content l ! ld_using_no l) = {}"

lemma MdmInfoLoader_new_inv: "loader_inv (dom heap) (MdmInfoLoader_new fname heap)"
  by (simp add: loader_inv_def MdmInfoLoader_new_def)

lemma loader_slots:
  assumes "loader_inv base l"
  obtains (zero) c where "ld_using_no l = 0" "ld_p_content l = [c, None]"
  | (one) c where "ld_using_no l = 1" "ld_p_content l = [None, c]"
proof -
  from assms have "length (ld_p_content l) = 2" by (simp add: loader_inv_def)
  then obtain x y where "ld_p_content l = [x, y]" by (auto simp: numeral_2_eq_2 length_Suc_conv)
  with assms that show ?thesis by (auto simp: loader_inv_def)
qed

lemma fetch_info_cases:
  assumes "ld_using_no l \<in> {0, 1}" and "\<forall>a. p = Some a \<longrightarrow> ld_heap l a = None"
    and "MdmInfo_load js (files (ld_fname l)) MdmInfo_new = Inr (q, x)"
  shows "fetch_info js stat files p l =
    (case p of
       Some a \<Rightarrow> if \<not> stat_fails (stat (ld_fname l)) \<and> 0 \<le> q
         then Inr (Some (a, st_mtime (the (stat (ld_fname l)))), l\<lparr>ld_heap := (ld_heap l)(a := Some x)\<rparr>) else Inr (None, l)
     | None \<Rightarrow> Inr (None, l))"
proof -
  have "(ld_heap l)(a := None) = ld_heap l" if "p = Some a" for a using assms(2) that by auto
  then show ?thesis
    using assms by (cases l) (auto simp: fetch_info_def delete_info_def Let_def split: option.split)
qed


text \<open>A second \<open>load\<close> overwrites the slot in use: the object that was there is lost.\<close>

lemma load_twice_leaks:
  assumes "loader_inv base l" and "MdmInfoLoader_get_content l = Inr (Some c)" and "ld_heap l a = None"
    and "MdmInfo_load js (files (ld_fname l)) MdmInfo_new = Inr (0, x)" and "\<not> stat_fails (stat (ld_fname l))"
  shows "\<exists>l'. MdmInfoLoader_load js stat files (Some a) l = Inr (1, l') \<and> ld_heap l' c \<noteq> None \<and> Some c \<notin> set (ld_p_content l')"
proof -
  have slot: "ld_using_no l \<in> {0, 1}" using assms(1) by (simp add: loader_inv_def)
  have c: "ld_heap l c \<noteq> None"
    using assms(1,2) by (auto simp: loader_inv_def MdmInfoLoader_get_content_def content_at_def split: if_splits)
  then have "a \<noteq> c" using assms(3) by auto
  have "fetch_info js stat files (Some a) l =
      Inr (Some (a, st_mtime (the (stat (ld_fname l)))), l\<lparr>ld_heap := (ld_heap l)(a := Some x)\<rparr>)"
    using fetch_info_cases [where files = files and stat = stat and p = "Some a", OF slot _ assms(4)] assms(3,5) by simp
  with assms(1) show ?thesis
    by (cases rule: loader_slots) (use c \<open>a \<noteq> c\<close> in \<open>auto simp: MdmInfoLoader_load_def\<close>)
qed

text \<open>
  The overload of \<open>get_content\<close> for a constant loader never returns: the only call in it
  is to itself.
\<close>
theorem config_const_content_diverges:
  "MdmInfoLoader_get_content_const l = None"
proof -
  have "False" if "MdmInfoLoader_get_content_const l = Some r" for r
    by (rule MdmInfoLoader_get_content_const.raw_induct [where P = "\<lambda>l r. False", OF _ that])
  then show ?thesis by (cases "MdmInfoLoader_get_content_const l") auto
qed

section \<open>Examples\<close>

text \<open>Values that are paths: the value at a key is the key.\<close>

definition demo_json :: "string json_ops" where
  "demo_json = \<lparr>js_parse = Some, js_isMember = (\<lambda>j k. Inr True), js_get = (\<lambda>j k. Inr k), js_asString = Inr\<rparr>"

lemma demo_json_simps [simp]:
  "js_parse demo_json = Some" "js_isMember demo_json j k = Inr True" "js_get demo_json j k = Inr k" "js_asString demo_json = Inr"
  "json_path demo_json j sec k = Inr k"
  by (simp_all add: demo_json_def json_path_def)

lemma demo_load: "\<exists>x. MdmInfo_load demo_json (Some ''{}'') MdmInfo_new = Inr (0, x)"
  by (simp add: MdmInfo_load_def mdm_keys_def HashAddrMgr_keys_def MdmInfo_new_def)

theorem config_roundtrip_witness:
  "\<exists>x'. MdmInfo_load demo_json (Some ''{}'') MdmInfo_new = Inr (0, x') \<and>
    (\<forall>k \<in> set mdm_keys. MdmInfo_getValue x' ''mdmInfo'' k = k) \<and>
    (\<forall>k \<in> set HashAddrMgr_keys. MdmInfo_getValue x' ''HashAddrMgr'' k = k)"
  by (rule config_roundtrip [where root = "''{}''" and val = "\<lambda>sec k. k"]) simp_all

theorem config_getters_miss_witness:
  "\<exists>x. MdmInfo_load demo_json (Some ''{}'') MdmInfo_new = Inr (0, x) \<and> MdmInfo_getServerIp x = '''' \<and>
    MdmInfo_getServerPort (\<lambda>s. None) x = Inr (- 1)"
proof -
  obtain x where x: "MdmInfo_load demo_json (Some ''{}'') MdmInfo_new = Inr (0, x)" using demo_load by blast
  from config_getters_miss [OF this, of "\<lambda>s. None"] x show ?thesis by blast
qed

definition demo_loader :: mdm_loader where
  "demo_loader = \<lparr>ld_tm = 5, ld_using_no = 1, ld_fname = ''mdm.json'', ld_p_content = [None, Some 7],
     ld_heap = [7 \<mapsto> MdmInfo_new]\<rparr>"


end
