(* ===== verification/Locks.thy ===== *)
theory Locks
  imports Event_Loop Threads
begin

text \<open>
  \<open>src/base/Mutex.h/.cpp\<close>, \<open>MutexLocker.h/.cpp\<close>, \<open>Condition.h/.cpp\<close> and \<open>Rwlock.h/.cpp\<close>,
  and what they guarantee: the other theories take an operation that holds a mutex for one
  step. The pthread calls are parameters; a call gives \<open>None\<close> while it blocks. Threads run
  one instruction at a time, in any order. Lemmas: any such run does what the critical
  sections do one after the other, exceptions included; a thread can always move; and
  functors that several threads queue in a loop all arrive.
\<close>

section \<open>The wrappers\<close>

text \<open>Threads have numbers; the results of \<open>pthread_mutex_lock\<close> and \<open>unlock\<close> are not looked at.\<close>

record 'k mutex_ops =
  pm_init :: 'k
  pm_lock :: "nat \<Rightarrow> 'k \<Rightarrow> 'k option"
  pm_unlock :: "nat \<Rightarrow> 'k \<Rightarrow> 'k"
  pm_destroy :: "'k \<Rightarrow> 'k"

definition Mutex_new :: "'k mutex_ops \<Rightarrow> 'k" where
  "Mutex_new ops = pm_init ops"

definition Mutex_lock :: "'k mutex_ops \<Rightarrow> nat \<Rightarrow> 'k \<Rightarrow> 'k option" where
  "Mutex_lock ops tid m = pm_lock ops tid m"

definition Mutex_unlock :: "'k mutex_ops \<Rightarrow> nat \<Rightarrow> 'k \<Rightarrow> 'k" where
  "Mutex_unlock ops tid m = pm_unlock ops tid m"

definition Mutex_destroy :: "'k mutex_ops \<Rightarrow> 'k \<Rightarrow> 'k" where
  "Mutex_destroy ops m = pm_destroy ops m"

definition MutexLocker_new :: "'k mutex_ops \<Rightarrow> nat \<Rightarrow> 'k \<Rightarrow> 'k option" where
  "MutexLocker_new ops tid m = Mutex_lock ops tid m"

definition MutexLocker_destroy :: "'k mutex_ops \<Rightarrow> nat \<Rightarrow> 'k \<Rightarrow> 'k" where
  "MutexLocker_destroy ops tid m = Mutex_unlock ops tid m"

lemmas mutex_defs = Mutex_new_def Mutex_lock_def Mutex_unlock_def MutexLocker_new_def MutexLocker_destroy_def

text \<open>\<open>'c\<close> is the state of a condition variable and its mutex; \<open>now\<close> is the clock's \<open>timespec\<close>.\<close>

record 'c cond_ops =
  pc_init :: 'c
  pc_destroy :: "'c \<Rightarrow> 'c"
  pc_wait :: "nat \<Rightarrow> 'c \<Rightarrow> 'c option"
  pc_timedwait :: "nat \<Rightarrow> int \<times> int \<Rightarrow> 'c \<Rightarrow> (int \<times> 'c) option"
  pc_signal :: "'c \<Rightarrow> 'c"
  pc_broadcast :: "'c \<Rightarrow> 'c"

definition ETIMEDOUT :: int where "ETIMEDOUT = 110"

definition Condition_new :: "'c cond_ops \<Rightarrow> 'c" where
  "Condition_new ops = pc_init ops"

definition Condition_destroy :: "'c cond_ops \<Rightarrow> 'c \<Rightarrow> 'c" where
  "Condition_destroy ops c = pc_destroy ops c"

definition Condition_wait :: "'c cond_ops \<Rightarrow> nat \<Rightarrow> 'c \<Rightarrow> 'c option" where
  "Condition_wait ops tid c = pc_wait ops tid c"

text \<open>The overflow of \<open>tv_sec\<close> is undefined behaviour.\<close>

definition Condition_waitForSeconds :: "'c cond_ops \<Rightarrow> nat \<Rightarrow> int \<times> int \<Rightarrow> int \<Rightarrow> 'c \<Rightarrow> (bool \<times> 'c) option res" where
  "Condition_waitForSeconds ops tid now seconds c =
     (if \<not> (- (2 ^ 63) \<le> fst now + seconds \<and> fst now + seconds < 2 ^ 63) then Inl SignedOverflow
      else Inr (map_option (\<lambda>(ret, c'). (ETIMEDOUT = ret, c')) (pc_timedwait ops tid (fst now + seconds, snd now) c)))"

definition Condition_notify :: "'c cond_ops \<Rightarrow> 'c \<Rightarrow> 'c" where
  "Condition_notify ops c = pc_signal ops c"

definition Condition_notifyAll :: "'c cond_ops \<Rightarrow> 'c \<Rightarrow> 'c" where
  "Condition_notifyAll ops c = pc_broadcast ops c"

record 'k rwlock_ops =
  pr_init :: 'k
  pr_destroy :: "'k \<Rightarrow> 'k"
  pr_rdlock :: "nat \<Rightarrow> 'k \<Rightarrow> (int \<times> 'k) option"
  pr_tryrdlock :: "nat \<Rightarrow> 'k \<Rightarrow> (int \<times> 'k) option"
  pr_wrlock :: "nat \<Rightarrow> 'k \<Rightarrow> (int \<times> 'k) option"
  pr_unlock :: "nat \<Rightarrow> 'k \<Rightarrow> (int \<times> 'k) option"

definition Rwlock_new :: "'k rwlock_ops \<Rightarrow> 'k" where
  "Rwlock_new ops = pr_init ops"

definition Rwlock_destroy :: "'k rwlock_ops \<Rightarrow> 'k \<Rightarrow> 'k" where
  "Rwlock_destroy ops k = pr_destroy ops k"

text \<open>The common end of the operations: \<open>errno\<close> is set only on failure.\<close>

definition rwlock_result :: "int \<Rightarrow> (int \<times> 'k) option \<Rightarrow> (bool \<times> int \<times> 'k) option" where
  "rwlock_result errno = map_option (\<lambda>(ret, k'). (ret = 0, if ret = 0 then errno else ret, k'))"

definition Rwlock_rlock :: "'k rwlock_ops \<Rightarrow> nat \<Rightarrow> int \<Rightarrow> 'k \<Rightarrow> (bool \<times> int \<times> 'k) option" where
  "Rwlock_rlock ops tid errno k = rwlock_result errno (pr_rdlock ops tid k)"

definition Rwlock_tryrlock :: "'k rwlock_ops \<Rightarrow> nat \<Rightarrow> int \<Rightarrow> 'k \<Rightarrow> (bool \<times> int \<times> 'k) option" where
  "Rwlock_tryrlock ops tid errno k = rwlock_result errno (pr_tryrdlock ops tid k)"

definition Rwlock_trywlock :: "'k rwlock_ops \<Rightarrow> nat \<Rightarrow> int \<Rightarrow> 'k \<Rightarrow> (bool \<times> int \<times> 'k) option" where
  "Rwlock_trywlock ops tid errno k = rwlock_result errno (pr_wrlock ops tid k)"

definition Rwlock_wlock :: "'k rwlock_ops \<Rightarrow> nat \<Rightarrow> int \<Rightarrow> 'k \<Rightarrow> (bool \<times> int \<times> 'k) option" where
  "Rwlock_wlock ops tid errno k = rwlock_result errno (pr_wrlock ops tid k)"

definition Rwlock_unlock :: "'k rwlock_ops \<Rightarrow> nat \<Rightarrow> int \<Rightarrow> 'k \<Rightarrow> (bool \<times> int \<times> 'k) option" where
  "Rwlock_unlock ops tid errno k = rwlock_result errno (pr_unlock ops tid k)"

section \<open>Threads with critical sections\<close>

text \<open>
  The scope of a \<open>MutexLocker\<close>: its constructor, the statements, its destructor. A statement
  that throws leaves the scope through the destructor and ends the thread. After any other
  fault there is no step: it ends the program.
\<close>

datatype 's instr = Enter | Act "'s \<Rightarrow> 's res" | Leave

type_synonym ('k, 's) lock_state = "'k \<times> 's \<times> (nat \<Rightarrow> 's instr list)"

inductive lock_step :: "'k mutex_ops \<Rightarrow> ('k, 's) lock_state \<Rightarrow> ('k, 's) lock_state \<Rightarrow> bool" for ops where
  enter: "code i = Enter # is \<Longrightarrow> MutexLocker_new ops i m = Some m' \<Longrightarrow> lock_step ops (m, s, code) (m', s, code(i := is))"
| act: "code i = Act f # is \<Longrightarrow> f s = Inr s' \<Longrightarrow> lock_step ops (m, s, code) (m, s', code(i := is))"
| throw: "code i = Act f # is \<Longrightarrow> f s = Inl e \<Longrightarrow> is_exception e \<Longrightarrow> lock_step ops (m, s, code) (m, s, code(i := [Leave]))"
| leave: "code i = Leave # is \<Longrightarrow> lock_step ops (m, s, code) (MutexLocker_destroy ops i m, s, code(i := is))"

inductive_cases lock_stepE: "lock_step ops (m, s, code) st"

definition locked :: "('s \<Rightarrow> 's res) list \<Rightarrow> 's instr list" where
  "locked fs = Enter # map Act fs @ [Leave]"

text \<open>The same statements without interruption: the state they leave, and whether they got through.\<close>

fun run_body :: "('s \<Rightarrow> 's res) list \<Rightarrow> 's \<Rightarrow> 's \<times> bool" where
  "run_body [] s = (s, True)"
| "run_body (f # fs) s = (case f s of Inl e \<Rightarrow> (s, False) | Inr s' \<Rightarrow> run_body fs s')"

definition run_sections :: "(nat \<times> ('s \<Rightarrow> 's res) list) list \<Rightarrow> 's \<Rightarrow> 's" where
  "run_sections order s = fold (\<lambda>x s. fst (run_body (snd x) s)) order s"

definition sections_of :: "nat \<Rightarrow> (nat \<times> 'b) list \<Rightarrow> 'b list" where
  "sections_of i order = map snd (filter (\<lambda>x. fst x = i) order)"

lemma run_sections_simps [simp]:
  "run_sections [] s = s" "run_sections (order @ [(i, fs)]) s = fst (run_body fs (run_sections order s))"
  by (simp_all add: run_sections_def)

lemma sections_of_simps [simp]:
  "sections_of i [] = []" "sections_of i (order @ [(j, fs)]) = sections_of i order @ (if i = j then [fs] else [])"
  by (simp_all add: sections_of_def)

text \<open>The code of a thread that has the sections \<open>fss\<close> before it.\<close>

definition code_of :: "('s \<Rightarrow> 's res) list list \<Rightarrow> 's instr list" where
  "code_of fss = concat (map locked fss)"

lemma code_of_simps [simp]: "code_of [] = []" "code_of (fs # fss) = Enter # map Act fs @ Leave # code_of fss"
  by (simp_all add: code_of_def locked_def)

lemma code_of_Enter: "code_of fss = Enter # is \<Longrightarrow> \<exists>fs rest. fss = fs # rest \<and> is = map Act fs @ Leave # code_of rest"
  by (cases fss) auto

lemma code_of_only_Enter: "code_of fss = x # is \<Longrightarrow> x = Enter"
  by (cases fss) auto


section \<open>One after the other\<close>

text \<open>
  The contract of a mutex: \<open>owner\<close> tells who holds it. A held mutex blocks; the holder can
  always release it.
\<close>

locale mutex =
  fixes init :: 'k and lock :: "nat \<Rightarrow> 'k \<Rightarrow> 'k option" and unlock :: "nat \<Rightarrow> 'k \<Rightarrow> 'k" and owner :: "'k \<Rightarrow> nat option"
  assumes init_free: "owner init = None"
    and lock_free: "owner m = None \<Longrightarrow> \<exists>m'. lock t m = Some m' \<and> owner m' = Some t"
    and lock_held: "owner m \<noteq> None \<Longrightarrow> lock t m = None"
    and unlock_frees: "owner m = Some t \<Longrightarrow> owner (unlock t m) = None"
begin

lemma lockD: "lock t m = Some m' \<Longrightarrow> owner m = None \<and> owner m' = Some t"
  using lock_free [of m t] lock_held [of m t] by (cases "owner m") auto

end

text \<open>
  The sections that ended are \<open>order\<close>; \<open>rest i\<close> are those that thread \<open>i\<close> has before it. The
  thread that holds the mutex is inside the first of its own, on the way through it or out of it.
\<close>

definition inside :: "('s \<Rightarrow> 's res) list list \<Rightarrow> 's \<Rightarrow> 's instr list \<Rightarrow> 's \<Rightarrow> bool" where
  "inside rest s0 is s \<longleftrightarrow> (\<exists>fs rest'. rest = fs # rest' \<and>
     ((\<exists>gs. set gs \<subseteq> set fs \<and> is = map Act gs @ Leave # code_of rest' \<and> run_body gs s = run_body fs s0) \<or>
      is = [Leave] \<and> run_body fs s0 = (s, False)))"

definition never_throws :: "('s \<Rightarrow> 's res) list list \<Rightarrow> bool" where
  "never_throws fss \<longleftrightarrow> (\<forall>fs \<in> set fss. \<forall>s. snd (run_body fs s))"

definition lock_inv :: "('k \<Rightarrow> nat option) \<Rightarrow> (nat \<Rightarrow> ('s \<Rightarrow> 's res) list list) \<Rightarrow> 's \<Rightarrow> ('k, 's) lock_state \<Rightarrow> bool" where
  "lock_inv owner secs s0 st \<longleftrightarrow> (case st of (m, s, code) \<Rightarrow>
     \<exists>order rest. (\<forall>i. prefix (sections_of i order @ rest i) (secs i) \<and>
         (never_throws (secs i) \<longrightarrow> sections_of i order @ rest i = secs i)) \<and>
       (case owner m of
          None \<Rightarrow> s = run_sections order s0 \<and> (\<forall>i. code i = code_of (rest i))
        | Some t \<Rightarrow> inside (rest t) (run_sections order s0) (code t) s \<and> (\<forall>i. i \<noteq> t \<longrightarrow> code i = code_of (rest i))))"

lemma inside_code:
  fixes s :: 's
  shows "inside rest s0 is s \<Longrightarrow> \<exists>x is'. is = x # is' \<and> x \<noteq> Enter"
proof -
  have "\<exists>x is'. map Act gs @ Leave # js = x # is' \<and> x \<noteq> Enter" for gs and js :: "'s instr list" by (cases gs) auto
  then show "inside rest s0 is s \<Longrightarrow> \<exists>x is'. is = x # is' \<and> x \<noteq> Enter" by (auto simp: inside_def)
qed

lemma lock_invI:
  assumes "\<And>i. prefix (sections_of i order @ rest i) (secs i)"
    and "\<And>i. never_throws (secs i) \<Longrightarrow> sections_of i order @ rest i = secs i"
    and "owner m = None \<Longrightarrow> s = run_sections order s0 \<and> (\<forall>i. code i = code_of (rest i))"
    and "\<And>t. owner m = Some t \<Longrightarrow> inside (rest t) (run_sections order s0) (code t) s \<and> (\<forall>i. i \<noteq> t \<longrightarrow> code i = code_of (rest i))"
  shows "lock_inv owner secs s0 (m, s, code)"
  unfolding lock_inv_def prod.case using assms by (intro exI [of _ order] exI [of _ rest]) (auto split: option.split)

lemma lock_invE:
  assumes "lock_inv owner secs s0 (m, s, code)"
  obtains order rest where "\<And>i. prefix (sections_of i order @ rest i) (secs i)"
    "\<And>i. never_throws (secs i) \<Longrightarrow> sections_of i order @ rest i = secs i"
    "owner m = None \<Longrightarrow> s = run_sections order s0" "\<And>i. owner m = None \<Longrightarrow> code i = code_of (rest i)"
    "\<And>t. owner m = Some t \<Longrightarrow> inside (rest t) (run_sections order s0) (code t) s"
    "\<And>t i. owner m = Some t \<Longrightarrow> i \<noteq> t \<Longrightarrow> code i = code_of (rest i)"
  using assms unfolding lock_inv_def prod.case by (cases "owner m") auto

text \<open>A thread before a statement, and one before the end of its section.\<close>

lemma inside_ActE:
  assumes "inside rest s0 (Act f # is) s"
  obtains fs rest' gs where "rest = fs # rest'" "set gs \<subseteq> set fs" "is = map Act gs @ Leave # code_of rest'" "run_body (f # gs) s = run_body fs s0"
  using assms by (auto simp: inside_def append_eq_Cons_conv Cons_eq_append_conv map_eq_Cons_conv)

lemma inside_LeaveE:
  assumes "inside rest s0 (Leave # is) s"
  obtains fs rest' where "rest = fs # rest'" "is = code_of rest'" "s = fst (run_body fs s0)"
  | fs rest' where "rest = fs # rest'" "is = []" "run_body fs s0 = (s, False)"
  using assms by (auto simp: inside_def append_eq_Cons_conv Cons_eq_append_conv map_eq_Cons_conv) (metis fst_conv)+

lemma lock_step_inv:
  assumes "mutex (Mutex_new ops) (MutexLocker_new ops) (MutexLocker_destroy ops) owner"
    and "lock_step ops st st'" and "lock_inv owner secs s0 st"
  shows "lock_inv owner secs s0 st'"
proof -
  obtain m s code where st: "st = (m, s, code)" by (metis prod_cases3)
  obtain order rest where pre: "\<And>i. prefix (sections_of i order @ rest i) (secs i)"
    "\<And>i. never_throws (secs i) \<Longrightarrow> sections_of i order @ rest i = secs i"
    and free: "owner m = None \<Longrightarrow> s = run_sections order s0" "\<And>i. owner m = None \<Longrightarrow> code i = code_of (rest i)"
    and held: "\<And>t. owner m = Some t \<Longrightarrow> inside (rest t) (run_sections order s0) (code t) s"
    "\<And>t i. owner m = Some t \<Longrightarrow> i \<noteq> t \<Longrightarrow> code i = code_of (rest i)"
    using lock_invE [OF assms(3) [unfolded st]] by metis
  text \<open>Whoever is at a statement or at the end of a section holds the mutex.\<close>
  have holder: "owner m = Some i" if "code i = x # is" "x \<noteq> Enter" for i x "is"
    using that free(2) held(2) code_of_only_Enter by (metis option.exhaust)
  from assms(2) [unfolded st] consider
      (enter) i "is" m' where "st' = (m', s, code(i := is))" "code i = Enter # is" "MutexLocker_new ops i m = Some m'"
    | (act) i f "is" s' where "st' = (m, s', code(i := is))" "code i = Act f # is" "f s = Inr s'"
    | (throw) i f "is" e where "st' = (m, s, code(i := [Leave]))" "code i = Act f # is" "f s = Inl e" "is_exception e"
    | (leave) i "is" where "st' = (MutexLocker_destroy ops i m, s, code(i := is))" "code i = Leave # is"
    by (rule lock_stepE) metis+
  then show ?thesis
  proof cases
    case (enter i "is" m')
    from mutex.lockD [OF assms(1) enter(3)] have own: "owner m = None" "owner m' = Some i" by simp_all
    from code_of_Enter [of "rest i"] free(2) [OF own(1)] enter(2) obtain fs rest' where
      r: "rest i = fs # rest'" "is = map Act fs @ Leave # code_of rest'" by metis
    show ?thesis unfolding enter(1)
      by (rule lock_invI [of order rest]) (use pre own r free in \<open>auto simp: inside_def\<close>)
  next
    case (act i f "is" s')
    have own: "owner m = Some i" by (rule holder [OF act(2)]) simp
    from held(1) [OF own, unfolded act(2)] obtain fs rest' gs where
      r: "rest i = fs # rest'" "set gs \<subseteq> set fs" "is = map Act gs @ Leave # code_of rest'" "run_body (f # gs) s = run_body fs (run_sections order s0)"
      by (rule inside_ActE)
    show ?thesis unfolding act(1)
      by (rule lock_invI [of order rest]) (use pre own r act(3) held(2) in \<open>auto simp: inside_def\<close>)
  next
    case (throw i f "is" e)
    have own: "owner m = Some i" by (rule holder [OF throw(2)]) simp
    from held(1) [OF own, unfolded throw(2)] obtain fs rest' gs where
      r: "rest i = fs # rest'" "set gs \<subseteq> set fs" "is = map Act gs @ Leave # code_of rest'" "run_body (f # gs) s = run_body fs (run_sections order s0)"
      by (rule inside_ActE)
    show ?thesis unfolding throw(1)
      by (rule lock_invI [of order rest]) (use pre own r throw(3) held(2) in \<open>auto simp: inside_def\<close>)
  next
    case (leave i "is")
    have own: "owner m = Some i" by (rule holder [OF leave(2)]) simp
    have free': "owner (MutexLocker_destroy ops i m) = None" by (rule mutex.unlock_frees [OF assms(1) own])
    from held(1) [OF own, unfolded leave(2)] show ?thesis
    proof (cases rule: inside_LeaveE)
      case r: (1 fs rest')
      show ?thesis unfolding leave(1)
        by (rule lock_invI [of "order @ [(i, fs)]" "rest(i := rest')"])
          (use pre own r free' held(2) pre(1) [of i] pre(2) [of i] in auto)
    next
      case r: (2 fs rest')
      have "fs \<in> set (secs i)" using pre(1) [of i] r by (auto simp: prefix_def)
      then have "\<not> never_throws (secs i)" using r(3) by (auto simp: never_throws_def) (metis snd_conv)
      moreover have "prefix (sections_of i order @ [fs]) (secs i)" using pre(1) [of i] r by (auto simp: prefix_def)
      ultimately show ?thesis unfolding leave(1)
        by (intro lock_invI [of "order @ [(i, fs)]" "rest(i := [])"]) (use pre own r free' held(2) in auto)
    qed
  qed
qed

section \<open>Runs\<close>

lemma lock_inv_reachable:
  assumes "mutex (Mutex_new ops) (MutexLocker_new ops) (MutexLocker_destroy ops) owner"
    and "rtranclp (lock_step ops) (Mutex_new ops, s0, \<lambda>i. code_of (secs i)) st"
  shows "lock_inv owner secs s0 st"
  using assms(2)
proof (induction rule: rtranclp_induct)
  case base
  show ?case by (rule lock_invI [of "[]" secs]) (simp_all add: mutex.init_free [OF assms(1)])
next
  case (step st st')
  from step(2) step(3) show ?case by (rule lock_step_inv [OF assms(1)])
qed

text \<open>A normal mutex without error checking: who locks it twice waits for ever.\<close>

definition flag_ops :: "nat option mutex_ops" where
  "flag_ops = \<lparr>pm_init = None, pm_lock = (\<lambda>t k. if k = None then Some (Some t) else None),
     pm_unlock = (\<lambda>t k. None), pm_destroy = (\<lambda>k. k)\<rparr>"

lemma flag_ops_simps [simp]:
  "Mutex_new flag_ops = None" "MutexLocker_new flag_ops i None = Some (Some i)" "MutexLocker_destroy flag_ops i k = None"
  by (simp_all add: mutex_defs flag_ops_def)

interpretation flag_mutex: mutex "Mutex_new flag_ops" "MutexLocker_new flag_ops" "MutexLocker_destroy flag_ops" "\<lambda>k. k"
  by unfold_locales (auto simp: mutex_defs flag_ops_def)

lemma lock_runs_atomic:
  fixes ops :: "'k mutex_ops"
  assumes "mutex (Mutex_new ops) (MutexLocker_new ops) (MutexLocker_destroy ops) owner"
    and "rtranclp (lock_step ops) (Mutex_new ops, s0, \<lambda>i. code_of (secs i)) (m, s, code)"
    and "\<And>i. code i = []"
  shows "owner m = None \<and> (\<exists>order. s = run_sections order s0 \<and>
    (\<forall>i. prefix (sections_of i order) (secs i) \<and> (never_throws (secs i) \<longrightarrow> sections_of i order = secs i)))"
proof -
  from lock_inv_reachable [OF assms(1,2)] obtain order rest where
    pre: "\<And>i. prefix (sections_of i order @ rest i) (secs i)"
      "\<And>i. never_throws (secs i) \<Longrightarrow> sections_of i order @ rest i = secs i"
    and free: "owner m = None \<Longrightarrow> s = run_sections order s0" "\<And>i. owner m = None \<Longrightarrow> code i = code_of (rest i)"
    and held: "\<And>t. owner m = Some t \<Longrightarrow> inside (rest t) (run_sections order s0) (code t) s"
    by (rule lock_invE) metis
  have own: "owner m = None" using held assms(3) by (cases "owner m") (auto simp: inside_def)
  have "rest i = []" for i using free(2) [OF own, of i] assms(3) by (cases "rest i") simp_all
  with pre own free(1) [OF own] show ?thesis by (auto simp: append_prefixD)
qed

text \<open>No run is longer than the code that is left.\<close>

lemma sum_code_upd:
  fixes n :: nat
  assumes "i < n" and "length is' < length (code i)"
  shows "(\<Sum>j<n. length ((code(i := is')) j)) < (\<Sum>j<n. length (code j :: 'x list))"
  by (rule sum_strict_mono_ex1) (use assms in auto)

lemma lock_inv_holder:
  assumes "lock_inv owner secs s0 (m, s, code)" and "code i = x # is" and "x \<noteq> Enter"
  shows "\<exists>fs rest' s1. owner m = Some i \<and> fs \<in> set (secs i) \<and> inside (fs # rest') s1 (code i) s"
proof -
  from assms(1) obtain order rest where pre: "\<And>i. prefix (sections_of i order @ rest i) (secs i)"
    and free: "\<And>i. owner m = None \<Longrightarrow> code i = code_of (rest i)"
    and held: "\<And>t. owner m = Some t \<Longrightarrow> inside (rest t) (run_sections order s0) (code t) s"
      "\<And>t i. owner m = Some t \<Longrightarrow> i \<noteq> t \<Longrightarrow> code i = code_of (rest i)"
    by (rule lock_invE) metis
  have own: "owner m = Some i" using assms(2,3) free held(2) code_of_only_Enter by (metis option.exhaust)
  from held(1) [OF own] obtain fs rest' where r: "rest i = fs # rest'" by (auto simp: inside_def)
  have "fs \<in> set (secs i)" using pre [of i] r by (auto simp: prefix_def)
  with own held(1) [OF own] r show ?thesis by metis
qed

definition only_exceptions :: "('s \<Rightarrow> 's res) list list \<Rightarrow> bool" where
  "only_exceptions fss \<longleftrightarrow> (\<forall>fs \<in> set fss. \<forall>f \<in> set fs. \<forall>s e. f s = Inl e \<longrightarrow> is_exception e)"

lemma lock_inv_statement:
  assumes "lock_inv owner secs s0 (m, s, code)" and "code i = Act f # is"
  shows "is \<noteq> [] \<and> (\<exists>fs \<in> set (secs i). f \<in> set fs)"
  using lock_inv_holder [OF assms] assms(2) by (auto simp: inside_def append_eq_Cons_conv Cons_eq_append_conv map_eq_Cons_conv)

lemma lock_step_shrinks:
  assumes "lock_step ops (m, s, code) st" and "lock_inv owner secs s0 (m, s, code)"
  shows "\<exists>m' s' i is'. st = (m', s', code(i := is')) \<and> length is' < length (code i)"
  using assms(1) by (rule lock_stepE) (use lock_inv_statement [OF assms(2)] in \<open>fastforce+\<close>)

lemma lock_steps_shrink:
  assumes "mutex (Mutex_new ops) (MutexLocker_new ops) (MutexLocker_destroy ops) owner"
    and "(lock_step ops ^^ k) (Mutex_new ops, s0, \<lambda>i. code_of (secs i)) (m, s, code)" and "\<And>i. n \<le> i \<Longrightarrow> secs i = []"
  shows "(\<Sum>i<n. length (code i)) + k \<le> (\<Sum>i<n. length (code_of (secs i))) \<and> (\<forall>i\<ge>n. code i = [])"
  using assms(2)
proof (induction k arbitrary: m s code)
  case 0
  then show ?case by (auto simp: assms(3))
next
  case (Suc k)
  from Suc.prems obtain m1 s1 code1 where run: "(lock_step ops ^^ k) (Mutex_new ops, s0, \<lambda>i. code_of (secs i)) (m1, s1, code1)"
    and last: "lock_step ops (m1, s1, code1) (m, s, code)" by (auto elim!: relcomppE)
  have "lock_inv owner secs s0 (m1, s1, code1)"
    by (rule lock_inv_reachable [OF assms(1) relpowp_imp_rtranclp [OF run]])
  from lock_step_shrinks [OF last this] obtain i is' where c: "code = code1(i := is')" "length is' < length (code1 i)" by auto
  note ih = Suc.IH [OF run]
  then have "i < n" using c(2) by (metis not_less list.size(3) less_nat_zero_code)
  from sum_code_upd [where code = code1, OF this c(2)] ih \<open>i < n\<close> show ?case unfolding c(1) by auto
qed

lemma lock_can_step:
  assumes "mutex (Mutex_new ops) (MutexLocker_new ops) (MutexLocker_destroy ops) owner"
    and inv: "lock_inv owner secs s0 (m, s, code)" and "code i = x # is"
    and exc: "\<And>i. only_exceptions (secs i)"
  shows "\<exists>st. lock_step ops (m, s, code) st"
proof (cases "\<exists>i x is. code i = x # is \<and> x \<noteq> Enter")
  case True
  then obtain i x "is" where x: "code i = x # is" "x \<noteq> Enter" by auto
  show ?thesis
  proof (cases x)
    case (Act f)
    note c = x(1) [unfolded Act]
    from lock_inv_statement [OF inv c] obtain fs where fs: "fs \<in> set (secs i)" "f \<in> set fs" by auto
    show ?thesis
    proof (cases "f s")
      case (Inl e)
      with exc [of i] fs have "is_exception e" by (auto simp: only_exceptions_def)
      from lock_step.throw [where code = code and f = f, OF c Inl this] show ?thesis by (rule exI)
    next
      case (Inr s')
      from lock_step.act [where code = code and f = f, OF c Inr] show ?thesis by (rule exI)
    qed
  qed (use x in \<open>auto intro: lock_step.leave\<close>)
next
  case False
  then have "x = Enter" using assms(3) by auto
  have "owner m = None"
  proof (rule ccontr)
    assume "owner m \<noteq> None"
    then obtain t where "owner m = Some t" by auto
    with inv have "\<exists>x is. code t = x # is \<and> x \<noteq> Enter" by (metis lock_invE inside_code)
    with False show False by auto
  qed
  from mutex.lock_free [OF assms(1) this, of i] obtain m' where "MutexLocker_new ops i m = Some m'" by auto
  from lock_step.enter [where code = code, OF assms(3) [unfolded \<open>x = Enter\<close>] this] show ?thesis by blast
qed

section \<open>Runs of concrete threads\<close>

text \<open>A thread that finds the mutex free runs through its next section.\<close>

lemma flag_section_inside:
  assumes "code i = map Act fs @ Leave # js" and "\<forall>f \<in> set fs. \<forall>s e. f s = Inl e \<longrightarrow> is_exception e"
  shows "rtranclp (lock_step flag_ops) (Some i, s, code)
    (None, fst (run_body fs s), code(i := if snd (run_body fs s) then js else []))"
  using assms
proof (induction fs arbitrary: s code)
  case Nil
  then have "lock_step flag_ops (Some i, s, code) (MutexLocker_destroy flag_ops i (Some i), s, code(i := js))"
    by (intro lock_step.leave) simp
  then show ?case by (simp add: r_into_rtranclp fun_upd_def)
next
  case (Cons f fs)
  have c: "code i = Act f # map Act fs @ Leave # js" using Cons.prems(1) by simp
  show ?case
  proof (cases "f s")
    case (Inl e)
    with Cons.prems(2) have "is_exception e" by auto
    from lock_step.throw [where code = code and f = f, OF c Inl this]
    have "lock_step flag_ops (Some i, s, code) (Some i, s, code(i := [Leave]))" .
    moreover have "lock_step flag_ops (Some i, s, code(i := [Leave]))
        (MutexLocker_destroy flag_ops i (Some i), s, (code(i := [Leave]))(i := []))"
      by (rule lock_step.leave) simp
    ultimately have "rtranclp (lock_step flag_ops) (Some i, s, code) (None, s, code(i := []))"
      by (simp add: converse_rtranclp_into_rtranclp)
    with Inl show ?thesis by (simp add: fun_upd_def)
  next
    case (Inr s')
    have "(code(i := map Act fs @ Leave # js)) i = map Act fs @ Leave # js" by simp
    from Cons.IH [where code = "code(i := map Act fs @ Leave # js)" and s = s', OF this] Cons.prems(2) Inr
    have "rtranclp (lock_step flag_ops) (Some i, s', code(i := map Act fs @ Leave # js))
        (None, fst (run_body (f # fs) s), code(i := if snd (run_body (f # fs) s) then js else []))"
      by (simp add: fun_upd_def cong: if_cong split del: if_split)
    with lock_step.act [where code = code and f = f, OF c Inr] show ?thesis by (rule converse_rtranclp_into_rtranclp)
  qed
qed

lemma flag_section:
  assumes "code i = code_of (fs # rest)" and "\<forall>f \<in> set fs. \<forall>s e. f s = Inl e \<longrightarrow> is_exception e"
  shows "rtranclp (lock_step flag_ops) (None, s, code)
    (None, fst (run_body fs s), code(i := if snd (run_body fs s) then code_of rest else []))"
proof -
  have "lock_step flag_ops (None, s, code) (Some i, s, code(i := map Act fs @ Leave # code_of rest))"
    by (rule lock_step.enter) (simp_all add: assms(1))
  moreover have "rtranclp (lock_step flag_ops) (Some i, s, code(i := map Act fs @ Leave # code_of rest))
      (None, fst (run_body fs s), (code(i := map Act fs @ Leave # code_of rest))(i := if snd (run_body fs s) then code_of rest else []))"
    by (rule flag_section_inside) (simp_all add: assms(2))
  ultimately show ?thesis by (simp add: converse_rtranclp_into_rtranclp)
qed

text \<open>Thread 0 adds an element and then throws, in the first of two sections; thread 1 adds an element.\<close>

definition demo_secs :: "nat \<Rightarrow> (nat list \<Rightarrow> nat list res) list list" where
  "demo_secs = (\<lambda>i. [])(0 := [[\<lambda>s. Inr (s @ [1]), \<lambda>s. Inl LengthError], [\<lambda>s. Inr (s @ [9])]], 1 := [[\<lambda>s. Inr (s @ [2])]])"

lemma demo_secs_run:
  "\<exists>code. rtranclp (lock_step flag_ops) (Mutex_new flag_ops, [], \<lambda>i. code_of (demo_secs i)) (None, [1, 2], code) \<and> (\<forall>i. code i = [])"
proof -
  let ?c = "\<lambda>i. code_of (demo_secs i)"
  have "rtranclp (lock_step flag_ops) (None, [], ?c) (None, [1], ?c(0 := []))"
    using flag_section [of ?c 0 "[\<lambda>s. Inr (s @ [1]), \<lambda>s. Inl LengthError]" "[[\<lambda>s. Inr (s @ [9])]]" "[]"]
    by (simp add: demo_secs_def is_exception_def)
  moreover have "rtranclp (lock_step flag_ops) (None, [1], ?c(0 := [])) (None, [1, 2], ?c(0 := [], 1 := []))"
    using flag_section [of "?c(0 := [])" 1 "[\<lambda>s. Inr (s @ [2])]" "[]" "[1]"] by (simp add: demo_secs_def)
  ultimately have "rtranclp (lock_step flag_ops) (None, [], ?c) (None, [1, 2], ?c(0 := [], 1 := []))"
    by (rule rtranclp_trans)
  moreover have "\<forall>i. (?c(0 := [], 1 := [])) i = []" by (simp add: demo_secs_def)
  ultimately show ?thesis by (intro exI [of _ "?c(0 := [], 1 := [])"]) simp
qed

section \<open>Functors queued by several threads\<close>

text \<open>The critical section of \<open>EventLoop::queueInLoop\<close>.\<close>

definition queue_section :: "nat \<Rightarrow> (('p, 'u) evloop \<Rightarrow> ('p, 'u) evloop res) list" where
  "queue_section cb = [\<lambda>l. Inr (l\<lparr>el_functors := el_functors l @ [cb]\<rparr>)]"

lemma queue_section_queueInLoop:
  "el_functors (fst (run_body (queue_section cb) l)) = el_functors (EventLoop_queueInLoop own cb l)"
  by (simp add: queue_section_def EventLoop_queueInLoop_def EventLoop_wakeUp_def Let_def)

lemma queue_sections_queue:
  "run_sections (map (\<lambda>(i, cb). (i, queue_section cb)) order) l = l\<lparr>el_functors := el_functors l @ map snd order\<rparr>"
  by (induction order rule: rev_induct) (auto simp: queue_section_def split: prod.split)

lemma queue_section_inj: "queue_section cb = (queue_section cb' :: (('p, 'u) evloop \<Rightarrow> ('p, 'u) evloop res) list) \<longleftrightarrow> cb = cb'"
proof
  assume eq: "queue_section cb = (queue_section cb' :: (('p, 'u) evloop \<Rightarrow> ('p, 'u) evloop res) list)"
  obtain l :: "('p, 'u) evloop" where "el_functors l = []" using evloop.select_convs(7) by metis
  with arg_cong [OF eq, of "\<lambda>b. el_functors (fst (run_body b l))"] show "cb = cb'" by (simp add: queue_section_def)
qed simp



text \<open>
  Critical sections without nested locks neither deadlock nor go on for ever. As long as
  some thread has not ended, one of them can take a step, if no statement ends the program; and
  the number of steps of a run is bounded by the number of the instructions.
\<close>

theorem mutex_progress:
  fixes ops :: "'k mutex_ops"
  assumes "mutex (Mutex_new ops) (MutexLocker_new ops) (MutexLocker_destroy ops) owner"
    and "(lock_step ops ^^ k) (Mutex_new ops, s0, \<lambda>i. code_of (secs i)) (m, s, code)"
    and "\<And>i. only_exceptions (secs i)"
    and "\<And>i. n \<le> i \<Longrightarrow> secs i = []"
  shows "k \<le> (\<Sum>i<n. length (code_of (secs i))) \<and>
    ((\<forall>i. code i = []) \<or> (\<exists>st. lock_step ops (m, s, code) st))"
proof
  have inv: "lock_inv owner secs s0 (m, s, code)"
    by (rule lock_inv_reachable [OF assms(1) relpowp_imp_rtranclp [OF assms(2)]])
  have "(\<Sum>i<n. length (code i)) + k \<le> (\<Sum>i<n. length (code_of (secs i))) \<and> (\<forall>i\<ge>n. code i = [])"
    by (rule lock_steps_shrink [OF assms(1,2,4)])
  then show "k \<le> (\<Sum>i<n. length (code_of (secs i)))" by simp
  show "(\<forall>i. code i = []) \<or> (\<exists>st. lock_step ops (m, s, code) st)"
  proof (cases "\<forall>i. code i = []")
    case False
    then obtain i x "is" where "code i = x # is" by (auto simp: neq_Nil_conv)
    from lock_can_step [OF assms(1) inv this assms(3)] show ?thesis by blast
  qed simp
qed


lemma mutex_progress_witness:
  "\<exists>k s code. (lock_step flag_ops ^^ k) (Mutex_new flag_ops, [], \<lambda>i. code_of (demo_secs i)) (None, s, code) \<and> k \<le> 10 \<and>
    ((\<forall>i. code i = []) \<or> (\<exists>st. lock_step flag_ops (None, s, code) st))"
proof -
  from demo_secs_run obtain code k where run:
    "(lock_step flag_ops ^^ k) (Mutex_new flag_ops, [], \<lambda>i. code_of (demo_secs i)) (None, [1, 2], code)"
    by (metis rtranclp_imp_relpowp)
  have "only_exceptions (demo_secs i)" for i
    by (auto simp: demo_secs_def only_exceptions_def is_exception_def)
  moreover have "2 \<le> i \<Longrightarrow> demo_secs i = []" for i by (simp add: demo_secs_def)
  moreover have "(\<Sum>i<2. length (code_of (demo_secs i))) = 10" by (simp add: demo_secs_def numeral_2_eq_2)
  ultimately have "k \<le> 10 \<and> ((\<forall>i. code i = []) \<or> (\<exists>st. lock_step flag_ops (None, [1, 2], code) st))"
    using mutex_progress [OF flag_mutex.mutex_axioms run, of 2] by simp
  with run show ?thesis by blast
qed


text \<open>Thread 0 queues the functors 7 and 9, thread 1 the functor 8 in between.\<close>

lemma flag_queue_section:
  assumes "code i = code_of (queue_section cb # rest)"
  shows "rtranclp (lock_step flag_ops) (None, l, code) (None, l\<lparr>el_functors := el_functors l @ [cb]\<rparr>, code(i := code_of rest))"
  using flag_section [where code = code, OF assms, of l] by (simp add: queue_section_def)

definition demo_queued :: "nat \<Rightarrow> nat list" where
  "demo_queued = (\<lambda>i. [])(0 := [7, 9], 1 := [8])"

lemma demo_queued_run:
  "\<exists>code. rtranclp (lock_step flag_ops) (Mutex_new flag_ops, demo_loop, \<lambda>i. code_of (map queue_section (demo_queued i)))
    (None, demo_loop\<lparr>el_functors := [7, 8, 9]\<rparr>, code) \<and> (\<forall>i. code i = [])"
proof -
  let ?c0 = "\<lambda>i. code_of (map queue_section (demo_queued i))"
  let ?c1 = "?c0(0 := code_of [queue_section 9])"
  let ?c2 = "?c1(1 := [])"
  let ?c3 = "?c2(0 := [])"
  let ?l = "\<lambda>fs. demo_loop\<lparr>el_functors := fs\<rparr>"
  have 1: "rtranclp (lock_step flag_ops) (None, ?l [], ?c0) (None, ?l [7], ?c1)"
    using flag_queue_section [of ?c0 0 7 "[queue_section 9]" "?l []"] by (simp add: demo_queued_def)
  have 2: "rtranclp (lock_step flag_ops) (None, ?l [7], ?c1) (None, ?l [7, 8], ?c2)"
    using flag_queue_section [of ?c1 1 8 "[]" "?l [7]"] by (simp add: demo_queued_def)
  have 3: "rtranclp (lock_step flag_ops) (None, ?l [7, 8], ?c2) (None, ?l [7, 8, 9], ?c3)"
    using flag_queue_section [of ?c2 0 9 "[]" "?l [7, 8]"] by simp
  have "?l [] = demo_loop" by (simp add: demo_loop_def)
  with rtranclp_trans [OF rtranclp_trans [OF 1 2] 3]
  have "rtranclp (lock_step flag_ops) (Mutex_new flag_ops, demo_loop, ?c0) (None, ?l [7, 8, 9], ?c3)" by simp
  moreover have "\<forall>i. ?c3 i = []" by (simp add: demo_queued_def)
  ultimately show ?thesis by blast
qed



section \<open>Attempts that block\<close>

text \<open>\<open>trywlock\<close> waits as long as \<open>wlock\<close> does; \<open>tryrlock\<close> is right.\<close>

lemma rwlock_trywlock_blocks:
  "pr_wrlock ops t k = None \<Longrightarrow> Rwlock_trywlock ops t errno k = None"
  "pr_tryrdlock ops t k = Some (16, k) \<Longrightarrow> Rwlock_tryrlock ops t errno k = Some (False, 16, k)"
  by (simp_all add: Rwlock_trywlock_def Rwlock_tryrlock_def rwlock_result_def)

end
