(* ===== verification/Timestamp_Text.thy ===== *)
theory Timestamp_Text
  imports Timestamp Number_Text
begin

text \<open>
  The texts of a time stamp: \<open>toString\<close> and \<open>toFormattedString\<close> of \<open>src/base/Timestamp.cpp\<close>.
  \<open>gmtime_r\<close> is a parameter. Lemmas: no text is cut off by its buffer, a stamp is read back
  from its text, the fields of the formatted text are those of the calendar, and what becomes
  of a stamp before 1970.
\<close>

definition Timestamp_toString :: "timestamp \<Rightarrow> string" where
  "Timestamp_toString t =
     (let seconds = c_div (usec t) kMicroSecondsPerSecond;
          microseconds = c_mod (usec t) kMicroSecondsPerSecond
      in snprintf (32 - 1) (int_to_string seconds @ ''.'' @ printf_0d 6 microseconds))"

record tm =
  tm_sec :: int
  tm_min :: int
  tm_hour :: int
  tm_mday :: int
  tm_mon :: int
  tm_year :: int

definition Timestamp_toFormattedString :: "(int \<Rightarrow> tm) \<Rightarrow> timestamp \<Rightarrow> string" where
  "Timestamp_toFormattedString gmtime t =
     (let seconds = c_div (usec t) kMicroSecondsPerSecond;
          microseconds = c_mod (usec t) kMicroSecondsPerSecond;
          tm_time = gmtime seconds
      in snprintf 32 (printf_d 4 (tm_year tm_time + 1900) @ printf_0d 2 (tm_mon tm_time + 1) @ printf_0d 2 (tm_mday tm_time) @
           '' '' @ printf_0d 2 (tm_hour tm_time) @ '':'' @ printf_0d 2 (tm_min tm_time) @ '':'' @ printf_0d 2 (tm_sec tm_time) @
           ''.'' @ printf_0d 6 microseconds))"

section \<open>No text is cut off\<close>

lemma length_int_to_string:
  assumes "\<bar>n\<bar> < 10 ^ k" and "0 < k"
  shows "length (int_to_string n) \<le> Suc k"
proof -
  have "nat \<bar>n\<bar> < 10 ^ k" using assms(1) by (simp add: nat_less_iff)
  from length_to_string [OF this assms(2)] show ?thesis by (auto simp: int_to_string_def)
qed

lemma length_printf_0d:
  assumes "\<bar>n\<bar> < 10 ^ w" and "0 < w"
  shows "length (printf_0d w n) \<le> Suc w"
proof -
  have "nat \<bar>n\<bar> < 10 ^ w" using assms(1) by (simp add: nat_less_iff)
  from length_to_string [OF this assms(2)] show ?thesis by (auto simp: printf_0d_def)
qed

lemma c_mod_less:
  assumes "0 < b"
  shows "\<bar>c_mod a b\<bar> < b"
proof (cases "0 \<le> a")
  case False
  have "- a - b * (- a div b) = - a mod b" by (rule minus_mult_div_eq_mod)
  with False assms have "c_mod a b = - (- a mod b)" by (simp add: c_mod_def c_div_def)
  with assms show ?thesis by simp
qed (simp add: c_mod_nonneg assms)

lemma c_div_bound:
  assumes "0 < b" and "\<bar>a\<bar> \<le> b * k"
  shows "\<bar>c_div a b\<bar> \<le> k"
proof -
  have "\<bar>a\<bar> div b \<le> b * k div b" using assms by (intro zdiv_mono1)
  moreover have "0 \<le> \<bar>a\<bar> div b" using assms(1) by (simp add: pos_imp_zdiv_nonneg_iff)
  ultimately show ?thesis using assms(1) by (auto simp: c_div_def sgn_if abs_if split: if_splits)
qed

lemma toString_not_cut:
  assumes "i64_range (usec t)"
  shows "Timestamp_toString t = int_to_string (c_div (usec t) 1000000) @ ''.'' @ printf_0d 6 (c_mod (usec t) 1000000)"
proof -
  have "\<bar>c_div (usec t) 1000000\<bar> \<le> 9223372036855"
    by (rule c_div_bound) (use assms in \<open>auto simp: i64_range_def\<close>)
  then have "length (int_to_string (c_div (usec t) 1000000)) \<le> Suc 13" by (intro length_int_to_string) simp_all
  moreover have "length (printf_0d 6 (c_mod (usec t) 1000000)) \<le> Suc 6"
    using c_mod_less [of 1000000 "usec t"] by (intro length_printf_0d) simp_all
  ultimately show ?thesis by (simp add: Timestamp_toString_def snprintf_def kMicroSecondsPerSecond_def Let_def)
qed

section \<open>The number is read back\<close>

lemma digits_then:
  assumes "\<forall>c \<in> set ds. is_digit c" and "\<not> is_digit c"
  shows "takeWhile is_digit (ds @ c # s) = ds" "digits_value (ds @ c # s) = digits_value ds"
proof -
  show *: "takeWhile is_digit (ds @ c # s) = ds" using assms by (simp add: takeWhile_tail)
  show "digits_value (ds @ c # s) = digits_value ds"
    by (simp add: digits_value_def * takeWhile_digits assms(1))
qed

text \<open>The two numbers of a text: the digits at its start, and those behind the character after them.\<close>

definition read_decimal :: "string \<Rightarrow> int \<times> int" where
  "read_decimal s = (digits_value s, digits_value (drop (Suc (length (takeWhile is_digit s))) s))"

text \<open>
  A time stamp that is not before 1970 is recovered from the text of \<open>toString\<close>: the digits
  before the point are its seconds, the six digits behind it the microseconds, and the buffer of
  32 bytes cuts nothing off.
\<close>

theorem timestamp_text_roundtrip:
  assumes "0 \<le> usec t" and "usec t < 2 ^ 63"
  shows "case read_decimal (Timestamp_toString t) of (s, u) \<Rightarrow> Timestamp (s * 1000000 + u) = t \<and>
      s = Timestamp_secondsSinceEpoch t \<and> length (Timestamp_toString t) = length (int_to_string s) + 7"
proof -
  have "i64_range (usec t)" using assms by (simp add: i64_range_def)
  then have shape: "Timestamp_toString t = to_string (nat (usec t div 1000000)) @ CHR ''.'' # printf_0d 6 (usec t mod 1000000)"
    using assms(1) by (simp add: toString_not_cut c_div_nonneg c_mod_nonneg int_to_string_def pos_imp_zdiv_neg_iff not_less)
  note field = printf_0d_field [of "usec t mod 1000000" 6]
  have point: "\<not> is_digit CHR ''.''" by (simp add: is_digit_def)
  have secs: "int (nat (usec t div 1000000)) = usec t div 1000000" using assms(1) by (simp add: pos_imp_zdiv_nonneg_iff)
  have "read_decimal (Timestamp_toString t) = (usec t div 1000000, usec t mod 1000000)"
    unfolding read_decimal_def shape digits_then [OF to_string_digits point] using field secs by simp
  moreover have "length (Timestamp_toString t) = length (int_to_string (usec t div 1000000)) + 7"
    unfolding shape using field secs by (simp add: int_to_string_def pos_imp_zdiv_neg_iff assms(1) not_less)
  ultimately show ?thesis using assms(1)
    by (simp add: Timestamp_secondsSinceEpoch_def kMicroSecondsPerSecond_def c_div_nonneg timestamp.expand)
qed

lemma timestamp_text_roundtrip_witness:
  "Timestamp_toString (Timestamp 1234000056) = ''1234.000056'' \<and>
    (case read_decimal (Timestamp_toString (Timestamp 1234000056)) of (s, u) \<Rightarrow> Timestamp (s * 1000000 + u) = Timestamp 1234000056)"
proof -
  have "Timestamp_toString (Timestamp 1234000056) = ''1234.000056''" by code_simp
  with timestamp_text_roundtrip [of "Timestamp 1234000056"] show ?thesis by (simp split: prod.splits)
qed

text \<open>Just before 1970 the sign is that of the microseconds, behind the point.\<close>

lemma timestamp_text_negative: "Timestamp_toString (Timestamp (-1)) = ''0.-00001''"
  by code_simp

section \<open>The formatted text\<close>

definition tm_ok :: "tm \<Rightarrow> bool" where
  "tm_ok x \<longleftrightarrow> -900 \<le> tm_year x \<and> tm_year x < 8100 \<and> 0 \<le> tm_mon x \<and> tm_mon x < 12 \<and> 1 \<le> tm_mday x \<and> tm_mday x \<le> 31 \<and>
     0 \<le> tm_hour x \<and> tm_hour x < 24 \<and> 0 \<le> tm_min x \<and> tm_min x < 60 \<and> 0 \<le> tm_sec x \<and> tm_sec x \<le> 60"

definition read_field :: "nat \<Rightarrow> nat \<Rightarrow> string \<Rightarrow> int" where
  "read_field i n s = digits_value (take n (drop i s))"

lemma printf_d_year:
  assumes "1000 \<le> n" "n < 10000"
  shows "length (printf_d 4 n) = 4" "digits_value (printf_d 4 n) = n"
proof -
  have "\<not> nat n < 1000" using assms(1) by simp
  then have "length (to_string (nat n)) \<ge> 4"
    by (subst to_string.simps, subst to_string.simps, subst to_string.simps, subst to_string.simps)
      (auto simp: Suc_le_eq div_less_iff_less_mult simp flip: div_mult2_eq)
  moreover have "length (to_string (nat n)) \<le> 4" by (rule length_to_string) (use assms in auto)
  ultimately have "length (to_string (nat n)) = 4" by simp
  then show "length (printf_d 4 n) = 4" "digits_value (printf_d 4 n) = n"
    using assms by (simp_all add: printf_d_def int_to_string_def pad_left_def)
qed

text \<open>Every field of the formatted text is at its place, for the years from 1000 to 9999.\<close>

lemma formatted_fields:
  assumes "0 \<le> usec t" and "tm_ok x" and "gmtime (Timestamp_secondsSinceEpoch t) = x"
    and "s = Timestamp_toFormattedString gmtime t"
  shows "length s = 24" "read_field 0 4 s = tm_year x + 1900" "read_field 4 2 s = tm_mon x + 1" "read_field 6 2 s = tm_mday x"
    "read_field 9 2 s = tm_hour x" "read_field 12 2 s = tm_min x" "read_field 15 2 s = tm_sec x"
    "read_field 18 6 s = usec t mod 1000000"
proof -
  let ?y = "printf_d 4 (tm_year x + 1900)" and ?mo = "printf_0d 2 (tm_mon x + 1)" and ?d = "printf_0d 2 (tm_mday x)"
  let ?h = "printf_0d 2 (tm_hour x)" and ?mi = "printf_0d 2 (tm_min x)" and ?s = "printf_0d 2 (tm_sec x)"
  let ?u = "printf_0d 6 (usec t mod 1000000)"
  have y: "length ?y = 4" "digits_value ?y = tm_year x + 1900"
    using printf_d_year [of "tm_year x + 1900"] assms(2) by (auto simp: tm_ok_def)
  have f: "length ?mo = 2" "digits_value ?mo = tm_mon x + 1" "length ?d = 2" "digits_value ?d = tm_mday x"
    "length ?h = 2" "digits_value ?h = tm_hour x" "length ?mi = 2" "digits_value ?mi = tm_min x"
    "length ?s = 2" "digits_value ?s = tm_sec x" "length ?u = 6" "digits_value ?u = usec t mod 1000000"
    using assms(2) printf_0d_field [of "tm_mon x + 1" 2] printf_0d_field [of "tm_mday x" 2] printf_0d_field [of "tm_hour x" 2]
      printf_0d_field [of "tm_min x" 2] printf_0d_field [of "tm_sec x" 2] printf_0d_field [of "usec t mod 1000000" 6]
    by (auto simp: tm_ok_def)
  have s: "s = ?y @ ?mo @ ?d @ '' '' @ ?h @ '':'' @ ?mi @ '':'' @ ?s @ ''.'' @ ?u"
    using assms(1,3,4) y(1) f
    by (simp add: Timestamp_toFormattedString_def Timestamp_secondsSinceEpoch_def kMicroSecondsPerSecond_def c_mod_nonneg snprintf_def)
  show "length s = 24" "read_field 0 4 s = tm_year x + 1900" "read_field 4 2 s = tm_mon x + 1" "read_field 6 2 s = tm_mday x"
    "read_field 9 2 s = tm_hour x" "read_field 12 2 s = tm_min x" "read_field 15 2 s = tm_sec x"
    "read_field 18 6 s = usec t mod 1000000"
    unfolding s read_field_def by (simp_all add: y f)
qed

end
