(* ===== verification/Spec2Isabelle.thy ===== *)
theory Spec2Isabelle
  imports Buffer Timer_Typing Loop_Timers Consistent_Hash Http_Edge Mcache_Loop Server_Start Server_Config Locks Timestamp_Text
begin

text \<open>
  \<^bold>\<open>FAS, a server framework on the reactor pattern: a model of its C++ code and its properties.\<close>

  \<^bold>\<open>The program.\<close> \<open>src/base\<close> is the framework. A thread runs an \<open>EventLoop\<close>. The loop keeps a \<open>Handle\<close> for
  every descriptor, registers it with a \<open>Poller\<close> (\<open>Poll\<close> or \<open>Epoll\<close>), and calls the callbacks of the
  handles whose descriptors are ready. Other threads reach a loop through its mutex: they queue
  functors and wake it up through an eventfd. A \<open>TimersScheduler\<close> with a \<open>TimerHeap\<close> runs timers over one
  timerfd, which is a handle of the loop as well. A \<open>TcpConnection\<close> moves bytes between a socket and two
  \<open>Buffer\<close>s. A \<open>TcpServer\<close> accepts in the main loop and gives each connection to one of the worker
  loops, which a \<open>ThreadPool\<close> runs. Two servers are built on it: \<open>src/http\<close> serves the files of a
  directory, and \<open>src/mdm\<close> is a memcache proxy that forwards each command to the server that a
  consistent hash of the key picks. \<open>src/utils\<close> has string and file functions.

  \<^bold>\<open>Conventions.\<close> A C++ operation is a function on a record with the fields of its class; it returns
  \<open>'a res\<close>, a sum of \<open>fault\<close> and the result (\<open>FAS_Prelude\<close>). A fault is a failed \<open>assert\<close>, an
  exception of a library, or undefined behaviour that the operation runs into: access to freed memory, a null
  pointer, signed overflow, an index out of bounds. Objects that are shared by pointer live in a store from
  addresses to values, so that \<open>delete\<close> and dangling pointers are visible: timers (\<open>Timer_Heap\<close>), handles
  (\<open>Event_Loop\<close>), loops and connections (\<open>Tcp_Server\<close>), the nodes of the ring (\<open>Consistent_Hash\<close>), the slots
  of the configuration (\<open>Server_Config\<close>). The address of a new object is an argument. A \<open>size_t\<close> is a
  number below \<open>2 ^ 64\<close>; masks and ports are words. What a system call or a library outside the
  repository returns is a parameter: a list of results in the order of the calls (\<open>read\<close>, \<open>write\<close>, \<open>poll\<close>,
  \<open>epoll_wait\<close>), or a record of functions on the state of the kernel (\<open>epoll_ctl\<close>, sockets, files, pthreads);
  what POSIX says of them is a predicate with \<open>documented\<close> in its name, or a locale, and is a hypothesis
  of the properties that need it. An operation under a mutex is one step; \<open>Locks\<close> shows why it may be.

  \<^bold>\<open>The theories\<close>, from the bottom up, with the code they model and what their lemmas show:

  \<^item> \<open>FAS_Prelude\<close>, \<open>Std_Containers\<close>, \<open>Number_Text\<close>: faults, sizes, \<open>std::search\<close>; \<open>std::map\<close> and \<open>std::set\<close> as
    ordered lists (locale \<open>ordered_dict\<close>); printing and reading of numbers.
  \<^item> \<open>Byte_Order\<close> (\<open>base/Endian.h\<close>) and \<open>Buffer\<close> (\<open>base/Buffer.h/.cpp\<close>): the class invariant, every operation,
    network integers, and that a buffer is a queue of bytes (locale \<open>byte_queue\<close>).
  \<^item> \<open>Timestamp\<close>, \<open>Timestamp_Text\<close> (\<open>base/Timestamp.h/.cpp\<close>): order, arithmetic with overflow, both texts.
  \<^item> \<open>Timer_Heap\<close>, \<open>Timers_Scheduler\<close>, \<open>Timer_Typing\<close> (\<open>base/Timer\<close>, \<open>TimerHeap\<close>, \<open>TimersScheduler\<close>): the
    invariant, one expiry, wake-ups that are not lost, the discipline under which clients make no fault, and
    the use after free outside it.
  \<^item> \<open>Events\<close>, \<open>Handle\<close>, \<open>Pollers\<close> (\<open>base/Events\<close>, \<open>Handle\<close>, \<open>Poller\<close>, \<open>Poll\<close>, \<open>Epoll\<close>): which callbacks an event
    triggers; the interface \<open>poller\<close> of the loop, met by \<open>Poll\<close> and, for every kernel with the contract
    \<open>epoll_kernel\<close>, by \<open>Epoll\<close>.
  \<^item> \<open>Event_Loop\<close>, \<open>Loop_Timers\<close> (\<open>base/EventLoop\<close>): consistency of handles, pending updates and kernel under any
    sequence of calls of any threads; turns of the loop; functors; construction; a turn that runs timers.
  \<^item> \<open>Tcp_Connection\<close>, \<open>Tcp_Loop\<close> (\<open>base/TcpConnection\<close>): no byte is lost or reordered, pending bytes are
    watched for; the connection as the callbacks of its handle in the turns of its loop.
  \<^item> \<open>Sockets\<close>, \<open>Tcp_Server\<close>, \<open>Server_Start\<close> (\<open>base/NetAddress\<close>, \<open>Socket\<close>, \<open>PipeFd\<close>, \<open>SigIgnore\<close>, \<open>TcpServer\<close>, \<open>EventLoopBucket\<close>,
    \<open>TcpConnBucket\<close>, the factories of pollers, \<open>http/HttpServer\<close>, \<open>mdm/mcacheTaskServer\<close>): accepting, handing over and
    releasing connections; what has happened when a server has started.
  \<^item> \<open>Threads\<close>, \<open>Locks\<close> (\<open>base/Thread\<close>, \<open>ThreadPool\<close>, \<open>PthreadSem\<close>, \<open>Mutex\<close>, \<open>MutexLocker\<close>, \<open>Condition\<close>, \<open>Rwlock\<close>): the life of a
    pool, exceptions in threads; a step relation for threads with critical sections, and that
    every run of it does the sections one after the other (locale \<open>mutex\<close>).
  \<^item> \<open>Util_String\<close>, \<open>Files\<close> (\<open>utils\<close>), \<open>Http_Request\<close>, \<open>Http_Handler\<close>, \<open>Http_Paths\<close>, \<open>Http_Loop\<close>, \<open>Http_Edge\<close> (\<open>http\<close>): parsing
    inverts printing and ends on every input; no file outside the directory is opened; a GET from the bytes
    that arrive to the closed connection and descriptor; a GET of an empty file, and one that comes while a
    file is being sent; the header line that ends a worker.
  \<^item> \<open>Md5\<close>, \<open>Consistent_Hash\<close> (\<open>mdm/Md5\<close>, \<open>HashNode\<close>, \<open>ConsistencyHash\<close>): RFC 1321; the ring and its consistency.
  \<^item> \<open>Mem_Protocol\<close>, \<open>Server_Socket\<close>, \<open>Mcache_Task\<close>, \<open>Mcache_Behaviour\<close>, \<open>Mcache_Server\<close>, \<open>Mcache_Loop\<close> (\<open>mdm/memProtocol\<close>,
    \<open>mcacheTask\<close>, \<open>mcacheTaskHandle\<close>): the state machine of a command on every branch, relaying, errors, the inputs
    on which it fails, and a command from the bytes that arrive to the reply on the socket.
  \<^item> \<open>Server_Config\<close> (\<open>mdm/MdmInfo\<close>, \<open>MdmInfoLoader\<close>): loading, the getters, and reloading under readers.

  \<^bold>\<open>How the parts are put together.\<close> \<open>Loop_Timers\<close> runs the scheduler as the application of a loop,
  \<open>Tcp_Loop\<close> a connection, \<open>Http_Loop\<close> the HTTP handler on that connection, down to the function of the worker
  thread; \<open>Mcache_Server\<close> runs the memcache task on a connection and \<open>Mcache_Loop\<close> that connection
  in the turns of its loop; \<open>Server_Start\<close> starts from the constructor of
  the loop and ends with a server that listens. \<open>Tcp_Server\<close> holds several loops at once.

  \<^bold>\<open>Bounds and fuel.\<close> The loop over the lines of an HTTP header has the number of readable bytes and one
  more as its fuel; \<open>http_header_terminates\<close> shows that it does not run out. The loops that retry a system call
  (\<open>poll\<close>, \<open>epoll_wait\<close>, \<open>write\<close> after \<open>EINTR\<close>) go through the list of its results, and \<open>None\<close> is a call that has not
  returned. The two socket loops of the memcache task may go on for ever, as the code does when a
  server accepts nothing; they have the fuel \<open>me_fuel\<close>, and \<open>socket_write_delivers\<close> gives an amount that is enough for
  every server that takes the bytes in the end. Lengths are below \<open>2 ^ 63\<close> where a vector needs it, and
  a property says so. \<open>MdmInfoLoader_get_content_const\<close> never returns, as in the code.

  \<^bold>\<open>Not modelled.\<close> Logging (\<open>base/Log\<close>, and the printing of the ring), which only writes; the programs under \<open>src/test\<close>;
  an allocation that fails; data races on fields that the code reads without its mutex (they are
  listed as findings); the memory of the C++ objects beyond the stores named above. \<open>now()\<close>, thread identifiers and
  addresses are arguments; the calendar of \<open>gmtime_r\<close>, jsoncpp, \<open>boost::split\<close>, \<open>boost::lexical_cast\<close>, the digits of
  \<open>random()\<close> and \<open>boost::regex_replace\<close> are parameters. \<open>double\<close> is a rational number with the
  rounding as a parameter.
\<close>

end
